(* ===== verification/Prelude.thy ===== *)
theory Prelude
  imports Main "HOL-Library.Word" "HOL-Library.Char_ord" "HOL-Library.List_Lexorder"
begin

text \<open>
  What every component of the driver shares: Go errors as values, results of calls that may
  fail or panic, the sequencing of calls on an outside world, accumulated errors, and the
  string operations of Go's standard library that the driver uses. Strings are byte strings
  (\<open>string\<close> is \<open>char list\<close>, a \<open>char\<close> is a byte).
\<close>

named_theorems io_simps "unfolding of sequenced calls"
named_theorems str_simps "string operations"
named_theorems err_simps "errors and accumulated errors"

section \<open>Errors\<close>

text \<open>
  An error made by \<open>errors.New\<close> is \<open>ErrNew text\<close>; one made by \<open>fmt.Errorf\<close> is its text with the
  errors it wraps (the operands of \<open>%w\<close>); \<open>MultiErr\<close> is a \<open>*multierror.Error\<close> holding a
  list of errors. \<open>is_err\<close> is \<open>errors.Is(e, target)\<close>. A sentinel of the code is compared by
  identity there and by structure here; no two sentinels of the code have the same text.
\<close>

datatype goerr =
    ErrNew string
  | Errorf string "goerr list"
  | MultiErr "goerr list"

text \<open>The text of a multierror is laid out by its package; nothing in the driver inspects it.\<close>

fun err_text :: "goerr \<Rightarrow> string" where
  "err_text (ErrNew s) = s"
| "err_text (Errorf s ws) = s"
| "err_text (MultiErr es) = concat (map err_text es)"

fun is_err :: "goerr \<Rightarrow> goerr \<Rightarrow> bool" where
  "is_err t (ErrNew s) = (ErrNew s = t)"
| "is_err t (Errorf s ws) = (Errorf s ws = t \<or> list_ex (is_err t) ws)"
| "is_err t (MultiErr es) = (MultiErr es = t \<or> list_ex (is_err t) es)"

text \<open>\<open>fmt.Errorf(pre + "%w" + post, e)\<close>\<close>

definition wrapf :: "string \<Rightarrow> goerr \<Rightarrow> string \<Rightarrow> goerr" where
  "wrapf pre e post = Errorf (pre @ err_text e @ post) [e]"

lemma is_err_refl [simp]: "is_err e e"
  by (cases e) auto

lemma is_err_wrapf [simp]:
  "is_err t (wrapf pre e post) = (wrapf pre e post = t \<or> is_err t e)"
  by (simp add: wrapf_def)

lemma is_err_wrapfI [intro]: "is_err t e \<Longrightarrow> is_err t (wrapf pre e post)"
  by simp

section \<open>Accumulated errors\<close>

text \<open>
  A \<open>*multierror.Error\<close> under construction is the list of its errors. \<open>mappend es r\<close> is
  \<open>multierror.Append(mErr, r)\<close>: a nil error adds nothing, a multierror is flattened.
  \<open>err_or_nil\<close> is \<open>ErrorOrNil\<close>.
\<close>

fun mappend :: "goerr list \<Rightarrow> goerr option \<Rightarrow> goerr list" where
  "mappend es None = es"
| "mappend es (Some (MultiErr xs)) = es @ xs"
| "mappend es (Some e) = es @ [e]"

definition mappends :: "goerr list \<Rightarrow> goerr option list \<Rightarrow> goerr list" where
  "mappends es rs = foldl mappend es rs"

definition err_or_nil :: "goerr list \<Rightarrow> goerr option" where
  "err_or_nil es = (if es = [] then None else Some (MultiErr es))"

lemma err_or_nil_empty [simp]: "err_or_nil [] = None"
  by (simp add: err_or_nil_def)

lemma err_or_nil_None [simp]: "err_or_nil es = None \<longleftrightarrow> es = []"
  by (simp add: err_or_nil_def)

lemma err_or_nil_Some [simp]: "err_or_nil es = Some e \<longleftrightarrow> es \<noteq> [] \<and> e = MultiErr es"
  by (auto simp: err_or_nil_def)

lemma mappend_Nil [simp]: "mappend es r = [] \<longleftrightarrow> es = [] \<and> (r = None \<or> r = Some (MultiErr []))"
  by (induction es r rule: mappend.induct) auto

lemma mappend_Nil' [simp]: "[] = mappend es r \<longleftrightarrow> es = [] \<and> (r = None \<or> r = Some (MultiErr []))"
  by (metis mappend_Nil)

lemma wrapf_not_multi [simp]: "wrapf p e q \<noteq> MultiErr es" "MultiErr es \<noteq> wrapf p e q"
  by (simp_all add: wrapf_def)

lemma mappends_simps [simp]:
  "mappends es [] = es"
  "mappends es (r # rs) = mappends (mappend es r) rs"
  by (simp_all add: mappends_def)

lemma mappend_keeps: "e \<in> set es \<Longrightarrow> e \<in> set (mappend es r)"
  by (induction es r rule: mappend.induct) auto

lemma mappend_prefix: "\<exists>xs. mappend es r = es @ xs"
  by (induction es r rule: mappend.induct) auto

lemma mappends_Nil: "mappends es rs = [] \<longleftrightarrow> es = [] \<and> (\<forall>r \<in> set rs. r = None \<or> r = Some (MultiErr []))"
  by (induction rs arbitrary: es) auto

text \<open>A guarded single error: \<open>if c { mErr = multierror.Append(mErr, e) }\<close>.\<close>

definition err_when :: "bool \<Rightarrow> goerr \<Rightarrow> goerr option" where
  "err_when c e = (if c then Some e else None)"

lemma err_when_simps [simp]:
  "err_when True e = Some e" "err_when False e = None"
  "err_when c e = None \<longleftrightarrow> \<not> c"
  "err_when c e = Some x \<longleftrightarrow> c \<and> x = e"
  by (auto simp: err_when_def)

section \<open>Results and sequenced calls\<close>

text \<open>
  A call returns a value, returns a non-nil error, or panics. A call on an outside world
  (libvirt, iptables, the file system, the clock) also returns the world it leaves.
\<close>

datatype 'a res = Ok 'a | Fail goerr | Panic string

type_synonym ('w, 'a) io = "'w \<Rightarrow> 'a res \<times> 'w"

fun rbind :: "'a res \<Rightarrow> ('a \<Rightarrow> 'b res) \<Rightarrow> 'b res" where
  "rbind (Ok x) k = k x"
| "rbind (Fail e) k = Fail e"
| "rbind (Panic p) k = Panic p"

text \<open>\<open>if err := f(); err != nil { return err }\<close> for a call that returns only an error.\<close>

definition of_err :: "goerr option \<Rightarrow> unit res" where
  "of_err r = (case r of None \<Rightarrow> Ok () | Some e \<Rightarrow> Fail e)"

definition ret :: "'a \<Rightarrow> ('w, 'a) io" where
  "ret x = (\<lambda>w. (Ok x, w))"

definition lift :: "'a res \<Rightarrow> ('w, 'a) io" where
  "lift r = (\<lambda>w. (r, w))"

definition throw :: "goerr \<Rightarrow> ('w, 'a) io" where
  "throw e = (\<lambda>w. (Fail e, w))"

definition iobind :: "('w, 'a) io \<Rightarrow> ('a \<Rightarrow> ('w, 'b) io) \<Rightarrow> ('w, 'b) io" where
  "iobind m k = (\<lambda>w. case m w of
     (Ok x, w') \<Rightarrow> k x w'
   | (Fail e, w') \<Rightarrow> (Fail e, w')
   | (Panic p, w') \<Rightarrow> (Panic p, w'))"

text \<open>A call whose error is inspected: \<open>k\<close> on success, \<open>h\<close> on a non-nil error.\<close>

definition iotry :: "('w, 'a) io \<Rightarrow> ('a \<Rightarrow> ('w, 'b) io) \<Rightarrow> (goerr \<Rightarrow> ('w, 'b) io) \<Rightarrow> ('w, 'b) io" where
  "iotry m k h = (\<lambda>w. case m w of
     (Ok x, w') \<Rightarrow> k x w'
   | (Fail e, w') \<Rightarrow> h e w'
   | (Panic p, w') \<Rightarrow> (Panic p, w'))"

text \<open>\<open>if err != nil { return fmt.Errorf(pre + "%w" + post, err) }\<close>\<close>

definition iowrap :: "string \<Rightarrow> string \<Rightarrow> ('w, 'a) io \<Rightarrow> ('w, 'a) io" where
  "iowrap pre post m = iotry m ret (\<lambda>e. throw (wrapf pre e post))"

text \<open>The loop \<open>for _, x := range xs\<close> whose body returns from the function on error.\<close>

fun iofor :: "'a list \<Rightarrow> ('a \<Rightarrow> ('w, unit) io) \<Rightarrow> ('w, unit) io" where
  "iofor [] f = ret ()"
| "iofor (x # xs) f = iobind (f x) (\<lambda>_. iofor xs f)"

text \<open>A loop that carries a value.\<close>

fun iofold :: "('a \<Rightarrow> 'b \<Rightarrow> ('w, 'b) io) \<Rightarrow> 'a list \<Rightarrow> 'b \<Rightarrow> ('w, 'b) io" where
  "iofold f [] acc = ret acc"
| "iofold f (x # xs) acc = iobind (f x acc) (\<lambda>acc'. iofold f xs acc')"

lemma ret_apply [io_simps]: "ret x w = (Ok x, w)"
  by (simp add: ret_def)

lemma lift_apply [io_simps]: "lift r w = (r, w)"
  by (simp add: lift_def)

lemma throw_apply [io_simps]: "throw e w = (Fail e, w)"
  by (simp add: throw_def)

lemma iobind_apply [io_simps]:
  "iobind m k w = (case m w of (Ok x, w') \<Rightarrow> k x w' | (Fail e, w') \<Rightarrow> (Fail e, w')
     | (Panic p, w') \<Rightarrow> (Panic p, w'))"
  by (simp add: iobind_def)

lemma iotry_apply [io_simps]:
  "iotry m k h w = (case m w of (Ok x, w') \<Rightarrow> k x w' | (Fail e, w') \<Rightarrow> h e w'
     | (Panic p, w') \<Rightarrow> (Panic p, w'))"
  by (simp add: iotry_def)

lemma iobind_Ok:
  "iobind m k w = (Ok y, w') \<longleftrightarrow> (\<exists>x w1. m w = (Ok x, w1) \<and> k x w1 = (Ok y, w'))"
  by (auto simp: iobind_def split: prod.splits res.splits)

lemma iobind_Fail:
  "iobind m k w = (Fail e, w') \<longleftrightarrow>
     m w = (Fail e, w') \<or> (\<exists>x w1. m w = (Ok x, w1) \<and> k x w1 = (Fail e, w'))"
  by (auto simp: iobind_def split: prod.splits res.splits)

lemma iobind_ret [simp]: "iobind (ret x) k = k x"
  by (simp add: iobind_def ret_def)

lemma iobind_throw [simp]: "iobind (throw e) k = throw e"
  by (simp add: iobind_def throw_def)

lemma iobind_assoc: "iobind (iobind m f) g = iobind m (\<lambda>x. iobind (f x) g)"
  by (auto simp: iobind_def fun_eq_iff split: prod.splits res.splits)

lemma iowrap_Ok [simp]: "iowrap pre post m w = (Ok x, w') \<longleftrightarrow> m w = (Ok x, w')"
  by (auto simp: iowrap_def iotry_def ret_def throw_def split: prod.splits res.splits)

lemma iofor_append:
  "iofor (xs @ ys) f = iobind (iofor xs f) (\<lambda>_. iofor ys f)"
  by (induction xs) (simp_all add: iobind_assoc)

text \<open>An invariant of the world that every call of a loop body keeps is kept by the loop.\<close>

lemma iofor_inv:
  assumes "\<And>x w r w'. x \<in> set xs \<Longrightarrow> P w \<Longrightarrow> f x w = (r, w') \<Longrightarrow> P w'"
    and "P w" and "iofor xs f w = (r, w')"
  shows "P w'"
  using assms
proof (induction xs arbitrary: w)
  case Nil
  then show ?case by (simp add: ret_def)
next
  case (Cons x xs)
  obtain r1 w1 where step: "f x w = (r1, w1)" by fastforce
  with Cons.prems have "P w1" by (meson list.set_intros(1))
  have keep: "\<And>y w r w'. y \<in> set xs \<Longrightarrow> P w \<Longrightarrow> f y w = (r, w') \<Longrightarrow> P w'"
    using Cons.prems(1) by (meson list.set_intros(2))
  show ?case
  proof (cases r1)
    case (Ok u)
    with Cons.prems(3) step have "iofor xs f w1 = (r, w')" by (simp add: iobind_def)
    show ?thesis
      by (rule Cons.IH [OF _ \<open>P w1\<close> \<open>iofor xs f w1 = (r, w')\<close>]) (rule keep)
  qed (use Cons.prems(3) step \<open>P w1\<close> in \<open>simp_all add: iobind_def\<close>)
qed

section \<open>What a call may do to the world\<close>

text \<open>
  \<open>steps R m\<close>: whatever \<open>m\<close> returns, the world it leaves is related by \<open>R\<close> to the one it found.
  For a preorder this composes along the control flow.
\<close>

named_theorems steps_intros "composition of steps"

definition steps :: "('w \<Rightarrow> 'w \<Rightarrow> bool) \<Rightarrow> ('w, 'a) io \<Rightarrow> bool" where
  "steps R m \<longleftrightarrow> (\<forall>w r w'. m w = (r, w') \<longrightarrow> R w w')"

definition preorder :: "('w \<Rightarrow> 'w \<Rightarrow> bool) \<Rightarrow> bool" where
  "preorder R \<longleftrightarrow> (\<forall>w. R w w) \<and> (\<forall>a b c. R a b \<longrightarrow> R b c \<longrightarrow> R a c)"

lemma stepsD: "steps R m \<Longrightarrow> m w = (r, w') \<Longrightarrow> R w w'"
  by (simp add: steps_def)

lemma steps_ret [steps_intros]: "preorder R \<Longrightarrow> steps R (ret x)"
  by (simp add: steps_def preorder_def ret_def)

lemma steps_lift [steps_intros]: "preorder R \<Longrightarrow> steps R (lift x)"
  by (simp add: steps_def preorder_def lift_def)

lemma steps_throw [steps_intros]: "preorder R \<Longrightarrow> steps R (throw e)"
  by (simp add: steps_def preorder_def throw_def)

lemma steps_bind [steps_intros]:
  assumes "preorder R" "steps R m" "\<And>x. steps R (k x)"
  shows "steps R (iobind m k)"
  using assms unfolding steps_def preorder_def iobind_def
  by (auto split: prod.splits res.splits; blast)

lemma steps_try [steps_intros]:
  assumes "preorder R" "steps R m" "\<And>x. steps R (k x)" "\<And>e. steps R (h e)"
  shows "steps R (iotry m k h)"
  using assms unfolding steps_def preorder_def iotry_def
  by (auto split: prod.splits res.splits) metis+

lemma steps_weaken: "steps R m \<Longrightarrow> (\<And>a b. R a b \<Longrightarrow> Q a b) \<Longrightarrow> steps Q m"
  by (simp add: steps_def)

lemma steps_if [steps_intros]: "(c \<Longrightarrow> steps R a) \<Longrightarrow> (\<not> c \<Longrightarrow> steps R b) \<Longrightarrow> steps R (if c then a else b)"
  by simp

text \<open>What a call does not change.\<close>

definition same :: "('w \<Rightarrow> 'b) \<Rightarrow> 'w \<Rightarrow> 'w \<Rightarrow> bool" where
  "same f a b \<longleftrightarrow> f b = f a"

lemma preorder_same [simp, intro]: "preorder (same f)"
  by (simp add: preorder_def same_def)

lemma steps_wrap [steps_intros]: "preorder R \<Longrightarrow> steps R m \<Longrightarrow> steps R (iowrap a b m)"
  by (simp add: iowrap_def steps_intros)

lemma steps_fold:
  assumes "preorder R" and "\<And>x acc. x \<in> set xs \<Longrightarrow> steps R (f x acc)"
  shows "steps R (iofold f xs acc)"
  using assms(2)
proof (induction xs arbitrary: acc)
  case (Cons x xs)
  from Cons.prems have 1: "steps R (f x acc)" and "\<And>y acc. y \<in> set xs \<Longrightarrow> steps R (f y acc)" by simp_all
  from Cons.IH [OF this(2)] 1 show ?case by (simp add: steps_bind [OF assms(1)])
qed (simp add: steps_ret [OF assms(1)])

lemma iobind_cases:
  assumes "iobind m k w = (r, w')"
  obtains (Ok) x w1 where "m w = (Ok x, w1)" "k x w1 = (r, w')"
  | (Fail) e where "m w = (Fail e, w')" "r = Fail e"
  | (Panic) p where "m w = (Panic p, w')" "r = Panic p"
  using assms by (auto simp: iobind_def split: prod.splits res.splits)

lemma iotry_cases:
  assumes "iotry m k h w = (r, w')"
  obtains (Ok) x w1 where "m w = (Ok x, w1)" "k x w1 = (r, w')"
  | (Fail) e w1 where "m w = (Fail e, w1)" "h e w1 = (r, w')"
  | (Panic) p where "m w = (Panic p, w')" "r = Panic p"
  using assms by (auto simp: iotry_def split: prod.splits res.splits)

lemma iowrap_cases:
  assumes "iowrap a b m w = (r, w')"
  obtains (Ok) x where "m w = (Ok x, w')" "r = Ok x"
  | (Fail) e where "m w = (Fail e, w')" "r = Fail (wrapf a e b)"
  | (Panic) p where "m w = (Panic p, w')" "r = Panic p"
  using assms by (auto simp: iowrap_def iotry_def ret_def throw_def split: prod.splits res.splits)

lemma rbind_Ok: "rbind m k = Ok y \<longleftrightarrow> (\<exists>x. m = Ok x \<and> k x = Ok y)"
  by (cases m) auto

text \<open>A call that does not panic.\<close>

definition calm :: "('w, 'a) io \<Rightarrow> bool" where
  "calm m \<longleftrightarrow> (\<forall>w p w'. m w \<noteq> (Panic p, w'))"

lemma calm_intros:
  "calm (ret x)" "calm (throw e)" "(\<And>p. r \<noteq> Panic p) \<Longrightarrow> calm (lift r)"
  "calm m \<Longrightarrow> (\<And>x. calm (k x)) \<Longrightarrow> calm (iobind m k)"
  "calm m \<Longrightarrow> (\<And>x. calm (k x)) \<Longrightarrow> (\<And>e. calm (h e)) \<Longrightarrow> calm (iotry m k h)"
  "calm m \<Longrightarrow> calm (iowrap a b m)"
  by (auto simp: calm_def ret_def throw_def lift_def iobind_def iowrap_def iotry_def split: prod.splits res.splits)

section \<open>Go's strings package\<close>

definition has_prefix :: "string \<Rightarrow> string \<Rightarrow> bool" where
  "has_prefix p s = (take (length p) s = p)"

definition has_suffix :: "string \<Rightarrow> string \<Rightarrow> bool" where
  "has_suffix p s = has_prefix (rev p) (rev s)"

fun contains_str :: "string \<Rightarrow> string \<Rightarrow> bool" where
  "contains_str sub [] = (sub = [])"
| "contains_str sub (c # s) = (has_prefix sub (c # s) \<or> contains_str sub s)"

text \<open>\<open>strings.Split(s, sep)\<close> for a separator of one byte.\<close>

fun split_on :: "char \<Rightarrow> string \<Rightarrow> string list" where
  "split_on sep [] = [[]]"
| "split_on sep (c # s) =
     (if c = sep then [] # split_on sep s
      else (case split_on sep s of [] \<Rightarrow> [[c]] | p # ps \<Rightarrow> (c # p) # ps))"

fun join :: "string \<Rightarrow> string list \<Rightarrow> string" where
  "join sep [] = []"
| "join sep [x] = x"
| "join sep (x # y # ys) = x @ sep @ join sep (y # ys)"

text \<open>The verb \<open>%q\<close> on text without quotes, backslashes or control bytes.\<close>

definition quoted :: "string \<Rightarrow> string" where
  "quoted s = [CHR 0x22] @ s @ [CHR 0x22]"

text \<open>\<open>strings.ToLower\<close> on the ASCII letters; other bytes are kept.\<close>

definition lower_char :: "char \<Rightarrow> char" where
  "lower_char c = (let n = (of_char c :: nat) in if 65 \<le> n \<and> n \<le> 90 then char_of (n + 32) else c)"

definition to_lower :: "string \<Rightarrow> string" where
  "to_lower s = map lower_char s"

text \<open>Evaluation of letter case on literals.\<close>

lemmas lower_eval [str_simps] = to_lower_def lower_char_def char_of_def bit_0

lemma has_prefix_append [simp]: "has_prefix p (p @ s)"
  by (simp add: has_prefix_def)

lemma has_prefix_iff: "has_prefix p s \<longleftrightarrow> (\<exists>t. s = p @ t)"
  by (metis append_eq_conv_conj append_take_drop_id has_prefix_def)

lemma contains_str_iff: "contains_str sub s \<longleftrightarrow> (\<exists>a b. s = a @ sub @ b)"
proof (induction s)
  case Nil
  then show ?case by auto
next
  case (Cons c s)
  show ?case
  proof
    assume "contains_str sub (c # s)"
    then consider "has_prefix sub (c # s)" | "contains_str sub s" by auto
    then show "\<exists>a b. c # s = a @ sub @ b"
    proof cases
      case 1
      then show ?thesis by (metis append_Nil has_prefix_iff)
    next
      case 2
      then obtain a b where "s = a @ sub @ b" using Cons.IH by blast
      then have "c # s = (c # a) @ sub @ b" by simp
      then show ?thesis by blast
    qed
  next
    assume "\<exists>a b. c # s = a @ sub @ b"
    then obtain a b where eq: "c # s = a @ sub @ b" by blast
    show "contains_str sub (c # s)"
    proof (cases a)
      case Nil
      with eq have "has_prefix sub (c # s)" by (auto simp: has_prefix_iff)
      then show ?thesis by simp
    next
      case (Cons x a')
      with eq have "s = a' @ sub @ b" by simp
      then show ?thesis using Cons.IH by auto
    qed
  qed
qed

lemma split_on_nonempty [simp]: "split_on sep s \<noteq> []"
  by (induction s) (auto split: list.splits)

lemma split_on_no_sep: "x \<in> set (split_on sep s) \<Longrightarrow> sep \<notin> set x"
  by (induction s arbitrary: x) (auto split: list.splits if_splits)

lemma split_on_single: "sep \<notin> set s \<Longrightarrow> split_on sep s = [s]"
  by (induction s) auto

lemma join_Cons: "ys \<noteq> [] \<Longrightarrow> join sep (x # ys) = x @ sep @ join sep ys"
  by (cases ys) auto

text \<open>Splitting undoes nothing: joining the parts with the separator gives the string back.\<close>

lemma join_split_on: "join [sep] (split_on sep s) = s"
proof (induction s)
  case Nil
  then show ?case by simp
next
  case (Cons c s)
  obtain p ps where ps: "split_on sep s = p # ps"
    by (meson neq_Nil_conv split_on_nonempty)
  show ?case
  proof (cases "c = sep")
    case True
    then show ?thesis using Cons by (simp add: join_Cons)
  next
    case False
    have "join [sep] ((c # p) # ps) = c # join [sep] (p # ps)"
      by (cases ps) auto
    then show ?thesis using Cons ps False by simp
  qed
qed

lemma split_on_append: "sep \<notin> set a \<Longrightarrow> split_on sep (a @ sep # s) = a # split_on sep s"
  by (induction a) auto

lemma split_on_join:
  assumes "ps \<noteq> []" and "\<And>p. p \<in> set ps \<Longrightarrow> sep \<notin> set p"
  shows "split_on sep (join [sep] ps) = ps"
  using assms
proof (induction ps)
  case Nil
  then show ?case by simp
next
  case (Cons p ps)
  then show ?case
    by (cases ps) (auto simp: split_on_single split_on_append)
qed

section \<open>Decimal numbers\<close>

definition digit_char :: "nat \<Rightarrow> char" where
  "digit_char d = char_of (48 + d)"

definition digit_val :: "char \<Rightarrow> nat" where
  "digit_val c = of_char c - 48"

definition is_digit :: "char \<Rightarrow> bool" where
  "is_digit c = (48 \<le> (of_char c :: nat) \<and> (of_char c :: nat) \<le> 57)"

text \<open>\<open>fmt.Sprintf("%d", n)\<close> of a non-negative integer.\<close>

fun dec :: "nat \<Rightarrow> string" where
  "dec n = (if n < 10 then [digit_char n] else dec (n div 10) @ [digit_char (n mod 10)])"

declare dec.simps [simp del]

text \<open>The value of a digit string, most significant digit first.\<close>

definition dec_val :: "string \<Rightarrow> nat" where
  "dec_val s = foldl (\<lambda>n c. 10 * n + digit_val c) 0 s"

text \<open>\<open>strconv.Itoa\<close> of a signed integer.\<close>

definition itoa :: "int \<Rightarrow> string" where
  "itoa n = (if n < 0 then CHR ''-'' # dec (nat (- n)) else dec (nat n))"

lemma of_char_digit [simp]: "d < 10 \<Longrightarrow> of_char (digit_char d) = (48 + d :: nat)"
  by (simp add: digit_char_def)

lemma digit_val_char [simp]: "d < 10 \<Longrightarrow> digit_val (digit_char d) = d"
  by (simp add: digit_val_def)

lemma is_digit_char [simp]: "d < 10 \<Longrightarrow> is_digit (digit_char d)"
  by (simp add: is_digit_def)

lemma dec_nonempty [simp]: "dec n \<noteq> []"
  by (subst dec.simps) simp

lemma dec_digits: "list_all is_digit (dec n)"
proof (induction n rule: dec.induct)
  case (1 n)
  then show ?case by (subst dec.simps) auto
qed

lemma dec_val_snoc [simp]: "dec_val (s @ [c]) = 10 * dec_val s + digit_val c"
  by (simp add: dec_val_def)

lemma dec_val_dec [simp]: "dec_val (dec n) = n"
proof (induction n rule: dec.induct)
  case (1 n)
  then show ?case
    by (subst dec.simps) (auto simp: dec_val_def[of "[_]"])
qed

lemma dec_inj: "dec m = dec n \<Longrightarrow> m = n"
  by (metis dec_val_dec)

end
