(* ===== verification/Errs.thy ===== *)
theory Errs
  imports Prelude
begin

text \<open>
  \<^verbatim>\<open>internal/errs/errors.go\<close>: the sentinel errors of the driver and \<open>MissingAttribute\<close>, with
  which every configuration check reports an unset value.
\<close>

section \<open>Model\<close>

definition ErrNotFound :: goerr where
  "ErrNotFound = ErrNew ''not found''"

definition ErrNotImplemented :: goerr where
  "ErrNotImplemented = ErrNew ''not implemented''"

definition ErrNotSupported :: goerr where
  "ErrNotSupported = ErrNew ''not supported''"

definition ErrInvalidConfiguration :: goerr where
  "ErrInvalidConfiguration = ErrNew ''invalid configuration''"

definition ErrMissingAttribute :: goerr where
  "ErrMissingAttribute = wrapf [] ErrInvalidConfiguration '': missing required attribute''"

text \<open>
  The \<open>any\<close> argument of \<open>MissingAttribute\<close> by its reflected kind: a pointer (whether it is
  nil), a string, a slice or a map (its length), or any other value (its text and type).
\<close>

datatype attr_value =
    APointer bool
  | AString string
  | ASlice nat
  | AMap nat
  | AOther string string

record err_options =
  o_prefix :: string
  o_suffix :: string

definition no_options :: err_options where
  "no_options = \<lparr>o_prefix = [], o_suffix = []\<rparr>"

definition WithPrefix :: "string \<Rightarrow> err_options \<Rightarrow> err_options" where
  "WithPrefix p opt = opt\<lparr>o_prefix := p\<rparr>"

definition WithSuffix :: "string \<Rightarrow> err_options \<Rightarrow> err_options" where
  "WithSuffix p opt = opt\<lparr>o_suffix := p\<rparr>"

definition missing_error :: "string \<Rightarrow> (err_options \<Rightarrow> err_options) list \<Rightarrow> goerr" where
  "missing_error attrName opts =
     (let opt = fold (\<lambda>fn acc. fn acc) opts no_options in
      wrapf (if o_prefix opt \<noteq> [] then o_prefix opt @ '' '' else []) ErrMissingAttribute
        ('': '' @ attrName @ (if o_suffix opt \<noteq> [] then '' '' @ o_suffix opt else [])))"

fun MissingAttribute :: "string \<Rightarrow> attr_value \<Rightarrow> (err_options \<Rightarrow> err_options) list \<Rightarrow> goerr option" where
  "MissingAttribute attrName (APointer isnil) opts =
     (if \<not> isnil then None else Some (missing_error attrName opts))"
| "MissingAttribute attrName (AString s) opts =
     (if length s \<noteq> 0 then None else Some (missing_error attrName opts))"
| "MissingAttribute attrName (ASlice n) opts =
     (if n \<noteq> 0 then None else Some (missing_error attrName opts))"
| "MissingAttribute attrName (AMap n) opts =
     (if n \<noteq> 0 then None else Some (missing_error attrName opts))"
| "MissingAttribute attrName (AOther txt ty) opts =
     Some (wrapf [] ErrNotSupported
       ('' - uncheckable attribute '' @ attrName @ '' = '' @ txt @ '' ('' @ ty @ '')''))"

section \<open>Lemmas\<close>

lemmas sentinel_defs = ErrNotFound_def ErrNotImplemented_def ErrNotSupported_def
  ErrInvalidConfiguration_def ErrMissingAttribute_def

text \<open>The sentinels are pairwise distinguishable by \<open>errors.Is\<close>.\<close>

lemma sentinels_distinct [simp]:
  "\<not> is_err ErrNotFound ErrInvalidConfiguration" "\<not> is_err ErrNotFound ErrMissingAttribute"
  "\<not> is_err ErrNotFound ErrNotSupported" "\<not> is_err ErrNotFound ErrNotImplemented"
  "\<not> is_err ErrInvalidConfiguration ErrNotFound"
  "ErrNotFound \<noteq> ErrInvalidConfiguration" "ErrNotFound \<noteq> ErrMissingAttribute"
  "is_err ErrInvalidConfiguration ErrMissingAttribute"
  by (simp_all add: sentinel_defs wrapf_def)

lemma missing_error_is [simp]:
  "is_err ErrMissingAttribute (missing_error a opts)"
  "is_err ErrInvalidConfiguration (missing_error a opts)"
  by (simp_all add: missing_error_def Let_def)

lemma missing_error_not_multi [simp]:
  "missing_error a opts \<noteq> MultiErr es" "MultiErr es \<noteq> missing_error a opts"
  by (simp_all add: missing_error_def Let_def)

lemma MissingAttribute_string [simp]:
  "MissingAttribute a (AString s) opts = None \<longleftrightarrow> s \<noteq> []"
  "MissingAttribute a (ASlice n) opts = None \<longleftrightarrow> n \<noteq> 0"
  "MissingAttribute a (AString s) opts \<noteq> Some (MultiErr es)"
  "MissingAttribute a (ASlice n) opts \<noteq> Some (MultiErr es)"
  by simp_all

lemma mappend_when [simp]:
  "mappend es (err_when c (wrapf p e q)) = [] \<longleftrightarrow> es = [] \<and> \<not> c"
  by (simp add: err_when_def)

end
