(* ===== verification/Iptables.thy ===== *)
theory Iptables
  imports Errs
begin

text \<open>
  \<^verbatim>\<open>net/filter/iptables/names.go\<close>, \<^verbatim>\<open>rules.go\<close> and \<^verbatim>\<open>request.go\<close>: names of tables and chains,
  chains and rules, the stamped collections of a request, and the removal instructions a request
  leaves for teardown.
\<close>

section \<open>Names\<close>

record TableNames =
  tn_Filter :: string
  tn_NAT :: string

record NomadChainNames =
  nn_Forward :: string
  nn_Postrouting :: string
  nn_Prerouting :: string
  nn_Output :: string

record ChainNames =
  cn_Forward :: string
  cn_Nomad :: NomadChainNames
  cn_Output :: string
  cn_Postrouting :: string
  cn_Prerouting :: string

record names =
  nm_chains :: ChainNames
  nm_tables :: TableNames

definition NewNames :: names where
  "NewNames = \<lparr>
     nm_chains = \<lparr>cn_Forward = ''FORWARD'',
       cn_Nomad = \<lparr>nn_Forward = ''NOMAD_VT_FW'', nn_Postrouting = ''NOMAD_VT_PST'',
         nn_Prerouting = ''NOMAD_VT_PRT'', nn_Output = ''NOMAD_VT_OUT''\<rparr>,
       cn_Output = ''OUTPUT'', cn_Postrouting = ''POSTROUTING'', cn_Prerouting = ''PREROUTING''\<rparr>,
     nm_tables = \<lparr>tn_Filter = ''filter'', tn_NAT = ''nat''\<rparr>\<rparr>"

section \<open>Chains and rules\<close>

record chain =
  c_table :: string
  c_chain :: string
  c_stamp :: nat

record rule =
  r_table :: string
  r_chain :: string
  r_position :: int
  r_spec :: "string list"
  r_removable :: bool
  r_stamp :: nat

definition chain_setStamp :: "nat \<Rightarrow> chain \<Rightarrow> chain" where
  "chain_setStamp n c = c\<lparr>c_stamp := n\<rparr>"

definition chain_Hash :: "chain \<Rightarrow> string" where
  "chain_Hash c = c_table c @ c_chain c"

definition chain_Equal :: "chain option \<Rightarrow> chain option \<Rightarrow> bool" where
  "chain_Equal c rhs = (case (c, rhs) of
     (Some a, Some b) \<Rightarrow> c_table a = c_table b \<and> c_chain a = c_chain b
   | (None, None) \<Rightarrow> True
   | _ \<Rightarrow> False)"

definition rule_setStamp :: "nat \<Rightarrow> rule \<Rightarrow> rule" where
  "rule_setStamp n r = r\<lparr>r_stamp := n\<rparr>"

definition rule_Hash :: "rule \<Rightarrow> string" where
  "rule_Hash r = r_table r @ r_chain r @ join [] (r_spec r)"

definition rule_Equal :: "rule option \<Rightarrow> rule option \<Rightarrow> bool" where
  "rule_Equal r rhs = (case (r, rhs) of
     (Some a, Some b) \<Rightarrow> r_table a = r_table b \<and> r_chain a = r_chain b
       \<and> r_position a = r_position b \<and> r_spec a = r_spec b
   | (None, None) \<Rightarrow> True
   | _ \<Rightarrow> False)"

definition rule_String :: "rule \<Rightarrow> string" where
  "rule_String r = ''-A '' @ r_chain r @ '' '' @ join '' '' (r_spec r)"

definition rule_slice :: "rule \<Rightarrow> string list" where
  "rule_slice r = [r_table r, r_chain r] @ r_spec r"

definition mkchain :: "rule \<Rightarrow> chain" where
  "mkchain r = \<lparr>c_table = r_table r, c_chain = r_chain r, c_stamp = 0\<rparr>"

section \<open>Stamped collections\<close>

text \<open>
  A \<open>HashSet\<close> holds one item per hash and keeps the item it has when another of the same hash is
  inserted. It is the list of its items here, in the order they came; the order in which the
  set itself lists them is unspecified, which is why the collections sort by stamp. The stamping
  function numbers every item that is offered, whether or not it is kept.
\<close>

definition hs_insert :: "('a \<Rightarrow> string) \<Rightarrow> 'a \<Rightarrow> 'a list \<Rightarrow> 'a list" where
  "hs_insert hash x s = (if hash x \<in> hash ` set s then s else s @ [x])"

definition hs_insert_slice :: "('a \<Rightarrow> string) \<Rightarrow> 'a list \<Rightarrow> 'a list \<Rightarrow> 'a list" where
  "hs_insert_slice hash xs s = fold (hs_insert hash) xs s"

fun stamp_all :: "(nat \<Rightarrow> 'a \<Rightarrow> 'a) \<Rightarrow> nat \<Rightarrow> 'a list \<Rightarrow> 'a list" where
  "stamp_all setStamp n [] = []"
| "stamp_all setStamp n (x # xs) = setStamp n x # stamp_all setStamp (Suc n) xs"

definition chains_InsertSlice :: "chain list \<Rightarrow> nat \<times> chain list \<Rightarrow> nat \<times> chain list" where
  "chains_InsertSlice cs st = (case st of (n, s) \<Rightarrow>
     (n + length cs, hs_insert_slice chain_Hash (stamp_all chain_setStamp n cs) s))"

definition chains_Insert :: "chain \<Rightarrow> nat \<times> chain list \<Rightarrow> nat \<times> chain list" where
  "chains_Insert c st = (case st of (n, s) \<Rightarrow> (Suc n, hs_insert chain_Hash (chain_setStamp n c) s))"

definition chains_Slice :: "chain list \<Rightarrow> chain list" where
  "chains_Slice s = sort_key c_stamp s"

definition rules_InsertSlice :: "rule list \<Rightarrow> nat \<times> rule list \<Rightarrow> nat \<times> rule list" where
  "rules_InsertSlice rs st = (case st of (n, s) \<Rightarrow>
     (n + length rs, hs_insert_slice rule_Hash (stamp_all rule_setStamp n rs) s))"

definition rules_Insert :: "rule \<Rightarrow> nat \<times> rule list \<Rightarrow> nat \<times> rule list" where
  "rules_Insert r st = (case st of (n, s) \<Rightarrow> (Suc n, hs_insert rule_Hash (rule_setStamp n r) s))"

definition rules_Slice :: "rule list \<Rightarrow> rule list" where
  "rules_Slice s = sort_key r_stamp s"

definition rules_removables :: "rule list \<Rightarrow> rule list" where
  "rules_removables s = hs_insert_slice rule_Hash (filter r_removable (rules_Slice s)) []"

section \<open>Requests\<close>

record request =
  rq_chains :: "chain list"
  rq_rules :: "rule list"
  rq_stampValue :: nat

definition newRequest :: request where
  "newRequest = \<lparr>rq_chains = [], rq_rules = [], rq_stampValue = 0\<rparr>"

text \<open>
  The insertions of a request share its stamp counter. \<open>InsertSet\<close> goes through the slice of the
  given set.
\<close>

definition add_chains :: "chain list \<Rightarrow> request \<Rightarrow> request" where
  "add_chains cs req = (case chains_InsertSlice cs (rq_stampValue req, rq_chains req) of
     (n, s) \<Rightarrow> req\<lparr>rq_chains := s, rq_stampValue := n\<rparr>)"

definition add_rules :: "rule list \<Rightarrow> request \<Rightarrow> request" where
  "add_rules rs req = (case rules_InsertSlice rs (rq_stampValue req, rq_rules req) of
     (n, s) \<Rightarrow> req\<lparr>rq_rules := s, rq_stampValue := n\<rparr>)"

definition removalInstructions :: "request \<Rightarrow> string list list" where
  "removalInstructions req = map rule_slice (rules_Slice (rules_removables (rq_rules req)))"

text \<open>The raw removal instructions converted back into rules.\<close>

fun rule_of_entry :: "string list \<Rightarrow> rule" where
  "rule_of_entry [] =
     \<lparr>r_table = [], r_chain = [], r_position = 0, r_spec = [], r_removable = False, r_stamp = 0\<rparr>"
| "rule_of_entry [t] =
     \<lparr>r_table = t, r_chain = [], r_position = 0, r_spec = [], r_removable = False, r_stamp = 0\<rparr>"
| "rule_of_entry [t, c] =
     \<lparr>r_table = t, r_chain = c, r_position = 0, r_spec = [], r_removable = False, r_stamp = 0\<rparr>"
| "rule_of_entry (t # c # spec) =
     \<lparr>r_table = t, r_chain = c, r_position = 0, r_spec = spec, r_removable = False, r_stamp = 0\<rparr>"

definition Rules_rules :: "string list list \<Rightarrow> rule list" where
  "Rules_rules r = hs_insert_slice rule_Hash (map rule_of_entry r) []"

definition Rules_Empty :: "string list list \<Rightarrow> bool" where
  "Rules_Empty r = (length r = 0)"

section \<open>The contract of stampable items\<close>

text \<open>
  What \<open>chain\<close> and \<open>rule\<close> both provide: stamping sets the stamp and does not change the hash. From
  it follow the facts every collection needs: one item per hash, stamps strictly increasing in
  insertion order, and hence a slice that is the insertion order whatever order the set lists its
  items in.
\<close>

definition stamped_inv :: "('a \<Rightarrow> string) \<Rightarrow> ('a \<Rightarrow> nat) \<Rightarrow> nat \<Rightarrow> 'a list \<Rightarrow> bool" where
  "stamped_inv hash stamp n s \<longleftrightarrow>
     distinct (map hash s) \<and> sorted_wrt (<) (map stamp s) \<and> (\<forall>x \<in> set s. stamp x < n)"

lemma hs_insert_hashes: "hash ` set (hs_insert hash x s) = insert (hash x) (hash ` set s)"
  by (auto simp: hs_insert_def)

lemma hs_insert_slice_simps [simp]:
  "hs_insert_slice hash [] s = s"
  "hs_insert_slice hash (x # xs) s = hs_insert_slice hash xs (hs_insert hash x s)"
  by (simp_all add: hs_insert_slice_def)

lemma hs_insert_slice_hashes:
  "hash ` set (hs_insert_slice hash xs s) = hash ` set s \<union> hash ` set xs"
  by (induction xs arbitrary: s) (auto simp: hs_insert_hashes)

lemma hs_insert_slice_distinct:
  "distinct (map hash (s @ xs)) \<Longrightarrow> hs_insert_slice hash xs s = s @ xs"
proof (induction xs arbitrary: s)
  case (Cons x xs)
  then have "hs_insert hash x s = s @ [x]" by (auto simp: hs_insert_def)
  with Cons.IH [of "s @ [x]"] Cons.prems show ?case by simp
qed simp

lemma hs_insert_slice_sub: "set (hs_insert_slice hash xs s) \<subseteq> set s \<union> set xs"
proof (induction xs arbitrary: s)
  case (Cons x xs)
  have "set (hs_insert hash x s) \<subseteq> insert x (set s)" by (auto simp: hs_insert_def)
  with Cons.IH [of "hs_insert hash x s"] show ?case by auto
qed simp

locale stamped_items =
  fixes hash :: "'a \<Rightarrow> string"
    and setStamp :: "nat \<Rightarrow> 'a \<Rightarrow> 'a"
    and stamp :: "'a \<Rightarrow> nat"
  assumes stamp_set: "stamp (setStamp n x) = n"
    and hash_set: "hash (setStamp n x) = hash x"
begin

lemma inv_empty: "stamped_inv hash stamp n []"
  by (simp add: stamped_inv_def)

lemma inv_mono: "stamped_inv hash stamp n s \<Longrightarrow> n \<le> m \<Longrightarrow> stamped_inv hash stamp m s"
  by (auto simp: stamped_inv_def)

lemma inv_insert:
  assumes "stamped_inv hash stamp n s"
  shows "stamped_inv hash stamp (Suc n) (hs_insert hash (setStamp n x) s)"
  using assms
  by (auto simp: stamped_inv_def hs_insert_def stamp_set hash_set sorted_wrt_append
      intro: less_SucI)

lemma inv_insert_slice:
  "stamped_inv hash stamp n s \<Longrightarrow>
     stamped_inv hash stamp (n + length xs) (hs_insert_slice hash (stamp_all setStamp n xs) s)"
proof (induction xs arbitrary: n s)
  case (Cons x xs)
  from Cons.IH [OF inv_insert [OF Cons.prems]] show ?case by simp
qed simp

lemma hashes_insert_slice:
  "hash ` set (hs_insert_slice hash (stamp_all setStamp n xs) s) = hash ` set s \<union> hash ` set xs"
proof -
  have "hash ` set (stamp_all setStamp n xs) = hash ` set xs"
    by (induction xs arbitrary: n) (auto simp: hash_set)
  then show ?thesis by (simp add: hs_insert_slice_hashes)
qed

lemma slice_insertion_order:
  assumes "stamped_inv hash stamp n s"
  shows "sort_key stamp s = s"
proof (rule sort_key_id_if_sorted)
  from assms have "sorted_wrt (<) (map stamp s)" by (simp add: stamped_inv_def)
  then show "sorted (map stamp s)" by (rule strict_sorted_imp_sorted)
qed

text \<open>The order in which the underlying set lists its items does not matter.\<close>

lemma slice_any_order:
  assumes "stamped_inv hash stamp n s" and "set t = set s" and "distinct t"
  shows "sort_key stamp t = s"
proof -
  from assms(1) have sm: "sorted_wrt (<) (map stamp s)" by (simp add: stamped_inv_def)
  then have inj: "inj_on stamp (set s)" and ds: "distinct s"
    using strict_sorted_iff [of "map stamp s"] by (simp_all add: distinct_map)
  have "map stamp (sort_key stamp t) = map stamp s"
  proof (rule sorted_distinct_set_unique)
    show "sorted (map stamp (sort_key stamp t))" by simp
    show "sorted (map stamp s)" by (rule strict_sorted_imp_sorted [OF sm])
    show "distinct (map stamp s)" using sm strict_sorted_iff by blast
    show "distinct (map stamp (sort_key stamp t))"
      using assms(2,3) inj by (simp add: distinct_map)
  qed (simp add: assms(2))
  then show ?thesis
    using inj assms(2) by (intro map_inj_on [where f = stamp]) auto
qed

end

interpretation chain_items: stamped_items chain_Hash chain_setStamp c_stamp
  by unfold_locales (simp_all add: chain_Hash_def chain_setStamp_def)

interpretation rule_items: stamped_items rule_Hash rule_setStamp r_stamp
  by unfold_locales (simp_all add: rule_Hash_def rule_setStamp_def)

section \<open>Requests keep the invariant\<close>

definition request_inv :: "request \<Rightarrow> bool" where
  "request_inv req \<longleftrightarrow>
     stamped_inv chain_Hash c_stamp (rq_stampValue req) (rq_chains req)
     \<and> stamped_inv rule_Hash r_stamp (rq_stampValue req) (rq_rules req)"

lemma request_inv_new [simp]: "request_inv newRequest"
  by (simp add: request_inv_def newRequest_def chain_items.inv_empty rule_items.inv_empty)

lemma request_inv_add_chains [intro]: "request_inv req \<Longrightarrow> request_inv (add_chains cs req)"
  by (auto simp: request_inv_def add_chains_def chains_InsertSlice_def
      intro: chain_items.inv_insert_slice rule_items.inv_mono)

lemma request_inv_add_rules [intro]: "request_inv req \<Longrightarrow> request_inv (add_rules rs req)"
  by (auto simp: request_inv_def add_rules_def rules_InsertSlice_def
      intro: rule_items.inv_insert_slice chain_items.inv_mono)

lemma add_frame [simp]:
  "rq_rules (add_chains cs req) = rq_rules req" "rq_chains (add_rules rs req) = rq_chains req"
  by (simp_all add: add_chains_def add_rules_def chains_InsertSlice_def rules_InsertSlice_def)

lemma rules_Slice_id: "request_inv req \<Longrightarrow> rules_Slice (rq_rules req) = rq_rules req"
  by (auto simp: request_inv_def rules_Slice_def intro: rule_items.slice_insertion_order)

lemma chains_Slice_id: "request_inv req \<Longrightarrow> chains_Slice (rq_chains req) = rq_chains req"
  by (auto simp: request_inv_def chains_Slice_def intro: chain_items.slice_insertion_order)

text \<open>The items of a collection up to their stamps.\<close>

definition rule_core :: "rule \<Rightarrow> string \<times> string \<times> string list" where
  "rule_core r = (r_table r, r_chain r, r_spec r)"

lemma rule_Hash_core: "rule_core a = rule_core b \<Longrightarrow> rule_Hash a = rule_Hash b"
  by (simp add: rule_core_def rule_Hash_def)

lemma rule_of_entry_slice: "rule_core (rule_of_entry (rule_slice r)) = rule_core r"
  by (cases "r_spec r") (simp_all add: rule_core_def rule_slice_def)

text \<open>A filtered part of a collection keeps its invariant.\<close>

lemma stamped_inv_filter: "stamped_inv h st n s \<Longrightarrow> stamped_inv h st n (filter P s)"
  by (auto simp: stamped_inv_def sorted_wrt_map intro: distinct_map_filter sorted_wrt_filter)

lemma removables_eq:
  assumes "request_inv req"
  shows "rules_removables (rq_rules req) = filter r_removable (rq_rules req)"
proof -
  have "stamped_inv rule_Hash r_stamp (rq_stampValue req) (filter r_removable (rq_rules req))"
    using assms by (auto simp: request_inv_def intro: stamped_inv_filter)
  then show ?thesis
    using hs_insert_slice_distinct [of rule_Hash "[]"]
    by (simp add: rules_removables_def rules_Slice_id [OF assms] stamped_inv_def)
qed

lemma removalInstructions_eq:
  assumes "request_inv req"
  shows "removalInstructions req = map rule_slice (filter r_removable (rq_rules req))"
proof -
  have "stamped_inv rule_Hash r_stamp (rq_stampValue req) (filter r_removable (rq_rules req))"
    using assms by (auto simp: request_inv_def intro: stamped_inv_filter)
  then show ?thesis
    unfolding removalInstructions_def removables_eq [OF assms] rules_Slice_def
    by (simp add: rule_items.slice_insertion_order)
qed

lemma Rules_rules_removal:
  assumes "request_inv req"
  shows "map rule_core (Rules_rules (removalInstructions req))
    = map rule_core (filter r_removable (rq_rules req))"
proof -
  let ?rm = "filter r_removable (rq_rules req)"
  let ?bk = "map (rule_of_entry \<circ> rule_slice) ?rm"
  have "rule_Hash (rule_of_entry (rule_slice r)) = rule_Hash r" for r
    by (rule rule_Hash_core [OF rule_of_entry_slice])
  then have "map rule_Hash ?bk = map rule_Hash ?rm" by simp
  moreover have "distinct (map rule_Hash ?rm)"
    using assms by (auto simp: request_inv_def stamped_inv_def intro: distinct_map_filter)
  ultimately have "distinct (map rule_Hash ?bk)" by metis
  then have "Rules_rules (removalInstructions req) = ?bk"
    using hs_insert_slice_distinct [of rule_Hash "[]" ?bk]
    by (simp add: Rules_rules_def removalInstructions_eq [OF assms] comp_def)
  then show ?thesis by (simp add: rule_of_entry_slice)
qed

section \<open>Properties\<close>

text \<open>
  Requests are ordered and free of duplicates: whatever chains and rules are added to a
  request, its slices list the kept items in the order they were first offered (whatever order
  the underlying hash set uses), there is one item per hash, and nothing offered is lost up to
  its hash.
\<close>

theorem request_slices_in_order:
  fixes cs :: "chain list" and rs :: "rule list"
  assumes "request_inv req"
  defines "req' \<equiv> add_rules rs (add_chains cs req)"
  shows "request_inv req'
    \<and> rules_Slice (rq_rules req') = rq_rules req' \<and> chains_Slice (rq_chains req') = rq_chains req'
    \<and> (\<forall>t. set t = set (rq_rules req') \<longrightarrow> distinct t \<longrightarrow> rules_Slice t = rules_Slice (rq_rules req'))
    \<and> rule_Hash ` set (rq_rules req') = rule_Hash ` set (rq_rules req) \<union> rule_Hash ` set rs
    \<and> chain_Hash ` set (rq_chains req') = chain_Hash ` set (rq_chains req) \<union> chain_Hash ` set cs"
proof -
  have inv: "request_inv req'" using assms by auto
  then have "stamped_inv rule_Hash r_stamp (rq_stampValue req') (rq_rules req')"
    by (simp add: request_inv_def)
  then have "\<forall>t. set t = set (rq_rules req') \<longrightarrow> distinct t \<longrightarrow> rules_Slice t = rules_Slice (rq_rules req')"
    by (simp add: rules_Slice_def rule_items.slice_any_order rule_items.slice_insertion_order)
  moreover have "rule_Hash ` set (rq_rules req') = rule_Hash ` set (rq_rules req) \<union> rule_Hash ` set rs"
    unfolding req'_def add_rules_def rules_InsertSlice_def
    by (simp add: rule_items.hashes_insert_slice add_chains_def split_beta)
  moreover have "chain_Hash ` set (rq_chains req') = chain_Hash ` set (rq_chains req) \<union> chain_Hash ` set cs"
    unfolding req'_def add_chains_def chains_InsertSlice_def
    by (simp add: chain_items.hashes_insert_slice)
  ultimately show ?thesis using inv by (simp add: rules_Slice_id chains_Slice_id)
qed

theorem request_slices_in_order_witness:
  "request_inv newRequest \<and>
   rules_Slice (rq_rules (add_rules [rule_of_entry [''nat'', ''X'', ''-j''], rule_of_entry [''nat'', ''X'', ''-j'']]
     (add_chains [] newRequest))) =
   rq_rules (add_rules [rule_of_entry [''nat'', ''X'', ''-j''], rule_of_entry [''nat'', ''X'', ''-j'']]
     (add_chains [] newRequest))"
  using request_slices_in_order [OF request_inv_new,
      of "[rule_of_entry [''nat'', ''X'', ''-j''], rule_of_entry [''nat'', ''X'', ''-j'']]" "[]"]
  by simp

text \<open>
  Removal instructions round trip: turning the raw instructions a request leaves for teardown
  back into rules gives exactly the removable rules of the request, in order, each with the same
  table, chain and specification.
\<close>

theorem removal_instructions_roundtrip:
  assumes "request_inv req"
  shows "map rule_core (Rules_rules (removalInstructions req))
    = map rule_core (filter r_removable (rules_Slice (rq_rules req)))"
  using Rules_rules_removal [OF assms] rules_Slice_id [OF assms] by simp

theorem removal_instructions_roundtrip_witness:
  "map rule_core (Rules_rules (removalInstructions
     (add_rules [\<lparr>r_table = ''nat'', r_chain = ''C'', r_position = 0, r_spec = [''-j'', ''DNAT''],
        r_removable = True, r_stamp = 0\<rparr>] newRequest))) = [(''nat'', ''C'', [''-j'', ''DNAT''])]"
  using removal_instructions_roundtrip [OF request_inv_add_rules [OF request_inv_new],
      of "[\<lparr>r_table = ''nat'', r_chain = ''C'', r_position = 0, r_spec = [''-j'', ''DNAT''],
        r_removable = True, r_stamp = 0\<rparr>]"]
  by (simp add: add_rules_def rules_InsertSlice_def newRequest_def hs_insert_def rule_setStamp_def
      rules_Slice_def rule_core_def)

end
