(* ===== verification/NetConfig.thy ===== *)
theory NetConfig
  imports Errs
begin

text \<open>
  \<^verbatim>\<open>virt/net/config.go\<close> and \<^verbatim>\<open>virt/net/net.go\<close>: the network interfaces a task asks for, their
  validation (which also fills in the default macvtap mode), and the messages exchanged with the
  network subsystem. A pointer that may be nil is an \<open>option\<close>; the elements of a decoded interface
  list are never nil.
\<close>

section \<open>Interfaces\<close>

definition MacvtapModeBridge :: string where "MacvtapModeBridge = ''bridge''"
definition MacvtapModePrivate :: string where "MacvtapModePrivate = ''private''"
definition MacvtapModeVEPA :: string where "MacvtapModeVEPA = ''vepa''"
definition MacvtapModePassthrough :: string where "MacvtapModePassthrough = ''passthrough''"

definition validMacvtapModes :: "string list" where
  "validMacvtapModes =
     [MacvtapModeBridge, MacvtapModePrivate, MacvtapModeVEPA, MacvtapModePassthrough]"

record BridgeConfig =
  br_Name :: string
  br_Ports :: "string list"

record MacvtapConfig =
  mv_Device :: string
  mv_Mode :: string

record NetworkInterfaceConfig =
  ni_Bridge :: "BridgeConfig option"
  ni_Macvtap :: "MacvtapConfig option"

type_synonym NetworkInterfacesConfig = "NetworkInterfaceConfig list"

fun Bridge_Equal :: "BridgeConfig option \<Rightarrow> BridgeConfig option \<Rightarrow> bool" where
  "Bridge_Equal None None = True"
| "Bridge_Equal (Some n) (Some rhs) =
     (if br_Name n \<noteq> br_Name rhs then False
      else if br_Ports n \<noteq> br_Ports rhs then False else True)"
| "Bridge_Equal _ _ = False"

fun Macvtap_Equal :: "MacvtapConfig option \<Rightarrow> MacvtapConfig option \<Rightarrow> bool" where
  "Macvtap_Equal None None = True"
| "Macvtap_Equal (Some n) (Some rhs) =
     (if mv_Device n \<noteq> mv_Device rhs then False
      else if mv_Mode n \<noteq> mv_Mode rhs then False else True)"
| "Macvtap_Equal _ _ = False"

fun Interface_Equal :: "NetworkInterfaceConfig option \<Rightarrow> NetworkInterfaceConfig option \<Rightarrow> bool" where
  "Interface_Equal (Some n) (Some rhs) =
     (if \<not> Bridge_Equal (ni_Bridge n) (ni_Bridge rhs) then False
      else if \<not> Macvtap_Equal (ni_Macvtap n) (ni_Macvtap rhs) then False
      else True)"
| "Interface_Equal _ _ = False"

fun interfaces_match :: "NetworkInterfacesConfig \<Rightarrow> NetworkInterfacesConfig \<Rightarrow> bool" where
  "interfaces_match (l # ls) (r # rs) =
     (if \<not> Interface_Equal (Some l) (Some r) then False else interfaces_match ls rs)"
| "interfaces_match _ _ = True"

definition Interfaces_Equal :: "NetworkInterfacesConfig \<Rightarrow> NetworkInterfacesConfig \<Rightarrow> bool" where
  "Interfaces_Equal n rhs = (if length n \<noteq> length rhs then False else interfaces_match n rhs)"

section \<open>Validation\<close>

text \<open>
  One interface, with its 1-based index for the messages: the interface with the defaulted mode,
  and the errors collected so far. The body's \<open>continue\<close> is the first branch.
\<close>

definition validate_macvtap :: "string \<Rightarrow> MacvtapConfig \<Rightarrow> goerr list \<Rightarrow> MacvtapConfig \<times> goerr list" where
  "validate_macvtap errPrefix m es =
     (let es = mappend es (MissingAttribute ''macvtap.device'' (AString (mv_Device m))
                 [WithPrefix errPrefix]);
          m' = (if mv_Mode m = [] then m\<lparr>mv_Mode := MacvtapModeBridge\<rparr> else m)
      in (m', mappend es (err_when (mv_Mode m' \<notin> set validMacvtapModes)
            (wrapf (errPrefix @ '' '') ErrInvalidConfiguration
              ('': macvtap has invalid mode '' @ quoted (mv_Mode m') @ ''; must be one of: ''
               @ join '', '' validMacvtapModes)))))"

definition validate_interface ::
  "nat \<Rightarrow> NetworkInterfaceConfig \<Rightarrow> goerr list \<Rightarrow> NetworkInterfaceConfig \<times> goerr list" where
  "validate_interface i n es =
     (let errPrefix = ''network_interface['' @ dec i @ ''] -'' in
      if ni_Bridge n \<noteq> None \<and> ni_Macvtap n \<noteq> None then
        (n, mappend es (Some (wrapf (errPrefix @ '' '') ErrInvalidConfiguration
              '': bridge and macvtap are mutually exclusive'')))
      else
        let es = (case ni_Bridge n of None \<Rightarrow> es
                  | Some b \<Rightarrow> mappend es (MissingAttribute ''bridge.name'' (AString (br_Name b))
                      [WithPrefix errPrefix]))
        in (case ni_Macvtap n of None \<Rightarrow> (n, es)
            | Some m \<Rightarrow> (case validate_macvtap errPrefix m es of
                (m', es') \<Rightarrow> (n\<lparr>ni_Macvtap := Some m'\<rparr>, es'))))"

fun validate_interfaces ::
  "nat \<Rightarrow> NetworkInterfacesConfig \<Rightarrow> goerr list \<Rightarrow> NetworkInterfacesConfig \<times> goerr list" where
  "validate_interfaces i [] es = ([], es)"
| "validate_interfaces i (n # ns) es =
     (case validate_interface i n es of
        (n', es') \<Rightarrow> (case validate_interfaces (Suc i) ns es' of (ns', es'') \<Rightarrow> (n' # ns', es'')))"

definition Interfaces_Validate ::
  "NetworkInterfacesConfig \<Rightarrow> NetworkInterfacesConfig \<times> goerr option" where
  "Interfaces_Validate ns =
     (let es = mappend [] (err_when (length ns > 1)
                 (wrapf [] ErrInvalidConfiguration '': only one network interface can be configured''))
      in case validate_interfaces 1 ns es of (ns', es') \<Rightarrow> (ns', err_or_nil es'))"

definition ConfigurableOnly :: "NetworkInterfacesConfig \<Rightarrow> NetworkInterfacesConfig" where
  "ConfigurableOnly ns = filter (\<lambda>n. ni_Bridge n \<noteq> None) ns"

section \<open>Messages of the network subsystem\<close>

text \<open>
  The \<open>Data any\<close> of a \<open>FilterRemoval\<close>: nil, the \<open>Rules\<close> of the iptables filter, or a value of any
  other type (what a decoder that does not know the type produces), by the name of its type.
\<close>

datatype removal_data = NilData | RulesData "string list list" | OtherData string

record FilterRemoval =
  fr_Name :: string
  fr_Data :: removal_data

record TeardownSpec =
  ts_FilterRemoval :: "FilterRemoval option"
  ts_DHCPReservation :: string
  ts_Network :: string

text \<open>A Nomad port reservation and the ports map of \<open>drivers.Resources\<close> (\<open>None\<close> for nil).\<close>

record PortMapping =
  pm_HostIP :: string
  pm_Value :: int
  pm_To :: int

record Resources =
  res_Ports :: "(string \<rightharpoonup> PortMapping) option"

record VMStartedBuildRequest =
  br_VMName :: string
  br_Hostname :: string
  br_NetConfig :: "NetworkInterfacesConfig option"
  br_Resources :: "Resources option"
  br_Hwaddrs :: "string list"

record VMStartedBuildResponse =
  bs_DriverNetwork_IP :: "string option"
  bs_TeardownSpec :: "TeardownSpec option"

fun TeardownSpec_Equal :: "TeardownSpec option \<Rightarrow> TeardownSpec option \<Rightarrow> bool" where
  "TeardownSpec_Equal (Some t) (Some rhs) =
     (if ts_DHCPReservation t \<noteq> ts_DHCPReservation rhs then False
      else if ts_Network t \<noteq> ts_Network rhs then False
      else if ts_FilterRemoval t \<noteq> ts_FilterRemoval rhs then False
      else True)"
| "TeardownSpec_Equal None None = True"
| "TeardownSpec_Equal _ _ = False"

text \<open>A nil \<open>NetworkInterfacesConfig\<close> has length 0 and compares like an empty one.\<close>

definition nics :: "NetworkInterfacesConfig option \<Rightarrow> NetworkInterfacesConfig" where
  "nics n = (case n of None \<Rightarrow> [] | Some ns \<Rightarrow> ns)"

fun BuildRequest_Equal :: "VMStartedBuildRequest option \<Rightarrow> VMStartedBuildRequest option \<Rightarrow> bool" where
  "BuildRequest_Equal (Some v) (Some rhs) =
     (if br_Hostname v \<noteq> br_Hostname rhs then False
      else if br_Hwaddrs v \<noteq> br_Hwaddrs rhs then False
      else if \<not> Interfaces_Equal (nics (br_NetConfig v)) (nics (br_NetConfig rhs)) then False
      else True)"
| "BuildRequest_Equal _ _ = False"

definition IsActiveString :: "bool \<Rightarrow> string" where
  "IsActiveString active = (if active then ''active'' else ''inactive'')"

section \<open>Lemmas\<close>

lemma Bridge_Equal_eq [simp]: "Bridge_Equal a b \<longleftrightarrow> a = b"
  by (induction a b rule: Bridge_Equal.induct) auto

lemma Macvtap_Equal_eq [simp]: "Macvtap_Equal a b \<longleftrightarrow> a = b"
  by (induction a b rule: Macvtap_Equal.induct) auto

lemma Interface_Equal_Some [simp]: "Interface_Equal (Some a) (Some b) \<longleftrightarrow> a = b"
  by auto

lemma interfaces_match_eq: "length a = length b \<Longrightarrow> interfaces_match a b \<longleftrightarrow> a = b"
  by (induction a b rule: interfaces_match.induct) auto

lemma Interfaces_Equal_eq [simp]: "Interfaces_Equal a b \<longleftrightarrow> a = b"
  by (auto simp: Interfaces_Equal_def interfaces_match_eq)

lemma TeardownSpec_Equal_eq: "TeardownSpec_Equal a b \<longleftrightarrow> a = b"
  by (induction a b rule: TeardownSpec_Equal.induct) auto

text \<open>What an accepted interface looks like before validation, and what it becomes.\<close>

definition interface_ok :: "NetworkInterfaceConfig \<Rightarrow> bool" where
  "interface_ok n \<longleftrightarrow>
     (ni_Bridge n = None \<or> ni_Macvtap n = None)
     \<and> (\<forall>b. ni_Bridge n = Some b \<longrightarrow> br_Name b \<noteq> [])
     \<and> (\<forall>m. ni_Macvtap n = Some m \<longrightarrow> mv_Device m \<noteq> [] \<and> mv_Mode m \<in> set ([] # validMacvtapModes))"

definition default_mode :: "NetworkInterfaceConfig \<Rightarrow> NetworkInterfaceConfig" where
  "default_mode n = (case ni_Macvtap n of
     Some m \<Rightarrow> if ni_Bridge n = None \<and> mv_Mode m = []
               then n\<lparr>ni_Macvtap := Some (m\<lparr>mv_Mode := MacvtapModeBridge\<rparr>)\<rparr> else n
   | None \<Rightarrow> n)"

lemma bridge_mode_valid [simp]: "MacvtapModeBridge \<in> set validMacvtapModes" "[] \<notin> set validMacvtapModes"
  "MacvtapModeBridge \<noteq> []"
  by (simp_all add: validMacvtapModes_def MacvtapModeBridge_def MacvtapModePrivate_def
        MacvtapModeVEPA_def MacvtapModePassthrough_def)

lemma validate_macvtap_spec:
  "fst (validate_macvtap p m es) = (if mv_Mode m = [] then m\<lparr>mv_Mode := MacvtapModeBridge\<rparr> else m)"
  "snd (validate_macvtap p m es) = [] \<longleftrightarrow>
     es = [] \<and> mv_Device m \<noteq> [] \<and> mv_Mode m \<in> set ([] # validMacvtapModes)"
  by (auto simp: validate_macvtap_def Let_def)

lemma validate_interface_spec:
  "fst (validate_interface i n es) = default_mode n"
  "snd (validate_interface i n es) = [] \<longleftrightarrow> es = [] \<and> interface_ok n"
proof -
  show "fst (validate_interface i n es) = default_mode n"
    by (auto simp: validate_interface_def default_mode_def Let_def split_beta validate_macvtap_spec
        split: option.splits)
  show "snd (validate_interface i n es) = [] \<longleftrightarrow> es = [] \<and> interface_ok n"
    by (auto simp: validate_interface_def interface_ok_def Let_def split_beta validate_macvtap_spec
        split: option.splits)
qed

lemma validate_interfaces_spec:
  "fst (validate_interfaces i ns es) = map default_mode ns"
  "snd (validate_interfaces i ns es) = [] \<longleftrightarrow> es = [] \<and> list_all interface_ok ns"
proof (induction ns arbitrary: i es)
  case (Cons n ns)
  {
    case 1
    show ?case using Cons.IH(1) by (simp add: split_beta validate_interface_spec)
  next
    case 2
    show ?case using Cons.IH(2) by (simp add: split_beta validate_interface_spec)
  }
qed simp_all

lemma default_mode_idem [simp]: "default_mode (default_mode n) = default_mode n"
  by (auto simp: default_mode_def split: option.splits)

lemma interface_ok_default_mode [simp]: "interface_ok (default_mode n) \<longleftrightarrow> interface_ok n"
  by (auto simp: interface_ok_def default_mode_def split: option.splits)

lemma Interfaces_Validate_spec:
  "fst (Interfaces_Validate ns) = map default_mode ns"
  "snd (Interfaces_Validate ns) = None \<longleftrightarrow> length ns \<le> 1 \<and> list_all interface_ok ns"
  by (auto simp: Interfaces_Validate_def Let_def split_beta validate_interfaces_spec)

section \<open>Properties\<close>

text \<open>
  Validation of a task's network interfaces: it fills in the default macvtap mode and changes
  nothing else, it accepts exactly the lists of at most one interface in which bridge and macvtap
  are exclusive, a bridge is named, and a macvtap has a device and a known mode (or none), and
  validating its own output again changes nothing and gives the same verdict.
\<close>

theorem Interfaces_Validate_correct:
  "fst (Interfaces_Validate ns) = map default_mode ns
   \<and> (snd (Interfaces_Validate ns) = None \<longleftrightarrow> length ns \<le> 1 \<and> list_all interface_ok ns)
   \<and> fst (Interfaces_Validate (fst (Interfaces_Validate ns))) = fst (Interfaces_Validate ns)
   \<and> (snd (Interfaces_Validate (fst (Interfaces_Validate ns))) = None
        \<longleftrightarrow> snd (Interfaces_Validate ns) = None)"
  by (simp add: Interfaces_Validate_spec list.pred_map comp_def)

end
