(* ===== verification/NetIP.thy ===== *)
theory NetIP
  imports Prelude
begin

text \<open>
  What the driver uses of Go's \<open>net/netip\<close> (Go 1.25): \<open>ParseAddr\<close>, \<open>Addr.IsLoopback\<close> and
  \<open>Prefix.Contains\<close>. An address is its bytes (4 or 16), an IPv6 address with its zone.
\<close>

section \<open>Addresses\<close>

datatype addr = V4 "nat list" | V6 "nat list" string

definition errParseAddr :: "string \<Rightarrow> goerr" where
  "errParseAddr s = ErrNew (''ParseAddr('' @ quoted s @ ''): unable to parse IP'')"

text \<open>One dotted field: one to three digits, no leading zero, at most 255.\<close>

definition ip4_field :: "string \<Rightarrow> nat option" where
  "ip4_field s =
     (if s = [] \<or> \<not> list_all is_digit s \<or> (length s > 1 \<and> hd s = CHR ''0'') \<or> dec_val s > 255
      then None else Some (dec_val s))"

definition parseIPv4Fields :: "string \<Rightarrow> nat list option" where
  "parseIPv4Fields s = (case map ip4_field (split_on CHR ''.'' s) of
     [Some a, Some b, Some c, Some d] \<Rightarrow> Some [a, b, c, d] | _ \<Rightarrow> None)"

definition hex_val :: "char \<Rightarrow> nat option" where
  "hex_val c = (let n = (of_char c :: nat) in
     if is_digit c then Some (n - 48)
     else if 97 \<le> n \<and> n \<le> 102 then Some (n - 87)
     else if 65 \<le> n \<and> n \<le> 70 then Some (n - 55)
     else None)"

definition is_hex :: "char \<Rightarrow> bool" where
  "is_hex c = (hex_val c \<noteq> None)"

definition hex_acc :: "string \<Rightarrow> nat" where
  "hex_acc s = foldl (\<lambda>acc c. 16 * acc + (case hex_val c of Some d \<Rightarrow> d | None \<Rightarrow> 0)) 0 s"

text \<open>
  The loop of \<open>parseIPv6\<close> over at most eight groups: the bytes read, the position of the
  ellipsis, and the text left over.
\<close>

fun v6_groups :: "nat \<Rightarrow> nat list \<Rightarrow> nat option \<Rightarrow> string \<Rightarrow> (nat list \<times> nat option \<times> string) option" where
  "v6_groups 0 ip ellipsis s = Some (ip, ellipsis, s)"
| "v6_groups (Suc k) ip ellipsis s =
     (let h = takeWhile is_hex s; r = dropWhile is_hex s in
      if h = [] \<or> length h > 4 then None
      else if r \<noteq> [] \<and> hd r = CHR ''.'' then
        (if (ellipsis = None \<and> length ip \<noteq> 12) \<or> length ip + 4 > 16 then None
         else map_option (\<lambda>f. (ip @ f, ellipsis, [])) (parseIPv4Fields s))
      else
        let ip' = ip @ [hex_acc h div 256, hex_acc h mod 256] in
        (case r of
           [] \<Rightarrow> Some (ip', ellipsis, [])
         | c # r' \<Rightarrow>
             if c \<noteq> CHR '':'' then None
             else (case r' of
                [] \<Rightarrow> None
              | c2 # r'' \<Rightarrow>
                  if c2 = CHR '':'' then
                    (if ellipsis \<noteq> None then None
                     else if r'' = [] then Some (ip', Some (length ip'), [])
                     else v6_groups k ip' (Some (length ip')) r'')
                  else v6_groups k ip' ellipsis r')))"

definition v6_expand :: "nat list \<times> nat option \<times> string \<Rightarrow> nat list option" where
  "v6_expand x = (case x of (ip, ellipsis, rest) \<Rightarrow>
     if rest \<noteq> [] then None
     else if length ip < 16 then
       (case ellipsis of None \<Rightarrow> None
        | Some e \<Rightarrow> Some (take e ip @ replicate (16 - length ip) 0 @ drop e ip))
     else if ellipsis \<noteq> None then None
     else Some ip)"

definition parseIPv6 :: "string \<Rightarrow> addr option" where
  "parseIPv6 s0 =
     (let s = takeWhile (\<lambda>c. c \<noteq> CHR ''%'') s0;
          z = dropWhile (\<lambda>c. c \<noteq> CHR ''%'') s0 in
      if length z = 1 then None
      else
        let zone = drop 1 z in
        if take 2 s = ''::'' then
          (if drop 2 s = [] then Some (V6 (replicate 16 0) zone)
           else map_option (\<lambda>ip. V6 ip zone)
                  (Option.bind (v6_groups 8 [] (Some 0) (drop 2 s)) v6_expand))
        else map_option (\<lambda>ip. V6 ip zone) (Option.bind (v6_groups 8 [] None s) v6_expand))"

text \<open>The first of \<open>.\<close>, \<open>:\<close> and \<open>%\<close> decides which parser is used.\<close>

definition ParseAddr :: "string \<Rightarrow> addr res" where
  "ParseAddr s = (case dropWhile (\<lambda>c. c \<notin> set ''.:%'') s of
     [] \<Rightarrow> Fail (errParseAddr s)
   | c # _ \<Rightarrow>
       if c = CHR ''.'' then
         (case parseIPv4Fields s of None \<Rightarrow> Fail (errParseAddr s) | Some bs \<Rightarrow> Ok (V4 bs))
       else if c = CHR '':'' then
         (case parseIPv6 s of None \<Rightarrow> Fail (errParseAddr s) | Some a \<Rightarrow> Ok a)
       else Fail (errParseAddr s))"

text \<open>\<open>IsLoopback\<close>: 127.0.0.0/8, the same mapped into IPv6, or ::1.\<close>

definition is_4in6 :: "nat list \<Rightarrow> bool" where
  "is_4in6 bs = (take 12 bs = replicate 10 0 @ [255, 255])"

fun IsLoopback :: "addr \<Rightarrow> bool" where
  "IsLoopback (V4 bs) = (bs \<noteq> [] \<and> hd bs = 127)"
| "IsLoopback (V6 bs z) =
     (if is_4in6 bs then bs ! 12 = 127 else bs = replicate 15 0 @ [1])"

text \<open>Bits of an address, most significant first, and membership in a prefix of \<open>n\<close> bits.\<close>

definition byte_bits :: "nat \<Rightarrow> bool list" where
  "byte_bits b = map (\<lambda>i. odd (b div 2 ^ (7 - i))) [0..<8]"

definition addr_bits :: "nat list \<Rightarrow> bool list" where
  "addr_bits bs = concat (map byte_bits bs)"

fun prefix_contains :: "addr \<times> nat \<Rightarrow> addr \<Rightarrow> bool" where
  "prefix_contains (V4 p, n) (V4 a) = (take n (addr_bits p) = take n (addr_bits a))"
| "prefix_contains (V6 p zp, n) (V6 a za) = (za = [] \<and> take n (addr_bits p) = take n (addr_bits a))"
| "prefix_contains _ _ = False"

text \<open>
  \<open>ParsePrefix\<close> (split at the last slash, no zone, no leading zero) and \<open>net.ParseCIDR\<close> (split at the
  first slash): the address and the number of bits. \<open>ip16\<close> is the 16-byte form in which
  \<open>net.IP.Equal\<close> compares.
\<close>

fun addr_len :: "addr \<Rightarrow> nat" where
  "addr_len (V4 bs) = 32"
| "addr_len (V6 bs z) = 128"

fun has_zone :: "addr \<Rightarrow> bool" where
  "has_zone (V4 bs) = False"
| "has_zone (V6 bs z) = (z \<noteq> [])"

definition prefix_of :: "bool \<Rightarrow> string \<Rightarrow> string \<Rightarrow> (addr \<times> nat) option" where
  "prefix_of strict a m = (case ParseAddr a of
     Ok ad \<Rightarrow>
       if has_zone ad \<or> m = [] \<or> \<not> list_all is_digit m \<or> dec_val m > addr_len ad
          \<or> (strict \<and> length m > 1 \<and> hd m \<in> set ''0'') then None
       else Some (ad, dec_val m)
   | _ \<Rightarrow> None)"

definition ParsePrefix :: "string \<Rightarrow> (addr \<times> nat) option" where
  "ParsePrefix s = (let r = rev s in
     if CHR ''/'' \<notin> set s then None
     else prefix_of True (rev (drop 1 (dropWhile (\<lambda>c. c \<noteq> CHR ''/'') r)))
            (rev (takeWhile (\<lambda>c. c \<noteq> CHR ''/'') r)))"

definition ParseCIDR :: "string \<Rightarrow> (addr \<times> nat) option" where
  "ParseCIDR s = (if CHR ''/'' \<notin> set s then None
     else prefix_of False (takeWhile (\<lambda>c. c \<noteq> CHR ''/'') s)
            (drop 1 (dropWhile (\<lambda>c. c \<noteq> CHR ''/'') s)))"

fun ip16 :: "addr \<Rightarrow> nat list" where
  "ip16 (V4 bs) = replicate 10 0 @ [255, 255] @ bs"
| "ip16 (V6 bs z) = bs"

text \<open>\<open>net.ParseIP\<close>: nil for text that is no address or has a zone.\<close>

definition ParseIP :: "string \<Rightarrow> addr option" where
  "ParseIP s = (case ParseAddr s of Ok a \<Rightarrow> if has_zone a then None else Some a | _ \<Rightarrow> None)"

section \<open>Lemmas\<close>

text \<open>A decimal number has a leading zero only when it is zero.\<close>

lemma dec_hd_zero: "hd (dec n) = CHR ''0'' \<Longrightarrow> n = 0"
proof (induction n rule: dec.induct)
  case (1 n)
  show ?case
  proof (cases "n < 10")
    case True
    then have "dec n = [digit_char n]" by (subst dec.simps) simp
    with 1 have "digit_char n = CHR ''0''" by simp
    then have "of_char (digit_char n) = (48 :: nat)" by simp
    with True show ?thesis by simp
  next
    case False
    then have "dec n = dec (n div 10) @ [digit_char (n mod 10)]" by (subst dec.simps) simp
    with 1 False show ?thesis by auto
  qed
qed

lemma ip4_field_dec: "a \<le> 255 \<Longrightarrow> ip4_field (dec a) = Some a"
  using dec_digits [of a] dec_hd_zero [of a]
  by (cases "a = 0") (auto simp: ip4_field_def dec.simps [of 0] dec_val_def [of "[_]"])

lemma dec_no_char: "\<not> is_digit c \<Longrightarrow> c \<notin> set (dec n)"
  using dec_digits [of n] by (auto simp: list_all_iff)

text \<open>A dotted quad parses to its bytes, and is a loopback address exactly under 127.0.0.0/8.\<close>

lemma parseIPv4Fields_quad:
  assumes "a \<le> 255" "b \<le> 255" "c \<le> 255" "d \<le> 255"
  shows "parseIPv4Fields (join ''.'' (map dec [a, b, c, d])) = Some [a, b, c, d]"
proof -
  have "CHR ''.'' \<notin> set (dec n)" for n
    by (rule dec_no_char) (simp add: is_digit_def)
  then have "split_on CHR ''.'' (join ''.'' (map dec [a, b, c, d])) = map dec [a, b, c, d]"
    by (intro split_on_join) auto
  then show ?thesis using assms by (simp add: parseIPv4Fields_def ip4_field_dec)
qed

end
