(* ===== verification/VirtTables.thy ===== *)
theory VirtTables
  imports Iptables NetConfig NetIP
begin

text \<open>
  \<^verbatim>\<open>net/filter/iptables/tables.go\<close> and \<^verbatim>\<open>iptables.go\<close>: the iptables filter. The \<open>IPTables\<close>
  interface, which a third-party package implements, is the record of its operations on a world
  \<open>'w\<close>; the host (its interfaces, its files) is read through a second record. What the package
  documents of its operations is the predicate \<open>ipt_laws\<close>.
\<close>

section \<open>The interfaces the filter uses\<close>

record 'w IPTables =
  ipt_AppendUnique :: "string \<Rightarrow> string \<Rightarrow> string list \<Rightarrow> ('w, unit) io"
  ipt_ChainExists :: "string \<Rightarrow> string \<Rightarrow> ('w, bool) io"
  ipt_ClearAndDeleteChain :: "string \<Rightarrow> string \<Rightarrow> ('w, unit) io"
  ipt_DeleteIfExists :: "string \<Rightarrow> string \<Rightarrow> string list \<Rightarrow> ('w, unit) io"
  ipt_InsertUnique :: "string \<Rightarrow> string \<Rightarrow> int \<Rightarrow> string list \<Rightarrow> ('w, unit) io"
  ipt_NewChain :: "string \<Rightarrow> string \<Rightarrow> ('w, unit) io"
  ipt_IsNotExist :: "goerr \<Rightarrow> bool"

record iface =
  if_Name :: string
  if_Addrs :: "string list option"

text \<open>\<open>hw_ReadFile\<close> gives \<open>Fail ErrNotExist\<close> (possibly wrapped) for a missing file.\<close>

definition os_ErrNotExist :: goerr where
  "os_ErrNotExist = ErrNew ''file does not exist''"

record 'w host =
  hw_Interfaces :: "'w \<Rightarrow> iface list res"
  hw_ReadFile :: "string \<Rightarrow> 'w \<Rightarrow> string res"

record 'w virtTables =
  vt_ipt :: "'w IPTables"
  vt_names :: names
  vt_routeLocalnetPathTemplate :: "string \<times> string"
  vt_interfaceByIPGetter :: "addr option \<Rightarrow> 'w \<Rightarrow> string res"
  vt_routingInterfaceByIPGetter :: "string \<Rightarrow> 'w \<Rightarrow> string res"
  vt_host :: "'w host"

definition errLoopbackNotEnabled :: goerr where
  "errLoopbackNotEnabled = ErrNew ''loopback port forwarding not enabled''"

text \<open>The path template is its text before and after the verb; ([], []) is the unset template.\<close>

definition routeLocalnetPathTemplate :: "string \<times> string" where
  "routeLocalnetPathTemplate = (''/proc/sys/net/ipv4/conf/'', ''/route_localnet'')"

definition routeLocalnetGlobalName :: string where
  "routeLocalnetGlobalName = ''all''"

definition removalName :: string where
  "removalName = ''iptables''"

text \<open>\<open>strings.TrimSpace\<close> on ASCII white space.\<close>

definition go_space :: "char \<Rightarrow> bool" where
  "go_space c = (let n = (of_char c :: nat) in n = 32 \<or> (9 \<le> n \<and> n \<le> 13))"

definition TrimSpace :: "string \<Rightarrow> string" where
  "TrimSpace s = rev (dropWhile go_space (rev (dropWhile go_space s)))"

section \<open>Interfaces of the host\<close>

definition net_IP_Equal :: "addr option \<Rightarrow> addr option \<Rightarrow> bool" where
  "net_IP_Equal a b = (case (a, b) of
     (Some x, Some y) \<Rightarrow> ip16 x = ip16 y | (None, None) \<Rightarrow> True | _ \<Rightarrow> False)"

definition cidr_is :: "addr option \<Rightarrow> string \<Rightarrow> bool" where
  "cidr_is ip a = (case ParseCIDR a of None \<Rightarrow> False | Some (iip, _) \<Rightarrow> net_IP_Equal (Some iip) ip)"

fun find_iface :: "(string \<Rightarrow> bool) \<Rightarrow> iface list \<Rightarrow> string option" where
  "find_iface ok [] = None"
| "find_iface ok (i # is) = (case if_Addrs i of
     None \<Rightarrow> find_iface ok is
   | Some addrs \<Rightarrow> if list_ex ok addrs then Some (if_Name i) else find_iface ok is)"

text \<open>The text of the address in the message is that of Go's own printer and is left out.\<close>

definition getInterfaceByIP :: "'w host \<Rightarrow> addr option \<Rightarrow> 'w \<Rightarrow> string res" where
  "getInterfaceByIP h ip w = rbind (hw_Interfaces h w) (\<lambda>interfaces.
     case find_iface (cidr_is ip) interfaces of
       Some nm \<Rightarrow> Ok nm
     | None \<Rightarrow> Fail (ErrNew ''failed to find interface for IP''))"

definition prefix_has :: "addr \<Rightarrow> string \<Rightarrow> bool" where
  "prefix_has checkAddr a = (case ParsePrefix a of None \<Rightarrow> False | Some p \<Rightarrow> prefix_contains p checkAddr)"

definition getRoutingInterfaceByIP :: "'w host \<Rightarrow> string \<Rightarrow> 'w \<Rightarrow> string res" where
  "getRoutingInterfaceByIP h ip w = rbind (hw_Interfaces h w) (\<lambda>interfaces.
     rbind (ParseAddr ip) (\<lambda>checkAddr.
       case find_iface (prefix_has checkAddr) interfaces of
         Some nm \<Rightarrow> Ok nm
       | None \<Rightarrow> Fail (ErrNew (''failed to find interface for IP '' @ quoted ip))))"

text \<open>The loop over the global name and the device: a missing file is skipped.\<close>

fun localnet_loop :: "(string \<Rightarrow> string res) \<Rightarrow> string list \<Rightarrow> bool" where
  "localnet_loop rd [] = False"
| "localnet_loop rd (cfgPath # ps) = (case rd cfgPath of
     Fail e \<Rightarrow> if is_err os_ErrNotExist e then localnet_loop rd ps else False
   | Panic _ \<Rightarrow> False
   | Ok content \<Rightarrow> if TrimSpace content = ''1'' then True else localnet_loop rd ps)"

definition loopbackPortForwardsSupported :: "'w virtTables \<Rightarrow> string \<Rightarrow> 'w \<Rightarrow> bool" where
  "loopbackPortForwardsSupported n device w =
     (let tmpl = (if vt_routeLocalnetPathTemplate n = ([], []) then routeLocalnetPathTemplate
                  else vt_routeLocalnetPathTemplate n) in
      localnet_loop (\<lambda>p. hw_ReadFile (vt_host n) p w)
        (map (\<lambda>configName. fst tmpl @ configName @ snd tmpl) [routeLocalnetGlobalName, device]))"

section \<open>Adding and removing\<close>

definition add_chain :: "'w IPTables \<Rightarrow> chain \<Rightarrow> ('w, unit) io" where
  "add_chain ipt c =
     iobind (iowrap ''failed to check chain existence: '' [] (ipt_ChainExists ipt (c_table c) (c_chain c)))
       (\<lambda>exists. if \<not> exists
          then iowrap ''failed to create new chain: '' [] (ipt_NewChain ipt (c_table c) (c_chain c))
          else ret ())"

definition add_rule :: "'w IPTables \<Rightarrow> rule \<Rightarrow> ('w, unit) io" where
  "add_rule ipt r = iowrap ''failed to add rule: '' []
     (if r_position r > 0
      then ipt_InsertUnique ipt (r_table r) (r_chain r) (r_position r) (r_spec r)
      else ipt_AppendUnique ipt (r_table r) (r_chain r) (r_spec r))"

definition vt_add :: "'w virtTables \<Rightarrow> request \<Rightarrow> ('w, unit) io" where
  "vt_add n req =
     iobind (iofor (chains_Slice (rq_chains req)) (add_chain (vt_ipt n)))
       (\<lambda>_. iofor (rules_Slice (rq_rules req)) (add_rule (vt_ipt n)))"

text \<open>The removal loops collect errors; a panic of the package would still unwind.\<close>

fun remove_rules :: "'w IPTables \<Rightarrow> rule list \<Rightarrow> goerr list \<Rightarrow> ('w, goerr list) io" where
  "remove_rules ipt [] es = ret es"
| "remove_rules ipt (r # rs) es =
     iotry (ipt_DeleteIfExists ipt (r_table r) (r_chain r) (r_spec r))
       (\<lambda>_. remove_rules ipt rs es)
       (\<lambda>e. remove_rules ipt rs (if \<not> ipt_IsNotExist ipt e then mappend es (Some e) else es))"

fun remove_chains :: "'w IPTables \<Rightarrow> chain list \<Rightarrow> goerr list \<Rightarrow> ('w, goerr list) io" where
  "remove_chains ipt [] es = ret es"
| "remove_chains ipt (c # cs) es =
     iotry (ipt_ClearAndDeleteChain ipt (c_table c) (c_chain c))
       (\<lambda>_. remove_chains ipt cs es)
       (\<lambda>e. remove_chains ipt cs (mappend es (Some e)))"

text \<open>\<open>Contains\<close> of a hash set compares hashes.\<close>

definition chains_Contains :: "chain list \<Rightarrow> chain \<Rightarrow> bool" where
  "chains_Contains cs c = (chain_Hash c \<in> chain_Hash ` set cs)"

definition vt_remove :: "'w virtTables \<Rightarrow> request \<Rightarrow> ('w, unit) io" where
  "vt_remove n req =
     (let rules = filter (\<lambda>r. \<not> chains_Contains (rq_chains req) (mkchain r)) (rq_rules req) in
      iobind (remove_rules (vt_ipt n) (rules_Slice rules) []) (\<lambda>es.
      iobind (remove_chains (vt_ipt n) (chains_Slice (rq_chains req)) es) (\<lambda>es.
      lift (of_err (err_or_nil es)))))"

section \<open>Setup and the singleton\<close>

definition mk_rule :: "string \<Rightarrow> string \<Rightarrow> int \<Rightarrow> bool \<Rightarrow> string list \<Rightarrow> rule" where
  "mk_rule t c pos rm spec = \<lparr>r_table = t, r_chain = c, r_position = pos, r_spec = spec,
     r_removable = rm, r_stamp = 0\<rparr>"

definition mk_chain :: "string \<Rightarrow> string \<Rightarrow> chain" where
  "mk_chain t c = \<lparr>c_table = t, c_chain = c, c_stamp = 0\<rparr>"

definition setup_request :: "names \<Rightarrow> request" where
  "setup_request nm = (let nat = tn_NAT (nm_tables nm); filt = tn_Filter (nm_tables nm);
       cn = nm_chains nm; nomad = cn_Nomad cn in
     add_rules [mk_rule nat (cn_Prerouting cn) 1 False [''-j'', nn_Prerouting nomad],
                mk_rule filt (cn_Forward cn) 1 False [''-j'', nn_Forward nomad]]
      (add_chains [mk_chain nat (nn_Prerouting nomad), mk_chain filt (nn_Forward nomad)] newRequest))"

definition vt_setup :: "'w virtTables \<Rightarrow> ('w, unit) io" where
  "vt_setup n = iowrap ''setup failure: '' [] (vt_add n (setup_request (vt_names n)))"

text \<open>
  \<open>New\<close> with the package's constructor as a parameter. The package-level singleton is the first
  component of the state: it is set only once the setup has succeeded.
\<close>

definition new_tables :: "'w host \<Rightarrow> 'w IPTables \<Rightarrow> 'w virtTables" where
  "new_tables h ipt = \<lparr>vt_ipt = ipt, vt_names = NewNames, vt_routeLocalnetPathTemplate = ([], []),
     vt_interfaceByIPGetter = getInterfaceByIP h,
     vt_routingInterfaceByIPGetter = getRoutingInterfaceByIP h, vt_host = h\<rparr>"

fun vt_New ::
  "'w IPTables res \<Rightarrow> 'w host \<Rightarrow> ('w virtTables option \<times> 'w, 'w virtTables) io" where
  "vt_New iptNew h (Some n, w) = (Ok n, (Some n, w))"
| "vt_New (Fail e) h (None, w) = (Fail e, (None, w))"
| "vt_New (Panic p) h (None, w) = (Panic p, (None, w))"
| "vt_New (Ok ipt) h (None, w) = (case vt_setup (new_tables h ipt) w of
     (Ok _, w') \<Rightarrow> (Ok (new_tables h ipt), (Some (new_tables h ipt), w'))
   | (Fail e, w') \<Rightarrow> (Fail e, (None, w'))
   | (Panic p, w') \<Rightarrow> (Panic p, (None, w')))"

section \<open>Configure and Teardown\<close>

definition loopback_rules :: "names \<Rightarrow> PortMapping \<Rightarrow> string \<Rightarrow> string \<Rightarrow> string \<Rightarrow> rule list" where
  "loopback_rules nm p ip iface dstIface = (let nat = tn_NAT (nm_tables nm); cn = nm_chains nm;
       nomad = cn_Nomad cn in
     [mk_rule nat (cn_Output cn) 1 False [''-j'', nn_Output nomad],
      mk_rule nat (cn_Postrouting cn) 1 False [''-j'', nn_Postrouting nomad],
      mk_rule nat (nn_Postrouting nomad) 0 False
        [''-o'', dstIface, ''-m'', ''addrtype'', ''--src-type'', ''LOCAL'',
         ''--dst-type'', ''UNICAST'', ''-j'', ''MASQUERADE''],
      mk_rule nat (nn_Output nomad) 0 True
        [''-s'', pm_HostIP p, ''-o'', iface, ''-p'', ''tcp'', ''-m'', ''tcp'',
         ''--dport'', itoa (pm_Value p), ''-j'', ''DNAT'', ''--to-destination'',
         ip @ '':'' @ itoa (pm_To p)]])"

definition loopback_chains :: "names \<Rightarrow> chain list" where
  "loopback_chains nm = (let nat = tn_NAT (nm_tables nm); nomad = cn_Nomad (nm_chains nm) in
     [mk_chain nat (nn_Output nomad), mk_chain nat (nn_Postrouting nomad)])"

definition routed_rules :: "names \<Rightarrow> PortMapping \<Rightarrow> string \<Rightarrow> string \<Rightarrow> rule list" where
  "routed_rules nm p ip iface = (let nat = tn_NAT (nm_tables nm); filt = tn_Filter (nm_tables nm);
       nomad = cn_Nomad (nm_chains nm) in
     [mk_rule nat (nn_Prerouting nomad) 0 True
        [''-d'', pm_HostIP p, ''-i'', iface, ''-p'', ''tcp'', ''-m'', ''tcp'',
         ''--dport'', itoa (pm_Value p), ''-j'', ''DNAT'', ''--to-destination'',
         ip @ '':'' @ itoa (pm_To p)],
      mk_rule filt (nn_Forward nomad) 0 True
        [''-d'', ip, ''-p'', ''tcp'', ''-m'', ''state'', ''--state'', ''NEW'', ''-m'', ''tcp'',
         ''--dport'', itoa (pm_To p), ''-j'', ''ACCEPT'']])"

text \<open>A lookup through the cache of interface names, which host and destination share.\<close>

definition cached :: "(string \<rightharpoonup> string) \<Rightarrow> string \<Rightarrow> string res \<Rightarrow> (string \<times> (string \<rightharpoonup> string)) res" where
  "cached im k r = (case im k of
     Some i \<Rightarrow> Ok (i, im)
   | None \<Rightarrow> (case r of
       Ok i \<Rightarrow> Ok (i, im(k \<mapsto> i))
     | Fail e \<Rightarrow> Fail (wrapf ''failed to identify IP interface: '' e [])
     | Panic p \<Rightarrow> Panic p))"

definition parse_host :: "string \<Rightarrow> addr res" where
  "parse_host s = (case ParseAddr s of
     Fail e \<Rightarrow> Fail (wrapf ''failed to parse host IP address: '' e []) | r \<Rightarrow> r)"

definition configure_loopback ::
  "'w virtTables \<Rightarrow> string \<Rightarrow> 'w \<Rightarrow> PortMapping \<Rightarrow> string \<Rightarrow> (string \<rightharpoonup> string) \<Rightarrow> request
     \<Rightarrow> ((string \<rightharpoonup> string) \<times> request) res" where
  "configure_loopback n ip w p iface im req =
     rbind (cached im ip (vt_routingInterfaceByIPGetter n ip w)) (\<lambda>(dstIface, im).
       if \<not> loopbackPortForwardsSupported n dstIface w
       then Fail (wrapf [] errLoopbackNotEnabled ('' for device - '' @ dstIface))
       else Ok (im, add_rules (loopback_rules (vt_names n) p ip iface dstIface)
                      (add_chains (loopback_chains (vt_names n)) req)))"

definition configure_port ::
  "'w virtTables \<Rightarrow> (string \<rightharpoonup> PortMapping) \<Rightarrow> string \<Rightarrow> 'w \<Rightarrow> string
     \<Rightarrow> (string \<rightharpoonup> string) \<times> request \<Rightarrow> ((string \<rightharpoonup> string) \<times> request) res" where
  "configure_port n ports ip w port st = (case st of (im, req) \<Rightarrow>
     (case ports port of
        None \<Rightarrow> Ok (im, req)
      | Some p \<Rightarrow>
          rbind (cached im (pm_HostIP p) (vt_interfaceByIPGetter n (ParseIP (pm_HostIP p)) w))
            (\<lambda>(iface, im).
          rbind (parse_host (pm_HostIP p)) (\<lambda>hostIP.
            if IsLoopback hostIP then configure_loopback n ip w p iface im req
            else Ok (im, add_rules (routed_rules (vt_names n) p ip iface) req)))))"

fun configure_ports ::
  "'w virtTables \<Rightarrow> (string \<rightharpoonup> PortMapping) \<Rightarrow> string \<Rightarrow> 'w \<Rightarrow> string list
     \<Rightarrow> (string \<rightharpoonup> string) \<times> request \<Rightarrow> ((string \<rightharpoonup> string) \<times> request) res" where
  "configure_ports n ports ip w [] st = Ok st"
| "configure_ports n ports ip w (port # ps) st =
     rbind (configure_port n ports ip w port st) (\<lambda>st'. configure_ports n ports ip w ps st')"

definition Configure ::
  "'w virtTables \<Rightarrow> Resources option \<Rightarrow> BridgeConfig option \<Rightarrow> string \<Rightarrow> ('w, FilterRemoval) io" where
  "Configure n res cfg ip = (\<lambda>w. (case res of
     None \<Rightarrow> throw (ErrNew ''cannot configure iptables, resources not provided'') w
   | Some res \<Rightarrow> (case cfg of
       None \<Rightarrow> throw (ErrNew ''cannot configure iptables, bridge config not provided'') w
     | Some cfg \<Rightarrow> (case res_Ports res of
         None \<Rightarrow> ret \<lparr>fr_Name = removalName, fr_Data = NilData\<rparr> w
       | Some ports \<Rightarrow>
           iobind (lift (configure_ports n ports ip w (br_Ports cfg) (Map.empty, newRequest)))
             (\<lambda>(im, req). iobind (vt_add n req)
               (\<lambda>_. ret \<lparr>fr_Name = removalName, fr_Data = RulesData (removalInstructions req)\<rparr>)) w))))"

definition teardown_request :: "string list list \<Rightarrow> request" where
  "teardown_request rules = add_rules (Rules_rules rules) newRequest"

definition Teardown :: "'w virtTables \<Rightarrow> FilterRemoval option \<Rightarrow> ('w, unit) io" where
  "Teardown n removal = (case removal of
     None \<Rightarrow> ret ()
   | Some rm \<Rightarrow> (case fr_Data rm of
       NilData \<Rightarrow> ret ()
     | OtherData _ \<Rightarrow> throw (ErrNew ''invalid teardown data, cannot remove iptables rules'')
     | RulesData rules \<Rightarrow> vt_remove n (teardown_request rules)))"

section \<open>The firewall the operations work on\<close>

text \<open>
  Abstractly the firewall maps a table and a chain to the specifications of its rules, in order.
  \<open>fw_rule\<close> is what adding a rule of a request does, \<open>fw_delete\<close> what deleting one does.
\<close>

type_synonym fw = "string \<times> string \<rightharpoonup> string list list"

definition insert_at :: "int \<Rightarrow> 'a \<Rightarrow> 'a list \<Rightarrow> 'a list" where
  "insert_at pos x xs = take (nat (pos - 1)) xs @ [x] @ drop (nat (pos - 1)) xs"

definition put_unique :: "int \<Rightarrow> string list \<Rightarrow> string list list \<Rightarrow> string list list" where
  "put_unique pos s rs = (if s \<in> set rs then rs else if pos > 0 then insert_at pos s rs else rs @ [s])"

definition fw_upd :: "string \<times> string \<Rightarrow> (string list list \<Rightarrow> string list list) \<Rightarrow> fw \<Rightarrow> fw" where
  "fw_upd k f v = v(k := map_option f (v k))"

definition r_key :: "rule \<Rightarrow> string \<times> string" where
  "r_key r = (r_table r, r_chain r)"

definition fw_chain :: "chain \<Rightarrow> fw \<Rightarrow> fw" where
  "fw_chain c v = (let k = (c_table c, c_chain c) in if v k = None then v(k \<mapsto> []) else v)"

definition fw_rule :: "rule \<Rightarrow> fw \<Rightarrow> fw" where
  "fw_rule r = fw_upd (r_key r) (put_unique (r_position r) (r_spec r))"

definition fw_delete :: "rule \<Rightarrow> fw \<Rightarrow> fw" where
  "fw_delete r = fw_upd (r_key r) (remove1 (r_spec r))"

definition fw_add :: "chain list \<Rightarrow> rule list \<Rightarrow> fw \<Rightarrow> fw" where
  "fw_add cs rs v = fold fw_rule rs (fold fw_chain cs v)"

text \<open>
  What the iptables package documents: a query does not change the firewall, a successful
  operation has its effect, a failed one has none, and a rule of a missing chain cannot be added.
  \<open>keeps\<close> says that a call returns (it does not panic), with the effect given on success.
\<close>

definition keeps :: "('w \<Rightarrow> fw) \<Rightarrow> ('w, 'a) io \<Rightarrow> ('a \<Rightarrow> fw \<Rightarrow> fw option) \<Rightarrow> bool" where
  "keeps view m eff \<longleftrightarrow>
     (\<forall>w x w'. m w = (Ok x, w') \<longrightarrow> eff x (view w) = Some (view w'))
   \<and> (\<forall>w e w'. m w = (Fail e, w') \<longrightarrow> view w' = view w)
   \<and> (\<forall>w p w'. m w \<noteq> (Panic p, w'))"

definition on_chain :: "string \<times> string \<Rightarrow> (string list list \<Rightarrow> string list list) \<Rightarrow> unit \<Rightarrow> fw \<Rightarrow> fw option" where
  "on_chain k f u v = (if v k = None then None else Some (fw_upd k f v))"

definition ipt_laws :: "('w \<Rightarrow> fw) \<Rightarrow> 'w IPTables \<Rightarrow> bool" where
  "ipt_laws view ipt \<longleftrightarrow>
     (\<forall>t c. keeps view (ipt_ChainExists ipt t c)
        (\<lambda>b v. if b = (v (t, c) \<noteq> None) then Some v else None))
   \<and> (\<forall>t c. keeps view (ipt_NewChain ipt t c)
        (\<lambda>_ v. if v (t, c) = None then Some (v((t, c) \<mapsto> [])) else None))
   \<and> (\<forall>t c s. keeps view (ipt_AppendUnique ipt t c s) (on_chain (t, c) (put_unique 0 s)))
   \<and> (\<forall>t c n s. 0 < n \<longrightarrow> keeps view (ipt_InsertUnique ipt t c n s) (on_chain (t, c) (put_unique n s)))
   \<and> (\<forall>t c s. keeps view (ipt_DeleteIfExists ipt t c s) (on_chain (t, c) (remove1 s)))
   \<and> (\<forall>t c. keeps view (ipt_ClearAndDeleteChain ipt t c) (\<lambda>_ v. Some (v((t, c) := None))))
   \<and> (\<forall>t c s w e w'. ipt_DeleteIfExists ipt t c s w = (Fail e, w') \<longrightarrow>
        e \<notin> range MultiErr \<and> (ipt_IsNotExist ipt e \<longrightarrow> fw_delete (mk_rule t c 0 False s) (view w) = view w))
   \<and> (\<forall>t c w e w'. ipt_ClearAndDeleteChain ipt t c w = (Fail e, w') \<longrightarrow> e \<notin> range MultiErr)"

lemma ipt_lawsD:
  assumes "ipt_laws view ipt"
  shows "keeps view (ipt_ChainExists ipt t c) (\<lambda>b v. if b = (v (t, c) \<noteq> None) then Some v else None)"
    and "keeps view (ipt_NewChain ipt t c)
      (\<lambda>_ v. if v (t, c) = None then Some (v((t, c) \<mapsto> [])) else None)"
    and "keeps view (ipt_AppendUnique ipt t c s) (on_chain (t, c) (put_unique 0 s))"
    and "0 < n \<Longrightarrow> keeps view (ipt_InsertUnique ipt t c n s) (on_chain (t, c) (put_unique n s))"
    and "keeps view (ipt_DeleteIfExists ipt t c s) (on_chain (t, c) (remove1 s))"
    and "keeps view (ipt_ClearAndDeleteChain ipt t c) (\<lambda>_ v. Some (v((t, c) := None)))"
    and "ipt_DeleteIfExists ipt t c s w = (Fail e, w') \<Longrightarrow> e \<notin> range MultiErr"
    and "ipt_DeleteIfExists ipt t c s w = (Fail e, w') \<Longrightarrow> ipt_IsNotExist ipt e \<Longrightarrow>
      fw_delete (mk_rule t c 0 False s) (view w) = view w"
    and "ipt_ClearAndDeleteChain ipt t c w = (Fail e, w') \<Longrightarrow> e \<notin> range MultiErr"
  using assms unfolding ipt_laws_def by (presburger | blast)+

text \<open>An in-memory iptables: the world is the firewall itself.\<close>

definition err_no_chain :: goerr where "err_no_chain = ErrNew ''No chain/target/match by that name''"

definition mem_ipt :: "fw IPTables" where
  "mem_ipt = \<lparr>
     ipt_AppendUnique = (\<lambda>t c s v. if v (t, c) = None then (Fail err_no_chain, v)
        else (Ok (), fw_upd (t, c) (put_unique 0 s) v)),
     ipt_ChainExists = (\<lambda>t c v. (Ok (v (t, c) \<noteq> None), v)),
     ipt_ClearAndDeleteChain = (\<lambda>t c v. (Ok (), v((t, c) := None))),
     ipt_DeleteIfExists = (\<lambda>t c s v. if v (t, c) = None then (Fail err_no_chain, v)
        else (Ok (), fw_upd (t, c) (remove1 s) v)),
     ipt_InsertUnique = (\<lambda>t c n s v. if v (t, c) = None then (Fail err_no_chain, v)
        else (Ok (), fw_upd (t, c) (put_unique n s) v)),
     ipt_NewChain = (\<lambda>t c v. if v (t, c) = None then (Ok (), v((t, c) \<mapsto> []))
        else (Fail (ErrNew ''Chain already exists''), v)),
     ipt_IsNotExist = (\<lambda>e. e = err_no_chain)\<rparr>"

lemma mem_ipt_laws: "ipt_laws (\<lambda>v. v) mem_ipt"
  by (auto simp: ipt_laws_def mem_ipt_def keeps_def on_chain_def err_no_chain_def fw_delete_def
      fw_upd_def mk_rule_def r_key_def split: if_splits)

section \<open>Adding refines the abstract firewall\<close>

lemma keepsD:
  assumes "keeps view m eff"
  shows "m w = (Ok x, w') \<Longrightarrow> eff x (view w) = Some (view w')"
    and "m w = (Fail e, w') \<Longrightarrow> view w' = view w"
    and "m w = (Panic p, w') \<Longrightarrow> False"
  using assms unfolding keeps_def by blast+

lemma keepsI:
  assumes "\<And>w x w'. m w = (Ok x, w') \<Longrightarrow> eff x (view w) = Some (view w')"
    and "\<And>w e w'. m w = (Fail e, w') \<Longrightarrow> view w' = view w"
    and "\<And>w p w'. m w = (Panic p, w') \<Longrightarrow> False"
  shows "keeps view m eff"
  using assms unfolding keeps_def by blast

lemma keeps_wrap:
  assumes "keeps view m eff"
  shows "keeps view (iowrap a b m) eff"
  by (rule keepsI) (auto elim: iowrap_cases dest: keepsD [OF assms])

lemma keeps_weaken:
  assumes "keeps view m eff" and "\<And>x v v'. eff x v = Some v' \<Longrightarrow> eff' x v = Some v'"
  shows "keeps view m eff'"
  using assms unfolding keeps_def by blast

text \<open>A query followed by an operation has the effect of the operation.\<close>

lemma keeps_query:
  assumes m: "keeps view m eff" and q: "\<And>x v v'. eff x v = Some v' \<Longrightarrow> v' = v \<and> P x v"
    and k: "\<And>x. keeps view (k x) (eff' x)"
    and e: "\<And>x y v v'. P x v \<Longrightarrow> eff' x y v = Some v' \<Longrightarrow> eff'' y v = Some v'"
  shows "keeps view (iobind m k) eff''"
proof (rule keepsI)
  fix w y w' assume "iobind m k w = (Ok y, w')"
  then obtain x w1 where 1: "m w = (Ok x, w1)" "k x w1 = (Ok y, w')" by (auto elim: iobind_cases)
  show "eff'' y (view w) = Some (view w')"
    using q [OF keepsD(1) [OF m 1(1)]] keepsD(1) [OF k 1(2)] e [of x "view w" y] by simp
next
  fix w er w' assume "iobind m k w = (Fail er, w')"
  then show "view w' = view w"
  proof (cases rule: iobind_cases)
    case (Ok x w1)
    then show ?thesis using q [OF keepsD(1) [OF m Ok(1)]] keepsD(2) [OF k Ok(2)] by simp
  qed (use keepsD(2) [OF m] in auto)
next
  fix w p w' assume "iobind m k w = (Panic p, w')"
  then show False by (cases rule: iobind_cases) (use keepsD(3) [OF m] keepsD(3) [OF k] in auto)
qed

lemma keeps_ret: "keeps view (ret x) (\<lambda>_ v. Some v)"
  by (simp add: keeps_def ret_def)

lemma add_chain_fw:
  assumes "ipt_laws view ipt"
  shows "keeps view (add_chain ipt c) (\<lambda>_ v. Some (fw_chain c v))"
  unfolding add_chain_def
proof (rule keeps_query)
  let ?t = "c_table c" and ?n = "c_chain c"
  let ?new = "\<lambda>_ v. if v (?t, ?n) = None then Some (v((?t, ?n) \<mapsto> [])) else None"
  show "keeps view (iowrap ''failed to check chain existence: '' [] (ipt_ChainExists ipt ?t ?n))
      (\<lambda>b v. if b = (v (?t, ?n) \<noteq> None) then Some v else None)"
    by (rule keeps_wrap [OF ipt_lawsD(1) [OF assms]])
  have new: "keeps view (iowrap ''failed to create new chain: '' [] (ipt_NewChain ipt ?t ?n)) ?new"
    by (rule keeps_wrap [OF ipt_lawsD(2) [OF assms]])
  show "keeps view (if \<not> b then iowrap ''failed to create new chain: '' [] (ipt_NewChain ipt ?t ?n)
      else ret ()) (\<lambda>y v. if \<not> b then ?new y v else Some v)" for b
    using new keeps_ret by (cases b) simp_all
  show "(if b = (v (?t, ?n) \<noteq> None) then Some v else None) = Some v' \<Longrightarrow>
      v' = v \<and> b = (v (?t, ?n) \<noteq> None)" for b v v'
    by (simp split: if_splits)
  show "b = (v (?t, ?n) \<noteq> None) \<Longrightarrow> (if \<not> b then ?new y v else Some v) = Some v' \<Longrightarrow>
      Some (fw_chain c v) = Some v'" for b y v v'
    by (auto simp: fw_chain_def Let_def split: if_splits)
qed

lemma put_unique_append: "\<not> 0 < n \<Longrightarrow> put_unique n s = put_unique 0 s"
  by (simp add: put_unique_def fun_eq_iff)

lemma add_rule_fw:
  assumes "ipt_laws view ipt"
  shows "keeps view (add_rule ipt r)
     (\<lambda>_ v. if v (r_key r) = None then None else Some (fw_rule r v))"
proof -
  have "keeps view (if r_position r > 0
      then ipt_InsertUnique ipt (r_table r) (r_chain r) (r_position r) (r_spec r)
      else ipt_AppendUnique ipt (r_table r) (r_chain r) (r_spec r))
     (on_chain (r_key r) (put_unique (r_position r) (r_spec r)))"
  proof (cases "0 < r_position r")
    case True
    then show ?thesis by (simp add: ipt_lawsD(4) [OF assms] r_key_def)
  next
    case False
    then show ?thesis unfolding put_unique_append [OF False]
      by (simp add: ipt_lawsD(3) [OF assms] r_key_def)
  qed
  then show ?thesis unfolding add_rule_def
    by (intro keeps_wrap) (auto elim!: keeps_weaken simp: on_chain_def fw_rule_def split: if_splits)
qed

text \<open>A loop of such operations performs them in order, up to the one that fails.\<close>

lemma iofor_keeps:
  assumes k: "\<And>x. keeps view (f x) (\<lambda>_ v. g x v)" and g: "\<And>x v v'. g x v = Some v' \<Longrightarrow> v' = h x v"
    and "iofor xs f w = (r, w')"
  shows "\<exists>n \<le> length xs. view w' = fold h (take n xs) (view w) \<and> (r = Ok () \<and> n = length xs \<or> (\<exists>e. r = Fail e))"
  using assms(3)
proof (induction xs arbitrary: w)
  case Nil
  then show ?case by (simp add: ret_def)
next
  case (Cons x xs)
  from Cons.prems have "iobind (f x) (\<lambda>_. iofor xs f) w = (r, w')" by simp
  then show ?case
  proof (cases rule: iobind_cases)
    case (Ok u w1)
    from Cons.IH [OF Ok(2)] obtain n where "n \<le> length xs" "view w' = fold h (take n xs) (view w1)"
      "r = Ok () \<and> n = length xs \<or> (\<exists>e. r = Fail e)" by blast
    with g [OF keepsD(1) [OF k Ok(1)]] show ?thesis by (intro exI [of _ "Suc n"]) simp
  next
    case (Fail e)
    with keepsD(2) [OF k Fail(1)] show ?thesis by (intro exI [of _ 0]) simp
  qed (use keepsD(3) [OF k] in blast)
qed

lemma vt_add_fw:
  assumes laws: "ipt_laws view (vt_ipt n)" and inv: "request_inv req" and run: "vt_add n req w = (r, w')"
  shows "\<exists>cs rs cs' rs'. rq_chains req = cs @ cs' \<and> rq_rules req = rs @ rs' \<and> (rs \<noteq> [] \<longrightarrow> cs' = [])
    \<and> view w' = fw_add cs rs (view w) \<and> (r = Ok () \<and> cs' = [] \<and> rs' = [] \<or> (\<exists>e. r = Fail e))"
proof -
  note chains = iofor_keeps [OF add_chain_fw [OF laws], where h = fw_chain]
  note rules = iofor_keeps [OF add_rule_fw [OF laws], where h = fw_rule]
  have g: "(if v (r_key x) = None then None else Some (fw_rule x v)) = Some v' \<Longrightarrow> v' = fw_rule x v" for x v v'
    by (simp split: if_splits)
  from run have "iobind (iofor (rq_chains req) (add_chain (vt_ipt n)))
      (\<lambda>_. iofor (rq_rules req) (add_rule (vt_ipt n))) w = (r, w')"
    by (simp add: vt_add_def rules_Slice_id [OF inv] chains_Slice_id [OF inv])
  then show ?thesis
  proof (cases rule: iobind_cases)
    case (Ok u w1)
    from chains [OF _ Ok(1)] have w1: "view w1 = fold fw_chain (rq_chains req) (view w)" by auto
    from rules [OF g Ok(2)] obtain k where "k \<le> length (rq_rules req)"
      "view w' = fold fw_rule (take k (rq_rules req)) (view w1)"
      "r = Ok () \<and> k = length (rq_rules req) \<or> (\<exists>e. r = Fail e)" by auto
    with w1 show ?thesis
      by (intro exI [of _ "rq_chains req"] exI [of _ "take k (rq_rules req)"] exI [of _ "[]"]
          exI [of _ "drop k (rq_rules req)"]) (auto simp: fw_add_def)
  next
    case (Fail e)
    from chains [OF _ Fail(1)] obtain k where "view w' = fold fw_chain (take k (rq_chains req)) (view w)" by auto
    with Fail show ?thesis
      by (intro exI [of _ "take k (rq_chains req)"] exI [of _ "[]"] exI [of _ "drop k (rq_chains req)"]
          exI [of _ "rq_rules req"]) (auto simp: fw_add_def)
  next
    case (Panic p)
    with chains [OF _ Panic(1)] show ?thesis by auto
  qed
qed

lemma vt_add_Ok:
  assumes "ipt_laws view (vt_ipt n)" "request_inv req" "vt_add n req w = (Ok (), w')"
  shows "view w' = fw_add (rq_chains req) (rq_rules req) (view w)"
  using vt_add_fw [OF assms] by auto

section \<open>The abstract firewall\<close>

lemma fw_upd_apply: "fw_upd k f v k' = (if k' = k then map_option f (v k) else v k')"
  by (simp add: fw_upd_def)

lemma fw_upd_same [simp]: "(\<And>rs. v k = Some rs \<Longrightarrow> f rs = rs) \<Longrightarrow> fw_upd k f v = v"
  by (cases "v k") (auto simp: fw_upd_def fun_eq_iff)

lemma fw_upd_compose: "fw_upd k f (fw_upd k g v) = fw_upd k (f \<circ> g) v"
  by (auto simp: fw_upd_def fun_eq_iff option.map_comp)

lemma fw_upd_comm: "k \<noteq> k' \<Longrightarrow> fw_upd k f (fw_upd k' g v) = fw_upd k' g (fw_upd k f v)"
  by (auto simp: fw_upd_def fun_eq_iff)

lemma fw_upd_cong: "(\<And>rs. v k = Some rs \<Longrightarrow> f rs = g rs) \<Longrightarrow> fw_upd k f v = fw_upd k g v"
  by (cases "v k") (auto simp: fw_upd_def fun_eq_iff)

lemma fw_dom [simp]: "fw_rule r v k = None \<longleftrightarrow> v k = None" "fw_delete r v k = None \<longleftrightarrow> v k = None"
  by (simp_all add: fw_rule_def fw_delete_def fw_upd_def)

text \<open>A rule is in place when its chain, if it exists, lists it.\<close>

definition placed :: "rule \<Rightarrow> fw \<Rightarrow> bool" where
  "placed r v \<longleftrightarrow> (\<forall>rs. v (r_key r) = Some rs \<longrightarrow> r_spec r \<in> set rs)"

definition absent :: "rule \<Rightarrow> fw \<Rightarrow> bool" where
  "absent r v \<longleftrightarrow> (\<forall>rs. v (r_key r) = Some rs \<longrightarrow> r_spec r \<notin> set rs)"

lemma set_insert_at [simp]: "set (insert_at n x xs) = insert x (set xs)"
proof -
  have "set xs = set (take (nat (n - 1)) xs) \<union> set (drop (nat (n - 1)) xs)"
    by (metis append_take_drop_id set_append)
  then show ?thesis unfolding insert_at_def by auto
qed

lemma filter_insert_at: "\<not> P x \<Longrightarrow> filter P (insert_at n x xs) = filter P xs"
proof -
  assume "\<not> P x"
  then have "filter P (insert_at n x xs) = filter P (take (nat (n - 1)) xs @ drop (nat (n - 1)) xs)"
    unfolding insert_at_def filter_append by simp
  then show ?thesis by (simp only: append_take_drop_id)
qed

lemma set_put_unique [simp]: "set (put_unique n s rs) = insert s (set rs)"
  by (auto simp: put_unique_def)

lemma placed_rule: "placed r (fw_rule r v)"
  by (auto simp: placed_def fw_rule_def fw_upd_apply)

lemma placed_mono: "placed r v \<Longrightarrow> placed r (fw_rule r' v)"
  by (auto simp: placed_def fw_rule_def fw_upd_apply split: if_splits)

lemma placed_fold: "placed r v \<Longrightarrow> placed r (fold fw_rule rs v)"
  by (induction rs arbitrary: v) (auto intro: placed_mono)

lemma fold_placed: "r \<in> set rs \<Longrightarrow> placed r (fold fw_rule rs v)"
  by (induction rs arbitrary: v) (auto intro: placed_fold placed_rule)

lemma placed_id: "placed r v \<Longrightarrow> fw_rule r v = v"
  unfolding fw_rule_def by (rule fw_upd_same) (simp add: placed_def put_unique_def)

lemma fold_placed_id: "(\<And>r. r \<in> set rs \<Longrightarrow> placed r v) \<Longrightarrow> fold fw_rule rs v = v"
  by (induction rs) (simp_all add: placed_id)

lemma fold_rule_dom: "fold fw_rule rs v k = None \<longleftrightarrow> v k = None"
  by (induction rs arbitrary: v) simp_all

lemma fold_chain_dom: "fold fw_chain cs v k = None \<longleftrightarrow> v k = None \<and> k \<notin> (\<lambda>c. (c_table c, c_chain c)) ` set cs"
  by (induction cs arbitrary: v) (auto simp: fw_chain_def Let_def)

lemma fold_chain_id: "(\<And>c. c \<in> set cs \<Longrightarrow> v (c_table c, c_chain c) \<noteq> None) \<Longrightarrow> fold fw_chain cs v = v"
  proof (induction cs)
  case (Cons c cs)
  have "v (c_table c, c_chain c) \<noteq> None" by (rule Cons.prems) simp
  then have "fw_chain c v = v" by (auto simp: fw_chain_def Let_def)
  with Cons show ?case by simp
qed simp

lemma fold_chain_keep: "v k = Some rs \<Longrightarrow> fold fw_chain cs v k = Some rs"
proof (induction cs arbitrary: v)
  case (Cons c cs)
  then have "fw_chain c v k = Some rs" by (auto simp: fw_chain_def Let_def)
  with Cons.IH show ?case by simp
qed simp

text \<open>Adding the same request again changes nothing.\<close>

lemma fw_add_idem: "fw_add cs rs (fw_add cs rs v) = fw_add cs rs v"
proof -
  have "fold fw_chain cs (fw_add cs rs v) = fw_add cs rs v"
    by (rule fold_chain_id) (auto simp: fw_add_def fold_rule_dom fold_chain_dom)
  moreover have "fold fw_rule rs (fw_add cs rs v) = fw_add cs rs v"
    by (rule fold_placed_id) (simp add: fw_add_def fold_placed)
  ultimately show ?thesis by (simp add: fw_add_def)
qed

text \<open>Rules that are not added keep their order.\<close>

lemma put_unique_filter: "s \<in> S \<Longrightarrow> filter (\<lambda>x. x \<notin> S) (put_unique n s rs) = filter (\<lambda>x. x \<notin> S) rs"
  by (simp add: put_unique_def filter_insert_at)

lemma fold_rule_others:
  assumes "v k = Some rs" and "(\<lambda>r. r_spec r) ` {r \<in> set qs. r_key r = k} \<subseteq> S"
  shows "\<exists>rs'. fold fw_rule qs v k = Some rs' \<and> filter (\<lambda>x. x \<notin> S) rs' = filter (\<lambda>x. x \<notin> S) rs"
  using assms
proof (induction qs arbitrary: v rs)
  case (Cons q qs)
  let ?rs = "if r_key q = k then put_unique (r_position q) (r_spec q) rs else rs"
  have "fw_rule q v k = Some ?rs" using Cons.prems(1) by (auto simp: fw_rule_def fw_upd_apply)
  moreover have "filter (\<lambda>x. x \<notin> S) ?rs = filter (\<lambda>x. x \<notin> S) rs"
    using Cons.prems(2) by (auto intro: put_unique_filter)
  ultimately show ?case using Cons.IH [of "fw_rule q v" ?rs] Cons.prems(2) by auto
qed simp

text \<open>Deleting a rule that was appended undoes it, and commutes with the others.\<close>

lemma del_put_same: "s \<notin> set rs \<Longrightarrow> \<not> 0 < n \<Longrightarrow> remove1 s (put_unique n s rs) = rs"
  by (simp add: put_unique_def remove1_append)

lemma del_put_other:
  assumes "s \<noteq> t" "n \<le> 1"
  shows "remove1 s (put_unique n t rs) = put_unique n t (remove1 s rs)"
proof -
  have "t \<in> set (remove1 s rs) \<longleftrightarrow> t \<in> set rs" using assms(1) by (simp add: in_set_remove1)
  then show ?thesis
    using assms by (auto simp: put_unique_def insert_at_def remove1_append remove1_idem)
qed

lemma delete_rule_same:
  assumes "absent r v" "\<not> 0 < r_position r"
  shows "fw_delete r (fw_rule r v) = v"
  unfolding fw_rule_def fw_delete_def fw_upd_compose
  by (rule fw_upd_same) (use assms in \<open>simp add: absent_def del_put_same\<close>)

lemma delete_rule_other:
  assumes "rule_core r \<noteq> rule_core q" "r_position q \<le> 1"
  shows "fw_delete r (fw_rule q v) = fw_rule q (fw_delete r v)"
proof (cases "r_key r = r_key q")
  case True
  with assms(1) have "r_spec r \<noteq> r_spec q" by (auto simp: rule_core_def r_key_def)
  with True show ?thesis
    unfolding fw_rule_def fw_delete_def True fw_upd_compose
    by (intro fw_upd_cong) (simp add: del_put_other [OF _ assms(2)])
qed (simp add: fw_rule_def fw_delete_def fw_upd_comm)

lemma delete_fold_other:
  assumes "\<And>q. q \<in> set qs \<Longrightarrow> rule_core r \<noteq> rule_core q \<and> r_position q \<le> 1"
  shows "fw_delete r (fold fw_rule qs v) = fold fw_rule qs (fw_delete r v)"
  using assms by (induction qs arbitrary: v) (simp_all add: delete_rule_other)

lemma absent_rule_other:
  assumes "rule_core r \<noteq> rule_core q" "absent r v"
  shows "absent r (fw_rule q v)"
  using assms by (auto simp: absent_def fw_rule_def fw_upd_apply rule_core_def r_key_def split: if_splits)

lemma delete_added:
  assumes "distinct (map rule_core rs)"
    and "\<And>r. r \<in> set rs \<Longrightarrow> r_position r \<le> 1 \<and> (r_removable r \<longrightarrow> r_position r \<le> 0 \<and> absent r v)"
  shows "fold fw_delete (filter r_removable rs) (fold fw_rule rs v)
     = fold fw_rule (filter (\<lambda>r. \<not> r_removable r) rs) v"
  using assms
proof (induction rs arbitrary: v)
  case (Cons r rs)
  have ne: "rule_core r \<noteq> rule_core q" if "q \<in> set rs" for q
    using Cons.prems(1) that by (metis distinct.simps(2) image_eqI list.set_map list.simps(9))
  show ?case
  proof (cases "r_removable r")
    case True
    with Cons.prems(2) have "fw_delete r (fw_rule r v) = v"
      by (intro delete_rule_same) force+
    then have "fw_delete r (fold fw_rule rs (fw_rule r v)) = fold fw_rule rs v"
      using Cons.prems(2) ne by (simp add: delete_fold_other)
    then show ?thesis using True Cons by simp
  next
    case False
    have "absent q (fw_rule r v)" if "q \<in> set rs" "r_removable q" for q
      using Cons.prems(2) ne that by (metis absent_rule_other list.set_intros(2))
    then show ?thesis using False Cons.IH [of "fw_rule r v"] Cons.prems by simp
  qed
qed simp

section \<open>Removing\<close>

text \<open>
  The outcome of each attempted removal is \<open>None\<close> or its error; a rule whose removal succeeded, or
  that was reported as not existing, is gone, and the error of the whole is the collected errors.
\<close>

definition fw_done :: "('a \<Rightarrow> fw \<Rightarrow> fw) \<Rightarrow> ('a \<times> goerr option) list \<Rightarrow> fw \<Rightarrow> fw" where
  "fw_done f xs v = fold f (map fst (filter (\<lambda>(x, e). e = None) xs)) v"

definition fw_clear :: "chain \<Rightarrow> fw \<Rightarrow> fw" where
  "fw_clear c v = v((c_table c, c_chain c) := None)"

lemma fw_delete_mk: "fw_delete (mk_rule (r_table r) (r_chain r) 0 False (r_spec r)) = fw_delete r"
  by (simp add: fw_delete_def r_key_def mk_rule_def fun_eq_iff)

lemma on_chain_delete:
  "on_chain (r_table r, r_chain r) (remove1 (r_spec r)) u v = Some v' \<Longrightarrow> v' = fw_delete r v"
  by (simp add: on_chain_def fw_delete_def r_key_def split: if_splits)

lemma remove_rules_fw:
  assumes laws: "ipt_laws view ipt"
  shows "remove_rules ipt rs es w = (r, w') \<Longrightarrow>
    \<exists>outs. length outs = length rs \<and> (\<forall>e. Some e \<in> set outs \<longrightarrow> e \<notin> range MultiErr)
      \<and> r = Ok (mappends es outs) \<and> view w' = fw_done fw_delete (zip rs outs) (view w)"
proof (induction rs arbitrary: es w)
  case Nil
  then show ?case by (simp add: ret_def fw_done_def)
next
  case (Cons q rs)
  note del = ipt_lawsD(5) [OF laws, of "r_table q" "r_chain q" "r_spec q"]
  obtain r1 w1 where 1: "ipt_DeleteIfExists ipt (r_table q) (r_chain q) (r_spec q) w = (r1, w1)"
    by fastforce
  show ?case
  proof (cases r1)
    case (Ok u)
    with Cons.prems 1 have rest: "remove_rules ipt rs es w1 = (r, w')" by (simp add: iotry_def)
    from Cons.IH [OF rest] obtain outs where "length outs = length rs"
      "\<forall>e. Some e \<in> set outs \<longrightarrow> e \<notin> range MultiErr"
      "r = Ok (mappends es outs)" "view w' = fw_done fw_delete (zip rs outs) (view w1)" by blast
    with on_chain_delete [OF keepsD(1) [OF del 1 [unfolded Ok]]] show ?thesis
      by (intro exI [of _ "None # outs"]) (simp add: fw_done_def)
  next
    case (Fail e)
    let ?o = "if ipt_IsNotExist ipt e then None else Some e"
    from ipt_lawsD(7) [OF laws 1 [unfolded Fail]] have ne: "e \<notin> range MultiErr" .
    have "view w1 = view w" by (rule keepsD(2) [OF del 1 [unfolded Fail]])
    then have w1: "view w1 = fw_done fw_delete [(q, ?o)] (view w)"
      using ipt_lawsD(8) [OF laws 1 [unfolded Fail]] by (simp add: fw_done_def fw_delete_mk)
    from Cons.prems 1 Fail have "remove_rules ipt rs (mappend es ?o) w1 = (r, w')"
      by (simp add: iotry_def split: if_splits)
    from Cons.IH [OF this] obtain outs where "length outs = length rs"
      "\<forall>e. Some e \<in> set outs \<longrightarrow> e \<notin> range MultiErr"
      "r = Ok (mappends (mappend es ?o) outs)" "view w' = fw_done fw_delete (zip rs outs) (view w1)" by blast
    with ne w1 show ?thesis by (intro exI [of _ "?o # outs"]) (auto simp: fw_done_def)
  qed (use keepsD(3) [OF del] 1 in blast)
qed

lemma remove_chains_fw:
  assumes laws: "ipt_laws view ipt"
  shows "remove_chains ipt cs es w = (r, w') \<Longrightarrow>
    \<exists>outs. length outs = length cs \<and> (\<forall>e. Some e \<in> set outs \<longrightarrow> e \<notin> range MultiErr)
      \<and> r = Ok (mappends es outs) \<and> view w' = fw_done fw_clear (zip cs outs) (view w)"
proof (induction cs arbitrary: es w)
  case Nil
  then show ?case by (simp add: ret_def fw_done_def)
next
  case (Cons c cs)
  note clr = ipt_lawsD(6) [OF laws, of "c_table c" "c_chain c"]
  obtain r1 w1 where 1: "ipt_ClearAndDeleteChain ipt (c_table c) (c_chain c) w = (r1, w1)" by fastforce
  let ?o = "case r1 of Fail e \<Rightarrow> Some e | _ \<Rightarrow> None"
  have np: "r1 \<noteq> Panic p" for p using keepsD(3) [OF clr, of w p w1] 1 by blast
  have w1: "view w1 = fw_done fw_clear [(c, ?o)] (view w)"
  proof (cases r1)
    case (Ok u)
    from keepsD(1) [OF clr 1 [unfolded Ok]] Ok show ?thesis by (simp add: fw_done_def fw_clear_def)
  next
    case (Fail e)
    from keepsD(2) [OF clr 1 [unfolded Fail]] Fail show ?thesis by (simp add: fw_done_def)
  qed (simp add: np)
  have ne: "e \<notin> range MultiErr" if "?o = Some e" for e
    using that ipt_lawsD(9) [OF laws] 1 by (cases r1) auto
  from Cons.prems 1 np have "remove_chains ipt cs (mappend es ?o) w1 = (r, w')"
    by (cases r1) (auto simp: iotry_def)
  from Cons.IH [OF this] obtain outs where "length outs = length cs"
    "\<forall>e. Some e \<in> set outs \<longrightarrow> e \<notin> range MultiErr"
    "r = Ok (mappends (mappend es ?o) outs)" "view w' = fw_done fw_clear (zip cs outs) (view w1)" by blast
  with ne w1 show ?case by (intro exI [of _ "?o # outs"]) (auto simp: fw_done_def)
qed

lemma mappends_none: "(\<forall>e. Some e \<in> set outs \<longrightarrow> e \<notin> range MultiErr) \<Longrightarrow>
  mappends es outs = [] \<longleftrightarrow> es = [] \<and> set outs \<subseteq> {None}"
  by (auto simp: mappends_Nil)

lemma mappends_append [simp]: "mappends es (a @ b) = mappends (mappends es a) b"
  by (simp add: mappends_def)

text \<open>The rules a removal goes through: those whose chain is not itself removed.\<close>

definition removed_rules :: "request \<Rightarrow> rule list" where
  "removed_rules req = rules_Slice (filter (\<lambda>r. \<not> chains_Contains (rq_chains req) (mkchain r)) (rq_rules req))"

lemma vt_remove_fw:
  assumes laws: "ipt_laws view (vt_ipt n)" and run: "vt_remove n req w = (r, w')"
  shows "\<exists>ro co. length ro = length (removed_rules req) \<and> length co = length (chains_Slice (rq_chains req))
    \<and> (\<forall>e. Some e \<in> set (ro @ co) \<longrightarrow> e \<notin> range MultiErr)
    \<and> r = of_err (err_or_nil (mappends [] (ro @ co)))
    \<and> view w' = fw_done fw_clear (zip (chains_Slice (rq_chains req)) co)
        (fw_done fw_delete (zip (removed_rules req) ro) (view w))"
proof -
  let ?rules = "removed_rules req" and ?chains = "chains_Slice (rq_chains req)"
  obtain r1 w1 where 1: "remove_rules (vt_ipt n) ?rules [] w = (r1, w1)" by fastforce
  from remove_rules_fw [OF laws 1] obtain ro where ro: "length ro = length ?rules"
    "\<forall>e. Some e \<in> set ro \<longrightarrow> e \<notin> range MultiErr" "r1 = Ok (mappends [] ro)"
    "view w1 = fw_done fw_delete (zip ?rules ro) (view w)" by blast
  obtain r2 w2 where 2: "remove_chains (vt_ipt n) ?chains (mappends [] ro) w1 = (r2, w2)" by fastforce
  from remove_chains_fw [OF laws 2] obtain co where co: "length co = length ?chains"
    "\<forall>e. Some e \<in> set co \<longrightarrow> e \<notin> range MultiErr" "r2 = Ok (mappends (mappends [] ro) co)"
    "view w2 = fw_done fw_clear (zip ?chains co) (view w1)" by blast
  have "r = of_err (err_or_nil (mappends (mappends [] ro) co))" "w' = w2"
    using run 1 2 ro(3) co(3) by (simp_all add: vt_remove_def removed_rules_def Let_def iobind_def lift_def)
  with ro co show ?thesis by (intro exI [of _ ro] exI [of _ co]) auto
qed

section \<open>The requests of setup and Configure\<close>

text \<open>
  A request built by the filter: stamped, every position at most 1, removable rules appended.
\<close>

definition built :: "request \<Rightarrow> bool" where
  "built req \<longleftrightarrow> request_inv req
     \<and> (\<forall>r \<in> set (rq_rules req). r_position r \<le> 1 \<and> (r_removable r \<longrightarrow> r_position r \<le> 0))"

lemma stamp_all_rule: "x \<in> set (stamp_all rule_setStamp n rs) \<Longrightarrow>
  \<exists>r \<in> set rs. r_position x = r_position r \<and> r_removable x = r_removable r \<and> rule_core x = rule_core r"
proof (induction rs arbitrary: n)
  case (Cons r rs)
  then consider "x = rule_setStamp n r" | "x \<in> set (stamp_all rule_setStamp (Suc n) rs)" by auto
  then show ?case
  proof cases
    case 1
    then show ?thesis by (auto simp: rule_setStamp_def rule_core_def)
  next
    case 2
    from Cons.IH [OF 2] show ?thesis by auto
  qed
qed simp

lemma add_rules_from: "x \<in> set (rq_rules (add_rules rs req)) \<Longrightarrow> x \<in> set (rq_rules req) \<or>
  (\<exists>r \<in> set rs. r_position x = r_position r \<and> r_removable x = r_removable r \<and> rule_core x = rule_core r)"
  using hs_insert_slice_sub [of rule_Hash "stamp_all rule_setStamp (rq_stampValue req) rs" "rq_rules req"]
  by (auto simp: add_rules_def rules_InsertSlice_def dest!: stamp_all_rule)

lemma built_new [simp]: "built newRequest"
  using request_inv_new by (simp add: built_def) (simp add: newRequest_def)

lemma built_add_chains [intro]: "built req \<Longrightarrow> built (add_chains cs req)"
  by (auto simp: built_def)

lemma built_add_rules:
  "built req \<Longrightarrow> (\<And>r. r \<in> set rs \<Longrightarrow> r_position r \<le> 1 \<and> (r_removable r \<longrightarrow> r_position r \<le> 0))
    \<Longrightarrow> built (add_rules rs req)"
  by (auto simp: built_def dest!: add_rules_from)

lemma built_distinct: "built req \<Longrightarrow> distinct (map rule_core (rq_rules req))"
proof -
  assume "built req"
  then have "distinct (map rule_Hash (rq_rules req))"
    by (simp add: built_def request_inv_def stamped_inv_def)
  moreover have "map rule_Hash (rq_rules req)
      = map (\<lambda>(t, c, s). t @ c @ join [] s) (map rule_core (rq_rules req))"
    by (simp add: rule_core_def rule_Hash_def)
  ultimately show ?thesis by (metis distinct_map)
qed

text \<open>
  Every port either leaves the request alone, adds the loopback rules and chains, or adds the two
  rules of a routed port.
\<close>

lemma configure_port_built:
  "built (snd st) \<Longrightarrow> configure_port n ports ip w port st = Ok st' \<Longrightarrow> built (snd st')"
  by (auto simp: configure_port_def configure_loopback_def rbind_Ok split_beta loopback_rules_def
      routed_rules_def mk_rule_def Let_def intro!: built_add_rules built_add_chains
      split: option.splits if_splits)

definition routed_port :: "(string \<rightharpoonup> PortMapping) \<Rightarrow> string \<Rightarrow> bool" where
  "routed_port ports port \<longleftrightarrow> (\<forall>p a. ports port = Some p \<longrightarrow> ParseAddr (pm_HostIP p) = Ok a \<longrightarrow> \<not> IsLoopback a)"

definition routed_only :: "request \<Rightarrow> bool" where
  "routed_only req \<longleftrightarrow> rq_chains req = [] \<and> (\<forall>r \<in> set (rq_rules req). r_removable r)"

lemma routed_only_new [simp]: "routed_only newRequest"
  by (simp add: routed_only_def newRequest_def)

lemma parse_host_Ok [simp]: "parse_host s = Ok a \<longleftrightarrow> ParseAddr s = Ok a"
  by (simp add: parse_host_def split: res.splits)

lemma routed_only_add: "routed_only req \<Longrightarrow> routed_only (add_rules (routed_rules nm p ip i) req)"
  by (auto simp: routed_only_def routed_rules_def mk_rule_def Let_def dest!: add_rules_from)

lemma configure_port_routed:
  "routed_port ports port \<Longrightarrow> routed_only (snd st)
     \<Longrightarrow> configure_port n ports ip w port st = Ok st' \<Longrightarrow> routed_only (snd st')"
  by (auto simp: configure_port_def rbind_Ok split_beta routed_port_def intro!: routed_only_add
      split: option.splits if_splits)

lemma configure_ports_built:
  "built (snd st) \<Longrightarrow> configure_ports n ports ip w ps st = Ok st' \<Longrightarrow> built (snd st')
     \<and> (routed_only (snd st) \<longrightarrow> list_all (routed_port ports) ps \<longrightarrow> routed_only (snd st'))"
proof (induction ps arbitrary: st)
  case (Cons p ps)
  then obtain st1 where 1: "configure_port n ports ip w p st = Ok st1"
    "configure_ports n ports ip w ps st1 = Ok st'" by (auto simp: rbind_Ok)
  from Cons.IH [OF configure_port_built [OF Cons.prems(1) 1(1)] 1(2)]
  show ?case using configure_port_routed [OF _ _ 1(1)] by auto
qed simp

text \<open>The teardown request of a configured request removes exactly its removable rules.\<close>

lemma stamp_all_core: "map rule_core (stamp_all rule_setStamp n rs) = map rule_core rs"
  by (induction rs arbitrary: n) (simp_all add: rule_setStamp_def rule_core_def)

lemma rule_Hash_of_core: "rule_Hash r = (\<lambda>(t, c, s). t @ c @ join [] s) (rule_core r)"
  by (simp add: rule_core_def rule_Hash_def)

lemma map_Hash_core: "map rule_core xs = map rule_core ys \<Longrightarrow> map rule_Hash xs = map rule_Hash ys"
proof -
  assume "map rule_core xs = map rule_core ys"
  then have "map (\<lambda>(t, c, s). t @ c @ join [] s) (map rule_core xs)
      = map (\<lambda>(t, c, s). t @ c @ join [] s) (map rule_core ys)" by simp
  then show ?thesis by (simp add: rule_Hash_of_core [abs_def] comp_def)
qed

lemma fw_delete_core: "rule_core a = rule_core b \<Longrightarrow> fw_delete a = fw_delete b"
  by (simp add: rule_core_def fw_delete_def r_key_def fun_eq_iff)

lemma fold_delete_core: "map rule_core xs = map rule_core ys \<Longrightarrow> fold fw_delete xs v = fold fw_delete ys v"
proof (induction xs arbitrary: ys v)
  case (Cons x xs)
  then obtain y ys' where ys: "ys = y # ys'" by (cases ys) auto
  with Cons.prems have "rule_core x = rule_core y" "map rule_core xs = map rule_core ys'" by simp_all
  with ys Cons.IH show ?case by (simp add: fw_delete_core [OF \<open>rule_core x = rule_core y\<close>])
qed simp

lemma teardown_request_rules:
  assumes "request_inv req"
  defines "t \<equiv> teardown_request (removalInstructions req)"
  shows "map rule_core (removed_rules t) = map rule_core (filter r_removable (rq_rules req))"
    and "rq_chains t = []"
proof -
  let ?bk = "Rules_rules (removalInstructions req)"
  have core: "map rule_core ?bk = map rule_core (filter r_removable (rq_rules req))"
    by (rule Rules_rules_removal [OF assms(1)])
  have "distinct (map rule_Hash (filter r_removable (rq_rules req)))"
    using assms(1) by (auto simp: request_inv_def stamped_inv_def intro: distinct_map_filter)
  then have "distinct (map rule_Hash (stamp_all rule_setStamp 0 ?bk))"
    using map_Hash_core [OF trans [OF stamp_all_core core]] by metis
  then have t: "rq_rules t = stamp_all rule_setStamp 0 ?bk"
    using hs_insert_slice_distinct [of rule_Hash "[]"]
    by (simp add: t_def teardown_request_def add_rules_def rules_InsertSlice_def newRequest_def)
  show c: "rq_chains t = []" by (simp add: t_def teardown_request_def newRequest_def)
  have "request_inv t" by (auto simp: t_def teardown_request_def)
  then have "removed_rules t = rq_rules t"
    using rules_Slice_id by (simp add: removed_rules_def c chains_Contains_def)
  then show "map rule_core (removed_rules t) = map rule_core (filter r_removable (rq_rules req))"
    by (simp add: t stamp_all_core core)
qed

lemma fw_done_all: "length outs = length xs \<Longrightarrow> set outs \<subseteq> {None} \<Longrightarrow> fw_done f (zip xs outs) v = fold f xs v"
proof -
  assume a: "length outs = length xs" "set outs \<subseteq> {None}"
  then have "filter (\<lambda>(x, e). e = None) (zip xs outs) = zip xs outs"
    by (intro filter_True) (auto dest: set_zip_rightD)
  with a show ?thesis by (simp add: fw_done_def)
qed

text \<open>
  Tearing down the removal data of a configuration on the firewall it left: the forwards' own rules,
  which were not there before, are gone.
\<close>

lemma configured_undone:
  assumes laws: "ipt_laws view (vt_ipt n)"
    and conf: "Configure n (Some \<lparr>res_Ports = Some ports\<rparr>) (Some cfg) ip w = (Ok rm, w1)"
    and fresh: "\<And>im req r. configure_ports n ports ip w (br_Ports cfg) (Map.empty, newRequest) = Ok (im, req)
      \<Longrightarrow> r \<in> set (rq_rules req) \<Longrightarrow> r_removable r \<Longrightarrow> absent r (fold fw_chain (rq_chains req) (view w))"
    and down: "Teardown n (Some rm) w1' = (Ok (), w2)" and same: "view w1' = view w1"
  shows "\<exists>im req. configure_ports n ports ip w (br_Ports cfg) (Map.empty, newRequest) = Ok (im, req)
      \<and> view w2 = fw_add (rq_chains req) (filter (\<lambda>r. \<not> r_removable r) (rq_rules req)) (view w)"
proof -
  from conf obtain im req where req: "configure_ports n ports ip w (br_Ports cfg) (Map.empty, newRequest) = Ok (im, req)"
    and add: "vt_add n req w = (Ok (), w1)"
    and rm: "rm = \<lparr>fr_Name = removalName, fr_Data = RulesData (removalInstructions req)\<rparr>"
    by (auto simp: Configure_def iobind_Ok lift_def ret_def split: prod.splits)
  have b: "built req"
    using configure_ports_built [OF _ req] by auto
  then have inv: "request_inv req" by (simp add: built_def)
  let ?t = "teardown_request (removalInstructions req)" and ?v = "fold fw_chain (rq_chains req) (view w)"
  note t = teardown_request_rules [OF inv]
  have "vt_remove n ?t w1' = (Ok (), w2)" using down by (simp add: Teardown_def rm)
  from vt_remove_fw [OF laws this] obtain ro where ro: "length ro = length (removed_rules ?t)"
    "\<forall>e. Some e \<in> set ro \<longrightarrow> e \<notin> range MultiErr" "mappends [] ro = []"
    "view w2 = fw_done fw_delete (zip (removed_rules ?t) ro) (view w1')"
    by (auto simp: t(2) chains_Slice_def of_err_def fw_done_def [of fw_clear] split: option.splits)
  then have "view w2 = fold fw_delete (removed_rules ?t) (view w1)"
    using mappends_none [OF ro(2), of "[]"] by (simp add: fw_done_all same)
  also have "\<dots> = fold fw_delete (filter r_removable (rq_rules req)) (fold fw_rule (rq_rules req) ?v)"
    using fold_delete_core [OF t(1)] vt_add_Ok [OF laws inv add] by (simp add: fw_add_def)
  also have "\<dots> = fold fw_rule (filter (\<lambda>r. \<not> r_removable r) (rq_rules req)) ?v"
    using b fresh [OF req] by (intro delete_added built_distinct) (auto simp: built_def)
  finally have v: "view w2 = fw_add (rq_chains req) (filter (\<lambda>r. \<not> r_removable r) (rq_rules req)) (view w)"
    by (simp add: fw_add_def)
  then show ?thesis using req by blast
qed

section \<open>Properties\<close>


definition mem_tables_on :: "'w IPTables \<Rightarrow> 'w virtTables" where
  "mem_tables_on ipt = \<lparr>vt_ipt = ipt, vt_names = NewNames, vt_routeLocalnetPathTemplate = ([], []),
     vt_interfaceByIPGetter = (\<lambda>ip w. Ok ''eth0''),
     vt_routingInterfaceByIPGetter = (\<lambda>ip w. Ok ''virbr0''),
     vt_host = \<lparr>hw_Interfaces = (\<lambda>w. Ok []), hw_ReadFile = (\<lambda>p w. Fail os_ErrNotExist)\<rparr>\<rparr>"

abbreviation mem_tables :: "fw virtTables" where
  "mem_tables \<equiv> mem_tables_on mem_ipt"

definition base_fw :: fw where
  "base_fw = [(''nat'', ''PREROUTING'') \<mapsto> [[''-j'', ''DOCKER'']], (''filter'', ''FORWARD'') \<mapsto> []]"

lemma mem_tables_laws: "ipt_laws (\<lambda>v. v) (vt_ipt mem_tables)"
  by (simp add: mem_tables_on_def mem_ipt_laws)

lemma mem_names: "vt_names mem_tables = NewNames"
  by (simp add: mem_tables_on_def)


lemma setup_request_built: "built (setup_request nm)"
  by (auto simp: setup_request_def Let_def mk_rule_def intro!: built_add_rules built_add_chains)

lemma setup_request_NewNames:
  "rq_chains (setup_request NewNames) = [chain_setStamp 0 (mk_chain ''nat'' ''NOMAD_VT_PRT''),
     chain_setStamp 1 (mk_chain ''filter'' ''NOMAD_VT_FW'')]"
  "rq_rules (setup_request NewNames) = [rule_setStamp 2 (mk_rule ''nat'' ''PREROUTING'' 1 False [''-j'', ''NOMAD_VT_PRT'']),
     rule_setStamp 3 (mk_rule ''filter'' ''FORWARD'' 1 False [''-j'', ''NOMAD_VT_FW''])]"
  by (simp_all add: setup_request_def NewNames_def Let_def add_rules_def add_chains_def newRequest_def
      rules_InsertSlice_def chains_InsertSlice_def hs_insert_def chain_Hash_def rule_Hash_def
      mk_rule_def mk_chain_def chain_setStamp_def rule_setStamp_def)

text \<open>
  C9. Setup with the production names: when it succeeds the two Nomad chains exist, the jump to
  each is among the rules of its base chain, every other rule of the host is still there in its
  order, and running it again on that firewall changes nothing.
\<close>

theorem setup_idempotent:
  assumes laws: "ipt_laws view (vt_ipt n)" and nm: "vt_names n = NewNames"
    and run: "vt_setup n w = (Ok (), w1)"
  shows "view w1 (''nat'', ''NOMAD_VT_PRT'') \<noteq> None \<and> view w1 (''filter'', ''NOMAD_VT_FW'') \<noteq> None
    \<and> (\<forall>rs. view w1 (''nat'', ''PREROUTING'') = Some rs \<longrightarrow> [''-j'', ''NOMAD_VT_PRT''] \<in> set rs)
    \<and> (\<forall>rs. view w1 (''filter'', ''FORWARD'') = Some rs \<longrightarrow> [''-j'', ''NOMAD_VT_FW''] \<in> set rs)
    \<and> (\<forall>k rs. view w k = Some rs \<longrightarrow> (\<exists>rs'. view w1 k = Some rs' \<and>
        filter (\<lambda>s. s \<notin> {[''-j'', ''NOMAD_VT_PRT''], [''-j'', ''NOMAD_VT_FW'']}) rs'
        = filter (\<lambda>s. s \<notin> {[''-j'', ''NOMAD_VT_PRT''], [''-j'', ''NOMAD_VT_FW'']}) rs))
    \<and> (\<forall>w2 w3. view w2 = view w1 \<longrightarrow> vt_setup n w2 = (Ok (), w3) \<longrightarrow> view w3 = view w1)"
proof -
  let ?req = "setup_request NewNames" and ?S = "{[''-j'', ''NOMAD_VT_PRT''], [''-j'', ''NOMAD_VT_FW'']}"
  have inv: "request_inv ?req" using setup_request_built by (auto simp: built_def)
  have add: "view w' = fw_add (rq_chains ?req) (rq_rules ?req) (view w)" if "vt_setup n w = (Ok (), w')" for w w'
    using that vt_add_Ok [OF laws inv] by (simp add: vt_setup_def nm)
  note w1 = add [OF run]
  have chains: "view w1 (''nat'', ''NOMAD_VT_PRT'') \<noteq> None" "view w1 (''filter'', ''NOMAD_VT_FW'') \<noteq> None"
    by (simp_all only: w1 fw_add_def fold_rule_dom fold_chain_dom)
      (simp_all add: setup_request_NewNames chain_setStamp_def mk_chain_def)
  have "list_all (\<lambda>r. placed r (view w1)) (rq_rules ?req)"
    by (simp add: w1 fw_add_def fold_placed list_all_iff)
  then have jumps: "\<forall>rs. view w1 (''nat'', ''PREROUTING'') = Some rs \<longrightarrow> [''-j'', ''NOMAD_VT_PRT''] \<in> set rs"
    "\<forall>rs. view w1 (''filter'', ''FORWARD'') = Some rs \<longrightarrow> [''-j'', ''NOMAD_VT_FW''] \<in> set rs"
    by (simp_all add: setup_request_NewNames placed_def r_key_def rule_setStamp_def mk_rule_def)
  have "r_spec ` {r \<in> set (rq_rules ?req). r_key r = k} \<subseteq> ?S" for k
    by (auto simp: setup_request_NewNames rule_setStamp_def mk_rule_def)
  then have others: "\<forall>k rs. view w k = Some rs \<longrightarrow> (\<exists>rs'. view w1 k = Some rs' \<and>
      filter (\<lambda>s. s \<notin> ?S) rs' = filter (\<lambda>s. s \<notin> ?S) rs)"
    unfolding w1 fw_add_def by (auto intro!: fold_rule_others fold_chain_keep simp del: insert_iff)
  have "\<forall>w2 w3. view w2 = view w1 \<longrightarrow> vt_setup n w2 = (Ok (), w3) \<longrightarrow> view w3 = view w1"
    using add w1 fw_add_idem by metis
  with chains jumps others show ?thesis by blast
qed


text \<open>
  C3. What Configure adds, Teardown removes: when Configure succeeds and its removal data is torn
  down with success, and none of the forwards' own rules was in the firewall before, then the
  firewall is left as before but for the chains and jump rules of loopback forwarding, which stay;
  without a loopback port it is left exactly as before.
\<close>

theorem Configure_Teardown_restores:
  assumes laws: "ipt_laws view (vt_ipt n)"
    and conf: "Configure n (Some \<lparr>res_Ports = Some ports\<rparr>) (Some cfg) ip w = (Ok rm, w1)"
    and fresh: "\<And>im req r. configure_ports n ports ip w (br_Ports cfg) (Map.empty, newRequest) = Ok (im, req)
      \<Longrightarrow> r \<in> set (rq_rules req) \<Longrightarrow> r_removable r \<Longrightarrow> absent r (fold fw_chain (rq_chains req) (view w))"
    and down: "Teardown n (Some rm) w1 = (Ok (), w2)"
  shows "(\<exists>im req. configure_ports n ports ip w (br_Ports cfg) (Map.empty, newRequest) = Ok (im, req)
      \<and> view w2 = fw_add (rq_chains req) (filter (\<lambda>r. \<not> r_removable r) (rq_rules req)) (view w))
    \<and> (list_all (routed_port ports) (br_Ports cfg) \<longrightarrow> view w2 = view w)"
proof -
  have "\<exists>im req. configure_ports n ports ip w (br_Ports cfg) (Map.empty, newRequest) = Ok (im, req)
      \<and> view w2 = fw_add (rq_chains req) (filter (\<lambda>r. \<not> r_removable r) (rq_rules req)) (view w)"
    by (rule configured_undone [OF laws conf _ down refl]) (rule fresh)
  then obtain im req where req: "configure_ports n ports ip w (br_Ports cfg) (Map.empty, newRequest) = Ok (im, req)"
    and v: "view w2 = fw_add (rq_chains req) (filter (\<lambda>r. \<not> r_removable r) (rq_rules req)) (view w)" by blast
  moreover have "view w2 = view w" if "list_all (routed_port ports) (br_Ports cfg)"
  proof -
    from configure_ports_built [OF _ req] that have "routed_only req" by simp
    with v show ?thesis by (simp add: routed_only_def fw_add_def)
  qed
  ultimately show ?thesis by blast
qed

definition nomad_fw :: fw where
  "nomad_fw = [(''nat'', ''NOMAD_VT_PRT'') \<mapsto> [], (''filter'', ''NOMAD_VT_FW'') \<mapsto> [[''-j'', ''ACCEPT'']]]"

definition web_port :: PortMapping where
  "web_port = \<lparr>pm_HostIP = ''10.0.0.5'', pm_Value = 80, pm_To = 8080\<rparr>"

definition web_bridge :: BridgeConfig where
  "web_bridge = \<lparr>br_Name = ''virbr0'', br_Ports = [''http'']\<rparr>"

lemma ParseAddr_example: "ParseAddr ''10.0.0.5'' = Ok (V4 [10, 0, 0, 5])"
  by (simp add: ParseAddr_def parseIPv4Fields_def ip4_field_def str_simps dec_val_def digit_val_def is_digit_def)

lemmas mem_simps = io_simps iowrap_def mem_tables_on_def mem_ipt_def NewNames_def Let_def add_chain_def add_rule_def
  mk_chain_def mk_rule_def chain_setStamp_def rule_setStamp_def vt_add_def chains_Slice_def rules_Slice_def

lemma setup_mem: "fst (vt_setup mem_tables base_fw) = Ok ()"
  by (simp add: vt_setup_def setup_request_NewNames mem_simps base_fw_def fw_upd_def flip: NewNames_def)

theorem setup_idempotent_witness:
  "\<exists>w1. vt_setup mem_tables base_fw = (Ok (), w1)
    \<and> w1 (''nat'', ''NOMAD_VT_PRT'') \<noteq> None \<and> w1 (''filter'', ''NOMAD_VT_FW'') \<noteq> None"
proof -
  have run: "vt_setup mem_tables base_fw = (Ok (), snd (vt_setup mem_tables base_fw))"
    by (simp add: setup_mem prod_eq_iff)
  then show ?thesis
    using setup_idempotent [OF mem_tables_laws mem_names run] by blast
qed

lemma web_request:
  "configure_ports (mem_tables_on ipt) [''http'' \<mapsto> web_port] ip w [''http''] (Map.empty, newRequest)
   = Ok ([''10.0.0.5'' \<mapsto> ''eth0''], add_rules (routed_rules NewNames web_port ip ''eth0'') newRequest)"
  by (simp add: configure_port_def web_port_def ParseAddr_example cached_def mem_tables_on_def parse_host_def)

lemma web_rules:
  "rq_rules (add_rules (routed_rules NewNames web_port ip ''eth0'') newRequest)
   = stamp_all rule_setStamp 0 (routed_rules NewNames web_port ip ''eth0'')"
  by (simp add: add_rules_def rules_InsertSlice_def newRequest_def routed_rules_def NewNames_def Let_def
      hs_insert_def mk_rule_def rule_setStamp_def rule_Hash_def)

lemma web_chains: "rq_chains (add_rules rs newRequest) = []"
  by (simp add: newRequest_def)

definition web_removal :: "string \<Rightarrow> FilterRemoval" where
  "web_removal ip = \<lparr>fr_Name = removalName, fr_Data = RulesData (map rule_slice
     (routed_rules NewNames web_port ip ''eth0''))\<rparr>"

lemma web_removals: "removalInstructions (add_rules (routed_rules NewNames web_port ip ''eth0'') newRequest)
   = map rule_slice (routed_rules NewNames web_port ip ''eth0'')"
  unfolding removalInstructions_eq [OF request_inv_add_rules [OF request_inv_new]] web_rules
  by (simp add: routed_rules_def Let_def mk_rule_def rule_setStamp_def rule_slice_def)

lemma web_add: "vt_add mem_tables (add_rules (routed_rules NewNames web_port ip ''eth0'') newRequest) nomad_fw
   = (Ok (), fold fw_rule (routed_rules NewNames web_port ip ''eth0'') nomad_fw)"
  unfolding vt_add_def web_rules web_chains chains_Slice_def
  by (simp add: routed_rules_def mem_simps nomad_fw_def fw_rule_def r_key_def fw_upd_def)

lemma web_Configure:
  "Configure mem_tables (Some \<lparr>res_Ports = Some [''http'' \<mapsto> web_port]\<rparr>) (Some web_bridge) ip nomad_fw
   = (Ok (web_removal ip), fold fw_rule (routed_rules NewNames web_port ip ''eth0'') nomad_fw)"
proof -
  have "br_Ports web_bridge = [''http'']" by (simp add: web_bridge_def)
  then show ?thesis unfolding Configure_def
    by (simp add: web_request web_removals web_add io_simps web_removal_def del: configure_ports.simps)
qed

lemma web_Teardown:
  "fst (Teardown mem_tables (Some (web_removal ip))
     (fold fw_rule (routed_rules NewNames web_port ip ''eth0'') nomad_fw)) = Ok ()"
  by (simp add: Teardown_def web_removal_def routed_rules_def mem_simps rule_slice_def teardown_request_def
     Rules_rules_def vt_remove_def rule_Hash_def hs_insert_def add_rules_def newRequest_def rules_InsertSlice_def
     chains_Contains_def nomad_fw_def fw_rule_def r_key_def fw_upd_def of_err_def)

lemma routed_example: "list_all (routed_port [''http'' \<mapsto> web_port]) (br_Ports web_bridge)"
  by (simp add: web_bridge_def routed_port_def web_port_def ParseAddr_example)

lemma web_fresh:
  assumes "configure_ports (mem_tables_on ipt) [''http'' \<mapsto> web_port] ip w (br_Ports web_bridge) (Map.empty, newRequest)
      = Ok (im, req)" and "r \<in> set (rq_rules req)"
  shows "rq_chains req = [] \<and> absent r nomad_fw"
proof -
  have "req = add_rules (routed_rules NewNames web_port ip ''eth0'') newRequest"
    using assms(1) by (simp add: web_bridge_def web_request del: configure_ports.simps)
  with assms(2) have "r \<in> set (stamp_all rule_setStamp 0 (routed_rules NewNames web_port ip ''eth0''))"
    "rq_chains req = []" by (simp_all only: web_rules web_chains)
  then show ?thesis
    by (auto simp: absent_def nomad_fw_def routed_rules_def NewNames_def Let_def mk_rule_def
        rule_setStamp_def r_key_def split: if_splits)
qed

theorem Configure_Teardown_restores_witness:
  "\<exists>rm w1. Configure mem_tables (Some \<lparr>res_Ports = Some [''http'' \<mapsto> web_port]\<rparr>) (Some web_bridge) ''10.0.3.7'' nomad_fw
      = (Ok rm, w1) \<and> w1 \<noteq> nomad_fw \<and> Teardown mem_tables (Some rm) w1 = (Ok (), nomad_fw)"
proof -
  let ?w1 = "fold fw_rule (routed_rules NewNames web_port ''10.0.3.7'' ''eth0'') nomad_fw"
  let ?w2 = "snd (Teardown mem_tables (Some (web_removal ''10.0.3.7'')) ?w1)"
  have down: "Teardown mem_tables (Some (web_removal ''10.0.3.7'')) ?w1 = (Ok (), ?w2)"
    by (simp add: web_Teardown prod_eq_iff)
  have fresh: "absent r (fold fw_chain (rq_chains req) nomad_fw)"
    if "configure_ports mem_tables [''http'' \<mapsto> web_port] ''10.0.3.7'' nomad_fw (br_Ports web_bridge)
        (Map.empty, newRequest) = Ok (im, req)" "r \<in> set (rq_rules req)" for im req r
    using web_fresh [OF that] by simp
  have "?w2 = nomad_fw"
    using Configure_Teardown_restores [OF mem_tables_laws web_Configure _ down] fresh routed_example by blast
  moreover have "?w1 (''nat'', ''NOMAD_VT_PRT'') \<noteq> nomad_fw (''nat'', ''NOMAD_VT_PRT'')"
    by (simp add: routed_rules_def NewNames_def Let_def mk_rule_def fw_rule_def r_key_def fw_upd_def
        nomad_fw_def put_unique_def)
  ultimately show ?thesis using web_Configure down by auto
qed


end
