(* ===== verification/Holes.thy ===== *)
theory Holes
  imports Prelude
begin

text \<open>
  \<^verbatim>\<open>internal/holes\<close>, \<^verbatim>\<open>internal/ctxio\<close>, and the two sparse copies: \<open>libvirtStream.ReadFrom\<close>
  (\<^verbatim>\<open>providers/libvirt/shims/stream_unix.go\<close>) and \<open>sparseWriter.ReadFrom\<close>
  (\<^verbatim>\<open>providers/libvirt/storage/plugin/ceph/sparse_writer.go\<close>). File positions are \<open>int\<close>: an \<open>int64\<close>
  position of a file does not wrap. Loops that only a well-behaved reader ends take fuel, and
  \<open>None\<close> is running out of it.
\<close>

section \<open>Holes and their collection\<close>

type_synonym byte = "8 word"

datatype hole = Hole (h_start: int) (h_end: int)

instantiation hole :: linorder
begin

definition less_eq_hole :: "hole \<Rightarrow> hole \<Rightarrow> bool" where
  "less_eq_hole a b = (h_start a < h_start b \<or> h_start a = h_start b \<and> h_end a \<le> h_end b)"

definition less_hole :: "hole \<Rightarrow> hole \<Rightarrow> bool" where
  "less_hole a b = (a \<le> b \<and> \<not> b \<le> (a :: hole))"

instance
  by intro_classes (auto simp: less_eq_hole_def less_hole_def hole.expand)

end

definition StartsBefore :: "hole option \<Rightarrow> int \<Rightarrow> bool" where
  "StartsBefore h pos = (case h of None \<Rightarrow> False | Some h \<Rightarrow> pos \<ge> h_start h)"

definition Overflow :: "hole option \<Rightarrow> int \<Rightarrow> int" where
  "Overflow h pos = (case h of None \<Rightarrow> 0 | Some h \<Rightarrow>
     (let over = pos - h_start h in if over < 0 then 0 else over))"

definition hole_Length :: "hole option \<Rightarrow> int" where
  "hole_Length h = (case h of None \<Rightarrow> 0 | Some h \<Rightarrow> h_end h - h_start h)"

definition hole_Start :: "hole option \<Rightarrow> int" where
  "hole_Start h = (case h of None \<Rightarrow> -1 | Some h \<Rightarrow> h_start h)"

definition hole_End :: "hole option \<Rightarrow> int" where
  "hole_End h = (case h of None \<Rightarrow> -1 | Some h \<Rightarrow> h_end h)"

type_synonym collection = "hole list"

definition coll_Add :: "hole \<Rightarrow> collection \<Rightarrow> collection" where
  "coll_Add h c = c @ [h]"

definition coll_Count :: "collection \<Rightarrow> nat" where
  "coll_Count c = length c"

definition coll_Next :: "collection \<Rightarrow> hole option \<times> collection" where
  "coll_Next c = (if length c < 1 then (None, c) else (Some (hd c), tl c))"

section \<open>Readers\<close>

text \<open>
  The calls on a \<open>Reader\<close>: the answers of the seeks that find and set positions, of the seeks to
  the next hole and the next data, and of \<open>ReadAt\<close> with a buffer of a given size. A source that is
  only an \<open>io.Reader\<close> is the chunks its successive reads return, with the error that ends them
  (\<open>None\<close> for end of file).
\<close>

definition io_EOF :: goerr where "io_EOF = ErrNew ''EOF''"
definition ENXIO :: goerr where "ENXIO = ErrNew ''no such device or address''"

record reader =
  rd_Current :: "int res"
  rd_End :: "int res"
  rd_Set :: "int \<Rightarrow> int res"
  rd_Hole :: "int \<Rightarrow> int res"
  rd_Data :: "int \<Rightarrow> int res"
  rd_ReadAt :: "nat \<Rightarrow> int \<Rightarrow> byte list \<times> goerr option"

record source =
  src_seek :: "reader option"
  src_chunks :: "byte list list"
  src_error :: "goerr option"

fun ok_of :: "'a res \<Rightarrow> 'a option" where
  "ok_of (Ok x) = Some x"
| "ok_of (Fail e) = None"
| "ok_of (Panic p) = None"

definition MakeReader :: "source \<Rightarrow> reader option" where
  "MakeReader r = (case src_seek r of
     None \<Rightarrow> None
   | Some f \<Rightarrow> (case ok_of (rd_Current f) of None \<Rightarrow> None | Some pos \<Rightarrow>
       (case ok_of (rd_End f) of None \<Rightarrow> None | Some eof \<Rightarrow>
       (case ok_of (rd_Set f pos) of None \<Rightarrow> None | Some _ \<Rightarrow>
       (case ok_of (rd_Hole f 0) of None \<Rightarrow> None | Some hole \<Rightarrow>
         if hole = eof then None else Some f)))))"

fun collect_loop :: "nat \<Rightarrow> reader \<Rightarrow> int \<Rightarrow> collection \<Rightarrow> int \<Rightarrow> collection res option" where
  "collect_loop 0 f eof holes offset = None"
| "collect_loop (Suc n) f eof holes offset = (case rd_Hole f offset of
     Panic p \<Rightarrow> Some (Panic p)
   | Fail e \<Rightarrow> if is_err io_EOF e then Some (Ok holes) else Some (Fail e)
   | Ok start \<Rightarrow>
       if start = eof then Some (Ok holes)
       else (case rd_Data f start of
         Panic p \<Rightarrow> Some (Panic p)
       | Fail e \<Rightarrow>
           if is_err io_EOF e then Some (Ok holes)
           else if is_err ENXIO e then Some (Ok (coll_Add (Hole start eof) holes))
           else Some (Fail e)
       | Ok end_ \<Rightarrow> collect_loop n f eof (coll_Add (Hole start end_) holes) end_))"

definition Collect_holes :: "nat \<Rightarrow> reader \<Rightarrow> collection res option" where
  "Collect_holes fuel f = (case rd_Current f of
     Fail e \<Rightarrow> Some (Fail e) | Panic p \<Rightarrow> Some (Panic p)
   | Ok pos \<Rightarrow> (case rd_End f of
       Fail e \<Rightarrow> Some (Fail e) | Panic p \<Rightarrow> Some (Panic p)
     | Ok eof \<Rightarrow> (case rd_Set f pos of
         Fail e \<Rightarrow> Some (Fail e) | Panic p \<Rightarrow> Some (Panic p)
       | Ok _ \<Rightarrow> collect_loop fuel f eof [] 0)))"

section \<open>Context-aware writing and plain copies\<close>

text \<open>A context is its error in the current world.\<close>

definition ctx_Write :: "('w \<Rightarrow> goerr option) \<Rightarrow> (byte list \<Rightarrow> ('w, nat) io) \<Rightarrow> byte list \<Rightarrow> ('w, nat) io" where
  "ctx_Write ctx wr p = (\<lambda>w. case ctx w of Some e \<Rightarrow> (Fail e, w) | None \<Rightarrow> wr p w)"

definition ctx_Read :: "('w \<Rightarrow> goerr option) \<Rightarrow> (nat \<Rightarrow> ('w, byte list) io) \<Rightarrow> nat \<Rightarrow> ('w, byte list) io" where
  "ctx_Read ctx rd n = (\<lambda>w. case ctx w of Some e \<Rightarrow> (Fail e, w) | None \<Rightarrow> rd n w)"

definition ErrShortWrite :: goerr where "ErrShortWrite = ErrNew ''short write''"
definition errInvalidWrite :: goerr where "errInvalidWrite = ErrNew ''invalid write result''"

text \<open>Go's \<open>io.Copy\<close> over the chunks of the source.\<close>

fun io_Copy :: "(byte list \<Rightarrow> ('w, nat) io) \<Rightarrow> byte list list \<Rightarrow> goerr option \<Rightarrow> nat
    \<Rightarrow> ('w, int \<times> goerr option) io" where
  "io_Copy wr [] err n = ret (int n, err)"
| "io_Copy wr (c # cs) err n =
     (if c = [] then io_Copy wr cs err n
      else iotry (wr c)
        (\<lambda>nw. if length c < nw then ret (int n, Some errInvalidWrite)
              else if nw \<noteq> length c then ret (int (n + nw), Some ErrShortWrite)
              else io_Copy wr cs err (n + nw))
        (\<lambda>e. ret (int n, Some e)))"

section \<open>The sparse copy to a libvirt stream\<close>

definition BUFFER_SIZE :: nat where "BUFFER_SIZE = 32768"

record 'w stream =
  st_ctx :: "'w \<Rightarrow> goerr option"
  st_Send :: "byte list \<Rightarrow> ('w, nat) io"
  st_SendHole :: "int \<Rightarrow> ('w, unit) io"

text \<open>
  \<open>offset\<close> advances before the data is sent. The number of bytes \<open>Send\<close> reports is not looked at.
\<close>

fun stream_loop :: "nat \<Rightarrow> 'w stream \<Rightarrow> reader \<Rightarrow> hole option \<Rightarrow> collection \<Rightarrow> int \<Rightarrow> 'w
    \<Rightarrow> ((int \<times> goerr option) res \<times> 'w) option" where
  "stream_loop 0 l f hole holes offset w = None"
| "stream_loop (Suc n) l f hole holes offset w = (case st_ctx l w of
     Some e \<Rightarrow> Some (Ok (offset, Some e), w)
   | None \<Rightarrow> (case rd_ReadAt f BUFFER_SIZE offset of (buf, err) \<Rightarrow>
       if err \<noteq> None \<and> \<not> is_err io_EOF (the err) then Some (Ok (offset, err), w)
       else if err \<noteq> None \<and> buf = [] then Some (Ok (offset, None), w)
       else
         let offset = offset + int (length buf);
             read = int (length buf) - (if StartsBefore hole offset then Overflow hole offset else 0)
         in (case (if read > 0 then st_Send l (take (nat read) buf) w else (Ok 0, w)) of
              (Fail e, w) \<Rightarrow> Some (Ok (offset, Some e), w)
            | (Panic p, w) \<Rightarrow> Some (Panic p, w)
            | (Ok _, w) \<Rightarrow>
                if StartsBefore hole offset then
                  (case st_SendHole l (hole_Length hole) w of
                     (Fail e, w) \<Rightarrow> Some (Ok (offset, Some e), w)
                   | (Panic p, w) \<Rightarrow> Some (Panic p, w)
                   | (Ok _, w) \<Rightarrow> (case coll_Next holes of (hole', holes') \<Rightarrow>
                       stream_loop n l f hole' holes' (hole_End hole) w))
                else stream_loop n l f hole holes offset w)))"

definition stream_ReadFrom :: "nat \<Rightarrow> 'w stream \<Rightarrow> source \<Rightarrow> 'w \<Rightarrow> ((int \<times> goerr option) res \<times> 'w) option" where
  "stream_ReadFrom fuel l r w = (case MakeReader r of
     None \<Rightarrow> Some (io_Copy (ctx_Write (st_ctx l) (st_Send l)) (src_chunks r) (src_error r) 0 w)
   | Some f \<Rightarrow> (case Collect_holes fuel f of
       None \<Rightarrow> None
     | Some (Fail e) \<Rightarrow> Some (Ok (0, Some e), w)
     | Some (Panic p) \<Rightarrow> Some (Panic p, w)
     | Some (Ok holes) \<Rightarrow> (case coll_Next holes of (hole, holes) \<Rightarrow>
         stream_loop fuel l f hole holes 0 w)))"

section \<open>The sparse copy to an rbd image\<close>

record 'w image =
  im_ctx :: "'w \<Rightarrow> goerr option"
  im_Write :: "byte list \<Rightarrow> ('w, nat) io"
  im_WriteAt :: "byte list \<Rightarrow> int \<Rightarrow> ('w, nat) io"

fun image_loop :: "nat \<Rightarrow> 'w image \<Rightarrow> reader \<Rightarrow> hole option \<Rightarrow> collection \<Rightarrow> int \<Rightarrow> 'w
    \<Rightarrow> ((int \<times> goerr option) res \<times> 'w) option" where
  "image_loop 0 s f hole holes offset w = None"
| "image_loop (Suc n) s f hole holes offset w = (case im_ctx s w of
     Some e \<Rightarrow> Some (Ok (offset, Some e), w)
   | None \<Rightarrow> (case rd_ReadAt f BUFFER_SIZE offset of (buf, err) \<Rightarrow>
       if err \<noteq> None \<and> \<not> is_err io_EOF (the err) then Some (Ok (offset, err), w)
       else if err \<noteq> None \<and> buf = [] then Some (Ok (offset, None), w)
       else
         let newOffset = offset + int (length buf);
             read = int (length buf) - (if StartsBefore hole newOffset then Overflow hole newOffset else 0)
         in (case (if read > 0 then im_WriteAt s (take (nat read) buf) offset w else (Ok 0, w)) of
              (Fail e, w) \<Rightarrow> Some (Ok (offset, Some e), w)
            | (Panic p, w) \<Rightarrow> Some (Panic p, w)
            | (Ok _, w) \<Rightarrow>
                if StartsBefore hole newOffset then
                  (case coll_Next holes of (hole', holes') \<Rightarrow>
                     image_loop n s f hole' holes' (hole_End hole) w)
                else image_loop n s f hole holes newOffset w)))"

definition image_ReadFrom :: "nat \<Rightarrow> 'w image \<Rightarrow> source \<Rightarrow> 'w \<Rightarrow> ((int \<times> goerr option) res \<times> 'w) option" where
  "image_ReadFrom fuel s r w = (case MakeReader r of
     None \<Rightarrow> Some (io_Copy (ctx_Write (im_ctx s) (im_Write s)) (src_chunks r) (src_error r) 0 w)
   | Some f \<Rightarrow> (case Collect_holes fuel f of
       None \<Rightarrow> None
     | Some (Fail e) \<Rightarrow> Some (Ok (0, Some e), w)
     | Some (Panic p) \<Rightarrow> Some (Panic p, w)
     | Some (Ok holes) \<Rightarrow> (case coll_Next holes of (hole, holes) \<Rightarrow>
         image_loop fuel s f hole holes 0 w)))"

section \<open>Files\<close>

text \<open>
  A file as the operating system keeps it: its bytes, each with whether it lies in a hole. The
  seeks to the next hole and data answer with \<open>ENXIO\<close> past the end (and a seek to data also when
  only a hole is left), as \<^verbatim>\<open>lseek(2)\<close> documents; the end of the file counts as a hole.
\<close>

type_synonym sfile = "(byte \<times> bool) list"

definition seek_hole :: "sfile \<Rightarrow> int \<Rightarrow> int res" where
  "seek_hole f off = (if off \<ge> int (length f) then Fail ENXIO
     else Ok (off + int (length (takeWhile (\<lambda>x. \<not> snd x) (drop (nat off) f)))))"

definition seek_data :: "sfile \<Rightarrow> int \<Rightarrow> int res" where
  "seek_data f off = (let pos = off + int (length (takeWhile snd (drop (nat off) f))) in
     if pos \<ge> int (length f) then Fail ENXIO else Ok pos)"

definition read_at :: "sfile \<Rightarrow> nat \<Rightarrow> int \<Rightarrow> byte list \<times> goerr option" where
  "read_at f n off = (let buf = map fst (take n (drop (nat off) f)) in
     (buf, if length buf < n then Some io_EOF else None))"

definition file_reader :: "sfile \<Rightarrow> reader" where
  "file_reader f = \<lparr>rd_Current = Ok 0, rd_End = Ok (int (length f)), rd_Set = Ok,
     rd_Hole = seek_hole f, rd_Data = seek_data f, rd_ReadAt = read_at f\<rparr>"

text \<open>An opened file as a source: plain reads return it in one chunk.\<close>

definition file_source :: "sfile \<Rightarrow> source" where
  "file_source f = \<lparr>src_seek = Some (file_reader f), src_chunks = [map fst f], src_error = None\<rparr>"

text \<open>A hole reads as zeros.\<close>

definition file_ok :: "sfile \<Rightarrow> bool" where
  "file_ok f \<longleftrightarrow> (\<forall>(b, h) \<in> set f. h \<longrightarrow> b = 0)"

section \<open>The holes that are collected\<close>

text \<open>\<open>covers f off hs\<close>: from \<open>off\<close> on, \<open>hs\<close> are the holes of the file, in order, disjoint, complete.\<close>

definition in_hole :: "sfile \<Rightarrow> int \<Rightarrow> bool" where
  "in_hole f i = snd (f ! nat i)"

fun covers :: "sfile \<Rightarrow> int \<Rightarrow> collection \<Rightarrow> bool" where
  "covers f off [] = (\<forall>i. off \<le> i \<longrightarrow> i < int (length f) \<longrightarrow> \<not> in_hole f i)"
| "covers f off (h # hs) = (off \<le> h_start h \<and> h_start h < h_end h \<and> h_end h \<le> int (length f)
     \<and> (\<forall>i. off \<le> i \<longrightarrow> i < h_start h \<longrightarrow> \<not> in_hole f i)
     \<and> (\<forall>i. h_start h \<le> i \<longrightarrow> i < h_end h \<longrightarrow> in_hole f i) \<and> covers f (h_end h) hs)"

lemma takeWhile_drop:
  fixes P :: "'a \<Rightarrow> bool"
  assumes "0 \<le> off" "off \<le> int (length f)"
  defines "n \<equiv> int (length (takeWhile P (drop (nat off) f)))"
  shows "0 \<le> n" "off + n \<le> int (length f)"
    and "\<And>i. off \<le> i \<Longrightarrow> i < off + n \<Longrightarrow> P (f ! nat i)"
    and "off + n < int (length f) \<Longrightarrow> \<not> P (f ! nat (off + n))"
proof -
  let ?d = "drop (nat off) f"
  have len: "int (length ?d) = int (length f) - off" using assms(1,2) by simp
  show "0 \<le> n" by (simp add: n_def)
  have "length (takeWhile P ?d) \<le> length ?d" by (rule length_takeWhile_le)
  then show "off + n \<le> int (length f)" using len by (simp add: n_def)
  show "P (f ! nat i)" if "off \<le> i" "i < off + n" for i
  proof -
    have "nat (i - off) < length (takeWhile P ?d)" using that by (simp add: n_def)
    then have "P (takeWhile P ?d ! nat (i - off))" by (meson nth_mem set_takeWhileD)
    with \<open>nat (i - off) < length (takeWhile P ?d)\<close> have "P (?d ! nat (i - off))"
      by (simp add: takeWhile_nth)
    moreover have "?d ! nat (i - off) = f ! nat i"
      using that assms(1,2) by (simp add: nat_diff_distrib)
    ultimately show ?thesis by simp
  qed
  show "\<not> P (f ! nat (off + n))" if "off + n < int (length f)"
  proof -
    have "n < int (length ?d)" using that len by linarith
    then have "length (takeWhile P ?d) < length ?d" unfolding n_def by linarith
    then have "\<not> P (?d ! length (takeWhile P ?d))" by (rule nth_length_takeWhile)
    moreover have "nat off + length (takeWhile P ?d) = nat (off + n)"
      using assms(1) by (simp add: n_def nat_add_distrib)
    ultimately show ?thesis using assms(1,2) by simp
  qed
qed

lemma covers_from:
  assumes "covers f s hs" "off \<le> s" "\<forall>i. off \<le> i \<longrightarrow> i < s \<longrightarrow> \<not> in_hole f i"
  shows "covers f off hs"
proof (cases hs)
  case Nil
  then show ?thesis using assms by (metis covers.simps(1) linorder_not_le)
next
  case (Cons h hs')
  then have "\<not> in_hole f i" if "off \<le> i" "i < h_start h" for i
    using assms that by (cases "i < s") auto
  then show ?thesis using assms Cons by auto
qed

lemma not_eof [simp]: "\<not> is_err io_EOF ENXIO"
  by (simp add: io_EOF_def ENXIO_def)

lemma collect_loop_covers:
  assumes "0 \<le> off" "off < int (length f)" "int (length f) - off < int n"
  shows "\<exists>hs. collect_loop n (file_reader f) (int (length f)) acc off = Some (Ok (acc @ hs)) \<and> covers f off hs"
  using assms
proof (induction n arbitrary: acc off)
  case (Suc n)
  let ?eof = "int (length f)"
  define a where "a = int (length (takeWhile (\<lambda>x. \<not> snd x) (drop (nat off) f)))"
  define s where "s = off + a"
  note A = takeWhile_drop [OF Suc.prems(1) less_imp_le [OF Suc.prems(2)], where P = "\<lambda>x. \<not> snd x",
      folded a_def s_def]
  have hole: "rd_Hole (file_reader f) off = Ok s"
    using Suc.prems(2) by (simp add: file_reader_def seek_hole_def s_def a_def)
  show ?case
  proof (cases "s = ?eof")
    case True
    then show ?thesis using hole A(3) by (intro exI [of _ "[]"]) (auto simp: in_hole_def)
  next
    case False
    with A have s: "0 \<le> s" "s < ?eof" "snd (f ! nat s)" using Suc.prems(1) by (auto simp: s_def)
    define b where "b = int (length (takeWhile snd (drop (nat s) f)))"
    define e where "e = s + b"
    note B = takeWhile_drop [OF s(1) less_imp_le [OF s(2)], where P = snd, folded b_def e_def]
    have "b \<noteq> 0"
    proof
      assume "b = 0"
      with B(4) s(2,3) show False by (simp add: e_def)
    qed
    with B(1) have se: "s < e" by (simp add: e_def)
    have os: "off \<le> s" using A(1) by (simp add: s_def)
    have cov: "covers f off (Hole s e # hs)" if "covers f e hs" for hs
      using that se os A(3) B(2,3) by (auto simp: in_hole_def s_def)
    show ?thesis
    proof (cases "e = ?eof")
      case True
      then have "rd_Data (file_reader f) s = Fail ENXIO"
        by (simp add: file_reader_def seek_data_def e_def b_def)
      with hole False have "collect_loop (Suc n) (file_reader f) ?eof acc off = Some (Ok (acc @ [Hole s e]))"
        by (simp add: coll_Add_def True)
      then show ?thesis using cov [of "[]"] True by (intro exI [of _ "[Hole s e]"]) auto
    next
      case False
      with B(2) have e: "e < ?eof" by simp
      then have "rd_Data (file_reader f) s = Ok e"
        by (simp add: file_reader_def seek_data_def e_def b_def)
      with hole \<open>s \<noteq> ?eof\<close> have step: "collect_loop (Suc n) (file_reader f) ?eof acc off
          = collect_loop n (file_reader f) ?eof (acc @ [Hole s e]) e"
        by (simp add: coll_Add_def)
      have "?eof - e < int n" using Suc.prems(3) se os by simp
      from Suc.IH [of e "acc @ [Hole s e]"] this e se s(1) obtain hs where
        "collect_loop n (file_reader f) ?eof (acc @ [Hole s e]) e = Some (Ok ((acc @ [Hole s e]) @ hs))"
        "covers f e hs" by auto
      with step cov show ?thesis by (intro exI [of _ "Hole s e # hs"]) auto
    qed
  qed
qed simp

lemma Collect_covers:
  assumes "f \<noteq> []" "length f < n"
  shows "\<exists>hs. Collect_holes n (file_reader f) = Some (Ok hs) \<and> covers f 0 hs"
proof -
  have "Collect_holes n (file_reader f) = collect_loop n (file_reader f) (int (length f)) [] 0"
    by (simp add: Collect_holes_def file_reader_def)
  with collect_loop_covers [of 0 f n "[]"] assms show ?thesis by simp
qed

lemma covers_start: "covers f off hs \<Longrightarrow> h \<in> set hs \<Longrightarrow> off \<le> h_start h \<and> h_start h < h_end h \<and> h_end h \<le> int (length f)"
  by (induction hs arbitrary: off) (auto, fastforce+)

lemma covers_sorted: "covers f off hs \<Longrightarrow> sorted hs \<and> distinct hs"
proof (induction hs arbitrary: off)
  case (Cons h hs)
  have "h < h'" if "h' \<in> set hs" for h'
    using Cons.prems covers_start [of f "h_end h" hs h'] that
    by (auto simp: less_hole_def less_eq_hole_def)
  with Cons show ?case by (auto simp: less_le)
qed simp

lemma covers_iff:
  "covers f off hs \<Longrightarrow> off \<le> i \<Longrightarrow> i < int (length f) \<Longrightarrow>
     in_hole f i \<longleftrightarrow> (\<exists>h \<in> set hs. h_start h \<le> i \<and> i < h_end h)"
proof (induction hs arbitrary: off)
  case (Cons h hs)
  consider "i < h_start h" | "h_start h \<le> i" "i < h_end h" | "h_end h \<le> i" by linarith
  then show ?case
  proof cases
    case 1
    then have "\<not> h_start h' \<le> i" if "h' \<in> set hs" for h'
      using covers_start [of f "h_end h" hs h'] Cons.prems(1) that by fastforce
    then show ?thesis using 1 Cons.prems by auto
  next
    case 3
    then show ?thesis using Cons.IH [of "h_end h"] Cons.prems by auto
  qed (use Cons.prems in auto)
qed simp

text \<open>
  C27. Collecting the holes of a file terminates (fuel above its length is enough) and finds exactly
  its holes: sorted, without duplicates, each non-empty and inside the file, and a position lies in
  one of them precisely when the file says it is in a hole.
\<close>

theorem Collect_finds_holes:
  assumes "f \<noteq> []" and "length f < fuel"
  shows "\<exists>hs. Collect_holes fuel (file_reader f) = Some (Ok hs) \<and> sorted hs \<and> distinct hs
    \<and> (\<forall>h \<in> set hs. 0 \<le> h_start h \<and> h_start h < h_end h \<and> h_end h \<le> int (length f))
    \<and> (\<forall>i. 0 \<le> i \<longrightarrow> i < int (length f) \<longrightarrow>
         in_hole f i = (\<exists>h \<in> set hs. h_start h \<le> i \<and> i < h_end h))"
proof -
  from Collect_covers [OF assms] obtain hs where "Collect_holes fuel (file_reader f) = Some (Ok hs)"
    "covers f 0 hs" by blast
  then show ?thesis using covers_sorted covers_start covers_iff by blast
qed

definition example_file :: sfile where
  "example_file = [(7, False), (0, True), (0, True), (9, False), (0, True)]"

theorem Collect_finds_holes_witness:
  "Collect_holes 6 (file_reader example_file) = Some (Ok [Hole 1 3, Hole 4 5]) \<and> sorted [Hole 1 3, Hole 4 5]"
proof -
  have "Collect_holes 6 (file_reader example_file) = Some (Ok [Hole 1 3, Hole 4 5])"
    by (simp add: Collect_holes_def file_reader_def example_file_def seek_hole_def seek_data_def
        coll_Add_def numeral_eq_Suc)
  moreover have "example_file \<noteq> []" "length example_file < 6" by (simp_all add: example_file_def)
  ultimately show ?thesis using Collect_finds_holes [of example_file 6] by force
qed

section \<open>The contract of a sparse sink\<close>

text \<open>
  Both copies are the same loop over a context, a way to put data at a position and a way to pass a
  hole; they differ in the offset they report with a failed write.
\<close>

fun sparse_loop :: "nat \<Rightarrow> ('w \<Rightarrow> goerr option) \<Rightarrow> (byte list \<Rightarrow> int \<Rightarrow> ('w, nat) io)
    \<Rightarrow> (hole option \<Rightarrow> ('w, unit) io) \<Rightarrow> bool \<Rightarrow> reader \<Rightarrow> hole option \<Rightarrow> collection \<Rightarrow> int \<Rightarrow> 'w
    \<Rightarrow> ((int \<times> goerr option) res \<times> 'w) option" where
  "sparse_loop 0 ctx put skip adv f hole holes offset w = None"
| "sparse_loop (Suc n) ctx put skip adv f hole holes offset w = (case ctx w of
     Some e \<Rightarrow> Some (Ok (offset, Some e), w)
   | None \<Rightarrow> (case rd_ReadAt f BUFFER_SIZE offset of (buf, err) \<Rightarrow>
       if err \<noteq> None \<and> \<not> is_err io_EOF (the err) then Some (Ok (offset, err), w)
       else if err \<noteq> None \<and> buf = [] then Some (Ok (offset, None), w)
       else
         let new = offset + int (length buf);
             read = int (length buf) - (if StartsBefore hole new then Overflow hole new else 0)
         in (case (if read > 0 then put (take (nat read) buf) offset w else (Ok 0, w)) of
              (Fail e, w) \<Rightarrow> Some (Ok (if adv then new else offset, Some e), w)
            | (Panic p, w) \<Rightarrow> Some (Panic p, w)
            | (Ok _, w) \<Rightarrow>
                if StartsBefore hole new then
                  (case skip hole w of
                     (Fail e, w) \<Rightarrow> Some (Ok (new, Some e), w)
                   | (Panic p, w) \<Rightarrow> Some (Panic p, w)
                   | (Ok _, w) \<Rightarrow> (case coll_Next holes of (hole', holes') \<Rightarrow>
                       sparse_loop n ctx put skip adv f hole' holes' (hole_End hole) w))
                else sparse_loop n ctx put skip adv f hole holes new w)))"

lemma stream_loop_sparse:
  "stream_loop n l f hole holes off w =
     sparse_loop n (st_ctx l) (\<lambda>b off. st_Send l b) (\<lambda>h. st_SendHole l (hole_Length h)) True f hole holes off w"
proof (induction n arbitrary: hole holes off w)
  case (Suc n)
  show ?case by (simp only: stream_loop.simps sparse_loop.simps Suc if_True)
qed simp

lemma image_loop_sparse:
  "image_loop n s f hole holes off w =
     sparse_loop n (im_ctx s) (im_WriteAt s) (\<lambda>h. ret ()) False f hole holes off w"
proof (induction n arbitrary: hole holes off w)
  case (Suc n)
  show ?case
    by (simp only: image_loop.simps sparse_loop.simps Suc if_False ret_def prod.case res.case)
qed simp

text \<open>One round that reads something: \<open>m\<close> bytes of it come before the next hole.\<close>

lemma sparse_step:
  assumes "ctx w = None" "rd_ReadAt f BUFFER_SIZE off = (buf, err)" "buf \<noteq> []"
    and "err = None \<or> err = Some io_EOF" and "new = off + int (length buf)"
    and "int (length buf) - (if StartsBefore hole new then Overflow hole new else 0) = int m"
  shows "sparse_loop (Suc n) ctx put skip adv f hole holes off w =
    (case (if 0 < m then put (take m buf) off w else (Ok 0, w)) of
       (Fail e, w) \<Rightarrow> Some (Ok (if adv then new else off, Some e), w)
     | (Panic p, w) \<Rightarrow> Some (Panic p, w)
     | (Ok _, w) \<Rightarrow>
         if StartsBefore hole new then
           (case skip hole w of
              (Fail e, w) \<Rightarrow> Some (Ok (new, Some e), w)
            | (Panic p, w) \<Rightarrow> Some (Panic p, w)
            | (Ok _, w) \<Rightarrow> (case coll_Next holes of (hole', holes') \<Rightarrow>
                sparse_loop n ctx put skip adv f hole' holes' (hole_End hole) w))
         else sparse_loop n ctx put skip adv f hole holes new w)"
proof -
  have "(err \<noteq> None \<and> \<not> is_err io_EOF (the err)) = False" "(err \<noteq> None \<and> buf = []) = False"
    using assms(3,4) by auto
  then show ?thesis
    by (simp only: sparse_loop.simps assms(1,2) option.case prod.case if_False Let_def
        assms(5) [symmetric] assms(6) of_nat_0_less_iff nat_int)
qed

lemma read_at_step:
  assumes "0 \<le> off" "off \<le> int (length f)"
  obtains "off = int (length f)" "rd_ReadAt (file_reader f) BUFFER_SIZE off = ([], Some io_EOF)"
  | k err where "0 < k" "off + int k \<le> int (length f)" "err = None \<or> err = Some io_EOF"
      "rd_ReadAt (file_reader f) BUFFER_SIZE off = (take k (drop (nat off) (map fst f)), err)"
      "length (take k (drop (nat off) (map fst f))) = k"
proof (cases "off = int (length f)")
  case True
  then show ?thesis using that(1) by (simp add: file_reader_def read_at_def BUFFER_SIZE_def Let_def)
next
  case False
  let ?k = "min BUFFER_SIZE (length f - nat off)"
  have "0 < ?k" "off + int ?k \<le> int (length f)" using assms False by (auto simp: BUFFER_SIZE_def)
  moreover have "map fst (take BUFFER_SIZE (drop (nat off) f)) = take ?k (drop (nat off) (map fst f))"
    by (cases "BUFFER_SIZE \<le> length f - nat off") (simp_all add: take_map drop_map min_def)
  ultimately show ?thesis
    using that(2) [of ?k "if ?k < BUFFER_SIZE then Some io_EOF else None"] assms(1)
    by (simp add: file_reader_def read_at_def Let_def split: if_splits)
qed

lemma hole_zero:
  assumes "file_ok f" "covers f off (h # hs)" "0 \<le> off" "h_start h \<le> i" "i < h_end h"
  shows "map fst f ! nat i = 0"
proof -
  have i: "nat i < length f" "snd (f ! nat i)" using assms by (auto simp: in_hole_def)
  then have "f ! nat i \<in> set f" by simp
  then have "fst (f ! nat i) = 0"
    using assms(1) i(2) unfolding file_ok_def by (metis (mono_tags, lifting) case_prod_beta)
  then show ?thesis using i(1) by simp
qed

locale sparse_sink =
  fixes laws :: "'s \<Rightarrow> bool"
    and ctx :: "'s \<Rightarrow> 'w \<Rightarrow> goerr option"
    and put :: "'s \<Rightarrow> byte list \<Rightarrow> int \<Rightarrow> ('w, nat) io"
    and skip :: "'s \<Rightarrow> hole option \<Rightarrow> ('w, unit) io"
    and holds :: "'s \<Rightarrow> byte list \<Rightarrow> 'w \<Rightarrow> int \<Rightarrow> bool"
  assumes put_holds: "laws s \<Longrightarrow> holds s d w off \<Longrightarrow> 0 \<le> off \<Longrightarrow> off + int k \<le> int (length d) \<Longrightarrow>
      put s (take k (drop (nat off) d)) off w = (Ok n, w') \<Longrightarrow> holds s d w' (off + int k)"
    and skip_holds: "laws s \<Longrightarrow> holds s d w (h_start h) \<Longrightarrow> 0 \<le> h_start h \<Longrightarrow> h_start h < h_end h \<Longrightarrow>
      h_end h \<le> int (length d) \<Longrightarrow> (\<And>i. h_start h \<le> i \<Longrightarrow> i < h_end h \<Longrightarrow> d ! nat i = 0) \<Longrightarrow>
      skip s (Some h) w = (Ok (), w') \<Longrightarrow> holds s d w' (h_end h)"
    and put_returns: "laws s \<Longrightarrow> put s b off w \<noteq> (Panic p, w')"
    and skip_returns: "laws s \<Longrightarrow> skip s ho w \<noteq> (Panic p, w')"
begin

definition failed :: "'s \<Rightarrow> goerr \<Rightarrow> bool" where
  "failed s e \<longleftrightarrow> (\<exists>w. ctx s w = Some e) \<or> (\<exists>b off w w'. put s b off w = (Fail e, w'))
     \<or> (\<exists>h w w'. skip s h w = (Fail e, w'))"

definition copied :: "'s \<Rightarrow> byte list \<Rightarrow> ((int \<times> goerr option) res \<times> 'w) option \<Rightarrow> bool" where
  "copied s d r \<longleftrightarrow> (\<exists>off err w'. r = Some (Ok (off, err), w')
     \<and> (err = None \<longrightarrow> off = int (length d) \<and> holds s d w' off) \<and> (\<forall>e. err = Some e \<longrightarrow> failed s e))"

lemma copiedI: "failed s e \<Longrightarrow> copied s d (Some (Ok (off, Some e), w))"
  "holds s d w (int (length d)) \<Longrightarrow> copied s d (Some (Ok (int (length d), None), w))"
  by (auto simp: copied_def)

lemma loop_copies:
  assumes "laws s" "file_ok f" "covers f off hs" "0 \<le> off" "off \<le> int (length f)"
    and "holds s (map fst f) w off" "int (length f) - off < int n"
  shows "copied s (map fst f)
    (sparse_loop n (ctx s) (put s) (skip s) adv (file_reader f) (fst (coll_Next hs)) (snd (coll_Next hs)) off w)"
  using assms
proof (induction n arbitrary: hs off w)
  case (Suc n)
  let ?d = "map fst f" and ?hole = "fst (coll_Next hs)"
  show ?case
  proof (cases "ctx s w")
    case (Some e)
    then show ?thesis by (auto intro!: copiedI simp: failed_def)
  next
    case None
    show ?thesis
    proof (cases rule: read_at_step [OF Suc.prems(4,5)])
      case 1
      then show ?thesis using None Suc.prems(6) copiedI(2) [of s ?d w] by simp
    next
      case (2 k err)
      define new where "new = off + int k"
      define m where "m = (if StartsBefore ?hole new then nat (h_start (hd hs) - off) else k)"
      have m: "int k - (if StartsBefore ?hole new then Overflow ?hole new else 0) = int m" "m \<le> k"
        using Suc.prems(3) by (cases hs; auto simp: m_def new_def StartsBefore_def Overflow_def coll_Next_def)+
      obtain r w1 where put: "(if 0 < m then put s (take m (drop (nat off) ?d)) off w else (Ok 0, w)) = (r, w1)"
        by fastforce
      have tk: "take m (take k (drop (nat off) ?d)) = take m (drop (nat off) ?d)"
        using m(2) by (simp add: min_absorb1)
      have ne: "take k (drop (nat off) ?d) \<noteq> []" using 2(1,5) by auto
      have new: "new = off + int (length (take k (drop (nat off) ?d)))" by (simp add: new_def 2(5) del: length_take)
      have m': "int (length (take k (drop (nat off) ?d)))
          - (if StartsBefore ?hole new then Overflow ?hole new else 0) = int m"
        using m(1) by (simp only: 2(5))
      note step = sparse_step [where f = "file_reader f" and ctx = "ctx s" and w = w and put = "put s" and skip = "skip s"
          and hole = ?hole and n = n and adv = adv and holes = "snd (coll_Next hs)", OF None 2(4) ne 2(3) new m', unfolded tk put]
      show ?thesis
      proof (cases r)
        case (Fail e)
        with put have "failed s e" by (auto simp: failed_def split: if_splits)
        then show ?thesis by (simp only: step Fail res.case prod.case copiedI)
      next
        case (Panic p)
        with put put_returns [OF Suc.prems(1)] show ?thesis by (auto split: if_splits)
      next
        case (Ok x)
        have w1: "holds s ?d w1 (off + int m)"
          using put put_holds [OF Suc.prems(1,6,4), of m x w1] Ok m(2) 2(2) Suc.prems(6)
          by (auto split: if_splits)
        show ?thesis
        proof (cases "StartsBefore ?hole new")
          case False
          then have "covers f new hs"
            using Suc.prems(3) by (cases hs) (auto simp: StartsBefore_def coll_Next_def new_def)
          moreover have "m = k" using False by (simp add: m_def)
          ultimately have "copied s ?d (sparse_loop n (ctx s) (put s) (skip s) adv (file_reader f) ?hole (snd (coll_Next hs)) new w1)"
            using Suc.IH [of new hs w1] Suc.prems 2(1,2) w1 by (simp add: new_def)
          then show ?thesis using False by (simp only: step Ok res.case prod.case if_False)
        next
          case True
          then obtain h hs' where hs: "hs = h # hs'" by (cases hs) (auto simp: StartsBefore_def coll_Next_def)
          then have h: "?hole = Some h" "snd (coll_Next hs) = hs'" by (simp_all add: coll_Next_def)
          have start: "off + int m = h_start h" using True Suc.prems(3) by (simp add: m_def hs)
          obtain r2 w2 where skip: "skip s (Some h) w1 = (r2, w2)" by fastforce
          show ?thesis
          proof (cases r2)
            case (Ok u)
            note zero = hole_zero [OF Suc.prems(2,3) [unfolded hs] Suc.prems(4)]
            have "holds s ?d w2 (h_end h)"
            proof (rule skip_holds [OF Suc.prems(1)])
              show "holds s ?d w1 (h_start h)" using w1 by (simp add: start)
              show "skip s (Some h) w1 = (Ok (), w2)" using skip Ok by simp
            qed (use Suc.prems(3,4) zero in \<open>auto simp: hs\<close>)
            then have "copied s ?d (sparse_loop n (ctx s) (put s) (skip s) adv (file_reader f)
                (fst (coll_Next hs')) (snd (coll_Next hs')) (h_end h) w2)"
              using Suc.IH [of "h_end h" hs' w2] Suc.prems by (simp add: hs)
            then show ?thesis unfolding step using True Ok \<open>r = Ok x\<close> skip
              by (simp add: h hole_End_def split_beta)
          next
            case (Fail e)
            with skip have "failed s e" unfolding failed_def by blast
            then show ?thesis unfolding step using True Fail \<open>r = Ok x\<close> skip
              by (simp add: h copiedI)
          qed (use skip skip_returns [OF Suc.prems(1)] in auto)
        qed
      qed
    qed
  qed
qed simp

end

section \<open>The two sinks\<close>

text \<open>
  What libvirt documents of a stream, whose content so far is \<open>view\<close>: a send appends what it reports
  as sent (it may be less than what was given), a hole appends zeros, and neither panics.
  \<open>full_sends\<close> is the stronger behaviour that nothing is ever sent in part.
\<close>

definition stream_laws :: "('w \<Rightarrow> byte list) \<Rightarrow> 'w stream \<Rightarrow> bool" where
  "stream_laws view l \<longleftrightarrow>
     (\<forall>b w n w'. st_Send l b w = (Ok n, w') \<longrightarrow> n \<le> length b \<and> view w' = view w @ take n b)
   \<and> (\<forall>k w w'. st_SendHole l k w = (Ok (), w') \<longrightarrow> view w' = view w @ replicate (nat k) 0)
   \<and> (\<forall>b w p w'. st_Send l b w \<noteq> (Panic p, w'))
   \<and> (\<forall>k w p w'. st_SendHole l k w \<noteq> (Panic p, w'))"

definition full_sends :: "'w stream \<Rightarrow> bool" where
  "full_sends l \<longleftrightarrow> (\<forall>b w n w'. st_Send l b w = (Ok n, w') \<longrightarrow> n = length b)"

text \<open>
  What an \<open>io.WriterAt\<close> promises, on an image seen as a function of the position: a successful
  write has written all it was given, and nothing else.
\<close>

definition overwrite :: "int \<Rightarrow> byte list \<Rightarrow> (int \<Rightarrow> byte) \<Rightarrow> int \<Rightarrow> byte" where
  "overwrite off b v = (\<lambda>i. if off \<le> i \<and> i < off + int (length b) then b ! nat (i - off) else v i)"

definition image_laws :: "('w \<Rightarrow> int \<Rightarrow> byte) \<Rightarrow> ('w \<Rightarrow> int) \<Rightarrow> 'w image \<Rightarrow> bool" where
  "image_laws view pos s \<longleftrightarrow>
     (\<forall>b off w n w'. im_WriteAt s b off w = (Ok n, w') \<longrightarrow> view w' = overwrite off b (view w))
   \<and> (\<forall>b w n w'. im_Write s b w = (Ok n, w') \<longrightarrow> n \<le> length b \<and>
        view w' = overwrite (pos w) (take n b) (view w) \<and> pos w' = pos w + int n)
   \<and> (\<forall>b w p w'. im_Write s b w \<noteq> (Panic p, w'))
   \<and> (\<forall>b off w p w'. im_WriteAt s b off w \<noteq> (Panic p, w'))"

definition stream_holds :: "('w \<Rightarrow> byte list) \<Rightarrow> byte list \<Rightarrow> 'w \<Rightarrow> int \<Rightarrow> bool" where
  "stream_holds view d w off \<longleftrightarrow> view w = take (nat off) d"

text \<open>The image holds the data up to a position and is zero from there on.\<close>

definition image_holds :: "('w \<Rightarrow> int \<Rightarrow> byte) \<Rightarrow> byte list \<Rightarrow> 'w \<Rightarrow> int \<Rightarrow> bool" where
  "image_holds view d w off \<longleftrightarrow> (\<forall>i. 0 \<le> i \<longrightarrow> view w i = (if i < off then d ! nat i else 0))"

interpretation stream_sink: sparse_sink
  "\<lambda>(view, l). stream_laws view l \<and> full_sends l" "\<lambda>(view, l). st_ctx l"
  "\<lambda>(view, l) b off. st_Send l b" "\<lambda>(view, l) h. st_SendHole l (hole_Length h)"
  "\<lambda>(view, l). stream_holds view"
proof (unfold_locales, goal_cases)
  case (1 s d w off k n w')
  obtain view l where s: "s = (view, l)" by (cases s)
  let ?b = "take k (drop (nat off) d)"
  have L: "stream_laws view l" "full_sends l" and snd: "st_Send l ?b w = (Ok n, w')"
    using 1(1,5) by (simp_all add: s)
  have n: "n = length ?b" using L(2) snd unfolding full_sends_def by blast
  have "view w' = view w @ take n ?b" using L(1) snd unfolding stream_laws_def by blast
  then have "view w' = view w @ ?b" unfolding n by (simp only: take_all order_refl)
  then show ?case
    using 1(2,3) by (simp add: s stream_holds_def take_add nat_add_distrib)
next
  case (2 s d w h w')
  obtain view l where s: "s = (view, l)" by (cases s)
  have "view w' = view w @ replicate (nat (h_end h - h_start h)) 0"
    using 2(1,7) by (auto simp: s stream_laws_def hole_Length_def)
  moreover have "take (nat (h_end h)) d = take (nat (h_start h)) d @ replicate (nat (h_end h - h_start h)) 0"
  proof (rule nth_equalityI)
    show "length (take (nat (h_end h)) d) = length (take (nat (h_start h)) d @ replicate (nat (h_end h - h_start h)) 0)"
      using 2(3,4,5) by simp
    fix i assume i: "i < length (take (nat (h_end h)) d)"
    show "take (nat (h_end h)) d ! i = (take (nat (h_start h)) d @ replicate (nat (h_end h - h_start h)) 0) ! i"
    proof (cases "i < nat (h_start h)")
      case True
      then show ?thesis using i 2(3,4,5) by (simp add: nth_append)
    next
      case False
      then have "h_start h \<le> int i" "int i < h_end h" using i 2(3) by simp_all linarith+
      then have "d ! i = 0" using 2(6) [of "int i"] by simp
      then show ?thesis using False i 2(3,4,5) by (simp add: nth_append)
    qed
  qed
  ultimately show ?case using 2(2) by (simp add: s stream_holds_def)
qed (auto simp: stream_laws_def)

lemma image_holds_write:
  assumes "image_holds view d w off" "0 \<le> off" "off + int k \<le> int (length d)"
    and "view w' = overwrite off (take k (drop (nat off) d)) (view w)"
  shows "image_holds view d w' (off + int k)"
proof -
  have len: "length (take k (drop (nat off) d)) = k" using assms(2,3) by simp
  have "take k (drop (nat off) d) ! nat (i - off) = d ! nat i" if "off \<le> i" "i < off + int k" for i
    using that assms(2,3) by (simp add: nat_diff_distrib)
  then show ?thesis using assms unfolding overwrite_def len by (auto simp: image_holds_def)
qed

interpretation image_sink: sparse_sink
  "\<lambda>(view, pos, s). image_laws view pos s" "\<lambda>(view, pos, s). im_ctx s"
  "\<lambda>(view, pos, s). im_WriteAt s" "\<lambda>(view, pos, s) h. ret ()" "\<lambda>(view, pos, s). image_holds view"
proof (unfold_locales, goal_cases)
  case (1 s d w off k n w')
  obtain view pos l where s: "s = (view, pos, l)" by (cases s)
  have "image_laws view pos l" "im_WriteAt l (take k (drop (nat off) d)) off w = (Ok n, w')"
    using 1(1,5) by (simp_all add: s)
  then have "view w' = overwrite off (take k (drop (nat off) d)) (view w)"
    unfolding image_laws_def by blast
  then show ?case using 1(2,3,4) image_holds_write by (simp add: s)
next
  case (2 s d w h w')
  then show ?case by (auto simp: ret_def image_holds_def split: if_splits)
qed (auto simp: image_laws_def ret_def)

section \<open>The copies\<close>

lemma MakeReader_file: "MakeReader (file_source f) =
  (if f \<noteq> [] \<and> (\<exists>x \<in> set f. snd x) then Some (file_reader f) else None)"
proof (cases "f = []")
  case False
  have "length (takeWhile (\<lambda>x. \<not> snd x) f) = length f \<longleftrightarrow> (\<forall>x \<in> set f. \<not> snd x)"
    by (metis takeWhile_eq_all_conv takeWhile_eq_take take_all_iff order_refl)
  then show ?thesis using False by (auto simp: MakeReader_def file_source_def file_reader_def seek_hole_def)
qed (simp add: MakeReader_def file_source_def file_reader_def seek_hole_def)

text \<open>A source that reads a file: its seeks are those of the file, its plain reads give its bytes.\<close>

definition reads_file :: "source \<Rightarrow> sfile \<Rightarrow> bool" where
  "reads_file r f \<longleftrightarrow> src_seek r = Some (file_reader f) \<and> concat (src_chunks r) = map fst f \<and> src_error r = None"

lemma reads_file_source [simp]: "reads_file (file_source f) f"
  by (simp add: reads_file_def file_source_def)

lemma MakeReader_reads: "reads_file r f \<Longrightarrow> MakeReader r = MakeReader (file_source f)"
  by (simp add: reads_file_def MakeReader_def file_source_def)

lemma MakeReader_cases:
  assumes "reads_file r f"
  obtains "MakeReader r = None" | "MakeReader r = Some (file_reader f)" "f \<noteq> []"
  using MakeReader_reads [OF assms] MakeReader_file [of f] by (metis option.exhaust)

text \<open>The plain copy: a short write is noticed there.\<close>

lemma io_Copy_complete:
  assumes step: "\<And>d c w m w'. P d w \<Longrightarrow> wr c w = (Ok m, w') \<Longrightarrow> m = length c \<Longrightarrow> P (d @ c) w'"
    and safe: "\<And>c w p w'. wr c w \<noteq> (Panic p, w')" and "P d w"
  shows "\<exists>n' err' w'. io_Copy wr cs err n w = (Ok (n', err'), w')
     \<and> (err' = None \<longrightarrow> err = None \<and> n' = int n + int (length (concat cs)) \<and> P (d @ concat cs) w')
     \<and> (\<forall>e. err' = Some e \<longrightarrow> err = Some e \<or> e \<in> {ErrShortWrite, errInvalidWrite} \<or> (\<exists>c w w'. wr c w = (Fail e, w')))"
  using \<open>P d w\<close>
proof (induction cs arbitrary: n w d)
  case Nil
  then show ?case by (simp add: ret_def)
next
  case (Cons c cs)
  show ?case
  proof (cases "c = []")
    case False
    obtain r w1 where 1: "wr c w = (r, w1)" by fastforce
    show ?thesis
    proof (cases r)
      case (Ok m)
      show ?thesis
      proof (cases "m = length c")
        case True
        with Cons.IH [OF step [OF Cons.prems 1 [unfolded Ok] True], of "n + m"]
        show ?thesis using False 1 Ok by (auto simp: iotry_def)
      qed (use False 1 Ok in \<open>auto simp: iotry_def ret_def\<close>)
    next
      case (Fail e)
      then show ?thesis using False 1 by (auto simp: iotry_def ret_def)
    qed (use safe 1 in blast)
  qed (use Cons in auto)
qed

lemma ctx_Write_cases:
  assumes "ctx_Write ctx wr p w = (r, w')"
  obtains e where "ctx w = Some e" "r = Fail e" "w' = w" | "ctx w = None" "wr p w = (r, w')"
  using assms by (auto simp: ctx_Write_def split: option.splits)

lemma stream_plain_copy:
  assumes L: "stream_laws view l" and "view w = []"
  shows "\<exists>n err' w'. io_Copy (ctx_Write (st_ctx l) (st_Send l)) cs None 0 w = (Ok (n, err'), w')
     \<and> (err' = None \<longrightarrow> n = int (length (concat cs)) \<and> view w' = concat cs)
     \<and> (\<forall>e. err' = Some e \<longrightarrow> e \<in> {ErrShortWrite, errInvalidWrite} \<or> (\<exists>w. st_ctx l w = Some e)
          \<or> (\<exists>b w w'. st_Send l b w = (Fail e, w')))"
proof -
  let ?wr = "ctx_Write (st_ctx l) (st_Send l)"
  have send: "view w' = view w @ take m c" if "st_Send l c w = (Ok m, w')" for c w m w'
    using L that unfolding stream_laws_def by blast
  have "view w' = d @ c" if "view w = d" "?wr c w = (Ok m, w')" "m = length c" for d c w m w'
    using that(2) by (rule ctx_Write_cases) (use that(1,3) in \<open>auto dest: send\<close>)
  moreover have "?wr c w \<noteq> (Panic p, w')" for c w p w'
  proof
    assume "?wr c w = (Panic p, w')"
    then show False by (rule ctx_Write_cases) (use L in \<open>auto simp: stream_laws_def\<close>)
  qed
  ultimately obtain n err' w' where res: "io_Copy ?wr cs None 0 w = (Ok (n, err'), w')"
    "err' = None \<longrightarrow> n = int 0 + int (length (concat cs)) \<and> view w' = [] @ concat cs"
    "\<forall>e. err' = Some e \<longrightarrow> None = Some e \<or> e \<in> {ErrShortWrite, errInvalidWrite} \<or> (\<exists>c w w'. ?wr c w = (Fail e, w'))"
    using io_Copy_complete [where P = "\<lambda>d w. view w = d" and d = "[]" and err = None and n = 0 and cs = cs and wr = ?wr, of w]
      assms(2) by (metis (no_types, lifting))
  have "(\<exists>w. st_ctx l w = Some e) \<or> (\<exists>b w w'. st_Send l b w = (Fail e, w'))" if "?wr c w = (Fail e, w')" for c w e w'
    using that by (rule ctx_Write_cases) auto
  with res(3) have "\<forall>e. err' = Some e \<longrightarrow> e \<in> {ErrShortWrite, errInvalidWrite} \<or> (\<exists>w. st_ctx l w = Some e)
      \<or> (\<exists>b w w'. st_Send l b w = (Fail e, w'))" by blast
  with res(1,2) show ?thesis by auto
qed

text \<open>
  C4. Copying a sparse file to a libvirt stream that sends what it is given: with fuel above the
  length of the file it returns, and when it returns without an error the stream holds exactly the
  bytes of the file and the count is its length; an error it returns is the context's, or that of
  a send.
\<close>

theorem stream_copy_faithful:
  assumes "stream_laws view l" and "full_sends l" and "file_ok f" and "reads_file r f"
    and "view w = []" and "length f < fuel"
  shows "\<exists>n err w'. stream_ReadFrom fuel l r w = Some (Ok (n, err), w')
    \<and> (err = None \<longrightarrow> n = int (length f) \<and> view w' = map fst f)
    \<and> (\<forall>e. err = Some e \<longrightarrow> e \<in> {ErrShortWrite, errInvalidWrite} \<or> (\<exists>w. st_ctx l w = Some e)
         \<or> (\<exists>b w w'. st_Send l b w = (Fail e, w')) \<or> (\<exists>k w w'. st_SendHole l k w = (Fail e, w')))"
proof (cases rule: MakeReader_cases [OF assms(4)])
  case 1
  then have "stream_ReadFrom fuel l r w
      = Some (io_Copy (ctx_Write (st_ctx l) (st_Send l)) (src_chunks r) None 0 w)"
    using assms(4) by (simp add: stream_ReadFrom_def reads_file_def)
  moreover have "concat (src_chunks r) = map fst f" using assms(4) by (simp add: reads_file_def)
  ultimately show ?thesis
    using stream_plain_copy [OF assms(1,5), of "src_chunks r"] by (metis length_map)
next
  case 2
  from Collect_covers [OF 2(2) assms(6)] obtain hs where hs: "Collect_holes fuel (file_reader f) = Some (Ok hs)"
    "covers f 0 hs" by blast
  have "stream_holds view (map fst f) w 0" using assms(5) by (simp add: stream_holds_def)
  with stream_sink.loop_copies [of "(view, l)" f 0 hs w fuel True] assms hs(2)
  have "stream_sink.copied (view, l) (map fst f)
      (stream_loop fuel l (file_reader f) (fst (coll_Next hs)) (snd (coll_Next hs)) 0 w)"
    by (simp add: stream_loop_sparse)
  moreover have "stream_ReadFrom fuel l r w
      = stream_loop fuel l (file_reader f) (fst (coll_Next hs)) (snd (coll_Next hs)) 0 w"
    by (simp add: stream_ReadFrom_def 2 hs split_beta)
  ultimately show ?thesis
    by (auto simp: stream_sink.copied_def stream_sink.failed_def stream_holds_def)
qed

definition list_stream :: "byte list stream" where
  "list_stream = \<lparr>st_ctx = (\<lambda>w. None), st_Send = (\<lambda>b w. (Ok (length b), w @ b)),
     st_SendHole = (\<lambda>k w. (Ok (), w @ replicate (nat k) 0))\<rparr>"

definition sparse_file :: sfile where
  "sparse_file = [(7, False), (9, False), (0, True)]"

lemmas run_simps = stream_ReadFrom_def image_ReadFrom_def Collect_holes_def MakeReader_def file_source_def
  file_reader_def seek_hole_def seek_data_def read_at_def coll_Add_def coll_Next_def StartsBefore_def Overflow_def
  hole_Length_def hole_End_def BUFFER_SIZE_def io_EOF_def ENXIO_def Let_def

lemma sparse_file_ok: "file_ok sparse_file" "length sparse_file < 4"
  by (simp_all add: file_ok_def sparse_file_def)

lemma four_Suc: "(4 :: nat) = Suc (Suc (Suc (Suc 0)))"
  by simp

lemma list_stream_run: "stream_ReadFrom 4 list_stream (file_source sparse_file) [] = Some (Ok (3, None), [7, 9, 0])"
  unfolding four_Suc by (simp add: run_simps sparse_file_def list_stream_def)

theorem stream_copy_faithful_witness:
  "\<exists>w'. stream_ReadFrom 4 list_stream (file_source sparse_file) [] = Some (Ok (3, None), w')
    \<and> w' = map fst sparse_file"
proof -
  have laws: "stream_laws (\<lambda>w. w) list_stream" "full_sends list_stream"
    by (auto simp: stream_laws_def full_sends_def list_stream_def)
  from stream_copy_faithful [OF laws sparse_file_ok(1) reads_file_source _ sparse_file_ok(2), of "[]"]
  obtain n err w' where "stream_ReadFrom 4 list_stream (file_source sparse_file) [] = Some (Ok (n, err), w')"
    "err = None \<longrightarrow> w' = map fst sparse_file" by blast
  with list_stream_run show ?thesis by auto
qed

lemma image_plain_copy:
  assumes L: "image_laws view pos s" and "pos w = 0" and "\<forall>i \<ge> 0. view w i = 0"
  shows "\<exists>n err' w'. io_Copy (ctx_Write (im_ctx s) (im_Write s)) cs None 0 w = (Ok (n, err'), w')
     \<and> (err' = None \<longrightarrow> n = int (length (concat cs)) \<and> image_holds view (concat cs) w' n)
     \<and> (\<forall>e. err' = Some e \<longrightarrow> e \<in> {ErrShortWrite, errInvalidWrite} \<or> (\<exists>w. im_ctx s w = Some e)
          \<or> (\<exists>b w w'. im_Write s b w = (Fail e, w')))"
proof -
  let ?wr = "ctx_Write (im_ctx s) (im_Write s)"
  let ?P = "\<lambda>d w. image_holds view d w (int (length d)) \<and> pos w = int (length d)"
  have wrote: "view w' = overwrite (pos w) (take m c) (view w) \<and> pos w' = pos w + int m"
    if "im_Write s c w = (Ok m, w')" for c w m w'
    using L that unfolding image_laws_def by blast
  have "?P (d @ c) w'" if P: "?P d w" and run: "?wr c w = (Ok m, w')" and m: "m = length c" for d c w m w'
    using run
  proof (rule ctx_Write_cases)
    assume "im_Write s c w = (Ok m, w')"
    from wrote [OF this] P m have w': "view w' = overwrite (int (length d)) c (view w)" "pos w' = int (length (d @ c))"
      by auto
    have "image_holds view (d @ c) w (int (length d))"
      using P by (auto simp: image_holds_def nth_append)
    from image_holds_write [OF this, of "length c" w'] w' show ?thesis by simp
  qed simp
  moreover have "?wr c w \<noteq> (Panic p, w')" for c w p w'
  proof
    assume "?wr c w = (Panic p, w')"
    then show False by (rule ctx_Write_cases) (use L in \<open>auto simp: image_laws_def\<close>)
  qed
  moreover have "?P [] w" using assms(2,3) by (simp add: image_holds_def)
  ultimately obtain n err' w' where res: "io_Copy ?wr cs None 0 w = (Ok (n, err'), w')"
    "err' = None \<longrightarrow> n = int 0 + int (length (concat cs)) \<and> ?P ([] @ concat cs) w'"
    "\<forall>e. err' = Some e \<longrightarrow> None = Some e \<or> e \<in> {ErrShortWrite, errInvalidWrite} \<or> (\<exists>c w w'. ?wr c w = (Fail e, w'))"
    using io_Copy_complete [where P = ?P and d = "[]" and err = None and n = 0 and cs = cs and wr = ?wr, of w]
    by (metis (no_types, lifting))
  have "(\<exists>w. im_ctx s w = Some e) \<or> (\<exists>b w w'. im_Write s b w = (Fail e, w'))" if "?wr c w = (Fail e, w')" for c w e w'
    using that by (rule ctx_Write_cases) auto
  with res(3) have "\<forall>e. err' = Some e \<longrightarrow> e \<in> {ErrShortWrite, errInvalidWrite} \<or> (\<exists>w. im_ctx s w = Some e)
      \<or> (\<exists>b w w'. im_Write s b w = (Fail e, w'))" by blast
  with res(1,2) show ?thesis by auto
qed

lemma image_copy:
  assumes "image_laws view pos s" and "file_ok f" and "reads_file r f"
    and "pos w = 0" and "\<forall>i \<ge> 0. view w i = 0" and "length f < fuel"
  shows "\<exists>n err w'. image_ReadFrom fuel s r w = Some (Ok (n, err), w')
    \<and> (err = None \<longrightarrow> n = int (length f) \<and>
         (\<forall>i \<ge> 0. view w' i = (if i < int (length f) then fst (f ! nat i) else 0)))
    \<and> (\<forall>e. err = Some e \<longrightarrow> e \<in> {ErrShortWrite, errInvalidWrite} \<or> (\<exists>w. im_ctx s w = Some e)
         \<or> (\<exists>b w w'. im_Write s b w = (Fail e, w')) \<or> (\<exists>b off w w'. im_WriteAt s b off w = (Fail e, w')))"
proof -
  have holds: "(\<forall>i \<ge> 0. view w' i = (if i < int (length f) then fst (f ! nat i) else 0))"
    if "image_holds view (map fst f) w' (int (length f))" for w'
    using that by (auto simp: image_holds_def)
  show ?thesis
  proof (cases rule: MakeReader_cases [OF assms(3)])
    case 1
    then have "image_ReadFrom fuel s r w
        = Some (io_Copy (ctx_Write (im_ctx s) (im_Write s)) (src_chunks r) None 0 w)"
      using assms(3) by (simp add: image_ReadFrom_def reads_file_def)
    moreover have "concat (src_chunks r) = map fst f" using assms(3) by (simp add: reads_file_def)
    ultimately show ?thesis
      using image_plain_copy [OF assms(1,4,5), of "src_chunks r"] holds by (metis length_map)
  next
    case 2
    from Collect_covers [OF 2(2) assms(6)] obtain hs where hs: "Collect_holes fuel (file_reader f) = Some (Ok hs)"
      "covers f 0 hs" by blast
    have "image_holds view (map fst f) w 0" using assms(5) by (simp add: image_holds_def)
    with image_sink.loop_copies [of "(view, pos, s)" f 0 hs w fuel False] assms hs(2)
    have "image_sink.copied (view, pos, s) (map fst f)
        (image_loop fuel s (file_reader f) (fst (coll_Next hs)) (snd (coll_Next hs)) 0 w)"
      by (simp add: image_loop_sparse)
    moreover have "image_ReadFrom fuel s r w
        = image_loop fuel s (file_reader f) (fst (coll_Next hs)) (snd (coll_Next hs)) 0 w"
      by (simp add: image_ReadFrom_def 2 hs split_beta)
    ultimately show ?thesis
      using holds unfolding image_sink.copied_def image_sink.failed_def
      by (auto simp: ret_def)
  qed
qed

text \<open>
  C18. Copying a sparse file to a blank rbd image: with fuel above the length of the file it
  returns, and when it returns without an error the image holds the bytes of the file at their
  positions, zeros after them, and the count is the length of the file, although holes were never
  written; an error it returns is the context's or that of a write.
\<close>

theorem image_copy_faithful:
  assumes "image_laws view pos s" and "file_ok f" and "reads_file r f"
    and "pos w = 0" and "\<forall>i \<ge> 0. view w i = 0" and "length f < fuel"
  shows "\<exists>n err w'. image_ReadFrom fuel s r w = Some (Ok (n, err), w')
    \<and> (err = None \<longrightarrow> n = int (length f) \<and>
         (\<forall>i \<ge> 0. view w' i = (if i < int (length f) then fst (f ! nat i) else 0)))
    \<and> (\<forall>e. err = Some e \<longrightarrow> e \<in> {ErrShortWrite, errInvalidWrite} \<or> (\<exists>w. im_ctx s w = Some e)
         \<or> (\<exists>b w w'. im_Write s b w = (Fail e, w')) \<or> (\<exists>b off w w'. im_WriteAt s b off w = (Fail e, w')))"
  using assms by (rule image_copy)

text \<open>An image in memory: the bytes by position, and the position of the next plain write.\<close>

definition mem_image :: "((int \<Rightarrow> byte) \<times> int) image" where
  "mem_image = \<lparr>im_ctx = (\<lambda>w. None),
     im_Write = (\<lambda>b (v, p). (Ok (length b), overwrite p b v, p + int (length b))),
     im_WriteAt = (\<lambda>b off (v, p). (Ok (length b), overwrite off b v, p))\<rparr>"

theorem image_copy_faithful_witness:
  "\<exists>w'. image_ReadFrom 4 mem_image (file_source sparse_file) (\<lambda>i. 0, 0) = Some (Ok (3, None), w')
    \<and> fst w' 0 = 7 \<and> fst w' 1 = 9 \<and> fst w' 2 = 0 \<and> fst w' 3 = 0"
proof -
  have laws: "image_laws fst snd mem_image"
    by (auto simp: image_laws_def mem_image_def)
  have run: "image_ReadFrom 4 mem_image (file_source sparse_file) (\<lambda>i. 0, 0)
      = Some (Ok (3, None), overwrite 0 [7, 9] (\<lambda>i. 0), 0)"
    unfolding four_Suc by (simp add: run_simps sparse_file_def mem_image_def)
  from image_copy_faithful [OF laws sparse_file_ok(1) reads_file_source _ _ sparse_file_ok(2), of "(\<lambda>i. 0, 0)"]
  obtain n err w' where "image_ReadFrom 4 mem_image (file_source sparse_file) (\<lambda>i. 0, 0) = Some (Ok (n, err), w')"
    "err = None \<longrightarrow> (\<forall>i \<ge> 0. fst w' i = (if i < int (length sparse_file) then fst (sparse_file ! nat i) else 0))"
    by auto
  with run show ?thesis by (auto simp: sparse_file_def)
qed

text \<open>A stream within what libvirt documents that sends one byte at a time.\<close>

definition short_stream :: "byte list stream" where
  "short_stream = list_stream\<lparr>st_Send := (\<lambda>b w. (Ok (min 1 (length b)), w @ take 1 b))\<rparr>"

text \<open>
  The sparse copy does not look at how much a send accepted: on a stream that, as libvirt
  allows, sends only part of what it is given, it reports success with the full count and has lost
  data, where the plain copy of the same bytes reports a short write.
\<close>

theorem stream_copy_ignores_short_sends:
  "stream_laws (\<lambda>w. w) short_stream
   \<and> stream_ReadFrom 4 short_stream (file_source sparse_file) [] = Some (Ok (3, None), [7, 0])
   \<and> map fst sparse_file = [7, 9, 0]
   \<and> io_Copy (ctx_Write (st_ctx short_stream) (st_Send short_stream)) [map fst sparse_file] None 0 []
       = (Ok (1, Some ErrShortWrite), [7])"
proof (intro conjI)
  show "stream_laws (\<lambda>w. w) short_stream"
    by (auto simp: stream_laws_def short_stream_def list_stream_def min_def)
  show "stream_ReadFrom 4 short_stream (file_source sparse_file) [] = Some (Ok (3, None), [7, 0])"
    unfolding four_Suc by (simp add: run_simps sparse_file_def list_stream_def short_stream_def)
qed (simp_all add: sparse_file_def short_stream_def list_stream_def ctx_Write_def iotry_def ret_def)

end
