(* ===== verification/Convert.thy ===== *)
theory Convert
  imports Prelude
begin

text \<open>
  \<^verbatim>\<open>internal/convert/bytes.go\<close>: sizes given as text ("10GB", "10 GiB", "1048576"), converted to
  a \<open>uint64\<close> number of bytes. The regular expression is written out as the only way its
  parts can match; the multiplication is kept at 64 bits, where it can wrap.
\<close>

section \<open>Model\<close>

definition decimal :: "(string \<times> nat) list" where
  "decimal = [(''kb'', 1000), (''mb'', 1000000), (''gb'', 1000000000), (''tb'', 1000000000000),
     (''pb'', 1000000000000000), (''eb'', 1000000000000000000)]"

definition binary :: "(string \<times> nat) list" where
  "binary = [(''kib'', 1024), (''mib'', 1048576), (''gib'', 1073741824), (''tib'', 1099511627776),
     (''pib'', 1125899906842624), (''eib'', 1152921504606846976)]"

text \<open>The class \<open>\s\<close> of Go's regular expressions: tab, newline, form feed, carriage return, space.\<close>

definition is_space :: "char \<Rightarrow> bool" where
  "is_space c = ((of_char c :: nat) \<in> {9, 10, 12, 13, 32})"

text \<open>
  The pattern \<^verbatim>\<open>^\s*(\d+)( ?([kmgtpe]i?b))?\s*$\<close>: the digits, and the unit (empty when the
  optional group did not take part in the match).
\<close>

fun unit_match :: "string \<Rightarrow> (string \<times> string) option" where
  "unit_match (u # c # s) =
     (if u \<in> set ''kmgtpe'' then
        (if c = CHR ''b'' then Some ([u, c], s)
         else if c = CHR ''i'' then
           (case s of d # s' \<Rightarrow> if d = CHR ''b'' then Some ([u, c, d], s') else None | [] \<Rightarrow> None)
         else None)
      else None)"
| "unit_match s = None"

definition pattern :: "string \<Rightarrow> (string \<times> string) option" where
  "pattern s =
     (let s1 = dropWhile is_space s;
          num = takeWhile is_digit s1;
          rest = dropWhile is_digit s1
      in if num = [] then None
         else if list_all is_space rest then Some (num, [])
         else (case unit_match (case rest of c # r \<Rightarrow> (if c = CHR '' '' then r else rest) | [] \<Rightarrow> rest) of
                 None \<Rightarrow> None
               | Some (u, r) \<Rightarrow> if list_all is_space r then Some (num, u) else None))"

text \<open>\<open>strconv.ParseUint(s, 10, 64)\<close> on a non-empty string of digits: an error when out of range.\<close>

definition ErrRange :: goerr where
  "ErrRange = ErrNew ''value out of range''"

definition parse_uint64 :: "string \<Rightarrow> 64 word res" where
  "parse_uint64 s = (if dec_val s < 2 ^ 64 then Ok (of_nat (dec_val s))
     else Fail (wrapf (''strconv.ParseUint: parsing '' @ s @ '': '') ErrRange []))"

definition ToBytes :: "string \<Rightarrow> 64 word res" where
  "ToBytes val =
     (case pattern (to_lower val) of
        None \<Rightarrow> Fail (ErrNew (''cannot parse size value '' @ val))
      | Some (numStr, dem) \<Rightarrow>
          (case parse_uint64 numStr of
             Panic p \<Rightarrow> Panic p
           | Fail e \<Rightarrow> Fail (wrapf (''cannot convert size value '' @ val @ '' - '') e [])
           | Ok num \<Rightarrow>
               if dem = [] then Ok num
               else (case (if contains_str ''i'' dem then map_of binary dem else map_of decimal dem) of
                       None \<Rightarrow> Fail (ErrNew (''cannot convert unknown size suffix '' @ dem))
                     | Some multiplier \<Rightarrow> Ok (num * of_nat multiplier))))"

definition MustToBytes :: "string \<Rightarrow> 64 word res" where
  "MustToBytes val = (case ToBytes val of Ok b \<Rightarrow> Ok b | Fail e \<Rightarrow> Panic (err_text e) | Panic p \<Rightarrow> Panic p)"

definition ValidBytesString :: "string \<Rightarrow> bool" where
  "ValidBytesString val = (case ToBytes val of Ok _ \<Rightarrow> True | _ \<Rightarrow> False)"

section \<open>Lemmas\<close>

lemma lower_char_digit [simp]: "is_digit c \<Longrightarrow> lower_char c = c"
  by (auto simp: lower_char_def is_digit_def Let_def)

lemma to_lower_digits: "list_all is_digit s \<Longrightarrow> to_lower s = s"
  by (induction s) (auto simp: to_lower_def)

lemma is_digit_not_space [simp]: "is_digit c \<Longrightarrow> \<not> is_space c"
  by (auto simp: is_digit_def is_space_def)

lemma dropWhile_space_digits:
  "list_all is_digit ds \<Longrightarrow> ds \<noteq> [] \<Longrightarrow> dropWhile is_space (ds @ r) = ds @ r"
  by (cases ds) auto

lemma span_digits:
  assumes "list_all is_digit ds" and "\<And>c r'. r = c # r' \<Longrightarrow> \<not> is_digit c"
  shows "takeWhile is_digit (ds @ r) = ds" "dropWhile is_digit (ds @ r) = r"
proof -
  have "takeWhile is_digit r = []" "dropWhile is_digit r = r"
    using assms(2) by (cases r; auto)+
  with assms(1) show "takeWhile is_digit (ds @ r) = ds" "dropWhile is_digit (ds @ r) = r"
    by (auto simp: list_all_iff takeWhile_append dropWhile_append)
qed

text \<open>What the pattern finds in a number followed by a unit of one of the two tables.\<close>

definition unit_multiplier :: "string \<Rightarrow> nat option" where
  "unit_multiplier u = map_of (decimal @ binary) u"

lemma unit_multiplier_cases:
  "unit_multiplier u = Some m \<longleftrightarrow> (u, m) \<in> set (decimal @ binary)"
proof -
  have "distinct (map fst (decimal @ binary))"
    by (simp add: decimal_def binary_def)
  then show ?thesis
    unfolding unit_multiplier_def by (metis map_of_eq_Some_iff)
qed

lemma unit_cases_all:
  assumes "unit_multiplier u = Some m"
    and "\<forall>p \<in> set (decimal @ binary). P (fst p) (snd p)"
  shows "P u m"
  using assms unit_multiplier_cases by fastforce

lemma unit_match_unit:
  assumes "unit_multiplier u = Some m"
  shows "unit_match u = Some (u, []) \<and> u \<noteq> [] \<and> \<not> list_all is_space u
    \<and> \<not> is_digit (hd u) \<and> hd u \<noteq> CHR '' ''
    \<and> (if contains_str ''i'' u then map_of binary u else map_of decimal u) = Some m"
  by (rule unit_cases_all [OF assms])
     (simp add: decimal_def binary_def is_space_def is_digit_def has_prefix_def)

lemma pattern_number:
  assumes "list_all is_digit ds" "ds \<noteq> []"
  shows "pattern ds = Some (ds, [])"
proof -
  have eqs: "dropWhile is_space ds = ds" "takeWhile is_digit ds = ds" "dropWhile is_digit ds = []"
    using dropWhile_space_digits [OF assms, of "[]"] span_digits [OF assms(1), of "[]"] by simp_all
  show ?thesis unfolding pattern_def Let_def eqs using assms(2) by simp
qed

lemma pattern_unit:
  assumes "list_all is_digit ds" "ds \<noteq> []" "unit_multiplier u = Some m"
  shows "pattern (ds @ u) = Some (ds, u)"
proof -
  note u = unit_match_unit [OF assms(3)]
  from u obtain c r where cr: "u = c # r" "\<not> is_digit c" "c \<noteq> CHR '' ''"
    by (cases u) auto
  have sp: "takeWhile is_digit (ds @ u) = ds" "dropWhile is_digit (ds @ u) = u"
    using span_digits [OF assms(1), of u] cr by auto
  show ?thesis
    using u sp cr(1,3) assms(2) dropWhile_space_digits [OF assms(1,2), of u]
    by (simp add: pattern_def Let_def)
qed

lemma parse_uint64_dec: "n < 2 ^ 64 \<Longrightarrow> parse_uint64 (dec n) = Ok (of_nat n)"
  by (simp add: parse_uint64_def)

lemma ToBytes_not_Panic [simp]: "ToBytes v \<noteq> Panic p"
  by (auto simp: ToBytes_def parse_uint64_def split: option.splits res.splits if_splits)

lemma MustToBytes_Ok [simp]: "MustToBytes v = Ok b \<longleftrightarrow> ToBytes v = Ok b"
  by (auto simp: MustToBytes_def split: res.splits)

lemma MustToBytes_not_Fail [simp]: "MustToBytes v \<noteq> Fail e"
  by (auto simp: MustToBytes_def split: res.splits)

lemma ToBytes_dec: "n < 2 ^ 64 \<Longrightarrow> ToBytes (dec n) = Ok (of_nat n)"
  using dec_digits [of n]
  by (simp add: ToBytes_def to_lower_digits pattern_number parse_uint64_dec)

text \<open>A number and a unit in any letter case: the product, modulo \<open>2 ^ 64\<close>.\<close>

lemma ToBytes_unit:
  assumes "n < 2 ^ 64" and "unit_multiplier (to_lower u) = Some m"
  shows "ToBytes (dec n @ u) = Ok (of_nat n * of_nat m)"
proof -
  note f = unit_match_unit [OF assms(2)]
  have low: "to_lower (dec n @ u) = dec n @ to_lower u"
    using to_lower_digits [OF dec_digits] by (simp add: to_lower_def)
  have pat: "pattern (dec n @ to_lower u) = Some (dec n, to_lower u)"
    by (rule pattern_unit [OF dec_digits _ assms(2)]) simp
  show ?thesis
    unfolding ToBytes_def low pat using f assms(1) by (simp add: parse_uint64_dec)
qed

lemma MustToBytes_Panic_iff: "(\<exists>p. MustToBytes v = Panic p) \<longleftrightarrow> \<not> ValidBytesString v"
  by (auto simp: MustToBytes_def ValidBytesString_def split: res.splits)

section \<open>Properties\<close>

text \<open>
  A decimal number below \<open>2 ^ 64\<close> followed by a size suffix, in any letter case, converts to
  the product of the number and the suffix's multiplier modulo \<open>2 ^ 64\<close>: exact while the product
  fits 64 bits, and silently wrapped beyond that (16EiB is 0 bytes, with no error).
\<close>

theorem ToBytes_suffix_value:
  assumes "n < 2 ^ 64" and "unit_multiplier (to_lower u) = Some m"
  shows "\<exists>b. ToBytes (dec n @ u) = Ok b \<and> unat b = (n * m) mod 2 ^ 64"
proof (intro exI conjI)
  show "ToBytes (dec n @ u) = Ok (of_nat (n * m))"
    using ToBytes_unit [OF assms] by simp
  show "unat (of_nat (n * m) :: 64 word) = (n * m) mod 2 ^ 64"
    by (simp only: unat_of_nat len_bit0 len_num1) simp
qed

theorem ToBytes_suffix_value_witness:
  "unit_multiplier (to_lower ''EiB'') = Some (2 ^ 60) \<and>
   (\<exists>b. ToBytes (dec 16 @ ''EiB'') = Ok b \<and> unat b = 0)"
proof -
  have m: "unit_multiplier (to_lower ''EiB'') = Some (2 ^ 60)"
    by (simp add: unit_multiplier_def decimal_def binary_def str_simps)
  have "\<exists>b. ToBytes (dec 16 @ ''EiB'') = Ok b \<and> unat b = (16 * 2 ^ 60) mod 2 ^ 64"
    by (rule ToBytes_suffix_value [OF _ m]) simp
  with m show ?thesis by simp
qed

text \<open>
  Every 64-bit size printed in decimal, which is how the driver fills in a disk's size, parses
  back to exactly that size.
\<close>

theorem ToBytes_print_parse: "ToBytes (dec (unat b)) = Ok b"
proof -
  have "unat b < 2 ^ LENGTH(64)" by (rule unsigned_less)
  then show ?thesis by (simp add: ToBytes_dec)
qed

end
