(* ===== verification/Config.thy ===== *)
theory Config
  imports Errs
begin

text \<open>
  The plugin's own configuration: \<^verbatim>\<open>storage/config.go\<close> (storage pools), \<^verbatim>\<open>virt/config.go\<close>
  (providers and the plugin configuration) and \<^verbatim>\<open>providers/libvirt/config.go\<close>. A Go map is the
  list of its entries in the order one iteration visits them. A method called on a nil pointer
  panics where it first reads a field.
\<close>

section \<open>Storage pools\<close>

record Directory =
  dir_Path :: string

record Authentication =
  auth_Username :: string
  auth_Secret :: string

record Ceph =
  ceph_Pool :: string
  ceph_Hosts :: "string list"
  ceph_Authentication :: Authentication

record StorageConfig =
  sc_Default :: string
  sc_Directory :: "(string \<times> Directory) list"
  sc_Ceph :: "(string \<times> Ceph) list"

definition NewConfig :: StorageConfig where
  "NewConfig = \<lparr>sc_Default = [], sc_Directory = [], sc_Ceph = []\<rparr>"

definition Directory_Validate :: "Directory \<Rightarrow> goerr option" where
  "Directory_Validate d = err_or_nil (mappends []
     [MissingAttribute ''storage_pool.directory.path'' (AString (dir_Path d)) []])"

definition Ceph_Validate :: "Ceph \<Rightarrow> goerr option" where
  "Ceph_Validate c = err_or_nil (mappends []
     [MissingAttribute ''storage_pool.ceph.pool'' (AString (ceph_Pool c)) [],
      MissingAttribute ''storage_pool.ceph.hosts'' (ASlice (length (ceph_Hosts c))) [],
      MissingAttribute ''storage_pool.ceph.authentication.username''
        (AString (auth_Username (ceph_Authentication c))) [],
      MissingAttribute ''storage_pool.ceph.authentication.secret''
        (AString (auth_Secret (ceph_Authentication c))) []])"

text \<open>The two loops carry the set of names seen and the errors collected.\<close>

fun validate_directories ::
  "(string \<times> Directory) list \<Rightarrow> string set \<times> goerr list \<Rightarrow> string set \<times> goerr list" where
  "validate_directories [] acc = acc"
| "validate_directories ((n, dir) # ds) (names, es) =
     validate_directories ds (insert n names, mappend es (Directory_Validate dir))"

fun validate_cephs ::
  "(string \<times> Ceph) list \<Rightarrow> string set \<times> goerr list \<Rightarrow> string set \<times> goerr list" where
  "validate_cephs [] acc = acc"
| "validate_cephs ((n, c) # cs) (names, es) =
     validate_cephs cs (insert n names,
       mappend
         (mappend es (err_when (n \<in> names)
            (wrapf [] ErrInvalidConfiguration ('': storage pool name already defined - '' @ n))))
         (Ceph_Validate c))"

definition StorageConfig_Validate :: "StorageConfig option \<Rightarrow> goerr option res" where
  "StorageConfig_Validate rcv = (case rcv of
     None \<Rightarrow> Panic ''invalid memory address or nil pointer dereference''
   | Some c \<Rightarrow>
       (let (names, es) =
              validate_cephs (sc_Ceph c) (validate_directories (sc_Directory c) ({}, []));
            es = mappend es (err_when (names = {})
                   (wrapf [] ErrInvalidConfiguration '': no storage pools defined''));
            es = mappend es (err_when (sc_Default c \<noteq> [] \<and> sc_Default c \<notin> names)
                   (wrapf [] ErrInvalidConfiguration
                     ('': default storage pool is unknown - '' @ sc_Default c)))
        in Ok (err_or_nil es)))"

section \<open>Providers and the plugin configuration\<close>

record LibvirtConfig =
  lv_URI :: string
  lv_User :: string
  lv_Password :: string
  lv_AllowInsecureMounts :: bool

definition LibvirtConfig_Validate :: "LibvirtConfig \<Rightarrow> goerr option" where
  "LibvirtConfig_Validate c = None"

record Provider =
  prov_Default :: string
  prov_Libvirt :: "LibvirtConfig option"

record VirtConfig =
  vc_Provider :: "Provider option"
  vc_ImagePaths :: "string list"
  vc_StoragePools :: "StorageConfig option"

definition validProviders :: "string list" where
  "validProviders = [''libvirt'']"

definition Provider_Validate :: "Provider \<Rightarrow> goerr option" where
  "Provider_Validate p =
     (let es = mappend [] (err_when (prov_Libvirt p = None)
                 (wrapf [] ErrInvalidConfiguration '': no providers defined''));
          es = mappend es (err_when (prov_Default p \<noteq> [] \<and> prov_Default p \<in> set validProviders)
                 (wrapf [] ErrInvalidConfiguration
                   ('': unknown default provider (supported: '' @ join '', '' validProviders @ '')'')));
          es = (case prov_Libvirt p of None \<Rightarrow> es | Some l \<Rightarrow> mappend es (LibvirtConfig_Validate l))
      in err_or_nil es)"

text \<open>\<open>Validate\<close> of the plugin configuration also stores the default provider into it.\<close>

definition default_provider :: "VirtConfig \<Rightarrow> VirtConfig" where
  "default_provider c = (case vc_Provider c of
     None \<Rightarrow> c\<lparr>vc_Provider := Some \<lparr>prov_Default = [],
       prov_Libvirt = Some \<lparr>lv_URI = [], lv_User = [], lv_Password = [],
         lv_AllowInsecureMounts = False\<rparr>\<rparr>\<rparr>
   | Some _ \<Rightarrow> c)"

definition VirtConfig_Validate :: "VirtConfig \<Rightarrow> VirtConfig \<times> goerr option res" where
  "VirtConfig_Validate c =
     (let c' = default_provider c in
      (c', case vc_Provider c' of
             None \<Rightarrow> Panic ''invalid memory address or nil pointer dereference''
           | Some p \<Rightarrow>
               rbind (StorageConfig_Validate (vc_StoragePools c'))
                 (\<lambda>r. Ok (err_or_nil (mappends [] [Provider_Validate p, r])))))"

section \<open>Lemmas\<close>

definition ceph_complete :: "Ceph \<Rightarrow> bool" where
  "ceph_complete c \<longleftrightarrow> ceph_Pool c \<noteq> [] \<and> ceph_Hosts c \<noteq> []
     \<and> auth_Username (ceph_Authentication c) \<noteq> [] \<and> auth_Secret (ceph_Authentication c) \<noteq> []"

lemma Directory_Validate_None [simp]: "Directory_Validate d = None \<longleftrightarrow> dir_Path d \<noteq> []"
  by (simp add: Directory_Validate_def)

lemma Ceph_Validate_None [simp]: "Ceph_Validate c = None \<longleftrightarrow> ceph_complete c"
  by (simp add: Ceph_Validate_def ceph_complete_def conj_commute conj_left_commute)

lemma err_or_nil_not_empty_multi [simp]: "err_or_nil es \<noteq> Some (MultiErr [])"
  by auto

lemma Validate_not_empty_multi [simp]:
  "Directory_Validate d \<noteq> Some (MultiErr [])" "Ceph_Validate c \<noteq> Some (MultiErr [])"
  "Provider_Validate p \<noteq> Some (MultiErr [])"
  by (simp_all add: Directory_Validate_def Ceph_Validate_def Provider_Validate_def Let_def
        del: err_or_nil_Some)

lemma validate_directories_spec:
  "validate_directories ds (names, es) = (names', es') \<Longrightarrow>
     names' = names \<union> fst ` set ds \<and>
     (es' = [] \<longleftrightarrow> es = [] \<and> (\<forall>(n, d) \<in> set ds. dir_Path d \<noteq> []))"
proof (induction ds arbitrary: names es)
  case Nil
  then show ?case by simp
next
  case (Cons x ds)
  obtain n d where x: "x = (n, d)" by fastforce
  with Cons.prems have
    "validate_directories ds (insert n names, mappend es (Directory_Validate d)) = (names', es')"
    by simp
  from Cons.IH [OF this] x show ?case by auto
qed

lemma validate_cephs_spec:
  "validate_cephs cs (names, es) = (names', es') \<Longrightarrow> distinct (map fst cs) \<Longrightarrow>
     names' = names \<union> fst ` set cs \<and>
     (es' = [] \<longleftrightarrow> es = [] \<and> fst ` set cs \<inter> names = {} \<and> (\<forall>(n, c) \<in> set cs. ceph_complete c))"
proof (induction cs arbitrary: names es)
  case Nil
  then show ?case by simp
next
  case (Cons x cs)
  obtain n c where x: "x = (n, c)" by fastforce
  let ?es = "mappend (mappend es (err_when (n \<in> names)
    (wrapf [] ErrInvalidConfiguration ('': storage pool name already defined - '' @ n))))
    (Ceph_Validate c)"
  from Cons.prems(1) x have "validate_cephs cs (insert n names, ?es) = (names', es')" by simp
  from Cons.IH [OF this] Cons.prems(2) x
  have "names' = insert n names \<union> fst ` set cs"
    and "es' = [] \<longleftrightarrow> ?es = [] \<and> fst ` set cs \<inter> insert n names = {} \<and> (\<forall>(n, c) \<in> set cs. ceph_complete c)"
    by auto
  moreover have "?es = [] \<longleftrightarrow> es = [] \<and> n \<notin> names \<and> ceph_complete c" by auto
  moreover have "n \<notin> fst ` set cs" using Cons.prems(2) x by simp
  ultimately show ?case using x by auto
qed

section \<open>Properties\<close>

text \<open>
  C32. A storage configuration is accepted exactly when at least one pool is defined, no name is
  used by both a directory and a ceph pool, every directory pool has a path, every ceph pool is
  complete, and the default, when one is set, names a pool: whatever the order in which Go's map
  iteration visits the pools.
\<close>

theorem StorageConfig_Validate_accepts:
  assumes "distinct (map fst (sc_Ceph c))"
  shows "StorageConfig_Validate (Some c) = Ok None \<longleftrightarrow>
     (sc_Directory c \<noteq> [] \<or> sc_Ceph c \<noteq> [])
     \<and> fst ` set (sc_Ceph c) \<inter> fst ` set (sc_Directory c) = {}
     \<and> (\<forall>(n, d) \<in> set (sc_Directory c). dir_Path d \<noteq> [])
     \<and> (\<forall>(n, k) \<in> set (sc_Ceph c). ceph_complete k)
     \<and> (sc_Default c = [] \<or> sc_Default c \<in> fst ` set (sc_Directory c) \<union> fst ` set (sc_Ceph c))"
proof -
  obtain n1 e1 where d: "validate_directories (sc_Directory c) ({}, []) = (n1, e1)" by fastforce
  obtain n2 e2 where k: "validate_cephs (sc_Ceph c) (n1, e1) = (n2, e2)" by fastforce
  note D = validate_directories_spec [OF d] and K = validate_cephs_spec [OF k assms]
  have "StorageConfig_Validate (Some c) = Ok None \<longleftrightarrow>
      e2 = [] \<and> n2 \<noteq> {} \<and> (sc_Default c = [] \<or> sc_Default c \<in> n2)"
    by (auto simp: StorageConfig_Validate_def Let_def d k)
  also have "n2 = fst ` set (sc_Directory c) \<union> fst ` set (sc_Ceph c)" using D K by auto
  finally show ?thesis using D K by auto
qed

theorem StorageConfig_Validate_accepts_witness:
  "StorageConfig_Validate (Some \<lparr>sc_Default = ''a'', sc_Directory = [(''a'', \<lparr>dir_Path = ''/p''\<rparr>)],
     sc_Ceph = []\<rparr>) = Ok None"
  by (subst StorageConfig_Validate_accepts) simp_all

text \<open>
  The provider check is inverted: with libvirt configured, a default provider is rejected as
  unknown exactly when it is one of the supported providers, and every other name is accepted.
\<close>

theorem Provider_Validate_default_inverted:
  "Provider_Validate \<lparr>prov_Default = d, prov_Libvirt = Some l\<rparr> = None \<longleftrightarrow> d \<noteq> ''libvirt''"
  by (auto simp: Provider_Validate_def validProviders_def LibvirtConfig_Validate_def Let_def)

text \<open>
  A plugin configuration with no storage pools block makes \<open>Validate\<close> panic instead of
  reporting an error; with the block present it never panics.
\<close>

theorem VirtConfig_Validate_panics_iff:
  "(\<exists>p. snd (VirtConfig_Validate c) = Panic p) \<longleftrightarrow> vc_StoragePools c = None"
proof (cases "vc_StoragePools c")
  case None
  then show ?thesis
    by (cases "vc_Provider c")
       (simp_all add: VirtConfig_Validate_def default_provider_def StorageConfig_Validate_def)
next
  case (Some s)
  then show ?thesis
    by (cases "vc_Provider c")
       (simp_all add: VirtConfig_Validate_def default_provider_def StorageConfig_Validate_def
          split_def Let_def)
qed

end
