(* ===== verification/Storage.thy ===== *)
theory Storage
  imports Config "HOL-Library.Multiset"
begin

text \<open>
  \<^verbatim>\<open>storage/*.go\<close> and \<^verbatim>\<open>providers/libvirt/storage\<close> (storage.go, common.go, pool.go, directory.go,
  ceph.go): volumes, directory and ceph pools, and the storage that holds them. The libvirt calls
  are the fields of a connection over a world \<open>'w\<close>; a pool handle is the name of the pool, a volume
  handle the pool and the name of the volume. XML descriptions are the records they describe.
  The reference counts of handles (\<open>Free\<close>) are not modelled.
\<close>

section \<open>Volumes and descriptions\<close>

record Volume =
  v_Pool :: string
  v_Name :: string
  v_Kind :: string
  v_Driver :: string
  v_Format :: string
  v_DeviceName :: string
  v_BusType :: string
  v_Primary :: bool
  v_Block :: string
  v_Size :: nat

definition empty_volume :: Volume where
  "empty_volume = \<lparr>v_Pool = [], v_Name = [], v_Kind = [], v_Driver = [], v_Format = [],
     v_DeviceName = [], v_BusType = [], v_Primary = False, v_Block = [], v_Size = 0\<rparr>"

record Source =
  so_Path :: string
  so_Volume :: string

record Options =
  op_Chained :: bool
  op_Sparse :: bool
  op_Size :: nat
  op_Source :: Source
  op_TargetFormat :: string

text \<open>
  The part of a volume's and of a pool's XML the driver uses. A nil target, or a target without
  format, is \<open>vx_Format = None\<close>.
\<close>

record volxml =
  vx_Name :: string
  vx_Type :: string
  vx_Capacity :: "nat option"
  vx_Allocation :: "nat option"
  vx_Format :: "string option"
  vx_Backing :: "(string \<times> string) option"

record poolsource =
  ps_Name :: string
  ps_Host :: "(string \<times> string) list"
  ps_Auth :: "(string \<times> string) option"

record poolxml =
  px_Name :: string
  px_Type :: string
  px_Path :: "string option"
  px_Source :: "poolsource option"

type_synonym volh = "string \<times> string"

record CephConnect =
  cc_Username :: string
  cc_Key :: string
  cc_Hosts :: "string list"

text \<open>
  The calls of a connection. \<open>l_ctxDone n\<close> waits at most \<open>n\<close> for the connection's context and gives
  its error if it ends; \<open>l_took\<close> is how long the last refresh took; \<open>l_FileSize\<close> opens the image
  and gives its size. \<open>l_upload\<close> is the streaming of a file to a volume: connecting the stream,
  copying, finishing, and aborting it when one of these fails.
\<close>

record 'w conn =
  l_CreateStoragePool :: "poolxml \<Rightarrow> ('w, string) io"
  l_FindStoragePool :: "string \<Rightarrow> ('w, string) io"
  l_UpdateStoragePool :: "poolxml \<Rightarrow> ('w, unit) io"
  l_SetCephSecret :: "string \<Rightarrow> string \<Rightarrow> ('w, string) io"
  l_GetCephSecret :: "string \<Rightarrow> ('w, string) io"
  l_GetCephSecretID :: "string \<Rightarrow> ('w, string) io"
  l_PoolXML :: "string \<Rightarrow> ('w, poolxml) io"
  l_PoolName :: "string \<Rightarrow> ('w, string) io"
  l_IsActive :: "string \<Rightarrow> ('w, bool) io"
  l_StartPool :: "string \<Rightarrow> ('w, unit) io"
  l_ListVolumes :: "string \<Rightarrow> ('w, string list) io"
  l_Lookup :: "string \<Rightarrow> string \<Rightarrow> ('w, volh) io"
  l_Refresh :: "string \<Rightarrow> ('w, unit) io"
  l_CreateXML :: "string \<Rightarrow> volxml \<Rightarrow> ('w, volh) io"
  l_CreateXMLFrom :: "string \<Rightarrow> volxml \<Rightarrow> volh \<Rightarrow> ('w, volh) io"
  l_Delete :: "volh \<Rightarrow> ('w, unit) io"
  l_Info :: "volh \<Rightarrow> ('w, nat \<times> nat) io"
  l_Path :: "volh \<Rightarrow> ('w, string) io"
  l_VolXML :: "volh \<Rightarrow> ('w, volxml) io"
  l_Resize :: "volh \<Rightarrow> nat \<Rightarrow> bool \<Rightarrow> ('w, unit) io"
  l_FileSize :: "string \<Rightarrow> ('w, nat) io"
  l_NewStream :: "('w, bool) io"
  l_upload :: "volh \<Rightarrow> string \<Rightarrow> nat \<Rightarrow> bool \<Rightarrow> ('w, unit) io"
  l_MkdirAll :: "string \<Rightarrow> ('w, unit) io"
  l_VolumeCopy :: "CephConnect \<Rightarrow> string \<Rightarrow> string \<Rightarrow> string \<Rightarrow> ('w, unit) io"
  l_VolumeUpload :: "CephConnect \<Rightarrow> string \<Rightarrow> string \<Rightarrow> string \<Rightarrow> ('w, unit) io"
  l_ctxDone :: "nat \<Rightarrow> 'w \<Rightarrow> goerr option \<times> 'w"
  l_took :: "'w \<Rightarrow> nat"

section \<open>Errors\<close>

definition ErrInvalidStorageConfiguration :: goerr where
  "ErrInvalidStorageConfiguration = wrapf [] ErrInvalidConfiguration '' for storage''"

definition ErrInvalidVolumeConfiguration :: goerr where
  "ErrInvalidVolumeConfiguration = wrapf [] ErrInvalidConfiguration '' for volume''"

definition ErrVolumeNotFound :: goerr where
  "ErrVolumeNotFound = wrapf ''volume '' ErrNotFound []"

definition ErrPoolNotFound :: goerr where
  "ErrPoolNotFound = wrapf ''pool '' ErrNotFound []"

text \<open>The codes of libvirt errors the code compares with; a libvirt error wraps its code.\<close>

definition ERR_NO_STORAGE_VOL :: goerr where
  "ERR_NO_STORAGE_VOL = ErrNew ''libvirt: storage volume not found''"

definition ERR_INTERNAL_ERROR :: goerr where
  "ERR_INTERNAL_ERROR = ErrNew ''libvirt: internal error''"

definition DeadlineExceeded :: goerr where
  "DeadlineExceeded = ErrNew ''context deadline exceeded''"

section \<open>common.go\<close>

definition findRawVolume :: "'w conn \<Rightarrow> string \<Rightarrow> string \<Rightarrow> ('w, volh) io" where
  "findRawVolume l pool name = iotry (l_Lookup l pool name) ret
     (\<lambda>e. if \<not> is_err ERR_NO_STORAGE_VOL e then throw e else throw ErrVolumeNotFound)"

definition volume_of :: "string \<Rightarrow> string \<Rightarrow> volxml \<Rightarrow> Volume" where
  "volume_of name poolName info = empty_volume\<lparr>v_Name := name, v_Pool := poolName,
     v_Kind := vx_Type info,
     v_Size := (case vx_Capacity info of None \<Rightarrow> 0 | Some c \<Rightarrow> c),
     v_Format := (case vx_Format info of None \<Rightarrow> [] | Some f \<Rightarrow> f)\<rparr>"

definition findVolume :: "'w conn \<Rightarrow> string \<Rightarrow> string \<Rightarrow> ('w, Volume) io" where
  "findVolume l pool name =
     iobind (findRawVolume l pool name) (\<lambda>v.
     iobind (l_PoolName l pool) (\<lambda>poolName.
     iobind (l_VolXML l v) (\<lambda>info.
     ret (volume_of name poolName info))))"

definition getVolumeFormat :: "'w conn \<Rightarrow> volh \<Rightarrow> ('w, string) io" where
  "getVolumeFormat l v = iobind (l_VolXML l v) (\<lambda>info.
     ret (case vx_Format info of Some f \<Rightarrow> f | None \<Rightarrow> []))"

definition asyncJobErrMsg :: string where
  "asyncJobErrMsg = ''asynchronous jobs running''"

definition asyncJobErrRetryDefaultInterval :: nat where "asyncJobErrRetryDefaultInterval = 1"
definition asyncJobErrRetryDefaultTimeout :: nat where "asyncJobErrRetryDefaultTimeout = 30"

definition isAsyncJobErr :: "goerr \<Rightarrow> bool" where
  "isAsyncJobErr err \<longleftrightarrow> is_err ERR_INTERNAL_ERROR err \<and> contains_str asyncJobErrMsg (err_text err)"

text \<open>
  The loop of \<open>refreshPool\<close>, with the time left before its own deadline and the delay of the next
  attempt, in seconds. An attempt due exactly at the deadline is made. A retry waits, so the time
  left decreases.
\<close>

function refresh_loop :: "'w conn \<Rightarrow> string \<Rightarrow> nat \<Rightarrow> nat \<Rightarrow> 'w \<Rightarrow> unit res \<times> 'w" where
  "refresh_loop l pool remaining retryAfter w =
     (case l_ctxDone l (min retryAfter remaining) w of
        (Some e, w1) \<Rightarrow> (Fail e, w1)
      | (None, w1) \<Rightarrow>
          if retryAfter > remaining then (Fail DeadlineExceeded, w1)
          else (case l_Refresh l pool w1 of
            (Ok u, w2) \<Rightarrow> (Ok (), w2)
          | (Panic p, w2) \<Rightarrow> (Panic p, w2)
          | (Fail e, w2) \<Rightarrow>
              if \<not> isAsyncJobErr e then (Fail e, w2)
              else refresh_loop l pool (remaining - retryAfter - l_took l w2)
                     asyncJobErrRetryDefaultInterval w2))"
  by pat_completeness auto
termination
  by (relation "measure (\<lambda>(l, pool, remaining, retryAfter, w). 2 * remaining + (if retryAfter = 0 then 1 else 0))")
    (auto simp: asyncJobErrRetryDefaultInterval_def)

declare refresh_loop.simps [simp del]

definition refreshPool :: "'w conn \<Rightarrow> string \<Rightarrow> ('w, unit) io" where
  "refreshPool l pool = refresh_loop l pool asyncJobErrRetryDefaultTimeout 0"

section \<open>Pools\<close>

text \<open>
  A pool has its connection; a ceph pool also has its own overwriter and resizer, which are bound
  to the connection of the ceph value they were made for.
\<close>

datatype poolkind = DirectoryPool | CephPool

record 'w pool =
  p_kind :: poolkind
  p_name :: string
  p_l :: "'w conn"
  p_custom :: "'w conn option"

definition defaultDirectoryImageFormat :: string where "defaultDirectoryImageFormat = ''qcow2''"
definition defaultCephImageFormat :: string where "defaultCephImageFormat = ''raw''"

definition pool_Type :: "'w pool \<Rightarrow> string" where
  "pool_Type p = (case p_kind p of DirectoryPool \<Rightarrow> ''directory'' | CephPool \<Rightarrow> ''ceph'')"

definition DefaultImageFormat :: "'w pool \<Rightarrow> string" where
  "DefaultImageFormat p = (case p_kind p of
     DirectoryPool \<Rightarrow> defaultDirectoryImageFormat | CephPool \<Rightarrow> defaultCephImageFormat)"

definition GetVolume :: "'w pool \<Rightarrow> string \<Rightarrow> ('w, Volume) io" where
  "GetVolume p name = iobind (l_FindStoragePool (p_l p) (p_name p)) (\<lambda>pool. findVolume (p_l p) pool name)"

definition ListVolumes :: "'w pool \<Rightarrow> ('w, string list) io" where
  "ListVolumes p = iobind (l_FindStoragePool (p_l p) (p_name p)) (\<lambda>pool. l_ListVolumes (p_l p) pool)"

definition DeleteVolume :: "'w pool \<Rightarrow> string \<Rightarrow> ('w, unit) io" where
  "DeleteVolume p name = (let l = p_l p in
     iobind (l_FindStoragePool l (p_name p)) (\<lambda>pool.
     iobind (refreshPool l pool) (\<lambda>_.
     iotry (findRawVolume l pool name) (\<lambda>vol. l_Delete l vol)
       (\<lambda>e. if is_err ErrVolumeNotFound e then ret () else throw e))))"

text \<open>The upload of an image; an empty file has nothing to upload.\<close>

definition defaultOverwriter :: "'w conn \<Rightarrow> volh \<Rightarrow> string \<Rightarrow> ('w, unit) io" where
  "defaultOverwriter l vol path =
     iobind (l_FileSize l path) (\<lambda>size.
       if size = 0 then ret ()
       else iobind (l_NewStream l) (\<lambda>sparse. l_upload l vol path size sparse))"

text \<open>
  \<open>defaultResizer\<close>: the size it finally asks for, or \<open>None\<close> when no resize is needed. The last
  flag of a resize is the request to allocate.
\<close>

definition defaultResizer :: "'w conn \<Rightarrow> volh \<Rightarrow> nat \<Rightarrow> bool \<Rightarrow> ('w, unit) io" where
  "defaultResizer l vol sizeBytes sparse =
     iobind (l_Info l vol) (\<lambda>(capacity, allocation).
       if capacity = sizeBytes then
         (if sparse then ret ()
          else if sizeBytes = 0 then ret ()
          else if capacity = allocation then ret ()
          else
            let sizeBytes = (if allocation > capacity then allocation else sizeBytes) in
            iobind (getVolumeFormat l vol) (\<lambda>fmt.
              if fmt \<noteq> ''raw'' then ret () else l_Resize l vol sizeBytes (\<not> sparse)))
       else l_Resize l vol sizeBytes (\<not> sparse))"

definition ceph_resizeVol :: "'w conn \<Rightarrow> volh \<Rightarrow> nat \<Rightarrow> bool \<Rightarrow> ('w, unit) io" where
  "ceph_resizeVol l vol sizeBytes unused =
     iobind (l_Info l vol) (\<lambda>(capacity, allocation).
       if capacity = sizeBytes then ret () else l_Resize l vol sizeBytes False)"

definition host_port :: "string \<times> string \<Rightarrow> string" where
  "host_port h = (if snd h \<noteq> [] then fst h @ '':'' @ snd h else fst h)"

definition buildConnectOpts :: "'w conn \<Rightarrow> string \<Rightarrow> ('w, CephConnect) io" where
  "buildConnectOpts l name =
     iobind (l_FindStoragePool l name) (\<lambda>pool.
     iobind (l_PoolXML l pool) (\<lambda>info.
     iobind (l_GetCephSecret l name) (\<lambda>key.
       case px_Source info of
         None \<Rightarrow> lift (Panic ''nil pool source'')
       | Some src \<Rightarrow> (case ps_Auth src of
           None \<Rightarrow> lift (Panic ''nil pool auth'')
         | Some (user, _) \<Rightarrow>
             ret \<lparr>cc_Username = user, cc_Key = key, cc_Hosts = map host_port (ps_Host src)\<rparr>))))"

text \<open>\<open>strings.SplitN(s, "/", 2)\<close>\<close>

definition split2 :: "string \<Rightarrow> (string \<times> string) option" where
  "split2 s = (case dropWhile (\<lambda>c. c \<noteq> CHR ''/'') s of
     [] \<Rightarrow> None | c # rest \<Rightarrow> Some (takeWhile (\<lambda>c. c \<noteq> CHR ''/'') s, rest))"

definition ceph_overwriteVolume :: "'w conn \<Rightarrow> string \<Rightarrow> volh \<Rightarrow> string \<Rightarrow> ('w, unit) io" where
  "ceph_overwriteVolume l cname v path =
     iobind (l_Path l v) (\<lambda>volPath.
       case split2 volPath of
         None \<Rightarrow> throw (wrapf [] ErrInvalidVolumeConfiguration ('' - invalid volume path: '' @ volPath))
       | Some (poolName, name) \<Rightarrow>
           iobind (buildConnectOpts l cname) (\<lambda>connOpts. l_VolumeUpload l connOpts poolName name path))"

section \<open>Adding a volume\<close>

definition new_volume :: "string \<Rightarrow> Options \<Rightarrow> volxml" where
  "new_volume name opts = \<lparr>vx_Name = name, vx_Type = [], vx_Capacity = Some (op_Size opts),
     vx_Allocation = Some (if op_Sparse opts then 0 else op_Size opts),
     vx_Format = Some (op_TargetFormat opts), vx_Backing = None\<rparr>"

definition default_format :: "Options \<Rightarrow> Options" where
  "default_format opts = (if op_TargetFormat opts = []
     then opts\<lparr>op_TargetFormat := defaultDirectoryImageFormat\<rparr> else opts)"

definition load_source :: "'w conn \<Rightarrow> string \<Rightarrow> Options \<Rightarrow> ('w, volh option) io" where
  "load_source l pool opts =
     (if so_Volume (op_Source opts) \<noteq> []
      then iobind (findRawVolume l pool (so_Volume (op_Source opts))) (\<lambda>v. ret (Some v))
      else ret None)"

definition chain_to :: "'w conn \<Rightarrow> Options \<Rightarrow> volh option \<Rightarrow> volxml \<Rightarrow> ('w, volxml) io" where
  "chain_to l opts srcVol newVolume =
     (if op_Chained opts then
        (case srcVol of
           None \<Rightarrow> throw (wrapf [] ErrVolumeNotFound ('' - '' @ so_Volume (op_Source opts)))
         | Some src \<Rightarrow>
             iobind (l_Path l src) (\<lambda>srcPath.
             iobind (getVolumeFormat l src) (\<lambda>srcFmt.
             ret (newVolume\<lparr>vx_Backing := Some (srcPath, srcFmt)\<rparr>))))
      else ret newVolume)"

definition overwrite_fn :: "'w pool \<Rightarrow> volh \<Rightarrow> string \<Rightarrow> ('w, unit) io" where
  "overwrite_fn p = (case p_custom p of
     None \<Rightarrow> defaultOverwriter (p_l p) | Some cl \<Rightarrow> ceph_overwriteVolume cl (p_name p))"

definition resize_fn :: "'w pool \<Rightarrow> volh \<Rightarrow> nat \<Rightarrow> bool \<Rightarrow> ('w, unit) io" where
  "resize_fn p = (case p_custom p of None \<Rightarrow> defaultResizer (p_l p) | Some cl \<Rightarrow> ceph_resizeVol cl)"

definition create_volume :: "'w pool \<Rightarrow> string \<Rightarrow> Options \<Rightarrow> volh option \<Rightarrow> volxml \<Rightarrow> ('w, volh) io" where
  "create_volume p pool opts srcVol newVolume =
     (case (srcVol, op_Chained opts) of
        (Some src, False) \<Rightarrow> l_CreateXMLFrom (p_l p) pool newVolume src
      | _ \<Rightarrow>
          iobind (l_CreateXML (p_l p) pool newVolume) (\<lambda>vol.
            if so_Path (op_Source opts) \<noteq> []
            then iobind (overwrite_fn p vol (so_Path (op_Source opts))) (\<lambda>_. ret vol)
            else ret vol))"

definition build_volume :: "'w pool \<Rightarrow> string \<Rightarrow> string \<Rightarrow> Options \<Rightarrow> ('w, Volume) io" where
  "build_volume p pool name opts =
     iobind (load_source (p_l p) pool opts) (\<lambda>srcVol.
     iobind (chain_to (p_l p) opts srcVol (new_volume name opts)) (\<lambda>newVolume.
     iobind (create_volume p pool opts srcVol newVolume) (\<lambda>vol.
     iobind (resize_fn p vol (op_Size opts) (op_Sparse opts)) (\<lambda>_.
     iobind (l_VolXML (p_l p) vol) (\<lambda>info.
     ret (volume_of name (p_name p) info))))))"

definition pool_AddVolume :: "'w pool \<Rightarrow> string \<Rightarrow> Options \<Rightarrow> ('w, Volume) io" where
  "pool_AddVolume p name opts0 = (let opts = default_format opts0 in
     iobind (l_FindStoragePool (p_l p) (p_name p)) (\<lambda>pool.
     iobind (refreshPool (p_l p) pool) (\<lambda>_.
     iotry (findVolume (p_l p) pool name) ret
       (\<lambda>e. if \<not> is_err ErrVolumeNotFound e then throw e else build_volume p pool name opts))))"

definition ceph_copyVol :: "'w pool \<Rightarrow> string \<Rightarrow> Options \<Rightarrow> ('w, Volume) io" where
  "ceph_copyVol c name opts = (let l = p_l c in
     iobind (buildConnectOpts l (p_name c)) (\<lambda>connOpts.
     iobind (l_FindStoragePool l (p_name c)) (\<lambda>p.
     iobind (l_PoolXML l p) (\<lambda>info.
       case px_Source info of
         None \<Rightarrow> throw (ErrNew ''failed to determine remote ceph pool name'')
       | Some src \<Rightarrow>
           if ps_Name src = [] then throw (ErrNew ''failed to determine remote ceph pool name'')
           else
             iobind (l_VolumeCopy l connOpts (ps_Name src) (so_Volume (op_Source opts)) name) (\<lambda>_.
             iobind (l_Refresh l p) (\<lambda>_.
             iobind (findRawVolume l p name) (\<lambda>v.
             iobind (ceph_resizeVol l v (op_Size opts) True) (\<lambda>_.
             findVolume l p name))))))))"

definition ceph_AddVolume :: "'w pool \<Rightarrow> string \<Rightarrow> Options \<Rightarrow> ('w, Volume) io" where
  "ceph_AddVolume c name opts =
     (if \<not> op_Chained opts \<and> so_Volume (op_Source opts) \<noteq> [] then ceph_copyVol c name opts
      else pool_AddVolume c name (opts\<lparr>op_Chained := False, op_Sparse := True\<rparr>))"

definition AddVolume :: "'w pool \<Rightarrow> string \<Rightarrow> Options \<Rightarrow> ('w, Volume) io" where
  "AddVolume p name opts = (case p_kind p of
     DirectoryPool \<Rightarrow> pool_AddVolume p name opts | CephPool \<Rightarrow> ceph_AddVolume p name opts)"

section \<open>Setting up pools\<close>

definition find_pool :: "'w conn \<Rightarrow> string \<Rightarrow> ('w, string option) io" where
  "find_pool l name = iotry (l_FindStoragePool l name) (\<lambda>p. ret (Some p))
     (\<lambda>e. if \<not> is_err ErrNotFound e then throw e else ret None)"

definition newDirectoryPool :: "'w conn \<Rightarrow> string \<Rightarrow> Directory \<Rightarrow> ('w, 'w pool) io" where
  "newDirectoryPool l poolName config =
     iobind (find_pool l poolName) (\<lambda>p.
     iobind (case p of
         Some _ \<Rightarrow> ret ()
       | None \<Rightarrow>
           iobind (l_MkdirAll l (dir_Path config)) (\<lambda>_.
           iobind (l_CreateStoragePool l
             \<lparr>px_Name = poolName, px_Type = ''dir'', px_Path = Some (dir_Path config), px_Source = None\<rparr>)
             (\<lambda>_. ret ())))
       (\<lambda>_. ret \<lparr>p_kind = DirectoryPool, p_name = poolName, p_l = l, p_custom = None\<rparr>))"

text \<open>
  The ceph plugin has been loaded or not (\<open>loaded\<close>); \<open>split_host\<close> is Go's \<open>url.Parse\<close> of a host
  with the test scheme, giving its host name and port.
\<close>

fun ceph_hosts :: "(string \<Rightarrow> (string \<times> string) res) \<Rightarrow> string list \<Rightarrow> (string \<times> string) list res" where
  "ceph_hosts split_host [] = Ok []"
| "ceph_hosts split_host (h # hs) =
     rbind (split_host h) (\<lambda>u. rbind (ceph_hosts split_host hs) (\<lambda>us. Ok (u # us)))"

definition ceph_pool_def :: "string \<Rightarrow> Ceph \<Rightarrow> (string \<times> string) list \<Rightarrow> string \<Rightarrow> poolxml" where
  "ceph_pool_def poolName config cephHosts secretId =
     \<lparr>px_Name = poolName, px_Type = ''rbd'', px_Path = None,
      px_Source = Some \<lparr>ps_Name = ceph_Pool config, ps_Host = cephHosts,
        ps_Auth = Some (auth_Username (ceph_Authentication config), secretId)\<rparr>\<rparr>"

definition update_ceph_pool :: "'w conn \<Rightarrow> string \<Rightarrow> Ceph \<Rightarrow> (string \<times> string) list \<Rightarrow> ('w, unit) io" where
  "update_ceph_pool l p config cephHosts =
     iobind (l_PoolXML l p) (\<lambda>info.
       case px_Source info of
         None \<Rightarrow> lift (Panic ''nil pool source'')
       | Some src \<Rightarrow>
           let src' = src\<lparr>ps_Host := cephHosts, ps_Name := ceph_Pool config\<rparr>;
               needUpdate = (ps_Host src \<noteq> cephHosts \<or> ps_Name src \<noteq> ceph_Pool config) in
           if needUpdate then l_UpdateStoragePool l (info\<lparr>px_Source := Some src'\<rparr>) else ret ())"

definition newCephPool ::
  "goerr option \<Rightarrow> (string \<Rightarrow> (string \<times> string) res) \<Rightarrow> 'w conn \<Rightarrow> string \<Rightarrow> Ceph \<Rightarrow> ('w, 'w pool) io" where
  "newCephPool loaded split_host l poolName config =
     (case loaded of Some e \<Rightarrow> throw e | None \<Rightarrow>
     iobind (find_pool l poolName) (\<lambda>p0.
     iobind (l_SetCephSecret l poolName (auth_Secret (ceph_Authentication config))) (\<lambda>secretId.
     iobind (lift (ceph_hosts split_host (ceph_Hosts config))) (\<lambda>cephHosts.
     iobind (case p0 of
         None \<Rightarrow> l_CreateStoragePool l (ceph_pool_def poolName config cephHosts secretId)
       | Some p \<Rightarrow> iobind (update_ceph_pool l p config cephHosts) (\<lambda>_. ret p)) (\<lambda>p.
     iobind (l_IsActive l p) (\<lambda>poolRunning.
     iobind (if \<not> poolRunning then l_StartPool l p else ret ()) (\<lambda>_.
     ret \<lparr>p_kind = CephPool, p_name = poolName, p_l = l, p_custom = Some l\<rparr>)))))))"

section \<open>The storage\<close>

text \<open>The pools by name, in the order of their creation, and the default one.\<close>

record 'w storage =
  s_pools :: "(string \<times> 'w pool) list"
  s_defaultPool :: "'w pool option"
  s_l :: "'w conn"

definition put_pool :: "string \<Rightarrow> 'a \<Rightarrow> (string \<times> 'a) list \<Rightarrow> (string \<times> 'a) list" where
  "put_pool name p ps = filter (\<lambda>(n, _). n \<noteq> name) ps @ [(name, p)]"

definition GetPool :: "'w storage \<Rightarrow> string \<Rightarrow> 'w pool res" where
  "GetPool s name = (case map_of (s_pools s) name of Some p \<Rightarrow> Ok p | None \<Rightarrow> Fail ErrPoolNotFound)"

definition DefaultPool :: "'w storage \<Rightarrow> 'w pool res" where
  "DefaultPool s = (case s_defaultPool s of None \<Rightarrow> Fail ErrPoolNotFound | Some p \<Rightarrow> Ok p)"

definition ListPools :: "'w storage \<Rightarrow> string list" where
  "ListPools s = sort (map fst (s_pools s))"

text \<open>\<open>slices.Sorted(maps.Keys(m))\<close> with its values.\<close>

definition sorted_entries :: "(string \<times> 'a) list \<Rightarrow> (string \<times> 'a) list" where
  "sorted_entries m = sort_key fst m"

definition add_pools :: "(string \<Rightarrow> 'a \<Rightarrow> ('w, 'w pool) io) \<Rightarrow> (string \<times> 'a) list
    \<Rightarrow> (string \<times> 'w pool) list \<Rightarrow> ('w, (string \<times> 'w pool) list) io" where
  "add_pools mk cfg ps = iofold (\<lambda>(name, c) ps. iobind (mk name c) (\<lambda>pool. ret (put_pool name pool ps))) cfg ps"

definition pick_default :: "string \<Rightarrow> 'w storage \<Rightarrow> 'w storage res" where
  "pick_default dflt s =
     (if dflt = [] then
        (case s_pools s of
           [(_, p)] \<Rightarrow> Ok (s\<lparr>s_defaultPool := Some p\<rparr>)
         | _ \<Rightarrow> Fail (wrapf ''no default pool set '' ErrInvalidStorageConfiguration []))
      else (case GetPool s dflt of
          Ok p \<Rightarrow> Ok (s\<lparr>s_defaultPool := Some p\<rparr>)
        | Fail e \<Rightarrow> Fail (wrapf ''cannot set default pool - '' e [])
        | Panic p \<Rightarrow> Panic p))"

definition storage_New ::
  "goerr option \<Rightarrow> (string \<Rightarrow> (string \<times> string) res) \<Rightarrow> 'w conn \<Rightarrow> StorageConfig \<Rightarrow> ('w, 'w storage) io" where
  "storage_New loaded split_host l config =
     iobind (add_pools (newDirectoryPool l) (sorted_entries (sc_Directory config)) []) (\<lambda>ps.
     iobind (add_pools (newCephPool loaded split_host l) (sorted_entries (sc_Ceph config)) ps) (\<lambda>ps.
     lift (pick_default (sc_Default config) \<lparr>s_pools = ps, s_defaultPool = None, s_l = l\<rparr>)))"

text \<open>The copy of a pool takes the new connection but keeps the overwriter and resizer it had.\<close>

definition pool_copy :: "'w conn \<Rightarrow> 'w pool \<Rightarrow> 'w pool" where
  "pool_copy l p = p\<lparr>p_l := l\<rparr>"

definition storage_Copy :: "'w conn \<Rightarrow> 'w storage \<Rightarrow> 'w storage res" where
  "storage_Copy l s =
     (case (s_pools s, s_defaultPool s) of
        (_ # _, None) \<Rightarrow> Panic ''nil default pool''
      | (ps, d) \<Rightarrow> Ok \<lparr>s_pools = map (\<lambda>(n, p). (n, pool_copy l p)) ps,
          s_defaultPool = (case d of None \<Rightarrow> None | Some dp \<Rightarrow>
            map_option (\<lambda>(n, p). pool_copy l p) (find (\<lambda>(n, p). p_name dp = p_name p) ps)),
          s_l = l\<rparr>)"

definition DefaultDiskDriver :: string where "DefaultDiskDriver = ''qemu''"

text \<open>
  \<open>slices.Max\<close> is the greatest of a non-empty list; \<open>string(b+1)\<close> is the character of the next
  byte (the code point of that number, which is a single byte below 128).
\<close>

definition next_char :: "char \<Rightarrow> string" where
  "next_char c = (let n = (of_char c :: nat) + 1 in
     if n = 256 then [CHR 0x00]
     else if n < 128 then [char_of n] else [char_of (192 + n div 64), char_of (128 + n mod 64)])"

definition GenerateDeviceName :: "string \<Rightarrow> string list \<Rightarrow> string" where
  "GenerateDeviceName busType existingNames =
     (let prefix = (if busType = ''virtio'' then ''vd'' else ''sd'');
          validNames = filter (has_prefix prefix) (map to_lower existingNames)
      in if validNames = [] then prefix @ ''a''
         else prefix @ next_char (last (Max (set validNames))))"

text \<open>The attributes of the pools: a string or the Boolean true.\<close>

datatype attribute = StringAttr string | BoolAttr bool | IntAttr int

definition pool_attributes :: "'w storage \<Rightarrow> string \<Rightarrow> string \<times> 'w pool \<Rightarrow> (string \<times> attribute) list" where
  "pool_attributes s prefix np = (case np of (name, pool) \<Rightarrow>
     (let poolKey = prefix @ ''.storage_pool.'' @ name in
      [(poolKey, StringAttr (pool_Type pool)),
       (poolKey @ ''.provider.libvirt'', BoolAttr True)]
      @ (if map_option p_name (s_defaultPool s) = Some (p_name pool)
         then [(poolKey @ ''.default'', BoolAttr True)] else [])))"

definition storage_Fingerprint :: "'w storage \<Rightarrow> string \<Rightarrow> (string \<rightharpoonup> attribute) \<Rightarrow> (string \<rightharpoonup> attribute)" where
  "storage_Fingerprint s prefix attrs = attrs ++ map_of (rev (concat (map (pool_attributes s prefix) (s_pools s))))"

section \<open>Disks of a domain\<close>

datatype disksource =
    SourceBlock string
  | SourceVolume string string
  | SourceNetwork string string "(string \<times> string) list" "(string \<times> string) option"
  | SourceOther

record domaindisk =
  dd_Device :: string
  dd_DriverName :: string
  dd_DriverType :: string
  dd_TargetDev :: string
  dd_TargetBus :: string
  dd_Source :: "disksource option"

definition disk_of :: "Volume \<Rightarrow> disksource option \<Rightarrow> domaindisk" where
  "disk_of vol src = \<lparr>dd_Device = v_Kind vol, dd_DriverName = v_Driver vol,
     dd_DriverType = (if v_Format vol = ''iso'' then ''raw'' else v_Format vol),
     dd_TargetDev = v_DeviceName vol, dd_TargetBus = v_BusType vol, dd_Source = src\<rparr>"

definition ceph_source :: "poolsource \<Rightarrow> string \<Rightarrow> string \<Rightarrow> disksource res" where
  "ceph_source src name secretId = (case ps_Auth src of
     None \<Rightarrow> Panic ''nil pool auth''
   | Some (user, _) \<Rightarrow> Ok (SourceNetwork ''rbd'' (ps_Name src @ ''/'' @ name) (ps_Host src) (Some (user, secretId))))"

definition VolumeToDisk :: "'w storage \<Rightarrow> Volume \<Rightarrow> ('w, domaindisk) io" where
  "VolumeToDisk s vol =
     (if v_Block vol \<noteq> [] then ret (disk_of vol (Some (SourceBlock (v_Block vol))))
      else iobind (lift (GetPool s (v_Pool vol))) (\<lambda>pool.
        case p_kind pool of
          DirectoryPool \<Rightarrow> ret (disk_of vol (Some (SourceVolume (v_Pool vol) (v_Name vol))))
        | CephPool \<Rightarrow>
            iobind (l_FindStoragePool (s_l s) (v_Pool vol)) (\<lambda>p.
            iobind (l_PoolXML (s_l s) p) (\<lambda>info.
            iobind (l_GetCephSecretID (s_l s) (v_Pool vol)) (\<lambda>secretId.
              case px_Source info of
                None \<Rightarrow> lift (Panic ''nil pool source'')
              | Some src \<Rightarrow> iobind (lift (ceph_source src (v_Name vol) secretId))
                  (\<lambda>ds. ret (disk_of vol (Some ds))))))))"

text \<open>The map from the name of a pool in ceph to its name here; a later pool replaces an earlier one.\<close>

fun ceph_pools :: "'w conn \<Rightarrow> (string \<times> 'w pool) list \<Rightarrow> (string \<rightharpoonup> string) \<Rightarrow> ('w, string \<rightharpoonup> string) io" where
  "ceph_pools l [] m = ret m"
| "ceph_pools l ((name, pool) # ps) m =
     (if p_kind pool \<noteq> CephPool then ceph_pools l ps m
      else iobind (l_FindStoragePool l name) (\<lambda>p.
        iobind (l_PoolXML l p) (\<lambda>info.
          case px_Source info of
            None \<Rightarrow> lift (Panic ''nil pool source'')
          | Some src \<Rightarrow> ceph_pools l ps (m(ps_Name src \<mapsto> name)))))"

definition volume_ref :: "string \<Rightarrow> string \<Rightarrow> Volume" where
  "volume_ref pool name = empty_volume\<lparr>v_Pool := pool, v_Name := name\<rparr>"

text \<open>A volume is named by its pool and its name; a volume that is a block device is of no pool.\<close>

definition refs :: "Volume list \<Rightarrow> volh set" where
  "refs vs = (\<lambda>vol. (v_Pool vol, v_Name vol)) ` set vs"

definition attached :: "Volume list \<Rightarrow> volh set" where
  "attached vs = refs (filter (\<lambda>vol. v_Block vol = []) vs)"

lemma attached_simps [simp]:
  "attached [] = {}" "attached (vol # vs) = (if v_Block vol = [] then insert (v_Pool vol, v_Name vol) (attached vs) else attached vs)"
  "attached (vs @ vs') = attached vs \<union> attached vs'" "refs [] = {}" "refs (vol # vs) = insert (v_Pool vol, v_Name vol) (refs vs)"
  by (auto simp: attached_def refs_def)

lemma volume_ref_sel [simp]: "v_Block (volume_ref p n) = []" "v_Pool (volume_ref p n) = p" "v_Name (volume_ref p n) = n"
  by (simp_all add: volume_ref_def empty_volume_def)

lemma refs_append [simp]: "refs (vs @ vs') = refs vs \<union> refs vs'"
  by (auto simp: refs_def)

fun discover :: "(string \<rightharpoonup> string) \<Rightarrow> domaindisk list \<Rightarrow> Volume list \<Rightarrow> Volume list res" where
  "discover m [] vols = Ok vols"
| "discover m (disk # ds) vols = (case dd_Source disk of
     Some (SourceVolume pool name) \<Rightarrow> discover m ds (vols @ [volume_ref pool name])
   | Some (SourceNetwork proto nm hosts auth) \<Rightarrow>
       if proto \<noteq> ''rbd'' then discover m ds vols
       else (case split_on CHR ''/'' nm of
         cephPool # part # parts \<Rightarrow>
           (case m cephPool of
              None \<Rightarrow> Fail (ErrNew (''failed to find rbd source storage pool - '' @ nm))
            | Some localPool \<Rightarrow> discover m ds (vols @ [volume_ref localPool (join ''/'' (part # parts))]))
       | _ \<Rightarrow> Fail (ErrNew (''invalid rbd source name - '' @ nm)))
   | _ \<Rightarrow> discover m ds vols)"

definition DiscoverVolumes :: "'w storage \<Rightarrow> domaindisk list \<Rightarrow> ('w, Volume list) io" where
  "DiscoverVolumes s disks =
     iobind (ceph_pools (s_l s) (s_pools s) Map.empty) (\<lambda>m. lift (discover m disks []))"

section \<open>The contract of a pool\<close>

text \<open>
  \<open>vols w\<close> is the set of volumes, by pool and name. \<open>grows vols S\<close> is what an operation that may
  add volumes of \<open>S\<close> and removes none may do. \<open>storage_laws\<close> is what libvirt documents of the
  calls: lookups and queries change no volume, a created volume exists under its name, a deleted
  one does not, a looked-up one exists, and a lookup reports \<open>not found\<close> only of a missing one.
\<close>

definition grows :: "('w \<Rightarrow> volh set) \<Rightarrow> volh set \<Rightarrow> 'w \<Rightarrow> 'w \<Rightarrow> bool" where
  "grows vols S w w' \<longleftrightarrow> vols w \<subseteq> vols w' \<and> vols w' \<subseteq> vols w \<union> S"

lemma preorder_grows [simp, intro]: "preorder (grows vols S)"
  by (auto simp: preorder_def grows_def)

definition queries_keep :: "('w \<Rightarrow> volh set) \<Rightarrow> 'w conn \<Rightarrow> bool" where
  "queries_keep vols l \<longleftrightarrow>
     (\<forall>n. steps (grows vols {}) (l_FindStoragePool l n)) \<and> (\<forall>p. steps (grows vols {}) (l_PoolXML l p))
   \<and> (\<forall>p. steps (grows vols {}) (l_PoolName l p)) \<and> (\<forall>p. steps (grows vols {}) (l_Refresh l p))
   \<and> (\<forall>p n. steps (grows vols {}) (l_Lookup l p n)) \<and> (\<forall>v. steps (grows vols {}) (l_Info l v))
   \<and> (\<forall>v. steps (grows vols {}) (l_Path l v)) \<and> (\<forall>v. steps (grows vols {}) (l_VolXML l v))
   \<and> (\<forall>v n b. steps (grows vols {}) (l_Resize l v n b)) \<and> (\<forall>p. steps (grows vols {}) (l_FileSize l p))
   \<and> steps (grows vols {}) (l_NewStream l) \<and> (\<forall>v f n b. steps (grows vols {}) (l_upload l v f n b))
   \<and> (\<forall>n. steps (grows vols {}) (l_GetCephSecret l n))
   \<and> (\<forall>c p v f. steps (grows vols {}) (l_VolumeUpload l c p v f))
   \<and> (\<forall>n w. grows vols {} w (snd (l_ctxDone l n w)))"

definition lookup_laws :: "('w \<Rightarrow> volh set) \<Rightarrow> 'w conn \<Rightarrow> bool" where
  "lookup_laws vols l \<longleftrightarrow>
     (\<forall>n w p w'. l_FindStoragePool l n w = (Ok p, w') \<longrightarrow> p = n)
   \<and> (\<forall>p w n w'. l_PoolName l p w = (Ok n, w') \<longrightarrow> n = p)
   \<and> (\<forall>p n w h w'. l_Lookup l p n w = (Ok h, w') \<longrightarrow> h = (p, n) \<and> h \<in> vols w)
   \<and> (\<forall>p n w e w'. l_Lookup l p n w = (Fail e, w') \<longrightarrow> is_err ERR_NO_STORAGE_VOL e \<longrightarrow> (p, n) \<notin> vols w)"

text \<open>No error of libvirt is the driver's own \<open>ErrVolumeNotFound\<close>.\<close>

definition error_laws :: "'w conn \<Rightarrow> bool" where
  "error_laws l \<longleftrightarrow>
     (\<forall>p n w e w'. l_Lookup l p n w = (Fail e, w') \<longrightarrow> \<not> is_err ErrVolumeNotFound e)
   \<and> (\<forall>p w e w'. l_PoolName l p w = (Fail e, w') \<longrightarrow> \<not> is_err ErrVolumeNotFound e)
   \<and> (\<forall>v w e w'. l_VolXML l v w = (Fail e, w') \<longrightarrow> \<not> is_err ErrVolumeNotFound e)"

definition create_laws :: "('w \<Rightarrow> volh set) \<Rightarrow> 'w conn \<Rightarrow> bool" where
  "create_laws vols l \<longleftrightarrow>
     (\<forall>p x. steps (grows vols {(p, vx_Name x)}) (l_CreateXML l p x))
   \<and> (\<forall>p x w h w'. l_CreateXML l p x w = (Ok h, w') \<longrightarrow> h = (p, vx_Name x) \<and> h \<in> vols w')
   \<and> (\<forall>p x v. steps (grows vols {(p, vx_Name x)}) (l_CreateXMLFrom l p x v))
   \<and> (\<forall>p x v w h w'. l_CreateXMLFrom l p x v w = (Ok h, w') \<longrightarrow> h = (p, vx_Name x) \<and> h \<in> vols w')
   \<and> (\<forall>c p s d. steps (grows vols {h. snd h = d}) (l_VolumeCopy l c p s d))"

definition delete_laws :: "('w \<Rightarrow> volh set) \<Rightarrow> 'w conn \<Rightarrow> bool" where
  "delete_laws vols l \<longleftrightarrow>
     (\<forall>v w w'. l_Delete l v w = (Ok (), w') \<longrightarrow> vols w' = vols w - {v})
   \<and> (\<forall>v w e w'. l_Delete l v w = (Fail e, w') \<longrightarrow> vols w' = vols w)
   \<and> (\<forall>v w p w'. l_Delete l v w \<noteq> (Panic p, w'))"

definition storage_laws :: "('w \<Rightarrow> volh set) \<Rightarrow> 'w conn \<Rightarrow> bool" where
  "storage_laws vols l \<longleftrightarrow> queries_keep vols l \<and> lookup_laws vols l \<and> error_laws l
     \<and> create_laws vols l \<and> delete_laws vols l"

lemma queries_keepD:
  assumes "queries_keep vols l"
  shows "steps (grows vols {}) (l_FindStoragePool l n)" "steps (grows vols {}) (l_PoolXML l p)"
    "steps (grows vols {}) (l_PoolName l p)" "steps (grows vols {}) (l_Refresh l p)"
    "steps (grows vols {}) (l_Lookup l p n)" "steps (grows vols {}) (l_Info l v)"
    "steps (grows vols {}) (l_Path l v)" "steps (grows vols {}) (l_VolXML l v)"
    "steps (grows vols {}) (l_Resize l v k b)" "steps (grows vols {}) (l_FileSize l f)"
    "steps (grows vols {}) (l_NewStream l)" "steps (grows vols {}) (l_upload l v f k b)"
    "steps (grows vols {}) (l_GetCephSecret l n)" "steps (grows vols {}) (l_VolumeUpload l c p n f)"
    "grows vols {} w (snd (l_ctxDone l k w))"
  using assms unfolding queries_keep_def by iprover+

lemma lookup_lawsD:
  assumes "lookup_laws vols l"
  shows "l_FindStoragePool l n w = (Ok p, w') \<Longrightarrow> p = n" "l_PoolName l p w = (Ok n, w') \<Longrightarrow> n = p"
    "l_Lookup l p n w = (Ok h, w') \<Longrightarrow> h = (p, n) \<and> h \<in> vols w"
    "l_Lookup l p n w = (Fail e, w') \<Longrightarrow> is_err ERR_NO_STORAGE_VOL e \<Longrightarrow> (p, n) \<notin> vols w"
  using assms unfolding lookup_laws_def by blast+

lemma error_lawsD:
  assumes "error_laws l"
  shows "l_Lookup l p n w = (Fail e, w') \<Longrightarrow> \<not> is_err ErrVolumeNotFound e"
    "l_PoolName l p w = (Fail e, w') \<Longrightarrow> \<not> is_err ErrVolumeNotFound e"
    "l_VolXML l h w = (Fail e, w') \<Longrightarrow> \<not> is_err ErrVolumeNotFound e"
  using assms unfolding error_laws_def by blast+

lemma create_lawsD:
  assumes "create_laws vols l"
  shows "steps (grows vols {(p, vx_Name x)}) (l_CreateXML l p x)"
    "l_CreateXML l p x w = (Ok h, w') \<Longrightarrow> h = (p, vx_Name x) \<and> h \<in> vols w'"
    "steps (grows vols {(p, vx_Name x)}) (l_CreateXMLFrom l p x s)"
    "l_CreateXMLFrom l p x s w = (Ok h, w') \<Longrightarrow> h = (p, vx_Name x) \<and> h \<in> vols w'"
    "steps (grows vols {h. snd h = n}) (l_VolumeCopy l c p n' n)"
  using assms unfolding create_laws_def by (iprover | blast)+

lemma delete_lawsD:
  assumes "delete_laws vols l"
  shows "l_Delete l h w = (Ok (), w') \<Longrightarrow> vols w' = vols w - {h}"
    "l_Delete l h w = (Fail e, w') \<Longrightarrow> vols w' = vols w" "l_Delete l h w = (Panic q, w') \<Longrightarrow> False"
  using assms unfolding delete_laws_def by blast+

lemma delete_effect:
  assumes "delete_laws vols l" "l_Delete l h w = (r, w')"
  shows "if r = Ok () then vols w' = vols w - {h} else vols w' = vols w"
proof (cases r)
  case (Ok u)
  then show ?thesis using delete_lawsD(1) [OF assms(1), of h w w'] assms(2) by simp
next
  case (Fail e)
  then show ?thesis using delete_lawsD(2) [OF assms(1), of h w e w'] assms(2) by simp
next
  case (Panic p)
  then show ?thesis using delete_lawsD(3) [OF assms(1), of h w p w'] assms(2) by simp
qed

lemma storage_lawsD:
  assumes "storage_laws vols l"
  shows "queries_keep vols l" "lookup_laws vols l" "error_laws l" "create_laws vols l" "delete_laws vols l"
  using assms by (simp_all add: storage_laws_def)

lemma steps_grows_mono: "steps (grows vols S) m \<Longrightarrow> S \<subseteq> T \<Longrightarrow> steps (grows vols T) m"
  by (erule steps_weaken) (auto simp: grows_def)

text \<open>The read-only parts keep every volume.\<close>

lemma refresh_loop_steps:
  assumes R: "preorder R" and "\<And>p. steps R (l_Refresh l p)" and "\<And>n w. R w (snd (l_ctxDone l n w))"
  shows "refresh_loop l pool remaining retryAfter w = (r, w') \<Longrightarrow> R w w'"
  using assms(2,3)
proof (induction l pool remaining retryAfter w rule: refresh_loop.induct)
  case (1 l pool remaining retryAfter w)
  obtain d w1 where d: "l_ctxDone l (min retryAfter remaining) w = (d, w1)" by fastforce
  obtain r2 w2 where f: "l_Refresh l pool w1 = (r2, w2)" by fastforce
  have 1: "R w w1" and 2: "R w1 w2"
    using "1.prems"(3) [of w "min retryAfter remaining"] d stepsD [OF "1.prems"(2) f] by simp_all
  have tr: "R a b \<Longrightarrow> R b c \<Longrightarrow> R a c" for a b c
    using R by (auto simp: preorder_def)
  show ?case
  proof (cases "d = None \<and> \<not> retryAfter > remaining \<and> (\<exists>e. r2 = Fail e \<and> isAsyncJobErr e)")
    case True
    then obtain e where e: "d = None" "\<not> retryAfter > remaining" "r2 = Fail e" "isAsyncJobErr e" by blast
    then have "refresh_loop l pool (remaining - retryAfter - l_took l w2) asyncJobErrRetryDefaultInterval w2 = (r, w')"
      using "1.prems"(1) d f by (subst (asm) refresh_loop.simps) simp
    with "1.IH" [OF d [symmetric] e(1,2) f [symmetric] e(3)] e(4) "1.prems"(2,3) 1 2 show ?thesis
      by (blast intro: tr)
  next
    case False
    then have "w' = w1 \<or> w' = w2"
      using "1.prems"(1) d f by (subst (asm) refresh_loop.simps) (auto split: option.splits res.splits if_splits)
    then show ?thesis using 1 2 tr by blast
  qed
qed

lemma refresh_loop_keeps:
  assumes "queries_keep vols l" and "refresh_loop l pool remaining retryAfter w = (r, w')"
  shows "grows vols {} w w'"
  by (rule refresh_loop_steps [OF preorder_grows queries_keepD(4) [OF assms(1)] queries_keepD(15) [OF assms(1)] assms(2)])

lemma keep_parts:
  assumes q: "queries_keep vols l"
  shows "steps (grows vols {}) (findRawVolume l p n)" "steps (grows vols {}) (findVolume l p n)"
    "steps (grows vols {}) (getVolumeFormat l v)" "steps (grows vols {}) (refreshPool l p)"
    "steps (grows vols {}) (defaultOverwriter l v f)" "steps (grows vols {}) (defaultResizer l v k b)"
    "steps (grows vols {}) (ceph_resizeVol l v k b)" "steps (grows vols {}) (buildConnectOpts l n)"
    "steps (grows vols {}) (ceph_overwriteVolume l n v f)"
proof -
  note rules = steps_intros preorder_grows queries_keepD [OF q]
  show raw: "steps (grows vols {}) (findRawVolume l p n)" for p n
    unfolding findRawVolume_def by (intro rules)
  show "steps (grows vols {}) (findVolume l p n)"
    unfolding findVolume_def by (intro rules raw)
  show fmt: "steps (grows vols {}) (getVolumeFormat l v)" for v
    unfolding getVolumeFormat_def by (intro rules)
  show "steps (grows vols {}) (refreshPool l p)"
    unfolding steps_def refreshPool_def using refresh_loop_keeps [OF q] by blast
  show "steps (grows vols {}) (defaultOverwriter l v f)"
    unfolding defaultOverwriter_def by (intro rules)
  show "steps (grows vols {}) (defaultResizer l v k b)"
    unfolding defaultResizer_def Let_def split_beta by (intro rules fmt)
  show "steps (grows vols {}) (ceph_resizeVol l v k b)"
    unfolding ceph_resizeVol_def split_beta by (intro rules)
  show opts: "steps (grows vols {}) (buildConnectOpts l n)" for n
    unfolding buildConnectOpts_def by (intro rules) (auto split: option.split intro!: rules)
  show "steps (grows vols {}) (ceph_overwriteVolume l n v f)"
    unfolding ceph_overwriteVolume_def by (intro rules) (auto split: option.split intro!: rules opts)
qed

definition pool_laws :: "('w \<Rightarrow> volh set) \<Rightarrow> 'w pool \<Rightarrow> bool" where
  "pool_laws vols p \<longleftrightarrow> storage_laws vols (p_l p) \<and> (\<forall>c. p_custom p = Some c \<longrightarrow> queries_keep vols c)"

lemma is_err_not_found [simp]: "is_err ErrVolumeNotFound ErrVolumeNotFound"
  by simp

lemma findRawVolume_result:
  assumes "storage_laws vols l" and run: "findRawVolume l p n w = (r, w')"
  shows "r = Ok h \<Longrightarrow> h = (p, n) \<and> h \<in> vols w"
    and "r = Fail e \<Longrightarrow> is_err ErrVolumeNotFound e \<Longrightarrow> (p, n) \<notin> vols w"
proof -
  note look = lookup_lawsD [OF storage_lawsD(2) [OF assms(1)]]
  note err = error_lawsD [OF storage_lawsD(3) [OF assms(1)]]
  show "r = Ok h \<Longrightarrow> h = (p, n) \<and> h \<in> vols w"
    using run unfolding findRawVolume_def
    by (elim iotry_cases) (auto simp: ret_def throw_def dest: look split: if_splits)
  show "r = Fail e \<Longrightarrow> is_err ErrVolumeNotFound e \<Longrightarrow> (p, n) \<notin> vols w"
    using run unfolding findRawVolume_def
    by (elim iotry_cases) (auto simp: ret_def throw_def dest: look(4) err(1) split: if_splits)
qed

lemma findVolume_result:
  assumes laws: "storage_laws vols l" and run: "findVolume l p n w = (r, w')"
  shows "r = Ok v \<Longrightarrow> v_Name v = n \<and> v_Pool v = p \<and> v_Block v = [] \<and> (p, n) \<in> vols w"
    and "r = Fail e \<Longrightarrow> is_err ErrVolumeNotFound e \<Longrightarrow> (p, n) \<notin> vols w"
proof -
  note look = lookup_lawsD [OF storage_lawsD(2) [OF laws]]
  note err = error_lawsD [OF storage_lawsD(3) [OF laws]]
  show "v_Name v = n \<and> v_Pool v = p \<and> v_Block v = [] \<and> (p, n) \<in> vols w" if "r = Ok v"
    using run that unfolding findVolume_def
    by (elim iobind_cases) (auto simp: ret_def volume_of_def empty_volume_def dest!: findRawVolume_result(1) [OF laws] look(2))
  show "(p, n) \<notin> vols w" if "r = Fail e" "is_err ErrVolumeNotFound e"
    using run that unfolding findVolume_def
    by (elim iobind_cases) (auto simp: ret_def dest: findRawVolume_result(2) [OF laws] err)
qed

lemma grows_none: "grows vols {} a b \<Longrightarrow> vols b = vols a"
  by (auto simp: grows_def)

lemma DeleteVolume_result:
  assumes laws: "pool_laws vols p" and run: "DeleteVolume p n w = (r, w')"
  shows "if r = Ok () then vols w' = vols w - {(p_name p, n)} else vols w' = vols w"
proof -
  have l: "storage_laws vols (p_l p)" using laws by (simp add: pool_laws_def)
  note q = storage_lawsD(1) [OF l]
  note keep = queries_keepD(1) [OF q, THEN stepsD, THEN grows_none]
    keep_parts(4) [OF q, THEN stepsD, THEN grows_none] keep_parts(1) [OF q, THEN stepsD, THEN grows_none]
  from run have "iobind (l_FindStoragePool (p_l p) (p_name p)) (\<lambda>pool.
     iobind (refreshPool (p_l p) pool) (\<lambda>_.
     iotry (findRawVolume (p_l p) pool n) (\<lambda>vol. l_Delete (p_l p) vol)
       (\<lambda>e. if is_err ErrVolumeNotFound e then ret () else throw e))) w = (r, w')"
    by (simp add: DeleteVolume_def Let_def)
  then show ?thesis
  proof (cases rule: iobind_cases)
    case (Ok pool w1)
    have pool: "pool = p_name p" "vols w1 = vols w"
      using lookup_lawsD(1) [OF storage_lawsD(2) [OF l] Ok(1)] keep(1) [OF Ok(1)] by simp_all
    from Ok(2) show ?thesis
    proof (cases rule: iobind_cases)
      case (Ok u w2)
      have w2: "vols w2 = vols w" using keep(2) [OF Ok(1)] pool by simp
      from Ok(2) show ?thesis
      proof (cases rule: iotry_cases)
        case (Ok h w3)
        have "h = (p_name p, n)" "vols w3 = vols w"
          using findRawVolume_result(1) [OF l Ok(1), of h] keep(3) [OF Ok(1)] w2 pool by simp_all
        then show ?thesis using delete_effect [OF storage_lawsD(5) [OF l] Ok(2)] by simp
      next
        case (Fail e w3)
        have "vols w3 = vols w" using keep(3) [OF Fail(1)] w2 by simp
        moreover have "(p_name p, n) \<notin> vols w" if "is_err ErrVolumeNotFound e"
          using findRawVolume_result(2) [OF l Fail(1) _ that] w2 pool by simp
        ultimately show ?thesis using Fail(2) by (auto simp: ret_def throw_def split: if_splits)
      next
        case (Panic q)
        then show ?thesis using keep(3) [OF Panic(1)] w2 by simp
      qed
    next
      case (Fail e)
      then show ?thesis using keep(2) [OF Fail(1)] pool(2) by simp
    next
      case (Panic q)
      then show ?thesis using keep(2) [OF Panic(1)] pool(2) by simp
    qed
  next
    case (Fail e)
    then show ?thesis using keep(1) [OF Fail(1)] by simp
  next
    case (Panic q)
    then show ?thesis using keep(1) [OF Panic(1)] by simp
  qed
qed

lemma custom_keep:
  assumes "pool_laws vols p"
  shows "steps (grows vols {}) (overwrite_fn p v f)" "steps (grows vols {}) (resize_fn p v k b)"
proof -
  have q: "queries_keep vols (p_l p)" using assms by (simp add: pool_laws_def storage_laws_def)
  show "steps (grows vols {}) (overwrite_fn p v f)"
  proof (cases "p_custom p")
    case None
    then show ?thesis by (simp only: overwrite_fn_def option.case keep_parts(5) [OF q])
  next
    case (Some c)
    then have "queries_keep vols c" using assms by (simp add: pool_laws_def)
    from keep_parts(9) [OF this] Some show ?thesis by (simp only: overwrite_fn_def option.case)
  qed
  show "steps (grows vols {}) (resize_fn p v k b)"
  proof (cases "p_custom p")
    case None
    then show ?thesis by (simp only: resize_fn_def option.case keep_parts(6) [OF q])
  next
    case (Some c)
    then have "queries_keep vols c" using assms by (simp add: pool_laws_def)
    from keep_parts(7) [OF this] Some show ?thesis by (simp only: resize_fn_def option.case)
  qed
qed

lemma add_parts:
  fixes n :: string
  assumes laws: "pool_laws vols p"
  defines "S \<equiv> {h. snd h = n}"
  shows "steps (grows vols S) (load_source (p_l p) pool opts)"
    "steps (grows vols S) (chain_to (p_l p) opts src x)"
    "vx_Name x = n \<Longrightarrow> steps (grows vols S) (create_volume p pool opts src x)"
proof -
  have l: "storage_laws vols (p_l p)" using laws by (simp add: pool_laws_def)
  note q = storage_lawsD(1) [OF l] and cr = create_lawsD [OF storage_lawsD(4) [OF l]]
  show "steps (grows vols S) (load_source (p_l p) pool opts)"
    unfolding load_source_def
    by (intro steps_intros preorder_grows steps_grows_mono [OF keep_parts(1) [OF q] empty_subsetI])
  show "steps (grows vols S) (chain_to (p_l p) opts src x)"
    unfolding chain_to_def
    by (auto split: option.split intro!: steps_intros preorder_grows
        steps_grows_mono [OF keep_parts(3) [OF q] empty_subsetI] steps_grows_mono [OF queries_keepD(7) [OF q] empty_subsetI])
  assume nm: "vx_Name x = n"
  have c: "steps (grows vols S) (l_CreateXML (p_l p) pool x)" "steps (grows vols S) (l_CreateXMLFrom (p_l p) pool x v)" for v
    using steps_grows_mono [OF cr(1)] steps_grows_mono [OF cr(3)] nm by (auto simp: S_def)
  note ov = steps_grows_mono [OF custom_keep(1) [OF laws] empty_subsetI]
  show "steps (grows vols S) (create_volume p pool opts src x)"
    unfolding create_volume_def
    by (cases src; cases "op_Chained opts")
      (simp_all only: option.case bool.case prod.case, (intro steps_intros preorder_grows ov c)+)
qed

lemma chain_name: "chain_to l opts src x w = (Ok y, w') \<Longrightarrow> vx_Name y = vx_Name x"
  unfolding chain_to_def by (auto simp: ret_def throw_def elim!: iobind_cases split: if_splits option.splits)

lemma create_volume_result:
  assumes laws: "pool_laws vols p" and run: "create_volume p pool opts src x w = (Ok h, w')"
  shows "(pool, vx_Name x) \<in> vols w'"
proof -
  have "storage_laws vols (p_l p)" using laws by (simp add: pool_laws_def)
  note cr = create_lawsD(2,4) [OF storage_lawsD(4) [OF this]]
  have up: "(pool, vx_Name x) \<in> vols w2"
    if "l_CreateXML (p_l p) pool x w = (Ok v, w1)" "overwrite_fn p v f w1 = (Ok u, w2)" for v w1 f u w2
    using cr(1) [OF that(1)] stepsD [OF custom_keep(1) [OF laws] that(2)] by (auto simp: grows_def)
  from run show ?thesis unfolding create_volume_def
    by (auto elim!: iobind_cases simp: ret_def dest: cr up split: option.splits bool.splits if_splits)
qed

lemma build_volume_steps:
  assumes laws: "pool_laws vols p"
  shows "build_volume p pool n opts w = (r, w') \<Longrightarrow> grows vols {h. snd h = n} w w'"
    and "build_volume p pool n opts w = (Ok v, w') \<Longrightarrow> v_Name v = n \<and> v_Pool v = p_name p \<and> v_Block v = [] \<and> (pool, n) \<in> vols w'"
proof -
  have q: "queries_keep vols (p_l p)" using laws by (simp add: pool_laws_def storage_laws_def)
  note parts = add_parts [OF laws, where n = n]
  have tr: "grows vols S a b \<Longrightarrow> grows vols S b c \<Longrightarrow> grows vols S a c" for S a b c
    by (auto simp: grows_def)
  have tail: "steps (grows vols {}) (iobind (resize_fn p vol k b) (\<lambda>_. iobind (l_VolXML (p_l p) vol) (\<lambda>info. ret (f info))))"
    for vol k b and f :: "volxml \<Rightarrow> Volume"
    by (intro steps_intros preorder_grows custom_keep(2) [OF laws] queries_keepD(8) [OF q])
  {
    fix r w'
    assume run: "build_volume p pool n opts w = (r, w')"
    then show "grows vols {h. snd h = n} w w'"
      unfolding build_volume_def
    proof (cases rule: iobind_cases)
      case (Ok src w1)
      note 1 = stepsD [OF parts(1) Ok(1)]
      from Ok(2) show ?thesis
      proof (cases rule: iobind_cases)
        case (Ok x w2)
        note 2 = tr [OF 1 stepsD [OF parts(2) Ok(1)]]
        have nm: "vx_Name x = n" using chain_name [OF Ok(1)] by (simp add: new_volume_def)
        from Ok(2) show ?thesis
        proof (cases rule: iobind_cases)
          case (Ok vol w3)
          show ?thesis by (rule tr [OF tr [OF 2 stepsD [OF parts(3) [OF nm] Ok(1)]]
                stepsD [OF steps_grows_mono [OF tail empty_subsetI] Ok(2)]])
        qed (blast intro: tr [OF 2] stepsD [OF parts(3) [OF nm]])+
      qed (blast intro: tr [OF 1] stepsD [OF parts(2)])+
    qed (blast intro: stepsD [OF parts(1)])+
  }
  {
    fix v w'
    assume run: "build_volume p pool n opts w = (Ok v, w')"
    then obtain src x vol info w1 w2 w3 w4 where run:
      "load_source (p_l p) pool opts w = (Ok src, w1)" "chain_to (p_l p) opts src (new_volume n opts) w1 = (Ok x, w2)"
      "create_volume p pool opts src x w2 = (Ok vol, w3)"
      "iobind (resize_fn p vol (op_Size opts) (op_Sparse opts)) (\<lambda>_. iobind (l_VolXML (p_l p) vol)
         (\<lambda>info. ret (volume_of n (p_name p) info))) w3 = (Ok v, w')"
      unfolding build_volume_def by (auto simp: iobind_Ok)
    have "vx_Name x = n" using chain_name [OF run(2)] by (simp add: new_volume_def)
    then have "(pool, n) \<in> vols w3" using create_volume_result [OF laws run(3)] by simp
    then have "(pool, n) \<in> vols w'"
      using grows_none [where vols = vols, OF stepsD [OF tail run(4)]] by simp
    then show "v_Name v = n \<and> v_Pool v = p_name p \<and> v_Block v = [] \<and> (pool, n) \<in> vols w'"
      using run(4) by (auto simp: iobind_Ok ret_def volume_of_def empty_volume_def)
  }
qed

lemma build_volume_grows:
  assumes "pool_laws vols p"
  shows "steps (grows vols {h. snd h = n}) (build_volume p pool n opts)"
  using build_volume_steps(1) [OF assms] unfolding steps_def by blast

lemma pool_AddVolume_grows:
  assumes laws: "pool_laws vols p"
  shows "steps (grows vols {h. snd h = n}) (pool_AddVolume p n opts)"
proof -
  have q: "queries_keep vols (p_l p)" using laws by (simp add: pool_laws_def storage_laws_def)
  note mono = steps_grows_mono [OF _ empty_subsetI]
  show ?thesis unfolding pool_AddVolume_def Let_def
    by (intro steps_intros preorder_grows mono [OF queries_keepD(1) [OF q]] mono [OF keep_parts(4) [OF q]]
        mono [OF keep_parts(2) [OF q]] build_volume_grows [OF laws])
qed

lemma pool_AddVolume_result:
  assumes laws: "pool_laws vols p" and run: "pool_AddVolume p n opts w = (Ok v, w')"
  shows "v_Name v = n \<and> v_Pool v = p_name p \<and> v_Block v = [] \<and> (p_name p, n) \<in> vols w'"
proof -
  have l: "storage_laws vols (p_l p)" using laws by (simp add: pool_laws_def)
  note q = storage_lawsD(1) [OF l]
  from run obtain pool u w1 w2 where 1: "l_FindStoragePool (p_l p) (p_name p) w = (Ok pool, w1)"
    "refreshPool (p_l p) pool w1 = (Ok u, w2)"
    and add: "iotry (findVolume (p_l p) pool n) ret
       (\<lambda>e. if \<not> is_err ErrVolumeNotFound e then throw e else build_volume p pool n (default_format opts)) w2 = (Ok v, w')"
    by (auto simp: pool_AddVolume_def Let_def iobind_Ok)
  have pool: "pool = p_name p" by (rule lookup_lawsD(1) [OF storage_lawsD(2) [OF l] 1(1)])
  from add show ?thesis
  proof (cases rule: iotry_cases)
    case (Ok x w3)
    then have "findVolume (p_l p) pool n w2 = (Ok v, w')" by (simp add: ret_def)
    note found = findVolume_result(1) [OF l this refl]
      grows_none [where vols = vols, OF stepsD [OF keep_parts(2) [OF q] this]]
    then show ?thesis by (simp add: pool)
  next
    case (Fail e w3)
    then have "build_volume p pool n (default_format opts) w3 = (Ok v, w')"
      by (simp add: throw_def split: if_splits)
    from build_volume_steps(2) [OF laws this] show ?thesis by (simp add: pool)
  qed simp
qed

lemma ceph_copyVol_contract:
  assumes laws: "pool_laws vols p"
  shows "steps (grows vols {h. snd h = n}) (ceph_copyVol p n opts)"
    and "ceph_copyVol p n opts w = (Ok v, w') \<Longrightarrow> v_Name v = n \<and> v_Pool v = p_name p \<and> v_Block v = [] \<and> (p_name p, n) \<in> vols w'"
proof -
  have l: "storage_laws vols (p_l p)" using laws by (simp add: pool_laws_def)
  note q = storage_lawsD(1) [OF l] and cr = create_lawsD [OF storage_lawsD(4) [OF l]]
  note mono = steps_grows_mono [OF _ empty_subsetI]
  show "steps (grows vols {h. snd h = n}) (ceph_copyVol p n opts)"
    unfolding ceph_copyVol_def Let_def
    by (intro steps_intros preorder_grows mono [OF keep_parts(8) [OF q]] mono [OF queries_keepD(1) [OF q]]
        mono [OF queries_keepD(2) [OF q]])
      (auto split: option.split intro!: steps_intros preorder_grows cr(5) mono [OF queries_keepD(4) [OF q]]
        mono [OF keep_parts(1) [OF q]] mono [OF keep_parts(7) [OF q]] mono [OF keep_parts(2) [OF q]])
  assume "ceph_copyVol p n opts w = (Ok v, w')"
  then obtain pool w1 w2 w3 where find: "l_FindStoragePool (p_l p) (p_name p) w1 = (Ok pool, w2)"
    and last: "findVolume (p_l p) pool n w3 = (Ok v, w')"
    by (auto simp: ceph_copyVol_def Let_def iobind_Ok lift_def throw_def split: option.splits if_splits)
  note found = findVolume_result(1) [OF l last refl]
    grows_none [where vols = vols, OF stepsD [OF keep_parts(2) [OF q] last]]
  with lookup_lawsD(1) [OF storage_lawsD(2) [OF l] find]
  show "v_Name v = n \<and> v_Pool v = p_name p \<and> v_Block v = [] \<and> (p_name p, n) \<in> vols w'" by simp
qed

text \<open>
  What the driver relies on of a pool, whatever its kind: a volume that was added is there under
  its name, and nothing else is added or lost.
\<close>

locale pool_contract =
  fixes add :: "'w pool \<Rightarrow> string \<Rightarrow> Options \<Rightarrow> ('w, Volume) io"
  assumes add_result: "pool_laws vols p \<Longrightarrow> add p n opts w = (Ok v, w') \<Longrightarrow>
      v_Name v = n \<and> v_Pool v = p_name p \<and> v_Block v = [] \<and> (p_name p, n) \<in> vols w'"
    and add_grows: "pool_laws vols p \<Longrightarrow> steps (grows vols {h. snd h = n}) (add p n opts)"
begin

lemma add_keeps_others:
  assumes "pool_laws vols p" "add p n opts w = (r, w')" "snd h \<noteq> n"
  shows "h \<in> vols w' \<longleftrightarrow> h \<in> vols w"
  using stepsD [OF add_grows [OF assms(1)] assms(2)] assms(3) by (auto simp: grows_def)

lemma add_delete:
  assumes "pool_laws vols p" "add p n opts w = (Ok v, w1)" "DeleteVolume p n w1 = (Ok (), w2)"
  shows "(p_name p, n) \<notin> vols w2 \<and> (\<forall>h. snd h \<noteq> n \<longrightarrow> (h \<in> vols w2 \<longleftrightarrow> h \<in> vols w))"
  using add_keeps_others [OF assms(1,2)] DeleteVolume_result [OF assms(1,3)] by auto

end

interpretation directory_pool: pool_contract pool_AddVolume
  by (unfold_locales, rule pool_AddVolume_result, assumption+) (rule pool_AddVolume_grows)

interpretation ceph_pool: pool_contract ceph_AddVolume
proof (unfold_locales, goal_cases)
  case (1 vols p n opts w v w')
  show ?case
  proof (cases "\<not> op_Chained opts \<and> so_Volume (op_Source opts) \<noteq> []")
    case True
    then have "ceph_copyVol p n opts w = (Ok v, w')" using 1(2) by (simp add: ceph_AddVolume_def)
    from ceph_copyVol_contract(2) [OF 1(1) this] show ?thesis .
  next
    case False
    then have "pool_AddVolume p n (opts\<lparr>op_Chained := False, op_Sparse := True\<rparr>) w = (Ok v, w')"
      using 1(2) unfolding ceph_AddVolume_def by (simp only: if_False)
    from pool_AddVolume_result [OF 1(1) this] show ?thesis .
  qed
next
  case (2 vols p n opts)
  show ?case unfolding ceph_AddVolume_def
    by (intro steps_if ceph_copyVol_contract(1) [OF 2] pool_AddVolume_grows [OF 2])
qed

interpretation any_pool: pool_contract AddVolume
proof (unfold_locales, goal_cases)
  case (1 vols p n opts w v w')
  then show ?case
    by (cases "p_kind p") (auto simp: AddVolume_def dest: directory_pool.add_result ceph_pool.add_result)
next
  case (2 vols p n opts)
  then show ?case
    by (cases "p_kind p") (simp_all add: AddVolume_def directory_pool.add_grows ceph_pool.add_grows)
qed

section \<open>Properties\<close>


text \<open>
  A libvirt in memory: the world maps volumes to their description. Everything succeeds but the
  upload of an image, which fails when \<open>bad\<close> is set.
\<close>

definition mem_conn :: "bool \<Rightarrow> (volh \<rightharpoonup> volxml) conn" where
  "mem_conn bad = \<lparr>l_CreateStoragePool = (\<lambda>d. ret (px_Name d)), l_FindStoragePool = ret,
     l_UpdateStoragePool = (\<lambda>d. ret ()), l_SetCephSecret = (\<lambda>n c. ret ''uuid''),
     l_GetCephSecret = (\<lambda>n. ret ''key''), l_GetCephSecretID = (\<lambda>n. ret ''uuid''),
     l_PoolXML = (\<lambda>p. ret \<lparr>px_Name = p, px_Type = ''rbd'', px_Path = None,
        px_Source = Some \<lparr>ps_Name = ''rbd'', ps_Host = [(''mon'', ''6789'')], ps_Auth = Some (''admin'', ''uuid'')\<rparr>\<rparr>),
     l_PoolName = ret, l_IsActive = (\<lambda>p. ret True), l_StartPool = (\<lambda>p. ret ()),
     l_ListVolumes = (\<lambda>p. ret []),
     l_Lookup = (\<lambda>p n w. case w (p, n) of Some x \<Rightarrow> (Ok (p, n), w)
        | None \<Rightarrow> (Fail (wrapf [] ERR_NO_STORAGE_VOL []), w)),
     l_Refresh = (\<lambda>p. ret ()),
     l_CreateXML = (\<lambda>p x w. (Ok (p, vx_Name x), w((p, vx_Name x) \<mapsto> x))),
     l_CreateXMLFrom = (\<lambda>p x v w. (Ok (p, vx_Name x), w((p, vx_Name x) \<mapsto> x))),
     l_Delete = (\<lambda>v w. (Ok (), w(v := None))),
     l_Info = (\<lambda>v w. (Ok (0, 0), w)), l_Path = (\<lambda>v. ret (fst v @ ''/'' @ snd v)),
     l_VolXML = (\<lambda>v w. case w v of Some x \<Rightarrow> (Ok x, w) | None \<Rightarrow> (Fail ERR_NO_STORAGE_VOL, w)),
     l_Resize = (\<lambda>v n b. ret ()), l_FileSize = (\<lambda>f. ret 7), l_NewStream = ret True,
     l_upload = (\<lambda>v f n b. if bad then throw (ErrNew ''connection reset'') else ret ()),
     l_MkdirAll = (\<lambda>p. ret ()), l_VolumeCopy = (\<lambda>c p s d. ret ()),
     l_VolumeUpload = (\<lambda>c p v f. ret ()), l_ctxDone = (\<lambda>n w. (None, w)), l_took = (\<lambda>w. 0)\<rparr>"

definition mem_dir :: "bool \<Rightarrow> (volh \<rightharpoonup> volxml) pool" where
  "mem_dir bad = \<lparr>p_kind = DirectoryPool, p_name = ''local'', p_l = mem_conn bad, p_custom = None\<rparr>"

lemma mem_queries: "queries_keep dom (mem_conn bad)"
  by (auto simp: queries_keep_def mem_conn_def steps_def ret_def throw_def grows_def split: option.splits if_splits)

lemma mem_conn_laws: "storage_laws dom (mem_conn bad)"
  using mem_queries
  by (auto simp: storage_laws_def lookup_laws_def error_laws_def create_laws_def delete_laws_def mem_conn_def
      steps_def ret_def throw_def grows_def ERR_NO_STORAGE_VOL_def ErrVolumeNotFound_def wrapf_def
      split: option.splits if_splits)

lemma mem_dir_laws: "pool_laws dom (mem_dir bad)"
  using mem_conn_laws by (simp add: pool_laws_def mem_dir_def)

definition image_options :: Options where
  "image_options = \<lparr>op_Chained = False, op_Sparse = False, op_Size = 0,
     op_Source = \<lparr>so_Path = ''/images/a'', so_Volume = []\<rparr>, op_TargetFormat = ''raw''\<rparr>"

lemmas add_run = AddVolume_def pool_AddVolume_def Let_def default_format_def findVolume_def findRawVolume_def
  refreshPool_def refresh_loop.simps build_volume_def load_source_def chain_to_def new_volume_def create_volume_def
  overwrite_fn_def resize_fn_def defaultOverwriter_def defaultResizer_def mem_dir_def mem_conn_def image_options_def
  io_simps

lemma mem_add: "AddVolume (mem_dir False) ''vm'' image_options Map.empty
    = (Ok (volume_of ''vm'' ''local'' (new_volume ''vm'' image_options)),
       [(''local'', ''vm'') \<mapsto> new_volume ''vm'' image_options])"
  by (simp add: add_run ERR_NO_STORAGE_VOL_def ErrVolumeNotFound_def wrapf_def)

lemma mem_delete: "DeleteVolume (mem_dir False) ''vm'' [(''local'', ''vm'') \<mapsto> x] = (Ok (), Map.empty)"
  by (simp add: add_run DeleteVolume_def)


text \<open>
  A volume that exists is returned as it is: adding to a directory pool a volume whose name is
  taken is the refresh and lookup of that volume and nothing else, whatever size, source and format
  are asked for. As a failed upload leaves the volume it was filling behind, a retry then reports
  success with the partial volume (the witness is such a run).
\<close>

theorem existing_volume_returned_as_is:
  assumes "pool_laws vols p" and "p_kind p = DirectoryPool" and "(p_name p, n) \<in> vols w"
  shows "AddVolume p n opts w =
    iobind (l_FindStoragePool (p_l p) (p_name p)) (\<lambda>pool. iobind (refreshPool (p_l p) pool)
      (\<lambda>_. findVolume (p_l p) pool n)) w"
proof -
  have l: "storage_laws vols (p_l p)" using assms(1) by (simp add: pool_laws_def)
  note q = storage_lawsD(1) [OF l]
  obtain r w1 where 1: "l_FindStoragePool (p_l p) (p_name p) w = (r, w1)" by fastforce
  have w1: "vols w1 = vols w" by (rule grows_none [OF stepsD [OF queries_keepD(1) [OF q] 1]])
  have look: "iotry (findVolume (p_l p) pool n) ret (\<lambda>e. if \<not> is_err ErrVolumeNotFound e then throw e else b) w2
      = findVolume (p_l p) pool n w2" if "pool = p_name p" "vols w2 = vols w" for pool b w2
    using findVolume_result(2) [OF l, of pool n w2] that assms(3)
    by (cases "findVolume (p_l p) pool n w2"; cases "fst (findVolume (p_l p) pool n w2)")
      (auto simp: iotry_def ret_def throw_def)
  show ?thesis
  proof (cases r)
    case (Ok pool)
    then have pool: "pool = p_name p" using 1 lookup_lawsD(1) [OF storage_lawsD(2) [OF l]] by simp
    obtain r2 w2 where 2: "refreshPool (p_l p) pool w1 = (r2, w2)" by fastforce
    have "vols w2 = vols w" using grows_none [OF stepsD [OF keep_parts(4) [OF q] 2]] w1 by simp
    then show ?thesis using 1 2 Ok look [OF pool]
      by (simp add: AddVolume_def assms(2) pool_AddVolume_def Let_def iobind_def split: res.split)
  qed (use 1 in \<open>simp_all add: AddVolume_def assms(2) pool_AddVolume_def Let_def iobind_def\<close>)
qed

lemma mem_add_bad: "AddVolume (mem_dir True) ''vm'' image_options Map.empty
    = (Fail (ErrNew ''connection reset''), [(''local'', ''vm'') \<mapsto> new_volume ''vm'' image_options])"
  by (simp add: add_run ERR_NO_STORAGE_VOL_def ErrVolumeNotFound_def wrapf_def)

theorem existing_volume_returned_as_is_witness:
  "\<exists>e w1 v. AddVolume (mem_dir True) ''vm'' image_options Map.empty = (Fail e, w1)
    \<and> AddVolume (mem_dir True) ''vm'' image_options w1 = (Ok v, w1)"
proof -
  let ?w1 = "[(''local'', ''vm'') \<mapsto> new_volume ''vm'' image_options]"
  have "(p_name (mem_dir True), ''vm'') \<in> dom ?w1" "p_kind (mem_dir True) = DirectoryPool"
    by (simp_all add: mem_dir_def)
  from existing_volume_returned_as_is [OF mem_dir_laws this(2,1), of image_options]
  have "AddVolume (mem_dir True) ''vm'' image_options ?w1 =
      (Ok (volume_of ''vm'' ''local'' (new_volume ''vm'' image_options)), ?w1)"
    by (simp add: add_run)
  with mem_add_bad show ?thesis by blast
qed

lemma next_char_above: "(of_char c :: nat) < 122 \<Longrightarrow> next_char c = [char_of ((of_char c :: nat) + 1)]"
  by (simp add: next_char_def Let_def)

text \<open>
  Generated device names: while the existing names with the bus prefix have one letter below
  \<open>z\<close> each, the generated name has the prefix and is none of them (up to letter case). Beyond that
  it fails: two letters make it generate a name that is taken, and after \<open>z\<close> it gives no letter.
\<close>

theorem GenerateDeviceName_fresh:
  assumes "\<And>n. n \<in> set existing \<Longrightarrow> has_prefix prefix (to_lower n) \<Longrightarrow>
      \<exists>c. to_lower n = prefix @ [c] \<and> 97 \<le> (of_char c :: nat) \<and> (of_char c :: nat) < 122"
    and "prefix = (if bus = ''virtio'' then ''vd'' else ''sd'')"
  shows "has_prefix prefix (GenerateDeviceName bus existing)
    \<and> GenerateDeviceName bus existing \<notin> to_lower ` set existing
    \<and> GenerateDeviceName ''virtio'' [''vdb'', ''vdca''] = ''vdb''
    \<and> GenerateDeviceName ''virtio'' [''vdz''] = ''vd{''"
proof -
  let ?valid = "filter (has_prefix prefix) (map to_lower existing)"
  have name: "GenerateDeviceName bus existing =
      (if ?valid = [] then prefix @ ''a'' else prefix @ next_char (last (Max (set ?valid))))"
    using assms(2) by (simp add: GenerateDeviceName_def Let_def)
  have fresh: "GenerateDeviceName bus existing \<notin> to_lower ` set existing"
  proof (cases "?valid = []")
    case True
    then have "x \<notin> to_lower ` set existing" if "has_prefix prefix x" for x
      using that by (auto simp: filter_empty_conv)
    then show ?thesis using True name by (simp add: has_prefix_append del: image_iff)
  next
    case False
    define m where "m = Max (set ?valid)"
    have "m \<in> set ?valid" using False unfolding m_def by (intro Max_in) (auto simp: filter_empty_conv)
    then obtain n where "n \<in> set existing" "m = to_lower n" "has_prefix prefix (to_lower n)" by auto
    with assms(1) obtain c where c: "m = prefix @ [c]" "97 \<le> (of_char c :: nat)" "(of_char c :: nat) < 122" by blast
    let ?d = "char_of ((of_char c :: nat) + 1) :: char"
    have d: "(of_char ?d :: nat) = of_char c + 1" using c(3) by simp
    have "GenerateDeviceName bus existing = prefix @ [?d]"
      unfolding name m_def [symmetric] using False c(1,3) by (simp del: set_filter set_map add: next_char_above)
    moreover have "m < prefix @ [?d]"
      using d by (simp add: c(1) less_char_def list_less_def lexord_append_leftI)
    moreover have "x \<le> m" if "x \<in> to_lower ` set existing" "has_prefix prefix x" for x
      unfolding m_def by (rule Max_ge) (use that in auto)
    ultimately show ?thesis by (metis has_prefix_append leD)
  qed
  have "GenerateDeviceName ''virtio'' [''vdb'', ''vdca''] = ''vdb''"
    "GenerateDeviceName ''virtio'' [''vdz''] = ''vd{''"
    by (simp_all add: GenerateDeviceName_def Let_def to_lower_def lower_char_def has_prefix_def next_char_def
        max_def less_eq_char_def char_of_def bit_0)
  with fresh show ?thesis by (simp add: name)
qed

theorem GenerateDeviceName_fresh_witness:
  "GenerateDeviceName ''virtio'' [''vda'', ''VDB''] \<notin> to_lower ` set [''vda'', ''VDB'']
   \<and> GenerateDeviceName ''virtio'' [''vda'', ''VDB''] = ''vdc''"
proof -
  have low: "to_lower ''vda'' = ''vda''" "to_lower ''VDB'' = ''vdb''"
    by (simp_all add: to_lower_def lower_char_def char_of_def bit_0)
  have "GenerateDeviceName ''virtio'' [''vda'', ''VDB''] = ''vdc''"
    by (simp add: GenerateDeviceName_def Let_def low has_prefix_def next_char_def max_def less_eq_char_def
        char_of_def bit_0)
  moreover have "\<exists>c. to_lower n = ''vd'' @ [c] \<and> 97 \<le> (of_char c :: nat) \<and> (of_char c :: nat) < 122"
    if "n \<in> set [''vda'', ''VDB'']" for n
    using that by (auto simp: low)
  then have "GenerateDeviceName ''virtio'' [''vda'', ''VDB''] \<notin> to_lower ` set [''vda'', ''VDB'']"
    using GenerateDeviceName_fresh [of "[''vda'', ''VDB'']" "''vd''" "''virtio''"] by simp
  ultimately show ?thesis by blast
qed

section \<open>Volumes and disks\<close>

text \<open>
  A libvirt whose ceph pools can be described: every ceph pool of the storage is found, has a
  source with authentication and a secret, without changing what is described.
\<close>

definition described :: "'w conn \<Rightarrow> (string \<Rightarrow> poolsource) \<Rightarrow> string \<Rightarrow> bool" where
  "described l src n \<longleftrightarrow> ps_Auth (src n) \<noteq> None \<and> CHR ''/'' \<notin> set (ps_Name (src n)) \<and>
     (\<forall>w. \<exists>w1. l_FindStoragePool l n w = (Ok n, w1)) \<and>
     (\<forall>w. \<exists>info w1. l_PoolXML l n w = (Ok info, w1) \<and> px_Source info = Some (src n)) \<and>
     (\<forall>w. \<exists>sec w1. l_GetCephSecretID l n w = (Ok sec, w1))"

fun ceph_map :: "(string \<Rightarrow> poolsource) \<Rightarrow> (string \<times> 'w pool) list \<Rightarrow> (string \<rightharpoonup> string) \<Rightarrow> (string \<rightharpoonup> string)" where
  "ceph_map src [] m = m"
| "ceph_map src ((n, p) # ps) m =
     ceph_map src ps (if p_kind p = CephPool then m(ps_Name (src n) \<mapsto> n) else m)"

lemma ceph_pools_run:
  assumes "\<And>n p. (n, p) \<in> set ps \<Longrightarrow> p_kind p = CephPool \<Longrightarrow> described l src n"
  shows "\<exists>w'. ceph_pools l ps m w = (Ok (ceph_map src ps m), w')"
  using assms
proof (induction ps arbitrary: m w)
  case Nil
  then show ?case by (simp add: ret_def)
next
  case (Cons x ps)
  obtain n p where x: "x = (n, p)" by (cases x)
  have IH: "\<exists>w'. ceph_pools l ps m w = (Ok (ceph_map src ps m), w')" for m w
    by (rule Cons.IH) (meson Cons.prems list.set_intros(2))
  show ?case
  proof (cases "p_kind p = CephPool")
    case True
    then have d: "described l src n" by (intro Cons.prems [of n p]) (simp_all add: x)
    obtain w1 where 1: "l_FindStoragePool l n w = (Ok n, w1)" using d unfolding described_def by blast
    obtain info w2 where 2: "l_PoolXML l n w1 = (Ok info, w2)" "px_Source info = Some (src n)"
      using d unfolding described_def by blast
    show ?thesis using IH True 1 2 by (simp add: x iobind_def)
  qed (use IH in \<open>simp add: x\<close>)
qed

lemma ceph_map_other:
  "\<forall>n p. (n, p) \<in> set ps \<longrightarrow> p_kind p = CephPool \<longrightarrow> ps_Name (src n) \<noteq> k \<Longrightarrow> ceph_map src ps m k = m k"
proof (induction src ps m rule: ceph_map.induct)
  case (2 src n p ps m)
  let ?m = "if p_kind p = CephPool then m(ps_Name (src n) \<mapsto> n) else m"
  have "ceph_map src ps ?m k = ?m k" by (rule "2.IH") (use "2.prems" in simp)
  moreover have "?m k = m k" using "2.prems" by (cases "p_kind p = CephPool") auto
  ultimately show ?case by (simp only: ceph_map.simps)
qed simp

lemma ceph_map_lookup:
  assumes "(n, p) \<in> set ps" "p_kind p = CephPool"
    and "\<forall>n' p'. (n', p') \<in> set ps \<longrightarrow> p_kind p' = CephPool \<longrightarrow> ps_Name (src n') = ps_Name (src n) \<longrightarrow> n' = n"
  shows "ceph_map src ps m (ps_Name (src n)) = Some n"
  using assms
proof (induction ps arbitrary: m p)
  case (Cons x ps)
  obtain n0 p0 where x: "x = (n0, p0)" by (cases x)
  show ?case
  proof (cases "\<exists>p. (n, p) \<in> set ps \<and> p_kind p = CephPool")
    case True
    then obtain p1 where "(n, p1) \<in> set ps" "p_kind p1 = CephPool" by blast
    from Cons.IH [OF this] Cons.prems(3) show ?thesis unfolding x ceph_map.simps by (meson list.set_intros(2))
  next
    case False
    then have "n0 = n" "p_kind p0 = CephPool" using Cons.prems(1,2) x by auto
    moreover have "ceph_map src ps m' (ps_Name (src n)) = m' (ps_Name (src n))" for m'
      by (rule ceph_map_other) (use False Cons.prems(3) in \<open>metis list.set_intros(2)\<close>)
    ultimately show ?thesis by (simp add: x)
  qed
qed simp

text \<open>
  C33. A volume attached to a domain is found again: turning a volume of one of the storage's pools
  into a disk and discovering the volumes of that disk gives the pool and the name of the volume, for
  directory pools always, for ceph pools when no other pool is backed by the same pool of the
  cluster and its name has no slash.
\<close>

theorem VolumeToDisk_discovered:
  assumes pool: "map_of (s_pools s) (v_Pool vol) = Some p" and blk: "v_Block vol = []"
    and desc: "\<And>n q. (n, q) \<in> set (s_pools s) \<Longrightarrow> p_kind q = CephPool \<Longrightarrow> described (s_l s) src n"
    and uniq: "\<And>n q. (n, q) \<in> set (s_pools s) \<Longrightarrow> p_kind q = CephPool \<Longrightarrow> p_kind p = CephPool \<Longrightarrow>
      ps_Name (src n) = ps_Name (src (v_Pool vol)) \<Longrightarrow> n = v_Pool vol"
  shows "\<exists>disk w1 w2. VolumeToDisk s vol w = (Ok disk, w1)
    \<and> DiscoverVolumes s [disk] w1 = (Ok [volume_ref (v_Pool vol) (v_Name vol)], w2)"
proof -
  have run: "\<exists>w'. ceph_pools (s_l s) (s_pools s) Map.empty w = (Ok (ceph_map src (s_pools s) Map.empty), w')" for w
    by (rule ceph_pools_run) (rule desc)
  have mem: "(v_Pool vol, p) \<in> set (s_pools s)" using pool by (rule map_of_SomeD)
  show ?thesis
  proof (cases "p_kind p")
    case DirectoryPool
    have "VolumeToDisk s vol w = (Ok (disk_of vol (Some (SourceVolume (v_Pool vol) (v_Name vol)))), w)"
      by (simp add: VolumeToDisk_def blk GetPool_def pool DirectoryPool io_simps)
    moreover have "\<exists>w2. DiscoverVolumes s [disk_of vol (Some (SourceVolume (v_Pool vol) (v_Name vol)))] w
        = (Ok [volume_ref (v_Pool vol) (v_Name vol)], w2)"
      using run [of w] by (auto simp: DiscoverVolumes_def iobind_def lift_def disk_of_def)
    ultimately show ?thesis by blast
  next
    case CephPool
    let ?n = "v_Pool vol"
    have d: "described (s_l s) src ?n" by (rule desc [OF mem CephPool])
    then obtain user sid where auth: "ps_Auth (src ?n) = Some (user, sid)" and slash: "CHR ''/'' \<notin> set (ps_Name (src ?n))"
      unfolding described_def by auto
    obtain w1 where 1: "l_FindStoragePool (s_l s) ?n w = (Ok ?n, w1)" using d unfolding described_def by blast
    obtain info w2 where 2: "l_PoolXML (s_l s) ?n w1 = (Ok info, w2)" "px_Source info = Some (src ?n)"
      using d unfolding described_def by blast
    obtain sec w3 where 3: "l_GetCephSecretID (s_l s) ?n w2 = (Ok sec, w3)" using d unfolding described_def by blast
    let ?nm = "ps_Name (src ?n) @ CHR ''/'' # v_Name vol"
    let ?disk = "disk_of vol (Some (SourceNetwork ''rbd'' ?nm (ps_Host (src ?n)) (Some (user, sec))))"
    have "VolumeToDisk s vol w = (Ok ?disk, w3)"
      by (simp add: VolumeToDisk_def blk GetPool_def pool CephPool io_simps 1 2 3 ceph_source_def auth)
    moreover have "ceph_map src (s_pools s) Map.empty (ps_Name (src ?n)) = Some ?n"
      by (rule ceph_map_lookup [OF mem CephPool]) (use uniq CephPool in blast)
    then have "discover (ceph_map src (s_pools s) Map.empty) [?disk] [] = Ok [volume_ref ?n (v_Name vol)]"
      using join_split_on [of "CHR ''/''" "v_Name vol"]
      by (cases "split_on CHR ''/'' (v_Name vol)") (simp_all add: disk_of_def split_on_append [OF slash])
    then have "\<exists>w4. DiscoverVolumes s [?disk] w3 = (Ok [volume_ref ?n (v_Name vol)], w4)"
      using run [of w3] by (auto simp: DiscoverVolumes_def iobind_def lift_def)
    ultimately show ?thesis by blast
  qed
qed

definition ceph_storage :: "(volh \<rightharpoonup> volxml) storage" where
  "ceph_storage = \<lparr>s_pools = [(''local'', mem_dir False),
      (''fast'', \<lparr>p_kind = CephPool, p_name = ''fast'', p_l = mem_conn False, p_custom = Some (mem_conn False)\<rparr>)],
    s_defaultPool = None, s_l = mem_conn False\<rparr>"

theorem VolumeToDisk_discovered_witness:
  "\<exists>disk w1 w2. VolumeToDisk ceph_storage (volume_ref ''fast'' ''a/b'') Map.empty = (Ok disk, w1)
    \<and> DiscoverVolumes ceph_storage [disk] w1 = (Ok [volume_ref ''fast'' ''a/b''], w2)"
proof -
  let ?src = "\<lambda>n :: string. \<lparr>ps_Name = ''rbd'', ps_Host = [(''mon'', ''6789'')], ps_Auth = Some (''admin'', ''uuid'')\<rparr>"
  have d: "described (s_l ceph_storage) ?src n" for n
    by (simp add: described_def ceph_storage_def mem_conn_def ret_def)
  have p: "map_of (s_pools ceph_storage) (v_Pool (volume_ref ''fast'' ''a/b''))
      = Some \<lparr>p_kind = CephPool, p_name = ''fast'', p_l = mem_conn False, p_custom = Some (mem_conn False)\<rparr>"
    by (simp add: ceph_storage_def volume_ref_def empty_volume_def)
  have "v_Block (volume_ref ''fast'' ''a/b'') = []" "v_Pool (volume_ref ''fast'' ''a/b'') = ''fast''"
    "v_Name (volume_ref ''fast'' ''a/b'') = ''a/b''" by (simp_all add: volume_ref_def empty_volume_def)
  moreover have "n = ''fast''" if "(n, q) \<in> set (s_pools ceph_storage)" "p_kind q = CephPool" for n q
    using that by (auto simp: ceph_storage_def mem_dir_def)
  ultimately show ?thesis
    using VolumeToDisk_discovered [OF p _ d, of Map.empty] by force
qed

section \<open>The configured pools\<close>

lemma put_pool_fresh: "n \<notin> fst ` set ps \<Longrightarrow> put_pool n p ps = ps @ [(n, p)]"
  by (force simp: put_pool_def intro!: filter_True)

lemma add_pools_result:
  assumes mk: "\<And>n c w p w'. mk n c w = (Ok p, w') \<Longrightarrow> Q n p"
    and "add_pools mk cfg ps w = (Ok qs, w')" and "distinct (map fst ps @ map fst cfg)"
  shows "\<exists>rs. qs = ps @ rs \<and> map fst rs = map fst cfg \<and> (\<forall>(n, p) \<in> set rs. Q n p)"
  using assms(2,3) unfolding add_pools_def
proof (induction cfg arbitrary: ps w)
  case Nil
  then show ?case by (simp add: ret_def)
next
  case (Cons x cfg)
  obtain n c where x: "x = (n, c)" by (cases x)
  from Cons.prems(1) obtain p w1 where p: "mk n c w = (Ok p, w1)"
    and rest: "iofold (\<lambda>(name, c) ps. iobind (mk name c) (\<lambda>pool. ret (put_pool name pool ps))) cfg
      (put_pool n p ps) w1 = (Ok qs, w')"
    by (auto simp: x iobind_Ok ret_def)
  have put: "put_pool n p ps = ps @ [(n, p)]" using Cons.prems(2) by (intro put_pool_fresh) (auto simp: x)
  have "distinct (map fst (ps @ [(n, p)]) @ map fst cfg)" using Cons.prems(2) by (auto simp: x)
  from Cons.IH [OF rest [unfolded put] this] obtain rs where rs: "qs = (ps @ [(n, p)]) @ rs"
    "map fst rs = map fst cfg" "\<forall>(n, p) \<in> set rs. Q n p" by blast
  then show ?case using mk [OF p] by (intro exI [of _ "(n, p) # rs"]) (auto simp: x)
qed

lemma sorted_entries_fst: "map fst (sorted_entries m) = sort (map fst m)"
  by (rule properties_for_sort [symmetric]) (simp_all add: sorted_entries_def)

lemma new_pool_name:
  "newDirectoryPool l n c w = (Ok p, w') \<Longrightarrow> p_name p = n \<and> p_l p = l \<and> p_kind p = DirectoryPool"
  "newCephPool loaded sh l n c' w = (Ok p, w') \<Longrightarrow> p_name p = n \<and> p_l p = l \<and> p_kind p = CephPool"
  by (auto simp: newDirectoryPool_def newCephPool_def iobind_Ok ret_def throw_def split: option.splits)

text \<open>
  C38. Setting up the storage: when it succeeds, on a configuration whose pool names are distinct,
  its pools are the configured directory pools then the configured ceph pools, each kind sorted by
  name and each under its name, on the given connection; and the default pool is the configured one,
  or the only pool when none is configured.
\<close>

theorem storage_New_pools:
  assumes run: "storage_New loaded sh l cfg w = (Ok s, w')"
    and dist: "distinct (map fst (sc_Directory cfg) @ map fst (sc_Ceph cfg))"
  shows "map fst (s_pools s) = sort (map fst (sc_Directory cfg)) @ sort (map fst (sc_Ceph cfg))
    \<and> (\<forall>(n, p) \<in> set (s_pools s). p_name p = n \<and> p_l p = l
         \<and> (p_kind p = DirectoryPool \<longleftrightarrow> n \<in> fst ` set (sc_Directory cfg)))
    \<and> (\<exists>p. s_defaultPool s = Some p \<and> (if sc_Default cfg = [] then s_pools s = [(p_name p, p)]
         else map_of (s_pools s) (sc_Default cfg) = Some p \<and> p_name p = sc_Default cfg))"
proof -
  let ?dirs = "sorted_entries (sc_Directory cfg)" and ?cephs = "sorted_entries (sc_Ceph cfg)"
  from run obtain ps1 w1 ps2 w2 where 1: "add_pools (newDirectoryPool l) ?dirs [] w = (Ok ps1, w1)"
    and 2: "add_pools (newCephPool loaded sh l) ?cephs ps1 w1 = (Ok ps2, w2)"
    and d: "pick_default (sc_Default cfg) \<lparr>s_pools = ps2, s_defaultPool = None, s_l = l\<rparr> = Ok s"
    by (auto simp: storage_New_def iobind_Ok lift_def)
  have dist': "distinct (map fst ?dirs @ map fst ?cephs)" using dist by (simp add: sorted_entries_fst)
  obtain rs1 where rs1: "ps1 = rs1" "map fst rs1 = map fst ?dirs"
    "\<forall>(n, p) \<in> set rs1. p_name p = n \<and> p_l p = l \<and> p_kind p = DirectoryPool"
    using add_pools_result [where Q = "\<lambda>n p. p_name p = n \<and> p_l p = l \<and> p_kind p = DirectoryPool", OF new_pool_name(1) 1]
      dist' by auto
  have "distinct (map fst ps1 @ map fst ?cephs)" using dist' rs1(1,2) by simp
  then have "\<exists>rs. ps2 = ps1 @ rs \<and> map fst rs = map fst ?cephs
      \<and> (\<forall>(n, p) \<in> set rs. p_name p = n \<and> p_l p = l \<and> p_kind p = CephPool)"
    by (intro add_pools_result [where mk = "newCephPool loaded sh l", OF _ 2] new_pool_name(2))
  then obtain rs2 where rs2: "ps2 = ps1 @ rs2" "map fst rs2 = map fst ?cephs"
    "\<forall>(n, p) \<in> set rs2. p_name p = n \<and> p_l p = l \<and> p_kind p = CephPool" by blast
  have s: "s_pools s = rs1 @ rs2" using d rs1(1) rs2(1)
    by (auto simp: pick_default_def GetPool_def split: if_splits list.splits option.splits)
  have names: "fst ` set rs1 = fst ` set (sc_Directory cfg)" "fst ` set rs2 = fst ` set (sc_Ceph cfg)"
    using arg_cong [OF rs1(2), of set] arg_cong [OF rs2(2), of set] by (simp_all add: sorted_entries_def)
  have disj: "fst ` set (sc_Directory cfg) \<inter> fst ` set (sc_Ceph cfg) = {}" using dist by auto
  have all: "\<forall>(n, p) \<in> set (s_pools s). p_name p = n \<and> p_l p = l
      \<and> (p_kind p = DirectoryPool \<longleftrightarrow> n \<in> fst ` set (sc_Directory cfg))"
    unfolding s set_append
  proof (intro ballI, elim UnE)
    fix x assume x: "x \<in> set rs1"
    have kind: "case x of (n, p) \<Rightarrow> p_name p = n \<and> p_l p = l \<and> p_kind p = DirectoryPool"
      using bspec [OF rs1(3) x] .
    from x have "fst x \<in> fst ` set (sc_Directory cfg)" unfolding names(1) [symmetric] by (rule imageI)
    with kind show "case x of (n, p) \<Rightarrow> p_name p = n \<and> p_l p = l
      \<and> (p_kind p = DirectoryPool \<longleftrightarrow> n \<in> fst ` set (sc_Directory cfg))" by (cases x) simp
  next
    fix x assume x: "x \<in> set rs2"
    have kind: "case x of (n, p) \<Rightarrow> p_name p = n \<and> p_l p = l \<and> p_kind p = CephPool"
      using bspec [OF rs2(3) x] .
    from x have "fst x \<in> fst ` set (sc_Ceph cfg)" unfolding names(2) [symmetric] by (rule imageI)
    then have "fst x \<notin> fst ` set (sc_Directory cfg)" using disj by blast
    with kind show "case x of (n, p) \<Rightarrow> p_name p = n \<and> p_l p = l
      \<and> (p_kind p = DirectoryPool \<longleftrightarrow> n \<in> fst ` set (sc_Directory cfg))" by (cases x) simp
  qed
  have "\<exists>p. s_defaultPool s = Some p \<and> (if sc_Default cfg = [] then s_pools s = [(p_name p, p)]
      else map_of (s_pools s) (sc_Default cfg) = Some p \<and> p_name p = sc_Default cfg)"
  proof (cases "sc_Default cfg = []")
    case True
    with d obtain n p where np: "ps2 = [(n, p)]" "s_defaultPool s = Some p" "s_pools s = ps2"
      by (auto simp: pick_default_def split: list.splits)
    with all True show ?thesis by auto
  next
    case False
    with d obtain p where p: "map_of ps2 (sc_Default cfg) = Some p" "s_defaultPool s = Some p" "s_pools s = ps2"
      by (auto simp: pick_default_def GetPool_def split: option.splits)
    have "(sc_Default cfg, p) \<in> set (s_pools s)" using p by (simp add: map_of_SomeD)
    with all p False show ?thesis by auto
  qed
  with all show ?thesis by (simp add: s rs1(2) rs2(2) sorted_entries_fst)
qed

theorem storage_New_pools_witness:
  "\<exists>s w'. storage_New None (\<lambda>h. Ok (h, [])) (mem_conn False)
      \<lparr>sc_Default = [], sc_Directory = [(''local'', \<lparr>dir_Path = ''/var/lib/virt''\<rparr>)], sc_Ceph = []\<rparr> Map.empty = (Ok s, w')
    \<and> (\<exists>p. s_defaultPool s = Some p \<and> p_name p = ''local'')"
proof -
  let ?cfg = "\<lparr>sc_Default = [], sc_Directory = [(''local'', \<lparr>dir_Path = ''/var/lib/virt''\<rparr>)], sc_Ceph = []\<rparr>"
  have "\<exists>s w'. storage_New None (\<lambda>h. Ok (h, [])) (mem_conn False) ?cfg Map.empty = (Ok s, w')"
    by (simp add: storage_New_def add_pools_def sorted_entries_def newDirectoryPool_def find_pool_def mem_conn_def
        io_simps put_pool_def pick_default_def)
  then obtain s w' where run: "storage_New None (\<lambda>h. Ok (h, [])) (mem_conn False) ?cfg Map.empty = (Ok s, w')" by blast
  have "distinct (map fst (sc_Directory ?cfg) @ map fst (sc_Ceph ?cfg))" by simp
  from storage_New_pools [OF run this] run show ?thesis by auto
qed

end
