(* ===== verification/Host.thy ===== *)
theory Host
  imports Prelude
begin

text \<open>
  The host of the driver: Go's \<open>path/filepath\<close> on Unix as far as the driver uses it, the calls on
  files, and \<^verbatim>\<open>storage/image_tools/qemu.go\<close>, which runs \<open>qemu-img\<close> on image files.
  The file system, the random name of a temporary file and the \<open>qemu-img\<close> program are parameters.
\<close>

section \<open>Paths\<close>

definition IsAbs :: "string \<Rightarrow> bool" where
  "IsAbs p = has_prefix ''/'' p"

text \<open>The elements of a cleaned path, from those read so far, in reverse, and those to read.\<close>

fun clean_parts :: "bool \<Rightarrow> string list \<Rightarrow> string list \<Rightarrow> string list" where
  "clean_parts rooted out [] = rev out"
| "clean_parts rooted out (p # ps) =
     (if p = [] \<or> p = ''.'' then clean_parts rooted out ps
      else if p = ''..'' then
        (case out of
           [] \<Rightarrow> clean_parts rooted (if rooted then [] else [''..'']) ps
         | q # qs \<Rightarrow> clean_parts rooted (if q = ''..'' then ''..'' # out else qs) ps)
      else clean_parts rooted (p # out) ps)"

definition Clean :: "string \<Rightarrow> string" where
  "Clean p =
     (let body = join ''/'' (clean_parts (IsAbs p) [] (split_on CHR ''/'' p))
      in if IsAbs p then ''/'' @ body else if body = [] then ''.'' else body)"

definition Join :: "string list \<Rightarrow> string" where
  "Join elems = (case filter (\<lambda>e. e \<noteq> []) elems of [] \<Rightarrow> [] | es \<Rightarrow> Clean (join ''/'' es))"

text \<open>The last element, and the rest: \<open>filepath.Base\<close> and \<open>filepath.Dir\<close>.\<close>

definition strip_slashes :: "string \<Rightarrow> string" where
  "strip_slashes p = rev (dropWhile (\<lambda>c. c = CHR ''/'') (rev p))"

definition Base :: "string \<Rightarrow> string" where
  "Base p = (if p = [] then ''.'' else
     (let b = rev (takeWhile (\<lambda>c. c \<noteq> CHR ''/'') (rev (strip_slashes p))) in if b = [] then ''/'' else b))"

definition Dir :: "string \<Rightarrow> string" where
  "Dir p = Clean (rev (dropWhile (\<lambda>c. c \<noteq> CHR ''/'') (rev p)))"

text \<open>\<open>filepath.IsLocal\<close>: a path that stays below the directory it is evaluated in.\<close>

definition IsLocal :: "string \<Rightarrow> bool" where
  "IsLocal p = (\<not> IsAbs p \<and> p \<noteq> [] \<and> Clean p \<noteq> ''..'' \<and> \<not> has_prefix ''../'' (Clean p))"

text \<open>The text of a path with its separator at the end.\<close>

definition with_slash :: "string \<Rightarrow> string" where
  "with_slash dir = (if \<not> has_suffix ''/'' dir then dir @ ''/'' else dir)"

text \<open>\<open>strings.EqualFold\<close> on ASCII letters; other bytes are compared as they are.\<close>

definition EqualFold :: "string \<Rightarrow> string \<Rightarrow> bool" where
  "EqualFold s t = (to_lower s = to_lower t)"

lemma clean_parts_keeps:
  assumes "\<forall>p \<in> set ps. p \<noteq> [] \<and> p \<noteq> ''.'' \<and> p \<noteq> ''..''"
  shows "clean_parts rooted out ps = rev out @ ps"
  using assms by (induction ps arbitrary: out) auto

lemma clean_parts_rooted:
  assumes "\<forall>p \<in> set out. p \<noteq> ''..'' \<and> p \<noteq> [] \<and> p \<noteq> ''.''" and "x \<in> set (clean_parts True out ps)"
  shows "x \<noteq> ''..'' \<and> x \<noteq> [] \<and> x \<noteq> ''.'' \<and> (x \<in> set out \<or> x \<in> set ps)"
  using assms
proof (induction True out ps rule: clean_parts.induct)
  case (2 out p ps)
  then show ?case by (auto split: if_splits list.splits)
qed auto

text \<open>A rooted path, cleaned, has no parent references left, so cleaning it again changes nothing.\<close>

lemma Clean_rooted_idem:
  assumes "IsAbs p"
  shows "Clean (Clean p) = Clean p"
proof -
  let ?ps = "clean_parts True [] (split_on CHR ''/'' p)"
  have ps: "\<forall>x \<in> set ?ps. x \<noteq> [] \<and> x \<noteq> ''.'' \<and> x \<noteq> ''..''"
    using clean_parts_rooted [of "[]"] by force
  have sep: "CHR ''/'' \<notin> set x" if "x \<in> set ?ps" for x
    using clean_parts_rooted [of "[]", OF _ that] by (auto dest: split_on_no_sep)
  have c: "Clean p = ''/'' @ join ''/'' ?ps" using assms by (simp add: Clean_def Let_def)
  have "split_on CHR ''/'' (''/'' @ join ''/'' ?ps) = [] # (if ?ps = [] then [[]] else ?ps)"
    using split_on_join [OF _ sep] by auto
  then have "clean_parts True [] (split_on CHR ''/'' (''/'' @ join ''/'' ?ps)) = ?ps"
    using clean_parts_keeps [OF ps, of True "[]"] by (cases "?ps = []") auto
  then show ?thesis by (simp add: c Clean_def [of "CHR ''/'' # _"] IsAbs_def has_prefix_def)
qed

section \<open>Files\<close>

text \<open>
  The calls on files. \<open>h_Stat\<close> says of a path whether it is a directory and its size;
  \<open>h_RootStat\<close> is the stat of a path confined to a directory opened as a root; \<open>h_sha256\<close> is the
  checksum of a file's content in hexadecimal; \<open>h_CopyTo\<close> copies a file into an opened device.
  \<open>h_qemu\<close> runs \<open>qemu-img\<close> and gives what it printed, and \<open>h_json\<close> reads a field of that output.
\<close>

record 'w host =
  h_Stat :: "string \<Rightarrow> ('w, bool \<times> nat) io"
  h_Getwd :: "('w, string) io"
  h_OpenRoot :: "string \<Rightarrow> ('w, unit) io"
  h_RootStat :: "string \<Rightarrow> string \<Rightarrow> ('w, bool) io"
  h_sha256 :: "string \<Rightarrow> ('w, string) io"
  h_CreateTemp :: "string \<Rightarrow> string \<Rightarrow> ('w, string) io"
  h_Remove :: "string \<Rightarrow> ('w, unit) io"
  h_RemoveAll :: "string \<Rightarrow> ('w, unit) io"
  h_Open :: "string \<Rightarrow> ('w, unit) io"
  h_OpenWrite :: "string \<Rightarrow> ('w, unit) io"
  h_CopyTo :: "string \<Rightarrow> string \<Rightarrow> ('w, unit) io"
  h_MkdirAll :: "string \<Rightarrow> ('w, unit) io"
  h_qemu :: "string list \<Rightarrow> ('w, string) io"
  h_json_str :: "string \<Rightarrow> string \<Rightarrow> string res"
  h_json_num :: "string \<Rightarrow> string \<Rightarrow> nat res"

definition Abs :: "'w host \<Rightarrow> string \<Rightarrow> ('w, string) io" where
  "Abs h p = (if IsAbs p then ret (Clean p) else iobind (h_Getwd h) (\<lambda>wd. ret (Join [wd, p])))"

definition fileExists :: "'w host \<Rightarrow> string \<Rightarrow> ('w, bool) io" where
  "fileExists h path = iotry (h_Stat h path) (\<lambda>(isdir, size). ret (\<not> isdir)) (\<lambda>e. ret False)"

section \<open>Images\<close>

definition ErrNoMemory :: goerr where
  "ErrNoMemory = ErrNew ''invalid memory assignation''"

text \<open>
  What \<open>qemu-img info\<close> printed, with its fields read by \<open>rd\<close>; an output that is not JSON is an
  error that names the path.
\<close>

definition getImageInfo :: "'w host \<Rightarrow> string \<Rightarrow> (string \<Rightarrow> 'a res) \<Rightarrow> ('w, 'a) io" where
  "getImageInfo h path rd =
     iobind (h_qemu h [''qemu-img'', ''info'', ''--output=json'', path]) (\<lambda>out.
       iowrap (''qemu-img: unable read info response '' @ path @ '': '') [] (lift (rd out)))"

definition GetImageFormat :: "'w host \<Rightarrow> string \<Rightarrow> ('w, string) io" where
  "GetImageFormat h path = getImageInfo h path (h_json_str h ''format'')"

definition GetImageSize :: "'w host \<Rightarrow> string \<Rightarrow> ('w, nat) io" where
  "GetImageSize h path = getImageInfo h path (\<lambda>out.
     rbind (h_json_num h ''virtual-size'' out) (\<lambda>virt.
     rbind (h_json_num h ''actual-size'' out) (\<lambda>actual. Ok (max actual virt))))"

definition ConvertImage :: "'w host \<Rightarrow> string \<Rightarrow> string \<Rightarrow> string \<Rightarrow> string \<Rightarrow> ('w, unit) io" where
  "ConvertImage h src srcFmt dst dstFmt =
     iobind (if srcFmt = [] then GetImageFormat h src else ret srcFmt) (\<lambda>srcFmt.
     iobind (h_qemu h [''qemu-img'', ''convert'', ''-f'', srcFmt, ''-O'', dstFmt, src, dst]) (\<lambda>_. ret ()))"

definition CreateCopy :: "'w host \<Rightarrow> string \<Rightarrow> string \<Rightarrow> int \<Rightarrow> ('w, unit) io" where
  "CreateCopy h src dst sizeM =
     iobind (h_MkdirAll h (Base dst)) (\<lambda>_.
     if sizeM \<le> 0 then throw (wrapf ''qemu-img: '' ErrNoMemory [])
     else
       iobind (h_qemu h [''qemu-img'', ''create'', ''-F'', ''qcow2'', dst, itoa sizeM @ ''M'']) (\<lambda>_.
       iobind (h_qemu h [''qemu-img'', ''dd'', ''if='' @ src, ''of='' @ dst]) (\<lambda>_. ret ())))"

definition CreateChainedCopy :: "'w host \<Rightarrow> string \<Rightarrow> string \<Rightarrow> int \<Rightarrow> ('w, unit) io" where
  "CreateChainedCopy h src dst sizeM =
     (if sizeM \<le> 0 then throw (wrapf ''qemu-img: '' ErrNoMemory [])
      else iobind (h_qemu h [''qemu-img'', ''create'', ''-b'', src, ''-f'', ''qcow2'', ''-F'', ''qcow2'',
        dst, itoa sizeM @ ''M'']) (\<lambda>_. ret ()))"

end
