(* ===== verification/Disks.thy ===== *)
theory Disks
  imports Storage Convert Errs Host
begin

text \<open>
  \<^verbatim>\<open>virt/disks/config.go\<close> and the disk validation of the pools: the disks of a task, from the
  decoded configuration to the volumes of the virtual machine. A list of disks is the Go slice of
  pointers; the operations that write through the pointers return the list as they leave it (when
  they fail the driver drops the disks, and so does the model). Nil and the empty slice behave
  alike, and the disks of a slice are distinct objects.
\<close>

section \<open>Data\<close>

definition ErrDisallowedPath :: goerr where
  "ErrDisallowedPath = wrapf [] ErrInvalidConfiguration '': access to path is not allowed''"

definition ErrPathNotFound :: goerr where
  "ErrPathNotFound = wrapf [] ErrInvalidConfiguration '': path not found''"

definition ErrNoPrimary :: goerr where
  "ErrNoPrimary = wrapf [] ErrInvalidConfiguration '': no primary disk defined''"

definition ErrMultiplePrimary :: goerr where
  "ErrMultiplePrimary = wrapf [] ErrInvalidConfiguration '': multiple primary disks defined''"

definition invalid_conf :: "string \<Rightarrow> goerr" where
  "invalid_conf s = wrapf [] ErrInvalidConfiguration ('': '' @ s)"

definition BusTypeDefault :: string where "BusTypeDefault = ''virtio''"
definition DiskKindDefault :: string where "DiskKindDefault = ''disk''"
definition identifierPrefix :: string where "identifierPrefix = ''nmdsrc''"

record DiskSource =
  ds_Image :: string
  ds_Format :: string
  ds_Volume :: string
  ds_identifier :: string

record Disk =
  d_Devname :: string
  d_Driver :: string
  d_Kind :: string
  d_BusType :: string
  d_Primary :: bool
  d_VolumeName :: string
  d_Format :: string
  d_Size :: string
  d_Chained :: bool
  d_Sparse :: "bool option"
  d_ReadOnly :: bool
  d_Source :: "DiskSource option"
  d_Pool :: string
  d_Volume :: "Volume option"
  d_blockDevicePath :: string

definition zero_source :: DiskSource where
  "zero_source = \<lparr>ds_Image = [], ds_Format = [], ds_Volume = [], ds_identifier = []\<rparr>"

definition zero_disk :: Disk where
  "zero_disk = \<lparr>d_Devname = [], d_Driver = [], d_Kind = [], d_BusType = [], d_Primary = False,
     d_VolumeName = [], d_Format = [], d_Size = [], d_Chained = False, d_Sparse = None,
     d_ReadOnly = False, d_Source = None, d_Pool = [], d_Volume = None, d_blockDevicePath = []\<rparr>"

text \<open>A mount of the task; the disks read these fields of it.\<close>

record MountConfig =
  mc_TaskPath :: string
  mc_HostPath :: string
  mc_Readonly :: bool

definition Source_Equal :: "DiskSource option \<Rightarrow> DiskSource option \<Rightarrow> bool" where
  "Source_Equal s rhs = (case (s, rhs) of
     (None, None) \<Rightarrow> True | (Some a, Some b) \<Rightarrow> a = b | _ \<Rightarrow> False)"

definition IsNomadVolume :: "Disk \<Rightarrow> bool" where
  "IsNomadVolume d = (d_VolumeName d \<noteq> [])"

section \<open>Allowed paths\<close>

text \<open>The loop over the allowed directories: the first one that has the path decides.\<close>

fun allowed_in :: "'w host \<Rightarrow> string list \<Rightarrow> string \<Rightarrow> ('w, bool) io" where
  "allowed_in h [] path = ret False"
| "allowed_in h (dir0 # dirs) path =
     iotry (h_OpenRoot h dir0)
       (\<lambda>_. let dir = with_slash dir0 in
          if length dir > length path then allowed_in h dirs path
          else if \<not> EqualFold dir (take (length dir) path) then allowed_in h dirs path
          else iotry (h_RootStat h dir0 (drop (length dir) path))
                 (\<lambda>isdir. ret (\<not> isdir)) (\<lambda>e. allowed_in h dirs path))
       (\<lambda>e. allowed_in h dirs path)"

definition AllowedPath :: "'w host \<Rightarrow> string list \<Rightarrow> string \<Rightarrow> ('w, bool) io" where
  "AllowedPath h allowedPaths path =
     (if IsAbs path then allowed_in h allowedPaths path
      else iotry (Abs h path) (\<lambda>path. allowed_in h allowedPaths path) (\<lambda>e. ret False))"

section \<open>Building the list of disks\<close>

definition ValidateNomadVolume :: "Disk \<Rightarrow> goerr option" where
  "ValidateNomadVolume d =
     (if \<not> IsNomadVolume d then None
      else err_or_nil (mappends []
        [err_when (d_Format d \<noteq> [] \<and> d_Format d \<noteq> ''raw'')
           (invalid_conf ''format cannot be set when using Nomad volume''),
         err_when (d_Size d \<noteq> []) (invalid_conf ''size cannot be set when using Nomad volume''),
         err_when (d_Sparse d \<noteq> None) (invalid_conf ''sparse cannot be set when using Nomad volume''),
         err_when (d_Pool d \<noteq> []) (invalid_conf ''pool cannot be set when using Nomad volume''),
         err_when (d_Chained d) (invalid_conf ''chained cannot be set when using Nomad volume''),
         err_when (case d_Source d of None \<Rightarrow> False | Some s \<Rightarrow> ds_Volume s \<noteq> [])
           (invalid_conf ''source.volume cannot be set when using Nomad volume''),
         err_when (d_blockDevicePath d = []) (invalid_conf ''missing Nomad volume mount configuration'')]))"

definition cloudinit_disk :: "string \<Rightarrow> Disk" where
  "cloudinit_disk isoPath = zero_disk\<lparr>d_BusType := ''scsi'', d_Kind := ''cdrom'', d_Format := ''raw'',
     d_Source := Some (zero_source\<lparr>ds_Format := ''raw'', ds_Image := isoPath\<rparr>), d_ReadOnly := True\<rparr>"

definition ApplyCloudInit :: "Disk list \<Rightarrow> string \<Rightarrow> Disk list" where
  "ApplyCloudInit d isoPath = d @ [cloudinit_disk isoPath]"

definition compat_disk :: "string \<Rightarrow> int \<Rightarrow> bool \<Rightarrow> Disk" where
  "compat_disk img sizeM thinCopy = zero_disk\<lparr>d_BusType := ''virtio'', d_Primary := True,
     d_Source := Some (zero_source\<lparr>ds_Image := img\<rparr>), d_Size := itoa sizeM @ ''MiB'',
     d_Chained := thinCopy, d_Format := (if thinCopy then ''qcow2'' else [])\<rparr>"

definition CompatAddImage :: "Disk list \<Rightarrow> string \<Rightarrow> int \<Rightarrow> bool \<Rightarrow> Disk list" where
  "CompatAddImage d img sizeM thinCopy = d @ [compat_disk img sizeM thinCopy]"

text \<open>
  Resolving an image: every directory is tried, also after a match, so a later directory joins the
  path the earlier one gave.
\<close>

fun resolve_image :: "'w host \<Rightarrow> string list \<Rightarrow> string \<Rightarrow> ('w, string) io" where
  "resolve_image h [] img = ret img"
| "resolve_image h (dir # dirs) img =
     (if dir = [] then resolve_image h dirs img
      else let testPath = Join [dir, img] in
        iobind (fileExists h testPath) (\<lambda>e.
          resolve_image h dirs (if e then testPath else img)))"

definition resolve_disk :: "'w host \<Rightarrow> string list \<Rightarrow> Disk \<Rightarrow> ('w, Disk) io" where
  "resolve_disk h dirs disk = (case d_Source disk of
     None \<Rightarrow> ret disk
   | Some src \<Rightarrow>
       if ds_Image src = [] then ret disk
       else iobind (fileExists h (ds_Image src)) (\<lambda>e.
         if e \<or> \<not> IsLocal (ds_Image src) then ret disk
         else iobind (resolve_image h dirs (ds_Image src)) (\<lambda>img.
           ret (disk\<lparr>d_Source := Some (src\<lparr>ds_Image := img\<rparr>)\<rparr>))))"

fun ResolveImages :: "'w host \<Rightarrow> string list \<Rightarrow> Disk list \<Rightarrow> ('w, Disk list) io" where
  "ResolveImages h dirs [] = ret []"
| "ResolveImages h dirs (disk # ds) =
     iobind (resolve_disk h dirs disk) (\<lambda>disk'.
     iobind (ResolveImages h dirs ds) (\<lambda>ds'. ret (disk' # ds')))"

text \<open>
  The mounts of block devices by task path. A mount configuration is a pointer, which here is its
  position among the mounts; of two mounts with the same path the later one is found.
\<close>

definition device_mounts :: "MountConfig list \<Rightarrow> string \<rightharpoonup> nat \<times> MountConfig" where
  "device_mounts mounts =
     foldl (\<lambda>mnts (i, m). if has_prefix ''/dev/'' (mc_TaskPath m) then mnts(mc_TaskPath m \<mapsto> (i, m)) else mnts)
       Map.empty (enumerate 0 mounts)"

definition apply_mount :: "(string \<rightharpoonup> nat \<times> MountConfig) \<Rightarrow> Disk \<Rightarrow> Disk" where
  "apply_mount mnts disk =
     (if \<not> IsNomadVolume disk then disk
      else (case mnts (d_VolumeName disk) of
        None \<Rightarrow> disk
      | Some (i, m) \<Rightarrow> disk\<lparr>d_blockDevicePath := mc_HostPath m, d_ReadOnly := mc_Readonly m,
            d_Format := ''raw'',
            d_Devname := (if d_Devname disk = [] then Base (mc_TaskPath m) else d_Devname disk)\<rparr>))"

definition used_mounts :: "(string \<rightharpoonup> nat \<times> MountConfig) \<Rightarrow> Disk list \<Rightarrow> nat list" where
  "used_mounts mnts ds = concat (map (\<lambda>disk. if \<not> IsNomadVolume disk then []
     else (case mnts (d_VolumeName disk) of None \<Rightarrow> [] | Some (i, m) \<Rightarrow> [i])) ds)"

definition ApplyMounts :: "Disk list \<Rightarrow> MountConfig list \<Rightarrow> Disk list \<times> MountConfig list" where
  "ApplyMounts ds mounts = (let mnts = device_mounts mounts; used = used_mounts mnts ds in
     (map (apply_mount mnts) ds,
      map snd (filter (\<lambda>(i, m). i \<notin> set used) (enumerate 0 mounts))))"

section \<open>Preparing the disks\<close>

definition generateDevname :: "Disk list \<Rightarrow> Disk \<Rightarrow> string" where
  "generateDevname d disk =
     GenerateDeviceName (d_BusType disk) (filter (\<lambda>n. n \<noteq> []) (map d_Devname d))"

definition generateIdentifier :: "'w host \<Rightarrow> string \<Rightarrow> string \<Rightarrow> ('w, string) io" where
  "generateIdentifier h path format = iobind (h_sha256 h path) (\<lambda>sum.
     ret (identifierPrefix @ ''-'' @ format @ ''-'' @ sum @ ''.img''))"

definition convertImage :: "'w host \<Rightarrow> string \<Rightarrow> string \<Rightarrow> string \<Rightarrow> ('w, string) io" where
  "convertImage h src srcFmt dstFmt =
     iobind (h_CreateTemp h (Dir src) (Base src @ ''-*.'' @ dstFmt)) (\<lambda>f.
     iobind (ConvertImage h src srcFmt f dstFmt) (\<lambda>_. ret f))"

text \<open>Driver, kind and bus of a disk where they are not set.\<close>

definition default_attrs :: "Disk \<Rightarrow> Disk" where
  "default_attrs disk =
     (let disk = (if d_Driver disk = [] then disk\<lparr>d_Driver := DefaultDiskDriver\<rparr> else disk);
          disk = (if d_Kind disk = [] then disk\<lparr>d_Kind := DiskKindDefault\<rparr> else disk)
      in if d_BusType disk = []
         then disk\<lparr>d_BusType := (if d_Kind disk = ''cdrom'' then ''ide'' else BusTypeDefault)\<rparr>
         else disk)"

text \<open>The name is generated from the names of all the disks, those after this one included.\<close>

definition default_devname :: "Disk list \<Rightarrow> Disk \<Rightarrow> Disk list \<Rightarrow> Disk" where
  "default_devname before disk behind =
     (if d_Devname disk = []
      then disk\<lparr>d_Devname := generateDevname (before @ disk # behind) disk\<rparr> else disk)"

definition source_format :: "'w host \<Rightarrow> Disk \<Rightarrow> ('w, Disk) io" where
  "source_format h disk = (case d_Source disk of
     None \<Rightarrow> ret disk
   | Some src \<Rightarrow>
       if ds_Image src \<noteq> [] \<and> ds_Format src = []
       then iobind (GetImageFormat h (ds_Image src)) (\<lambda>sfmt.
         ret (disk\<lparr>d_Source := Some (src\<lparr>ds_Format := sfmt\<rparr>)\<rparr>))
       else ret disk)"

definition disk_pool :: "'w storage \<Rightarrow> Disk \<Rightarrow> 'w pool res" where
  "disk_pool s disk = (if d_Pool disk \<noteq> [] then GetPool s (d_Pool disk) else DefaultPool s)"

definition default_disk_format :: "'w pool \<Rightarrow> Disk \<Rightarrow> Disk" where
  "default_disk_format pool disk =
     (if d_Format disk = [] then disk\<lparr>d_Format := DefaultImageFormat pool\<rparr> else disk)"

text \<open>
  The parent volume of a chained disk: found by its identifier, or created from the image, converted
  first when its format differs. The result also has the converted file, which is removed when
  \<open>Prepare\<close> returns (the deferred call).
\<close>

definition parent_options :: "string \<Rightarrow> string \<Rightarrow> nat \<Rightarrow> Options" where
  "parent_options img format sz = \<lparr>op_Chained = False, op_Sparse = True, op_Size = sz,
     op_Source = \<lparr>so_Path = img, so_Volume = []\<rparr>, op_TargetFormat = format\<rparr>"

definition source_identifier :: "'w host \<Rightarrow> DiskSource \<Rightarrow> string \<Rightarrow> ('w, string) io" where
  "source_identifier h src format = (if ds_identifier src = []
     then generateIdentifier h (ds_Image src) format else ret (ds_identifier src))"

text \<open>
  Deferred removals: a computation may register files (a list, the last one first) that are removed
  when the function returns, whatever it returns.
\<close>

type_synonym ('w, 'a) dio = "('w \<times> string list, 'a) io"

definition now :: "('w, 'a) io \<Rightarrow> ('w, 'a) dio" where
  "now m = (\<lambda>(w, ds). case m w of (r, w') \<Rightarrow> (r, (w', ds)))"

definition defer_remove :: "string \<Rightarrow> ('w, unit) dio" where
  "defer_remove f = (\<lambda>(w, ds). (Ok (), (w, f # ds)))"

fun run_deferred :: "'w host \<Rightarrow> string list \<Rightarrow> 'w \<Rightarrow> 'w" where
  "run_deferred h [] w = w"
| "run_deferred h (f # fs) w = run_deferred h fs (snd (h_Remove h f w))"

definition with_deferred :: "'w host \<Rightarrow> ('w, 'a) dio \<Rightarrow> ('w, 'a) io" where
  "with_deferred h m = (\<lambda>w. case m (w, []) of (r, (w', fs)) \<Rightarrow> (r, run_deferred h fs w'))"

definition create_parent :: "'w host \<Rightarrow> 'w pool \<Rightarrow> string \<Rightarrow> DiskSource \<Rightarrow> string \<Rightarrow> ('w, Volume) dio" where
  "create_parent h pool ident src format =
     iobind (if ds_Format src \<noteq> format
             then iobind (now (convertImage h (ds_Image src) (ds_Format src) format)) (\<lambda>f.
                  iobind (defer_remove f) (\<lambda>_. ret f))
             else ret (ds_Image src)) (\<lambda>img.
     iobind (now (GetImageSize h img)) (\<lambda>size.
     now (AddVolume pool ident (parent_options img format size))))"

definition parent_volume :: "'w host \<Rightarrow> 'w pool \<Rightarrow> string \<Rightarrow> DiskSource \<Rightarrow> string \<Rightarrow> ('w, Volume) dio" where
  "parent_volume h pool ident src format =
     iotry (now (GetVolume pool ident)) ret
       (\<lambda>e. if \<not> is_err ErrNotFound e then throw e else create_parent h pool ident src format)"

definition prepare_chained :: "'w host \<Rightarrow> 'w pool \<Rightarrow> Disk \<Rightarrow> DiskSource \<Rightarrow> ('w, Disk) dio" where
  "prepare_chained h pool disk src =
     iobind (now (source_identifier h src (d_Format disk))) (\<lambda>ident.
     iobind (parent_volume h pool ident src (d_Format disk)) (\<lambda>vol.
     ret (disk\<lparr>d_Source := Some (src\<lparr>ds_identifier := ident, ds_Volume := v_Name vol, ds_Image := []\<rparr>),
       d_Size := (if d_Size disk = [] then dec (v_Size vol) else d_Size disk)\<rparr>)))"

definition prepare_source :: "'w host \<Rightarrow> 'w pool \<Rightarrow> Disk \<Rightarrow> ('w, Disk) dio" where
  "prepare_source h pool disk = (case d_Source disk of
     None \<Rightarrow> ret disk
   | Some src \<Rightarrow>
       if ds_Image src = [] then ret disk
       else if d_Chained disk then prepare_chained h pool disk src
       else if d_Format disk \<noteq> ds_Format src then
         iobind (now (convertImage h (ds_Image src) (ds_Format src) (d_Format disk))) (\<lambda>dst.
           ret (disk\<lparr>d_Source := Some (src\<lparr>ds_Image := dst, ds_Format := d_Format disk\<rparr>)\<rparr>))
       else ret disk)"

text \<open>The size of a disk from its source; an image whose size cannot be read leaves it unset.\<close>

definition image_size :: "'w host \<Rightarrow> string \<Rightarrow> string \<Rightarrow> ('w, string) io" where
  "image_size h img dflt = (if img \<noteq> []
     then iotry (GetImageSize h img) (\<lambda>n. ret (dec n)) (\<lambda>e. ret dflt) else ret dflt)"

definition prepare_size :: "'w host \<Rightarrow> 'w pool \<Rightarrow> Disk \<Rightarrow> ('w, Disk) io" where
  "prepare_size h pool disk = (case d_Source disk of
     None \<Rightarrow> ret disk
   | Some src \<Rightarrow>
       if d_Size disk \<noteq> [] then ret disk
       else
         iobind (image_size h (ds_Image src) []) (\<lambda>size.
         if ds_Volume src \<noteq> []
         then iobind (GetVolume pool (ds_Volume src)) (\<lambda>vol. ret (disk\<lparr>d_Size := dec (v_Size vol)\<rparr>))
         else ret (disk\<lparr>d_Size := size\<rparr>)))"

definition prepare_disk :: "'w host \<Rightarrow> 'w storage \<Rightarrow> Disk list \<Rightarrow> Disk \<Rightarrow> Disk list \<Rightarrow> ('w, Disk) dio" where
  "prepare_disk h s before disk0 behind =
     iobind (now (source_format h (default_devname before (default_attrs disk0) behind))) (\<lambda>disk.
     if IsNomadVolume disk then ret disk
     else
       iobind (lift (disk_pool s disk)) (\<lambda>pool.
       iobind (prepare_source h pool (default_disk_format pool disk)) (\<lambda>disk.
       now (prepare_size h pool disk))))"

fun prepare_loop :: "'w host \<Rightarrow> 'w storage \<Rightarrow> Disk list \<Rightarrow> Disk list \<Rightarrow> ('w, Disk list) dio" where
  "prepare_loop h s before [] = ret before"
| "prepare_loop h s before (disk # behind) =
     iobind (prepare_disk h s before disk behind) (\<lambda>disk'. prepare_loop h s (before @ [disk']) behind)"

text \<open>The only disk that can be booted is the primary one when none is marked.\<close>

definition mark_primary :: "Disk list \<Rightarrow> Disk list" where
  "mark_primary ds =
     (if \<not> list_ex d_Primary ds \<and> length (filter (\<lambda>d. d_Kind d \<noteq> ''cdrom'') ds) = 1
      then map (\<lambda>d. if d_Kind d \<noteq> ''cdrom'' then d\<lparr>d_Primary := True\<rparr> else d) ds
      else ds)"

definition Prepare :: "'w host \<Rightarrow> 'w storage \<Rightarrow> Disk list \<Rightarrow> ('w, Disk list) io" where
  "Prepare h s d = with_deferred h (iobind (prepare_loop h s [] d) (\<lambda>ds. ret (mark_primary ds)))"

section \<open>Validation\<close>

text \<open>A multierror is prefixed error by error, where an error does not have the prefix already.\<close>

fun prefixError :: "string \<Rightarrow> goerr \<Rightarrow> goerr" where
  "prefixError prefix (MultiErr es) =
     MultiErr (foldl (\<lambda>mErr e. mappend mErr (Some (if \<not> contains_str prefix (err_text e)
        then wrapf (prefix @ '' '') e [] else e))) [] es)"
| "prefixError prefix e = wrapf (prefix @ '' '') e []"

definition directory_ValidateDisk :: "Disk \<Rightarrow> goerr option \<times> Disk" where
  "directory_ValidateDisk disk0 =
     (let disk = (if d_Sparse disk0 = None \<and> d_Format disk0 = ''qcow2''
                  then disk0\<lparr>d_Sparse := Some True\<rparr> else disk0)
      in (err_or_nil (mappends []
            [err_when (d_Format disk \<noteq> ''qcow2'' \<and> d_Format disk \<noteq> ''raw'')
               (invalid_conf ''format only supports raw or qcow2 for directory volumes''),
             err_when (d_Format disk \<noteq> ''qcow2'' \<and> d_Chained disk)
               (invalid_conf ''format must be qcow2 for chained directory volumes'')]), disk))"

definition ceph_ValidateDisk :: "Disk \<Rightarrow> goerr option \<times> Disk" where
  "ceph_ValidateDisk disk =
     (err_or_nil (mappends []
        [err_when (d_Format disk \<noteq> ''raw'') (invalid_conf ''format can only be raw for ceph volumes''),
         err_when (d_Sparse disk = Some False) (invalid_conf ''sparse cannot be disabled for ceph volumes'')]), disk)"

definition ValidateDisk :: "'w pool \<Rightarrow> Disk \<Rightarrow> goerr option \<times> Disk" where
  "ValidateDisk pool disk = (case p_kind pool of
     DirectoryPool \<Rightarrow> directory_ValidateDisk disk | CephPool \<Rightarrow> ceph_ValidateDisk disk)"

definition disk_prefix :: "nat \<Rightarrow> string" where
  "disk_prefix i = ''disk['' @ dec (i + 1) @ ''] -''"

definition missing :: "string \<Rightarrow> string \<Rightarrow> string \<Rightarrow> goerr option" where
  "missing pre attr val = MissingAttribute attr (AString val) [WithPrefix pre]"

definition prefixed :: "string \<Rightarrow> goerr \<Rightarrow> string \<Rightarrow> goerr" where
  "prefixed pre e post = wrapf (pre @ '' '') e post"

definition check_image :: "'w host \<Rightarrow> string list \<Rightarrow> string \<Rightarrow> Disk \<Rightarrow> ('w, goerr option list) io" where
  "check_image h allowed pre disk = (case d_Source disk of
     None \<Rightarrow> ret []
   | Some src \<Rightarrow>
       if ds_Image src = [] then ret []
       else iobind (fileExists h (ds_Image src)) (\<lambda>ex.
            iobind (AllowedPath h allowed (ds_Image src)) (\<lambda>ok.
            ret [err_when (\<not> ex) (prefixed pre ErrPathNotFound ('': '' @ ds_Image src)),
                 err_when (\<not> ok) (prefixed pre ErrDisallowedPath ('': '' @ ds_Image src)),
                 err_when (ds_Volume src \<noteq> []) (prefixed pre ErrInvalidConfiguration
                   '': source.volume and source.image are mutually exclusive''),
                 missing pre ''source.format'' (ds_Format src)])))"

definition check_plain :: "string \<Rightarrow> Disk \<Rightarrow> goerr option list" where
  "check_plain pre disk =
     [missing pre ''format'' (d_Format disk), missing pre ''size'' (d_Size disk),
      err_when (d_Size disk \<noteq> [] \<and> \<not> ValidBytesString (d_Size disk))
        (prefixed pre ErrInvalidConfiguration ('': size value is not valid - '' @ quoted (d_Size disk))),
      err_when (d_Chained disk \<and> (case d_Source disk of None \<Rightarrow> True
          | Some src \<Rightarrow> ds_Volume src = [] \<and> ds_Image src = []))
        (prefixed pre ErrInvalidConfiguration '': chained cannot be enabled without a source'')]"

text \<open>The size of the source, 0 when it cannot be determined.\<close>

definition source_size :: "'w host \<Rightarrow> 'w pool \<Rightarrow> string \<Rightarrow> DiskSource \<Rightarrow> ('w, goerr option \<times> nat) io" where
  "source_size h pool pre src =
     (if ds_Image src \<noteq> []
      then iotry (h_Stat h (ds_Image src)) (\<lambda>(isdir, size). ret (None, size))
        (\<lambda>e. ret (Some (Errorf (pre @ '' '' @ err_text ErrInvalidConfiguration
           @ '': unable to read source image to determine size: '' @ err_text e) [ErrInvalidConfiguration, e]), 0))
      else iotry (GetVolume pool (ds_Volume src)) (\<lambda>vol. ret (None, v_Size vol))
        (\<lambda>e. ret (Some (Errorf (pre @ '' '' @ err_text ErrInvalidConfiguration
           @ '': unable to load source volume to determine size: '' @ err_text e) [ErrInvalidConfiguration, e]), 0)))"

definition size_check :: "string \<Rightarrow> nat \<Rightarrow> string \<Rightarrow> goerr option res" where
  "size_check pre sz dsize =
     (if sz > 0 then rbind (MustToBytes dsize) (\<lambda>b. Ok (err_when (sz > unat b)
        (prefixed pre ErrInvalidConfiguration '': size of disk must be equal to or greater than source'')))
      else Ok None)"

definition check_source :: "'w host \<Rightarrow> 'w pool \<Rightarrow> string \<Rightarrow> Disk \<Rightarrow> ('w, goerr option list) io" where
  "check_source h pool pre disk = (case d_Source disk of
     None \<Rightarrow> ret []
   | Some src \<Rightarrow>
       if ds_Volume src = [] \<and> ds_Image src = [] then
         ret [Some (prefixed pre ErrInvalidConfiguration '': disk source must define an image or volume'')]
       else iobind (source_size h pool pre src) (\<lambda>(e, size).
            iobind (lift (size_check pre size (d_Size disk))) (\<lambda>e2. ret [e, e2])))"

definition check_pool :: "'w host \<Rightarrow> 'w storage \<Rightarrow> string \<Rightarrow> Disk \<Rightarrow> ('w, goerr option list \<times> Disk) io" where
  "check_pool h s pre disk =
     (case disk_pool s disk of
        Panic p \<Rightarrow> lift (Panic p)
      | Fail e \<Rightarrow> ret ([Some (wrapf (pre @ '' could not load storage pool - '') e [])], disk)
      | Ok pool \<Rightarrow>
          iobind (check_source h pool pre disk) (\<lambda>es.
          (case ValidateDisk pool disk of (e, disk') \<Rightarrow>
            ret (es @ [map_option (prefixError pre) e], disk'))))"

definition check_attrs :: "string \<Rightarrow> Disk \<Rightarrow> goerr option list" where
  "check_attrs pre disk = [missing pre ''bus_type'' (d_BusType disk), missing pre ''kind'' (d_Kind disk),
     missing pre ''devname'' (d_Devname disk)]"

text \<open>One turn of the loop of \<open>Validate\<close>: what it appends to the errors, and the disk it leaves.\<close>

definition validate_disk ::
  "'w host \<Rightarrow> 'w storage \<Rightarrow> string list \<Rightarrow> nat \<Rightarrow> Disk \<Rightarrow> ('w, goerr option list \<times> Disk) io" where
  "validate_disk h s allowed i disk = (let pre = disk_prefix i in
     iobind (check_image h allowed pre disk) (\<lambda>es.
     let es0 = check_attrs pre disk @ es in
     if IsNomadVolume disk
     then ret (es0 @ [map_option (prefixError pre) (ValidateNomadVolume disk)], disk)
     else iobind (check_pool h s pre disk) (\<lambda>(es', disk').
       ret (es0 @ check_plain pre disk @ es', disk'))))"

fun validate_loop ::
  "'w host \<Rightarrow> 'w storage \<Rightarrow> string list \<Rightarrow> nat \<Rightarrow> Disk list \<Rightarrow> goerr list \<Rightarrow> ('w, goerr list \<times> Disk list) io" where
  "validate_loop h s allowed i [] mErr = ret (mErr, [])"
| "validate_loop h s allowed i (disk # ds) mErr =
     iobind (validate_disk h s allowed i disk) (\<lambda>(es, disk').
     iobind (validate_loop h s allowed (i + 1) ds (mappends mErr es)) (\<lambda>(mErr', ds').
     ret (mErr', disk' # ds')))"

definition primary_error :: "Disk list \<Rightarrow> goerr option" where
  "primary_error ds =
     (let primaryIdx = map (\<lambda>(i, d). dec (i + 1)) (filter (\<lambda>(i, d). d_Primary d) (enumerate 0 ds)) in
      if primaryIdx = [] then Some ErrNoPrimary
      else if length primaryIdx > 1
      then Some (wrapf [] ErrMultiplePrimary ('' (disks: '' @ join '', '' primaryIdx @ '')''))
      else None)"

definition Validate :: "'w host \<Rightarrow> 'w storage \<Rightarrow> string list \<Rightarrow> Disk list \<Rightarrow> ('w, Disk list) io" where
  "Validate h s allowed d =
     iobind (validate_loop h s allowed 0 d []) (\<lambda>(mErr, ds).
       case err_or_nil (mappend mErr (primary_error d)) of None \<Rightarrow> ret ds | Some e \<Rightarrow> throw e)"

section \<open>Generating the volumes\<close>

definition writeNomadVolume :: "'w host \<Rightarrow> Disk \<Rightarrow> ('w, unit) io" where
  "writeNomadVolume h d =
     (if d_blockDevicePath d = [] then throw (ErrNew ''Disk is not backed by Nomad volume'')
      else (case d_Source d of
        None \<Rightarrow> ret ()
      | Some src \<Rightarrow>
          if ds_Image src = [] then ret ()
          else
            (let converts = (d_Format d \<noteq> ds_Format src);
                 img = (if converts then ds_Image src @ ''.raw'' else ds_Image src);
                 copy = iobind (h_Open h img) (\<lambda>_. iobind (h_OpenWrite h (d_blockDevicePath d)) (\<lambda>_.
                   h_CopyTo h (d_blockDevicePath d) img))
             in if \<not> converts then copy
                else iobind (ConvertImage h (ds_Image src) (ds_Format src) img (d_Format d)) (\<lambda>_ w.
                  case copy w of (r, w') \<Rightarrow> (r, snd (h_RemoveAll h img w'))))))"

definition volume_name :: "string \<Rightarrow> Disk \<Rightarrow> string" where
  "volume_name name disk = name @ ''_'' @ d_Devname disk @ ''.img''"

definition disk_options :: "Disk \<Rightarrow> Options res" where
  "disk_options disk = rbind (MustToBytes (d_Size disk)) (\<lambda>b.
     Ok \<lparr>op_Chained = d_Chained disk, op_Sparse = (d_Sparse disk = Some True), op_Size = unat b,
       op_Source = (case d_Source disk of None \<Rightarrow> \<lparr>so_Path = [], so_Volume = []\<rparr>
         | Some src \<Rightarrow> \<lparr>so_Path = ds_Image src, so_Volume = ds_Volume src\<rparr>),
       op_TargetFormat = d_Format disk\<rparr>)"

definition fill_volume :: "Disk \<Rightarrow> Volume \<Rightarrow> Volume" where
  "fill_volume disk vol = vol\<lparr>v_Format := d_Format disk, v_Kind := d_Kind disk, v_Driver := d_Driver disk,
     v_DeviceName := d_Devname disk, v_BusType := d_BusType disk, v_Primary := d_Primary disk\<rparr>"

definition generate_disk :: "'w host \<Rightarrow> string \<Rightarrow> 'w storage \<Rightarrow> Disk \<Rightarrow> ('w, Disk) io" where
  "generate_disk h name s disk =
     (if IsNomadVolume disk then
        iobind (writeNomadVolume h disk) (\<lambda>_.
          ret (disk\<lparr>d_Volume := Some (fill_volume disk
            (empty_volume\<lparr>v_Name := volume_name name disk, v_Format := d_Format disk,
               v_Block := d_blockDevicePath disk\<rparr>))\<rparr>))
      else
        iobind (lift (disk_pool s disk)) (\<lambda>pool.
          let disk = default_disk_format pool disk;
              disk = (if d_Sparse disk = None then disk\<lparr>d_Sparse := Some False\<rparr> else disk) in
          iobind (lift (disk_options disk)) (\<lambda>opts.
          iobind (AddVolume pool (volume_name name disk) opts) (\<lambda>vol.
          ret (disk\<lparr>d_Volume := Some (fill_volume disk vol)\<rparr>)))))"

fun Generate :: "'w host \<Rightarrow> string \<Rightarrow> 'w storage \<Rightarrow> Disk list \<Rightarrow> ('w, Disk list) io" where
  "Generate h name s [] = ret []"
| "Generate h name s (disk # ds) =
     iobind (generate_disk h name s disk) (\<lambda>disk'.
     iobind (Generate h name s ds) (\<lambda>ds'. ret (disk' # ds')))"

definition Volumes :: "Disk list \<Rightarrow> Volume list" where
  "Volumes d = List.map_filter d_Volume d"

definition Disks_Copy :: "Disk list \<Rightarrow> Disk list" where
  "Disks_Copy d = map (\<lambda>disk. disk\<lparr>d_Source := d_Source disk, d_Volume := d_Volume disk\<rparr>) d"

section \<open>Accepted disks\<close>

definition plain :: "goerr option \<Rightarrow> bool" where
  "plain r \<longleftrightarrow> (\<forall>xs. r \<noteq> Some (MultiErr xs))"

lemma plain_simps [simp]:
  "plain None" "plain (Some (wrapf p e q))" "plain (Some (invalid_conf m))" "plain (Some (prefixed p e q))"
  "plain (err_when c (wrapf p e q))" "plain (err_when c (invalid_conf m))" "plain (err_when c (prefixed p e q))"
  "plain (missing p a v)"
  by (auto simp: plain_def invalid_conf_def prefixed_def missing_def err_when_def)

lemma mappend_plain: "plain (Some e) \<Longrightarrow> mappend es (Some e) = es @ [e]"
  by (cases e) (auto simp: plain_def)

lemma mappends_plain:
  assumes "\<forall>r \<in> set rs. plain r"
  shows "mappends es rs = es @ List.map_filter id rs"
  using assms
proof (induction rs arbitrary: es)
  case (Cons r rs)
  then show ?case by (cases r) (auto simp: mappend_plain List.map_filter_def)
qed (simp add: List.map_filter_def)

lemma prefixError_plain:
  assumes "\<forall>e \<in> set es. plain (Some e)"
  shows "prefixError pre (MultiErr es) = MultiErr [] \<longleftrightarrow> es = []"
proof -
  define f where "f e = (if \<not> contains_str pre (err_text e) then wrapf (pre @ '' '') e [] else e)" for e
  have "foldl (\<lambda>mErr e. mappend mErr (Some (f e))) acc es = acc @ map f es" for acc
    using assms
  proof (induction es arbitrary: acc)
    case (Cons e es)
    have "mappend acc (Some (f e)) = acc @ [f e]" using Cons.prems by (intro mappend_plain) (auto simp: f_def)
    with Cons show ?case by simp
  qed simp
  then show ?thesis by (simp add: f_def)
qed

lemma prefixed_not_multi [simp]: "prefixed p e q \<noteq> MultiErr es" "MultiErr es \<noteq> prefixed p e q"
  by (simp_all add: prefixed_def)

text \<open>A list of checks that each give at most one error: prefixing its multierror loses nothing.\<close>

lemma prefixed_checks:
  assumes "\<forall>r \<in> set rs. plain r"
  shows "map_option (prefixError pre) (err_or_nil (mappends [] rs)) = None
      \<or> map_option (prefixError pre) (err_or_nil (mappends [] rs)) = Some (MultiErr [])
    \<longleftrightarrow> err_or_nil (mappends [] rs) = None"
proof -
  have "\<forall>e \<in> set (mappends [] rs). plain (Some e)"
    using assms by (auto simp: mappends_plain List.map_filter_def)
  from prefixError_plain [OF this] show ?thesis by (auto simp: err_or_nil_def)
qed

lemma ValidateNomadVolume_prefixed:
  "map_option (prefixError pre) (ValidateNomadVolume d) = None
      \<or> map_option (prefixError pre) (ValidateNomadVolume d) = Some (MultiErr [])
    \<longleftrightarrow> ValidateNomadVolume d = None"
  unfolding ValidateNomadVolume_def using prefixed_checks [of _ pre] by (simp del: mappends_simps)

lemma ValidateDisk_prefixed:
  "map_option (prefixError pre) (fst (ValidateDisk pool d)) = None
      \<or> map_option (prefixError pre) (fst (ValidateDisk pool d)) = Some (MultiErr [])
    \<longleftrightarrow> fst (ValidateDisk pool d) = None"
  unfolding ValidateDisk_def directory_ValidateDisk_def ceph_ValidateDisk_def
  using prefixed_checks [of _ pre] by (simp del: mappends_simps split: poolkind.split)

text \<open>What validation may change of a disk.\<close>

lemma ValidateDisk_disk:
  "snd (ValidateDisk pool d) = d \<or> snd (ValidateDisk pool d) = d\<lparr>d_Sparse := Some True\<rparr>"
  by (auto simp: ValidateDisk_def directory_ValidateDisk_def ceph_ValidateDisk_def Let_def split: poolkind.split)

text \<open>What is required of the image of an accepted disk, and of the disk itself.\<close>

definition image_accepted :: "'w host \<Rightarrow> string list \<Rightarrow> Disk \<Rightarrow> bool" where
  "image_accepted h allowed d \<longleftrightarrow> (\<forall>src. d_Source d = Some src \<longrightarrow> ds_Image src \<noteq> [] \<longrightarrow>
     (\<exists>w w'. fileExists h (ds_Image src) w = (Ok True, w'))
     \<and> (\<exists>w w'. AllowedPath h allowed (ds_Image src) w = (Ok True, w'))
     \<and> ds_Volume src = [] \<and> ds_Format src \<noteq> [])"

definition disk_accepted :: "'w storage \<Rightarrow> Disk \<Rightarrow> bool" where
  "disk_accepted s d \<longleftrightarrow> d_BusType d \<noteq> [] \<and> d_Kind d \<noteq> [] \<and> d_Devname d \<noteq> []
     \<and> (if IsNomadVolume d then ValidateNomadVolume d = None
        else d_Format d \<noteq> [] \<and> (\<exists>b. ToBytes (d_Size d) = Ok b)
          \<and> (\<exists>pool. disk_pool s d = Ok pool \<and> fst (ValidateDisk pool d) = None)
          \<and> (\<forall>src. d_Source d = Some src \<longrightarrow> ds_Image src \<noteq> [] \<or> ds_Volume src \<noteq> [])
          \<and> (d_Chained d \<longrightarrow> d_Source d \<noteq> None))"

lemma missing_None: "missing pre a v = None \<or> missing pre a v = Some (MultiErr []) \<longleftrightarrow> v \<noteq> []"
  by (auto simp: missing_def)

lemma none_or_empty:
  "err_when c (prefixed p e q) = None \<or> err_when c (prefixed p e q) = Some (MultiErr []) \<longleftrightarrow> \<not> c"
  by (auto simp: prefixed_def)

lemma check_image_ok:
  assumes "check_image h allowed pre d w = (Ok es, w')" and "\<forall>r \<in> set es. r = None \<or> r = Some (MultiErr [])"
  shows "image_accepted h allowed d"
  unfolding image_accepted_def
proof (intro allI impI)
  fix src assume src: "d_Source d = Some src" "ds_Image src \<noteq> []"
  with assms(1) obtain ex w1 ok where calls: "fileExists h (ds_Image src) w = (Ok ex, w1)"
    "AllowedPath h allowed (ds_Image src) w1 = (Ok ok, w')"
    and es: "es = [err_when (\<not> ex) (prefixed pre ErrPathNotFound ('': '' @ ds_Image src)),
                 err_when (\<not> ok) (prefixed pre ErrDisallowedPath ('': '' @ ds_Image src)),
                 err_when (ds_Volume src \<noteq> []) (prefixed pre ErrInvalidConfiguration
                   '': source.volume and source.image are mutually exclusive''),
                 missing pre ''source.format'' (ds_Format src)]"
    by (auto simp: check_image_def iobind_Ok ret_def)
  have "ex" "ok" "ds_Volume src = []" "ds_Format src \<noteq> []"
    using assms(2) unfolding es by (simp_all add: none_or_empty missing_None)
  with calls show "(\<exists>w w'. fileExists h (ds_Image src) w = (Ok True, w'))
     \<and> (\<exists>w w'. AllowedPath h allowed (ds_Image src) w = (Ok True, w'))
     \<and> ds_Volume src = [] \<and> ds_Format src \<noteq> []" by auto
qed

lemma check_source_ok:
  assumes "check_source h pool pre d w = (Ok es, w')" and "\<forall>r \<in> set es. r = None \<or> r = Some (MultiErr [])"
    and "d_Source d = Some src"
  shows "ds_Image src \<noteq> [] \<or> ds_Volume src \<noteq> []"
  using assms by (auto simp: check_source_def ret_def prefixed_def split: if_splits)

lemma check_plain_ok:
  assumes "\<forall>r \<in> set (check_plain pre d). r = None \<or> r = Some (MultiErr [])"
  shows "d_Format d \<noteq> []" "\<exists>b. ToBytes (d_Size d) = Ok b" "d_Chained d \<Longrightarrow> d_Source d \<noteq> None"
proof -
  have f: "d_Format d \<noteq> []" and v: "d_Size d \<noteq> []" "d_Size d \<noteq> [] \<longrightarrow> ValidBytesString (d_Size d)"
    and c: "d_Chained d \<longrightarrow> d_Source d \<noteq> None"
    using assms by (auto simp: check_plain_def missing_None none_or_empty split: option.splits)
  show "d_Format d \<noteq> []" by (rule f)
  show "\<exists>b. ToBytes (d_Size d) = Ok b" using v by (auto simp: ValidBytesString_def split: res.splits)
  show "d_Source d \<noteq> None" if "d_Chained d" using c that by blast
qed

lemma disk_pool_not_Panic [simp]: "disk_pool s d \<noteq> Panic p"
  by (auto simp: disk_pool_def GetPool_def DefaultPool_def split: option.splits)

lemma validate_disk_ok:
  assumes run: "validate_disk h s allowed i d w = (Ok (es, d'), w')"
    and none: "\<forall>r \<in> set es. r = None \<or> r = Some (MultiErr [])"
  shows "image_accepted h allowed d \<and> disk_accepted s d \<and> (d' = d \<or> d' = d\<lparr>d_Sparse := Some True\<rparr>)"
proof -
  let ?pre = "disk_prefix i"
  let ?attrs = "check_attrs ?pre d"
  from run obtain im w1 where img: "check_image h allowed ?pre d w = (Ok im, w1)"
    and rest: "(if IsNomadVolume d
       then ret ((?attrs @ im) @ [map_option (prefixError ?pre) (ValidateNomadVolume d)], d)
       else iobind (check_pool h s ?pre d) (\<lambda>(es', disk'). ret ((?attrs @ im) @ check_plain ?pre d @ es', disk')))
       w1 = (Ok (es, d'), w')"
    by (auto simp: validate_disk_def Let_def iobind_Ok)
  have "set ?attrs \<union> set im \<subseteq> set es" using rest by (auto simp: iobind_Ok ret_def split: if_splits prod.splits)
  then have attrs: "\<forall>r \<in> set ?attrs. r = None \<or> r = Some (MultiErr [])"
    and im: "\<forall>r \<in> set im. r = None \<or> r = Some (MultiErr [])" using none by blast+
  have base: "d_BusType d \<noteq> []" "d_Kind d \<noteq> []" "d_Devname d \<noteq> []" using attrs by (simp_all add: missing_None check_attrs_def)
  have image: "image_accepted h allowed d" by (rule check_image_ok [OF img im])
  show ?thesis
  proof (cases "IsNomadVolume d")
    case True
    then have "es = ?attrs @ im @ [map_option (prefixError ?pre) (ValidateNomadVolume d)]" "d' = d"
      using rest by (auto simp: ret_def)
    then have "map_option (prefixError ?pre) (ValidateNomadVolume d) \<in> set es" by simp
    with none have "ValidateNomadVolume d = None" unfolding ValidateNomadVolume_prefixed [symmetric, of d ?pre] by blast
    with True base image \<open>d' = d\<close> show ?thesis by (simp add: disk_accepted_def)
  next
    case False
    with rest obtain es' where pool: "check_pool h s ?pre d w1 = (Ok (es', d'), w')"
      and es: "es = ?attrs @ im @ check_plain ?pre d @ es'" by (auto simp: iobind_Ok ret_def)
    have cp: "\<forall>r \<in> set (check_plain ?pre d). r = None \<or> r = Some (MultiErr [])"
      and es': "\<forall>r \<in> set es'. r = None \<or> r = Some (MultiErr [])" using none es by auto
    from pool es' obtain p where p: "disk_pool s d = Ok p"
      by (auto simp: check_pool_def ret_def split: res.splits)
    with pool obtain cs where cs: "check_source h p ?pre d w1 = (Ok cs, w')"
      and e: "es' = cs @ [map_option (prefixError ?pre) (fst (ValidateDisk p d))]" "d' = snd (ValidateDisk p d)"
      by (cases "ValidateDisk p d") (auto simp: check_pool_def iobind_Ok ret_def)
    have cs0: "\<forall>r \<in> set cs. r = None \<or> r = Some (MultiErr [])" using es' e(1) by simp
    have "map_option (prefixError ?pre) (fst (ValidateDisk p d)) \<in> set es'" using e(1) by simp
    with es' have "fst (ValidateDisk p d) = None" unfolding ValidateDisk_prefixed [symmetric, of p d ?pre] by blast
    then show ?thesis
      using False base image p check_plain_ok [OF cp] check_source_ok [OF cs cs0] e(2) ValidateDisk_disk [of p d]
      by (auto simp: disk_accepted_def)
  qed
qed

lemma validate_loop_ok:
  assumes "validate_loop h s allowed i ds m w = (Ok ([], ds'), w')"
  shows "m = [] \<and> list_all2 (\<lambda>d d'. image_accepted h allowed d \<and> disk_accepted s d
    \<and> (d' = d \<or> d' = d\<lparr>d_Sparse := Some True\<rparr>)) ds ds'"
  using assms
proof (induction ds arbitrary: i m w ds')
  case Nil
  then show ?case by (simp add: ret_def)
next
  case (Cons d ds)
  from Cons.prems obtain es d' w1 ds'' where d: "validate_disk h s allowed i d w = (Ok (es, d'), w1)"
    and rest: "validate_loop h s allowed (i + 1) ds (mappends m es) w1 = (Ok ([], ds''), w')" "ds' = d' # ds''"
    by (auto simp: iobind_Ok ret_def)
  from Cons.IH [OF rest(1)] have m: "mappends m es = []" and l: "list_all2 (\<lambda>d d'. image_accepted h allowed d
    \<and> disk_accepted s d \<and> (d' = d \<or> d' = d\<lparr>d_Sparse := Some True\<rparr>)) ds ds''" by blast+
  from m have "m = []" and none: "\<forall>r \<in> set es. r = None \<or> r = Some (MultiErr [])"
    by (simp_all add: mappends_Nil)
  with validate_disk_ok [OF d none] l rest(2) show ?case by simp
qed

lemma primary_error_None: "primary_error ds = None \<longleftrightarrow> length (filter d_Primary ds) = 1"
proof -
  have "map snd (filter (\<lambda>(i, d). d_Primary d) (enumerate n ds)) = filter d_Primary ds" for n
    by (induction ds arbitrary: n) auto
  then have "length (filter (\<lambda>(i, d). d_Primary d) (enumerate 0 ds)) = length (filter d_Primary ds)"
    by (metis length_map)
  then show ?thesis
    by (cases "filter d_Primary ds") (auto simp: primary_error_def Let_def)
qed

lemma primary_error_plain: "primary_error ds \<noteq> Some (MultiErr xs)"
  by (simp add: primary_error_def Let_def ErrNoPrimary_def)

lemma Validate_ok:
  assumes "Validate h s allowed ds w = (Ok ds', w')"
  shows "length (filter d_Primary ds) = 1 \<and> list_all2 (\<lambda>d d'. image_accepted h allowed d \<and> disk_accepted s d
    \<and> (d' = d \<or> d' = d\<lparr>d_Sparse := Some True\<rparr>)) ds ds'"
proof -
  from assms obtain m where m: "validate_loop h s allowed 0 ds [] w = (Ok (m, ds'), w')"
    "mappend m (primary_error ds) = []"
    by (auto simp: Validate_def iobind_Ok ret_def throw_def split: option.splits)
  then have "m = []" "primary_error ds = None" using primary_error_plain by (auto simp del: mappend_Nil' simp: mappend_Nil)
  with m(1) validate_loop_ok [of h s allowed 0 ds "[]" w ds' w'] show ?thesis by (simp add: primary_error_None)
qed

section \<open>Allowed paths\<close>

lemma allowed_in_True:
  assumes "allowed_in h dirs path w = (Ok True, w')"
  shows "\<exists>dir \<in> set dirs. EqualFold (with_slash dir) (take (length (with_slash dir)) path)
    \<and> length (with_slash dir) \<le> length path
    \<and> (\<exists>w1 w2. h_RootStat h dir (drop (length (with_slash dir)) path) w1 = (Ok False, w2))"
  using assms
proof (induction dirs arbitrary: w)
  case Nil
  then show ?case by (simp add: ret_def)
next
  case (Cons dir dirs)
  let ?d = "with_slash dir"
  from Cons.prems consider (stat) w1 w2 where "length ?d \<le> length path" "EqualFold ?d (take (length ?d) path)"
      "h_RootStat h dir (drop (length ?d) path) w1 = (Ok False, w2)"
    | (next_dir) w1 where "allowed_in h dirs path w1 = (Ok True, w')"
    by (auto simp: iotry_apply Let_def ret_def split: prod.splits res.splits if_splits)
  then show ?case
  proof cases
    case stat
    then show ?thesis by (intro bexI [of _ dir]) auto
  next
    case next_dir
    from Cons.IH [OF this] show ?thesis by auto
  qed
qed

lemma AllowedPath_True:
  assumes "AllowedPath h dirs path w = (Ok True, w')" and "IsAbs path"
  shows "\<exists>dir \<in> set dirs. EqualFold (with_slash dir) (take (length (with_slash dir)) path)
    \<and> length (with_slash dir) \<le> length path
    \<and> (\<exists>w1 w2. h_RootStat h dir (drop (length (with_slash dir)) path) w1 = (Ok False, w2))"
  using assms by (auto simp: AllowedPath_def intro!: allowed_in_True)

section \<open>Prepared disks\<close>

text \<open>
  What \<open>Prepare\<close> makes of a disk, but for the primary mark: the attributes are defaulted where they
  are not set and kept where they are, and a disk that is not a Nomad volume has a format, and its
  source is a volume or an image of that format.
\<close>

definition attrs_prepared :: "Disk \<Rightarrow> Disk \<Rightarrow> bool" where
  "attrs_prepared d d' \<longleftrightarrow>
     d_Driver d' = (if d_Driver d = [] then DefaultDiskDriver else d_Driver d)
   \<and> d_Kind d' = (if d_Kind d = [] then DiskKindDefault else d_Kind d)
   \<and> d_BusType d' = (if d_BusType d \<noteq> [] then d_BusType d
        else if d_Kind d = ''cdrom'' then ''ide'' else BusTypeDefault)
   \<and> d_Devname d' \<noteq> [] \<and> (d_Devname d \<noteq> [] \<longrightarrow> d_Devname d' = d_Devname d)
   \<and> d_VolumeName d' = d_VolumeName d \<and> d_Chained d' = d_Chained d \<and> d_Sparse d' = d_Sparse d
   \<and> d_ReadOnly d' = d_ReadOnly d \<and> d_Pool d' = d_Pool d \<and> d_blockDevicePath d' = d_blockDevicePath d
   \<and> d_Primary d' = d_Primary d"

definition source_prepared :: "Disk \<Rightarrow> Disk \<Rightarrow> bool" where
  "source_prepared d d' \<longleftrightarrow> (\<forall>src. d_Source d = Some src \<longrightarrow> ds_Image src \<noteq> [] \<longrightarrow>
     (\<exists>src'. d_Source d' = Some src' \<and>
       (if d_Chained d then ds_Image src' = [] \<and> d_Size d' \<noteq> []
        else ds_Format src' = d_Format d' \<and> ds_Volume src' = ds_Volume src)))"

definition disk_prepared :: "'w storage \<Rightarrow> Disk \<Rightarrow> Disk \<Rightarrow> bool" where
  "disk_prepared s d d' \<longleftrightarrow> attrs_prepared d d'
   \<and> (if IsNomadVolume d then d_Format d' = d_Format d \<and> d_Size d' = d_Size d
      else d_Format d' \<noteq> [] \<and> (d_Format d \<noteq> [] \<longrightarrow> d_Format d' = d_Format d)
        \<and> (d_Size d \<noteq> [] \<longrightarrow> d_Size d' = d_Size d) \<and> source_prepared d d'
        \<and> (\<exists>pool. disk_pool s d = Ok pool))"

lemma GenerateDeviceName_nonempty [simp]: "GenerateDeviceName bus names \<noteq> []"
  by (simp add: GenerateDeviceName_def Let_def)

lemma default_attrs_fields:
  "d_Driver (default_attrs d) = (if d_Driver d = [] then DefaultDiskDriver else d_Driver d)"
  "d_Kind (default_attrs d) = (if d_Kind d = [] then DiskKindDefault else d_Kind d)"
  "d_BusType (default_attrs d) = (if d_BusType d \<noteq> [] then d_BusType d
     else if d_Kind d = ''cdrom'' then ''ide'' else BusTypeDefault)"
  "default_attrs d\<lparr>d_Driver := x, d_Kind := y, d_BusType := z\<rparr> = d\<lparr>d_Driver := x, d_Kind := y, d_BusType := z\<rparr>"
  by (cases "d_Driver d = []"; cases "d_Kind d = []"; cases "d_BusType d = []";
      simp add: default_attrs_def Let_def DiskKindDefault_def)+

lemma default_attrs_keeps [simp]:
  "d_Devname (default_attrs d) = d_Devname d" "d_VolumeName (default_attrs d) = d_VolumeName d"
  "d_Chained (default_attrs d) = d_Chained d" "d_Sparse (default_attrs d) = d_Sparse d"
  "d_ReadOnly (default_attrs d) = d_ReadOnly d" "d_Pool (default_attrs d) = d_Pool d"
  "d_blockDevicePath (default_attrs d) = d_blockDevicePath d" "d_Primary (default_attrs d) = d_Primary d"
  "d_Format (default_attrs d) = d_Format d" "d_Size (default_attrs d) = d_Size d"
  "d_Source (default_attrs d) = d_Source d"
  by (auto simp: default_attrs_def Let_def)

lemma default_devname_fields:
  "d_Devname (default_devname before d behind) \<noteq> []"
  "d_Devname d \<noteq> [] \<Longrightarrow> default_devname before d behind = d"
  "default_devname before d behind = d\<lparr>d_Devname := d_Devname (default_devname before d behind)\<rparr>"
  by (auto simp: default_devname_def generateDevname_def)

lemma default_attrs_prepared: "attrs_prepared d (default_devname before (default_attrs d) behind)"
  using default_devname_fields(1,2) [where d = "default_attrs d" and before = before and behind = behind]
  by (subst default_devname_fields(3)) (simp add: attrs_prepared_def default_attrs_fields)

lemma default_keeps [simp]:
  "d_Format (default_devname before d behind) = d_Format d"
  "d_Size (default_devname before d behind) = d_Size d"
  "d_Source (default_devname before d behind) = d_Source d"
  "d_Chained (default_devname before d behind) = d_Chained d"
  "d_VolumeName (default_devname before d behind) = d_VolumeName d"
  "d_Pool (default_devname before d behind) = d_Pool d"
  by (simp_all add: default_devname_def)

text \<open>The steps after the attributes write only the source, the format and the size.\<close>

definition same_attrs :: "Disk \<Rightarrow> Disk \<Rightarrow> bool" where
  "same_attrs d d' \<longleftrightarrow> d'\<lparr>d_Source := None, d_Format := [], d_Size := []\<rparr>
     = d\<lparr>d_Source := None, d_Format := [], d_Size := []\<rparr>"

lemma same_attrs_refl [simp]: "same_attrs d d"
  by (simp add: same_attrs_def)

lemma same_attrs_trans: "same_attrs a b \<Longrightarrow> same_attrs b c \<Longrightarrow> same_attrs a c"
  by (simp add: same_attrs_def)

lemma same_attrs_upd [simp]:
  "same_attrs d (d\<lparr>d_Source := src\<rparr>)" "same_attrs d (d\<lparr>d_Format := fmt\<rparr>)" "same_attrs d (d\<lparr>d_Size := sz\<rparr>)"
  "same_attrs d (d\<lparr>d_Source := src, d_Size := sz\<rparr>)"
  by (cases d, simp add: same_attrs_def)+

lemma same_attrsD:
  assumes "same_attrs d d'"
  shows "d_Driver d' = d_Driver d" "d_Kind d' = d_Kind d" "d_BusType d' = d_BusType d"
    "d_Devname d' = d_Devname d" "d_VolumeName d' = d_VolumeName d" "d_Chained d' = d_Chained d"
    "d_Sparse d' = d_Sparse d" "d_ReadOnly d' = d_ReadOnly d" "d_Pool d' = d_Pool d"
    "d_blockDevicePath d' = d_blockDevicePath d" "d_Primary d' = d_Primary d"
  using assms by (cases d; cases d'; simp add: same_attrs_def)+

lemma same_attrs_prepared: "attrs_prepared d d1 \<Longrightarrow> same_attrs d1 d' \<Longrightarrow> attrs_prepared d d'"
  by (simp add: attrs_prepared_def same_attrsD)

lemma source_format_result:
  assumes "source_format h d w = (Ok d', w')"
  shows "same_attrs d d' \<and> d_Format d' = d_Format d \<and> d_Size d' = d_Size d
    \<and> (case d_Source d of None \<Rightarrow> d_Source d' = None
      | Some src \<Rightarrow> \<exists>f. d_Source d' = Some (src\<lparr>ds_Format := f\<rparr>))"
proof (cases "d_Source d")
  case None
  with assms show ?thesis by (simp add: source_format_def ret_def)
next
  case (Some src)
  with assms consider "d' = d" | f where "d' = d\<lparr>d_Source := Some (src\<lparr>ds_Format := f\<rparr>)\<rparr>"
    by (auto simp: source_format_def iobind_Ok ret_def split: if_splits)
  then show ?thesis
  proof cases
    case 1
    have "src = src\<lparr>ds_Format := ds_Format src\<rparr>" by simp
    then have "\<exists>f. src = src\<lparr>ds_Format := f\<rparr>" by (rule exI)
    with 1 Some show ?thesis by simp
  qed (use Some in auto)
qed

lemma now_Ok: "now m ws = (Ok x, ws') \<longleftrightarrow> m (fst ws) = (Ok x, fst ws') \<and> snd ws' = snd ws"
  by (cases ws; cases ws') (auto simp: now_def split: prod.splits)

lemma dec_ne [simp]: "dec n \<noteq> []" by (rule dec_nonempty)

lemma prepare_source_result:
  assumes "prepare_source h pool d w = (Ok d', w')"
  shows "same_attrs d d' \<and> d_Format d' = d_Format d \<and> (d_Size d \<noteq> [] \<longrightarrow> d_Size d' = d_Size d)
    \<and> (\<forall>src. d_Source d = Some src \<longrightarrow> ds_Image src \<noteq> [] \<longrightarrow>
     (\<exists>src'. d_Source d' = Some src' \<and>
       (if d_Chained d then ds_Image src' = [] \<and> d_Size d' \<noteq> []
        else ds_Format src' = d_Format d' \<and> ds_Volume src' = ds_Volume src)))"
proof (cases "d_Source d")
  case None
  with assms show ?thesis by (simp add: prepare_source_def ret_def)
next
  case (Some src)
  show ?thesis
  proof (cases "ds_Image src = []")
    case True
    with assms Some show ?thesis by (simp add: prepare_source_def ret_def)
  next
    case img: False
    show ?thesis
    proof (cases "d_Chained d")
      case True
      with assms Some img show ?thesis by (auto simp: prepare_source_def prepare_chained_def iobind_Ok ret_def)
    next
      case False
      with assms Some img show ?thesis
        by (auto simp: prepare_source_def iobind_Ok ret_def split: if_splits)
    qed
  qed
qed

lemma prepare_size_result:
  assumes "prepare_size h pool d w = (Ok d', w')"
  shows "\<exists>sz. d' = d\<lparr>d_Size := sz\<rparr> \<and> (d_Size d \<noteq> [] \<longrightarrow> sz = d_Size d)"
proof (cases "d' = d")
  case True
  then have "d' = d\<lparr>d_Size := d_Size d\<rparr>" by simp
  then show ?thesis by blast
next
  case False
  with assms show ?thesis
    by (auto simp: prepare_size_def iobind_Ok ret_def split: option.splits if_splits)
qed

lemma prepare_disk_result:
  assumes "prepare_disk h s before d behind w = (Ok d', w')"
  shows "disk_prepared s d d'"
proof -
  let ?d0 = "default_devname before (default_attrs d) behind"
  from assms obtain d1 w1 where d1: "now (source_format h ?d0) w = (Ok d1, w1)"
    and rest: "(if IsNomadVolume d1 then ret d1
       else iobind (lift (disk_pool s d1)) (\<lambda>pool.
         iobind (prepare_source h pool (default_disk_format pool d1)) (\<lambda>disk.
         now (prepare_size h pool disk)))) w1 = (Ok d', w')"
    by (auto simp: prepare_disk_def iobind_Ok)
  have f: "same_attrs ?d0 d1" "d_Format d1 = d_Format d" "d_Size d1 = d_Size d"
    and src1: "\<And>src. d_Source d = Some src \<Longrightarrow> \<exists>f. d_Source d1 = Some (src\<lparr>ds_Format := f\<rparr>)"
    using source_format_result [of h ?d0 "fst w" d1 "fst w1"] d1 by (auto simp: now_Ok)
  have a1: "attrs_prepared d d1" by (rule same_attrs_prepared [OF default_attrs_prepared f(1)])
  have nomad: "IsNomadVolume d1 = IsNomadVolume d" "d_Chained d1 = d_Chained d" "d_Pool d1 = d_Pool d"
    using a1 by (simp_all add: attrs_prepared_def IsNomadVolume_def)
  show ?thesis
  proof (cases "IsNomadVolume d")
    case True
    with rest nomad have "d' = d1" by (simp add: ret_def)
    with a1 f True show ?thesis by (simp add: disk_prepared_def)
  next
    case False
    with rest nomad obtain pool d2 w2 where pool: "disk_pool s d1 = Ok pool"
      and d2: "prepare_source h pool (default_disk_format pool d1) w1 = (Ok d2, w2)"
      and d': "now (prepare_size h pool d2) w2 = (Ok d', w')"
      by (auto simp: iobind_Ok lift_def)
    let ?df = "default_disk_format pool d1"
    have df: "same_attrs d1 ?df" "d_Size ?df = d_Size d1" "d_Source ?df = d_Source d1" "d_Format ?df \<noteq> []"
      "d_Chained ?df = d_Chained d1" "d_Format d1 \<noteq> [] \<longrightarrow> d_Format ?df = d_Format d1"
      by (auto simp: default_disk_format_def DefaultImageFormat_def defaultDirectoryImageFormat_def
          defaultCephImageFormat_def split: poolkind.split)
    note r2 = prepare_source_result [OF d2]
    from d' obtain sz where sz: "d' = d2\<lparr>d_Size := sz\<rparr>" "d_Size d2 \<noteq> [] \<longrightarrow> sz = d_Size d2"
      using prepare_size_result [of h pool d2 "fst w2" d' "fst w'"] by (auto simp: now_Ok)
    have "attrs_prepared d d'"
      using same_attrs_prepared [OF a1, of d'] df(1) r2 sz(1) same_attrs_trans same_attrs_upd(3) by metis
    moreover have "source_prepared d d'" unfolding source_prepared_def
    proof (intro allI impI)
      fix src assume src: "d_Source d = Some src" "ds_Image src \<noteq> []"
      obtain f where sf: "d_Source ?df = Some (src\<lparr>ds_Format := f\<rparr>)" using src1 [OF src(1)] df(3) by auto
      have "ds_Image (src\<lparr>ds_Format := f\<rparr>) \<noteq> []" using src(2) by simp
      with r2 sf obtain src' where "d_Source d2 = Some src'"
        "if d_Chained ?df then ds_Image src' = [] \<and> d_Size d2 \<noteq> []
         else ds_Format src' = d_Format d2 \<and> ds_Volume src' = ds_Volume (src\<lparr>ds_Format := f\<rparr>)" by blast
      then show "\<exists>src'. d_Source d' = Some src' \<and>
       (if d_Chained d then ds_Image src' = [] \<and> d_Size d' \<noteq> []
        else ds_Format src' = d_Format d' \<and> ds_Volume src' = ds_Volume src)"
        using df(5) nomad(2) sz by (auto split: if_splits)
    qed
    moreover have "disk_pool s d = Ok pool" using pool unfolding disk_pool_def nomad(3) .
    ultimately show ?thesis using False f df r2 sz by (simp add: disk_prepared_def)
  qed
qed

lemma prepare_loop_result:
  assumes "prepare_loop h s before ds w = (Ok ds', w')"
  shows "\<exists>rs. ds' = before @ rs \<and> list_all2 (disk_prepared s) ds rs"
  using assms
proof (induction ds arbitrary: before w)
  case Nil
  then show ?case by (simp add: ret_def)
next
  case (Cons d ds)
  from Cons.prems obtain d' w1 where d': "prepare_disk h s before d ds w = (Ok d', w1)"
    and rest: "prepare_loop h s (before @ [d']) ds w1 = (Ok ds', w')" by (auto simp: iobind_Ok)
  from Cons.IH [OF rest] obtain rs where "ds' = (before @ [d']) @ rs" "list_all2 (disk_prepared s) ds rs" by blast
  with prepare_disk_result [OF d'] show ?case by (intro exI [of _ "d' # rs"]) simp
qed

lemma Prepare_result:
  assumes "Prepare h s ds w = (Ok ds', w')"
  shows "\<exists>rs. list_all2 (disk_prepared s) ds rs \<and> ds' = mark_primary rs"
  using assms
  by (auto simp: Prepare_def with_deferred_def iobind_def ret_def dest!: prepare_loop_result
      split: prod.splits res.splits)

section \<open>Generated volumes\<close>

lemma Generate_length: "Generate h name s ds w = (Ok ds', w') \<Longrightarrow> length ds' = length ds"
  by (induction ds arbitrary: w ds') (auto simp: iobind_Ok ret_def)

text \<open>
  The volume of a generated disk. Its name is the task's and the device's, its attributes are the
  disk's, and it is either the block device of the Nomad volume or in the pool of the disk.
\<close>

definition volume_generated :: "string \<Rightarrow> 'w storage \<Rightarrow> Disk \<Rightarrow> Disk \<Rightarrow> bool" where
  "volume_generated name s d d' \<longleftrightarrow> (\<exists>v. d_Volume d' = Some v \<and> v_Name v = volume_name name d
     \<and> v_Format v = d_Format d' \<and> v_Kind v = d_Kind d \<and> v_Driver v = d_Driver d
     \<and> v_DeviceName v = d_Devname d \<and> v_BusType v = d_BusType d \<and> v_Primary v = d_Primary d
     \<and> (if IsNomadVolume d then v_Block v = d_blockDevicePath d \<and> v_Block v \<noteq> []
        else v_Block v = [] \<and> (\<exists>pool. disk_pool s d = Ok pool \<and> v_Pool v = p_name pool)))"

definition pools_ok :: "('w \<Rightarrow> volh set) \<Rightarrow> 'w storage \<Rightarrow> bool" where
  "pools_ok vols s \<longleftrightarrow> (\<forall>d pool. disk_pool s d = Ok pool \<longrightarrow> pool_laws vols pool)"

text \<open>The calls on files write no volume of a pool.\<close>

definition host_keeps :: "('w \<Rightarrow> volh set) \<Rightarrow> 'w host \<Rightarrow> bool" where
  "host_keeps vols h \<longleftrightarrow> (\<forall>a. steps (grows vols {}) (h_qemu h a)) \<and> (\<forall>p. steps (grows vols {}) (h_RemoveAll h p))
     \<and> (\<forall>p. steps (grows vols {}) (h_Open h p)) \<and> (\<forall>p. steps (grows vols {}) (h_OpenWrite h p))
     \<and> (\<forall>d p. steps (grows vols {}) (h_CopyTo h d p))"

lemma iowrap_steps: "preorder R \<Longrightarrow> steps R m \<Longrightarrow> steps R (iowrap a b m)"
  unfolding iowrap_def by (intro steps_try steps_ret steps_throw)

lemma ConvertImage_steps:
  assumes "host_keeps vols h"
  shows "steps (grows vols {}) (ConvertImage h src sf dst df)"
  using assms unfolding ConvertImage_def GetImageFormat_def getImageInfo_def
  by (auto simp: host_keeps_def intro!: steps_bind steps_if steps_ret iowrap_steps steps_lift)

lemma writeNomadVolume_steps:
  assumes h: "host_keeps vols h"
  shows "steps (grows vols {}) (writeNomadVolume h d)"
proof -
  have copy: "steps (grows vols {}) (iobind (h_Open h img) (\<lambda>_. iobind (h_OpenWrite h dev) (\<lambda>_. h_CopyTo h dev img)))"
    for img dev using h by (auto simp: host_keeps_def intro!: steps_bind)
  have rm: "steps (grows vols {}) (\<lambda>w. case m w of (r, w') \<Rightarrow> (r, snd (h_RemoveAll h img w')))"
    if m: "steps (grows vols {}) m" for m :: "('a, unit) io" and img
    unfolding steps_def
  proof (intro allI impI)
    fix w r w' assume run: "(case m w of (r, w') \<Rightarrow> (r, snd (h_RemoveAll h img w'))) = (r, w')"
    obtain r1 w1 where 1: "m w = (r1, w1)" by fastforce
    obtain r2 w2 where 2: "h_RemoveAll h img w1 = (r2, w2)" by fastforce
    have "grows vols {} w w1" "grows vols {} w1 w2" using stepsD [OF m 1] h 2 by (auto simp: host_keeps_def steps_def)
    with run 1 2 show "grows vols {} w w'" by (auto simp: grows_def)
  qed
  show ?thesis unfolding writeNomadVolume_def Let_def
    by (auto simp del: if_split intro!: steps_if steps_throw steps_ret copy steps_bind ConvertImage_steps [OF h] rm
        split: option.split)
qed

lemma disk_pool_format [simp]: "disk_pool s (default_disk_format p d) = disk_pool s d"
  by (simp add: disk_pool_def default_disk_format_def)

lemma generate_disk_cases:
  assumes "generate_disk h name s d w = (r, w')"
  obtains (nomad) "IsNomadVolume d" "iobind (writeNomadVolume h d) (\<lambda>_.
          ret (d\<lparr>d_Volume := Some (fill_volume d
            (empty_volume\<lparr>v_Name := volume_name name d, v_Format := d_Format d,
               v_Block := d_blockDevicePath d\<rparr>))\<rparr>)) w = (r, w')"
  | (no_pool) e where "\<not> IsNomadVolume d" "disk_pool s d = Fail e" "r = Fail e" "w' = w"
  | (pool) p d1 where "\<not> IsNomadVolume d" "disk_pool s d = Ok p"
      "same_attrs (d\<lparr>d_Sparse := None\<rparr>) (d1\<lparr>d_Sparse := None\<rparr>)" "d_Size d1 = d_Size d"
      "iobind (lift (disk_options d1)) (\<lambda>opts. iobind (AddVolume p (volume_name name d1) opts) (\<lambda>vol.
          ret (d1\<lparr>d_Volume := Some (fill_volume d1 vol)\<rparr>))) w = (r, w')"
proof (cases "IsNomadVolume d")
  case True
  with assms show ?thesis by (intro nomad) (simp_all add: generate_disk_def)
next
  case False
  show ?thesis
  proof (cases "disk_pool s d")
    case (Ok p)
    let ?f = "default_disk_format p d"
    let ?d1 = "if d_Sparse ?f = None then ?f\<lparr>d_Sparse := Some False\<rparr> else ?f"
    have "same_attrs (d\<lparr>d_Sparse := None\<rparr>) (?d1\<lparr>d_Sparse := None\<rparr>)" "d_Size ?d1 = d_Size d"
      by (cases d; auto simp: default_disk_format_def same_attrs_def)+
    from pool [OF False Ok this] show ?thesis
      using assms False Ok by (simp add: generate_disk_def iobind_def lift_def Let_def)
  next
    case (Fail e)
    with assms False show ?thesis by (intro no_pool [of e]) (simp_all add: generate_disk_def iobind_def lift_def)
  next
    case (Panic p)
    then show ?thesis by simp
  qed
qed

lemma disk_options_ok: "disk_options d = Ok opts \<longleftrightarrow> (\<exists>b. ToBytes (d_Size d) = Ok b \<and> opts =
     \<lparr>op_Chained = d_Chained d, op_Sparse = (d_Sparse d = Some True), op_Size = unat b,
       op_Source = (case d_Source d of None \<Rightarrow> \<lparr>so_Path = [], so_Volume = []\<rparr>
         | Some src \<Rightarrow> \<lparr>so_Path = ds_Image src, so_Volume = ds_Volume src\<rparr>),
       op_TargetFormat = d_Format d\<rparr>)"
  by (auto simp: disk_options_def rbind_Ok)

lemma volume_name_cong: "same_attrs (d\<lparr>d_Sparse := None\<rparr>) (d1\<lparr>d_Sparse := None\<rparr>) \<Longrightarrow>
    volume_name name d1 = volume_name name d \<and> d_Kind d1 = d_Kind d \<and> d_Driver d1 = d_Driver d
    \<and> d_Devname d1 = d_Devname d \<and> d_BusType d1 = d_BusType d \<and> d_Primary d1 = d_Primary d"
  using same_attrsD [of "d\<lparr>d_Sparse := None\<rparr>" "d1\<lparr>d_Sparse := None\<rparr>"] by (simp add: volume_name_def)

lemma writeNomad_needs_device: "writeNomadVolume h d w = (Ok u, w') \<Longrightarrow> d_blockDevicePath d \<noteq> []"
  by (auto simp: writeNomadVolume_def throw_def)

lemma generate_disk_volume:
  assumes laws: "pools_ok vols s" and run: "generate_disk h name s d w = (Ok d', w')"
  shows "volume_generated name s d d' \<and> (\<not> IsNomadVolume d \<longrightarrow>
      (\<exists>pool. disk_pool s d = Ok pool \<and> (p_name pool, volume_name name d) \<in> vols w'))"
  using run
proof (cases rule: generate_disk_cases)
  case nomad
  then show ?thesis
    by (auto simp: iobind_Ok ret_def volume_generated_def fill_volume_def dest: writeNomad_needs_device)
next
  case no_pool
  then show ?thesis by simp
next
  case (pool p d1)
  note c = volume_name_cong [OF pool(3), of name]
  from pool(5) obtain opts v where add: "AddVolume p (volume_name name d) opts w = (Ok v, w')"
    and d': "d' = d1\<lparr>d_Volume := Some (fill_volume d1 v)\<rparr>"
    using c by (auto simp: iobind_Ok ret_def lift_def)
  have "pool_laws vols p" using laws pool(2) by (auto simp: pools_ok_def)
  from any_pool.add_result [OF this add] show ?thesis
    using pool(1,2) c d' by (auto simp: volume_generated_def fill_volume_def)
qed

definition disk_volumes :: "string \<Rightarrow> Disk list \<Rightarrow> volh set" where
  "disk_volumes name ds = {v. \<exists>d \<in> set ds. \<not> IsNomadVolume d \<and> snd v = volume_name name d}"

lemma generate_disk_steps:
  assumes laws: "pools_ok vols s" and host: "host_keeps vols h"
  shows "steps (grows vols (disk_volumes name [d])) (generate_disk h name s d)"
  unfolding steps_def
proof (intro allI impI)
  fix w r w' assume "generate_disk h name s d w = (r, w')"
  then show "grows vols (disk_volumes name [d]) w w'"
  proof (cases rule: generate_disk_cases)
    case nomad
    have "steps (grows vols (disk_volumes name [d])) (writeNomadVolume h d)"
      by (rule steps_grows_mono [OF writeNomadVolume_steps [OF host]]) simp
    from stepsD [OF steps_bind [OF preorder_grows this steps_ret [OF preorder_grows]] nomad(2)] show ?thesis .
  next
    case no_pool
    then show ?thesis by (simp add: grows_def)
  next
    case (pool p d1)
    have "pool_laws vols p" using laws pool(2) by (auto simp: pools_ok_def)
    note add = steps_grows_mono [OF any_pool.add_grows [OF this], of "volume_name name d1" "disk_volumes name [d]"]
    have "{x. snd x = volume_name name d1} \<subseteq> disk_volumes name [d]"
      using pool(1) volume_name_cong [OF pool(3)] by (auto simp: disk_volumes_def)
    with add have "steps (grows vols (disk_volumes name [d]))
        (iobind (lift (disk_options d1)) (\<lambda>opts. iobind (AddVolume p (volume_name name d1) opts) (\<lambda>vol.
          ret (d1\<lparr>d_Volume := Some (fill_volume d1 vol)\<rparr>))))"
      by (intro steps_bind steps_lift steps_ret preorder_grows)
    from stepsD [OF this pool(5)] show ?thesis .
  qed
qed

lemma Generate_steps:
  assumes "pools_ok vols s" "host_keeps vols h"
  shows "steps (grows vols (disk_volumes name ds)) (Generate h name s ds)"
proof (induction ds)
  case Nil
  then show ?case by (simp add: steps_ret)
next
  case (Cons d ds)
  have "disk_volumes name [d] \<subseteq> disk_volumes name (d # ds)" "disk_volumes name ds \<subseteq> disk_volumes name (d # ds)"
    by (auto simp: disk_volumes_def)
  then show ?case
    using steps_grows_mono [OF generate_disk_steps [OF assms]] steps_grows_mono [OF Cons.IH]
    by (simp add: steps_bind steps_ret)
qed

lemma Generate_result:
  assumes laws: "pools_ok vols s" and host: "host_keeps vols h" and run: "Generate h name s ds w = (Ok ds', w')"
  shows "list_all2 (volume_generated name s) ds ds' \<and> (\<forall>d \<in> set ds. \<not> IsNomadVolume d \<longrightarrow>
      (\<exists>pool. disk_pool s d = Ok pool \<and> (p_name pool, volume_name name d) \<in> vols w'))"
  using run
proof (induction ds arbitrary: w ds')
  case Nil
  then show ?case by (simp add: ret_def)
next
  case (Cons d ds)
  from Cons.prems obtain d' w1 ds'' where d': "generate_disk h name s d w = (Ok d', w1)"
    and rest: "Generate h name s ds w1 = (Ok ds'', w')" "ds' = d' # ds''" by (auto simp: iobind_Ok ret_def)
  have "vols w1 \<subseteq> vols w'" using stepsD [OF Generate_steps [OF laws host] rest(1)] by (simp add: grows_def)
  with generate_disk_volume [OF laws d'] Cons.IH [OF rest(1)] rest(2) show ?case by auto
qed

text \<open>The volumes of the generated disks that are not block devices, by pool and name, and that they exist.\<close>

definition pool_volumes :: "string \<Rightarrow> 'w storage \<Rightarrow> Disk list \<Rightarrow> volh set" where
  "pool_volumes name s ds = {(p_name pool, volume_name name d) | pool d. d \<in> set ds \<and> \<not> IsNomadVolume d \<and> disk_pool s d = Ok pool}"

lemma generated_attached:
  assumes "list_all2 (volume_generated name s) ds ds'"
  shows "attached (Volumes ds') = pool_volumes name s ds"
  using assms
proof (induction rule: list_all2_induct)
  case Nil
  show ?case by (simp add: Volumes_def pool_volumes_def)
next
  case (Cons d ds d' ds')
  have "pool_volumes name s (d # ds) = (if IsNomadVolume d then {} else {(p_name pool, volume_name name d) | pool. disk_pool s d = Ok pool})
      \<union> pool_volumes name s ds"
    by (auto simp: pool_volumes_def)
  with Cons show ?case by (auto simp: volume_generated_def Volumes_def map_filter_simps split: if_splits)
qed

lemma Generate_attached:
  assumes "pools_ok vols s" "host_keeps vols h" "Generate h name s ds w = (Ok ds', w')"
  shows "attached (Volumes ds') = pool_volumes name s ds \<and> pool_volumes name s ds \<subseteq> vols w'"
  using generated_attached [OF conjunct1 [OF Generate_result [OF assms]]] Generate_result [OF assms]
  by (fastforce simp: pool_volumes_def)

section \<open>No panics\<close>

definition host_calm :: "'w host \<Rightarrow> bool" where
  "host_calm h \<longleftrightarrow> (\<forall>a. calm (h_qemu h a)) \<and> (\<forall>p. calm (h_Open h p)) \<and> (\<forall>p. calm (h_OpenWrite h p))
     \<and> (\<forall>d p. calm (h_CopyTo h d p)) \<and> (\<forall>f out p. h_json_str h f out \<noteq> Panic p)"

definition pools_calm :: "'w storage \<Rightarrow> bool" where
  "pools_calm s \<longleftrightarrow> (\<forall>d pool n o'. disk_pool s d = Ok pool \<longrightarrow> calm (AddVolume pool n o'))"

lemma writeNomadVolume_calm:
  assumes "host_calm h"
  shows "calm (writeNomadVolume h d)"
proof -
  have copy: "calm (iobind (h_Open h img) (\<lambda>_. iobind (h_OpenWrite h dev) (\<lambda>_. h_CopyTo h dev img)))" for img dev
    using assms by (auto simp: host_calm_def intro!: calm_intros)
  have rm: "calm (\<lambda>w. case m w of (r, w') \<Rightarrow> (r, snd (h_RemoveAll h img w')))" if "calm m" for m :: "('a, unit) io" and img
    using that by (auto simp: calm_def split: prod.splits)
  have conv: "calm (ConvertImage h a b c e)" for a b c e
    using assms unfolding ConvertImage_def GetImageFormat_def getImageInfo_def
    by (auto simp: host_calm_def intro!: calm_intros)
  show ?thesis unfolding writeNomadVolume_def Let_def
    by (auto intro!: calm_intros(1,2,4) copy rm conv split: option.split)
qed

lemma generate_disk_calm:
  assumes "host_calm h" "pools_calm s" and size: "\<not> IsNomadVolume d \<Longrightarrow> \<exists>b. ToBytes (d_Size d) = Ok b"
  shows "generate_disk h name s d w \<noteq> (Panic p, w')"
proof
  assume "generate_disk h name s d w = (Panic p, w')"
  then show False
  proof (cases rule: generate_disk_cases)
    case nomad
    have "calm (iobind (writeNomadVolume h d) (\<lambda>_. ret x))" for x :: Disk
      by (intro calm_intros writeNomadVolume_calm assms)
    with nomad(2) show ?thesis by (auto simp: calm_def)
  next
    case (pool q d1)
    have "\<And>p. disk_options d1 \<noteq> Panic p"
      using size [OF pool(1)] pool(4) by (auto simp: disk_options_def MustToBytes_def)
    moreover have "calm (AddVolume q n opts)" for n opts using assms(2) pool(2) by (auto simp: pools_calm_def)
    ultimately have "calm (iobind (lift (disk_options d1)) (\<lambda>opts. iobind (AddVolume q (volume_name name d1) opts)
        (\<lambda>vol. ret (d1\<lparr>d_Volume := Some (fill_volume d1 vol)\<rparr>))))" by (intro calm_intros)
    with pool(5) show ?thesis by (auto simp: calm_def)
  qed simp
qed

lemma Generate_calm:
  assumes "host_calm h" "pools_calm s"
    and "\<And>d. d \<in> set ds \<Longrightarrow> \<not> IsNomadVolume d \<Longrightarrow> \<exists>b. ToBytes (d_Size d) = Ok b"
  shows "calm (Generate h name s ds)"
  using assms(3)
proof (induction ds)
  case Nil
  then show ?case by (simp add: calm_intros)
next
  case (Cons d ds)
  have "calm (generate_disk h name s d)" unfolding calm_def
    using generate_disk_calm [OF assms(1,2)] Cons.prems by auto
  moreover have "calm (Generate h name s ds)" using Cons.prems by (intro Cons.IH) auto
  ultimately show ?case by (auto intro!: calm_intros)
qed

section \<open>Properties\<close>

text \<open>
  A host in memory with one image, of 7 bytes, under \<^verbatim>\<open>/images\<close>, and a storage with one
  directory pool.
\<close>

definition mem_host :: "(volh \<rightharpoonup> volxml) host" where
  "mem_host = \<lparr>
     h_Stat = (\<lambda>p. if p = ''/images/a.img'' then ret (False, 7) else throw (ErrNew ''no such file'')),
     h_Getwd = ret ''/'', h_OpenRoot = (\<lambda>d. ret ()),
     h_RootStat = (\<lambda>d p. if p = ''a.img'' then ret False else throw (ErrNew ''no such file'')),
     h_sha256 = (\<lambda>p. ret ''00''), h_CreateTemp = (\<lambda>d p. ret ''/images/tmp''), h_Remove = (\<lambda>p. ret ()),
     h_RemoveAll = (\<lambda>p. ret ()), h_Open = (\<lambda>p. ret ()), h_OpenWrite = (\<lambda>p. ret ()),
     h_CopyTo = (\<lambda>d p. ret ()), h_MkdirAll = (\<lambda>p. ret ()), h_qemu = (\<lambda>a. ret ''{}''),
     h_json_str = (\<lambda>f out. Ok ''raw''), h_json_num = (\<lambda>f out. Ok 7)\<rparr>"

definition mem_storage :: "(volh \<rightharpoonup> volxml) storage" where
  "mem_storage = \<lparr>s_pools = [(''local'', mem_dir False)], s_defaultPool = Some (mem_dir False),
     s_l = mem_conn False\<rparr>"

definition image_disk :: "string \<Rightarrow> Disk" where
  "image_disk sz = zero_disk\<lparr>d_Devname := ''vda'', d_Driver := ''qemu'', d_Kind := ''disk'',
     d_BusType := ''virtio'', d_Primary := True, d_Format := ''raw'', d_Size := sz,
     d_Source := Some (zero_source\<lparr>ds_Image := ''/images/a.img'', ds_Format := ''raw''\<rparr>)\<rparr>"

lemmas mem_run = image_disk_def mem_host_def mem_storage_def zero_disk_def zero_source_def disk_pool_def
  DefaultPool_def mem_dir_def IsNomadVolume_def io_simps

lemma mem_check_image: "check_image mem_host [''/images''] pre (image_disk sz) w = (Ok [None, None, None, None], w)"
  by (simp add: mem_run check_image_def fileExists_def AllowedPath_def IsAbs_def has_prefix_def Let_def
      with_slash_def has_suffix_def EqualFold_def missing_def)

lemma mem_validate_disk:
  assumes "ToBytes sz = Ok b" "sz \<noteq> []" "7 \<le> unat b"
  shows "validate_disk mem_host mem_storage [''/images''] 0 (image_disk sz) w
      = (Ok ([None, None, None, None, None, None, None, None, None, None, None, None, None, None], image_disk sz), w)"
proof -
  have v: "ValidBytesString sz" "MustToBytes sz = Ok b" using assms(1)
    by (simp_all add: ValidBytesString_def MustToBytes_def)
  have source: "check_source mem_host (mem_dir False) pre (image_disk sz) w = (Ok [None, None], w)" for pre
    using assms(3) by (simp add: v(2) check_source_def source_size_def size_check_def mem_run err_when_def)
  have "disk_pool mem_storage (image_disk sz) = Ok (mem_dir False)" by (simp add: mem_run)
  moreover have "ValidateDisk (mem_dir False) (image_disk sz) = (None, image_disk sz)"
    by (simp add: ValidateDisk_def directory_ValidateDisk_def mem_dir_def image_disk_def zero_disk_def)
  ultimately have "check_pool mem_host mem_storage pre (image_disk sz) w = (Ok ([None, None, None], image_disk sz), w)"
    for pre by (simp add: check_pool_def iobind_apply source ret_def)
  moreover have "\<not> IsNomadVolume (image_disk sz)" by (simp add: mem_run)
  moreover have "check_plain pre (image_disk sz) = [None, None, None, None]" for pre
    using v assms(2) by (simp add: check_plain_def missing_def image_disk_def zero_disk_def zero_source_def)
  moreover have "check_attrs pre (image_disk sz) = [None, None, None]" for pre
    by (simp add: check_attrs_def missing_def image_disk_def zero_disk_def)
  ultimately show ?thesis
    by (simp add: validate_disk_def Let_def iobind_apply mem_check_image ret_def)
qed

lemma mem_Validate:
  "Validate mem_host mem_storage [''/images''] [image_disk (dec 64)] w = (Ok [image_disk (dec 64)], w)"
proof -
  have "ToBytes (dec 64) = Ok 64" using ToBytes_dec [of 64] by simp
  then have "validate_disk mem_host mem_storage [''/images''] 0 (image_disk (dec 64)) w
      = (Ok ([None, None, None, None, None, None, None, None, None, None, None, None, None, None],
             image_disk (dec 64)), w)" by (rule mem_validate_disk) simp_all
  moreover have "primary_error [image_disk (dec 64)] = None" by (simp add: primary_error_None image_disk_def)
  ultimately show ?thesis by (simp add: Validate_def iobind_apply ret_def)
qed

text \<open>
  C6. Disks that validation accepts: exactly one is primary, each has bus, kind and device name,
  each image was found to exist and to be at an allowed path and is not combined with a volume, a
  Nomad volume sets nothing that does not apply to it, and any other disk has a format, a size that
  parses, a source when it is chained, and a storage pool that accepts it. Validation leaves the
  disks as they were, except that it may make an unset \<open>sparse\<close> true.
\<close>

theorem Validate_accepts:
  assumes "Validate h s allowed ds w = (Ok ds', w')"
  shows "length (filter d_Primary ds) = 1 \<and> list_all2 (\<lambda>d d'. image_accepted h allowed d \<and> disk_accepted s d
    \<and> (d' = d \<or> d' = d\<lparr>d_Sparse := Some True\<rparr>)) ds ds'"
  by (rule Validate_ok [OF assms])

theorem Validate_accepts_witness:
  "fst (Validate mem_host mem_storage [''/images''] [image_disk (dec 64)] Map.empty) = Ok [image_disk (dec 64)]
    \<and> image_accepted mem_host [''/images''] (image_disk (dec 64)) \<and> disk_accepted mem_storage (image_disk (dec 64))"
  using Validate_accepts [OF mem_Validate [of Map.empty]] mem_Validate [of Map.empty] by simp


lemma mem_host_calm: "host_calm mem_host"
  by (simp add: host_calm_def mem_host_def calm_intros)

lemma mem_pools: "disk_pool mem_storage d = Ok pool \<Longrightarrow> pool = mem_dir False"
  by (auto simp: disk_pool_def GetPool_def DefaultPool_def mem_storage_def split: if_splits option.splits)

lemma mem_add_calm: "calm (AddVolume (mem_dir b) n opts)"
proof -
  have refresh: "calm (refreshPool (mem_conn b) p)" for p
    by (simp add: calm_def refreshPool_def refresh_loop.simps mem_conn_def ret_def)
  have conn: "calm (l_Lookup (mem_conn b) p n)" "calm (l_VolXML (mem_conn b) v)" "calm (l_CreateXML (mem_conn b) p x)"
    "calm (l_CreateXMLFrom (mem_conn b) p x v)" "calm (l_Info (mem_conn b) v)" "calm (l_Path (mem_conn b) v)"
    "calm (l_FindStoragePool (mem_conn b) p)" "calm (l_PoolName (mem_conn b) p)" "calm (l_FileSize (mem_conn b) f)"
    "calm (l_NewStream (mem_conn b))" "calm (l_upload (mem_conn b) v f k sp)" "calm (l_Resize (mem_conn b) v k sp)"
    for p n v x f k sp
    by (auto simp: calm_def mem_conn_def ret_def throw_def split: option.splits)
  show ?thesis
    unfolding AddVolume_def mem_dir_def pool_AddVolume_def Let_def findVolume_def findRawVolume_def build_volume_def
      load_source_def chain_to_def create_volume_def overwrite_fn_def resize_fn_def defaultOverwriter_def
      defaultResizer_def getVolumeFormat_def
    by (auto intro!: calm_intros conn refresh split: option.split)
qed


text \<open>
  A disk whose size is not valid makes validation panic instead of reporting it, when the disk
  has a source image with content: the invalid size is reported and then converted all the same.
\<close>

theorem Validate_panics_on_bad_size:
  assumes "\<not> IsNomadVolume d" and "\<not> ValidBytesString (d_Size d)" and "disk_pool s d = Ok pool"
    and "d_Source d = Some src" and "ds_Image src \<noteq> []"
    and "check_image h allowed (disk_prefix 0) d w = (Ok es, w1)"
    and "h_Stat h (ds_Image src) w1 = (Ok (isdir, n), w2)" and "0 < n"
  shows "\<exists>p. Validate h s allowed (d # ds) w = (Panic p, w2)"
proof -
  obtain p where "MustToBytes (d_Size d) = Panic p" using assms(2) MustToBytes_Panic_iff by blast
  with assms show ?thesis
    by (simp add: Validate_def validate_disk_def Let_def iobind_apply check_pool_def check_source_def source_size_def
        iotry_apply size_check_def ret_def lift_def)
qed

theorem Validate_panics_on_bad_size_witness:
  "\<exists>p w'. Validate mem_host mem_storage [''/images''] [image_disk ''lots''] Map.empty = (Panic p, w')"
proof -
  let ?d = "image_disk ''lots''"
  have "\<not> ValidBytesString ''lots''"
    by (simp add: ValidBytesString_def ToBytes_def pattern_def is_space_def is_digit_def str_simps)
  then have "\<not> IsNomadVolume ?d" "\<not> ValidBytesString (d_Size ?d)" "disk_pool mem_storage ?d = Ok (mem_dir False)"
    "d_Source ?d = Some (zero_source\<lparr>ds_Image := ''/images/a.img'', ds_Format := ''raw''\<rparr>)"
    by (simp_all add: mem_run)
  from Validate_panics_on_bad_size [OF this _ mem_check_image,
      where isdir = False and n = 7 and ?w2.0 = Map.empty and ?w = Map.empty and ds = "[]"]
  show ?thesis by (auto simp: mem_host_def zero_source_def ret_def)
qed

text \<open>
  C22. What preparing the disks fills in, for every list of disks: the defaults of the attributes
  that are not set (and nothing else is overwritten), a device name, and for a disk that is not a
  Nomad volume a format, a chained disk's image replaced by its parent volume with a size, and an
  unchained image brought to the format of the disk; and the only disk that can boot becomes
  primary when none is.
\<close>

theorem Prepare_fills_in:
  assumes "Prepare h s ds w = (Ok ds', w')"
  shows "\<exists>rs. list_all2 (disk_prepared s) ds rs \<and> ds' = mark_primary rs"
  by (rule Prepare_result [OF assms])

theorem Prepare_fills_in_witness:
  "\<exists>d. fst (Prepare mem_host mem_storage [zero_disk\<lparr>d_Size := dec 64\<rparr>] Map.empty) = Ok [d]
    \<and> d_Devname d = ''vda'' \<and> d_Format d = ''qcow2'' \<and> d_Primary d"
proof -
  let ?d = "zero_disk\<lparr>d_Devname := ''vda'', d_Driver := ''qemu'', d_Kind := ''disk'', d_BusType := ''virtio'',
    d_Primary := True, d_Format := ''qcow2'', d_Size := dec 64\<rparr>"
  have run: "Prepare mem_host mem_storage [zero_disk\<lparr>d_Size := dec 64\<rparr>] Map.empty = (Ok [?d], Map.empty)"
    by (simp add: Prepare_def with_deferred_def prepare_disk_def now_def source_format_def prepare_source_def
        prepare_size_def default_attrs_def default_devname_def generateDevname_def GenerateDeviceName_def
        default_disk_format_def DefaultImageFormat_def defaultDirectoryImageFormat_def DefaultDiskDriver_def
        DiskKindDefault_def BusTypeDefault_def mark_primary_def mem_run Let_def)
  from Prepare_fills_in [OF run] run show ?thesis by simp
qed


lemma mem_pools_ok: "pools_ok dom mem_storage"
  using mem_dir_laws by (auto simp: pools_ok_def dest!: mem_pools)

lemma mem_host_keeps: "host_keeps dom mem_host"
  by (simp add: host_keeps_def mem_host_def steps_ret)


text \<open>
  C35. A path that is allowed is below one of the allowed directories, where the confined lookup found
  it to be no directory; but the directory is compared without regard to letter case, so a path in
  another directory whose name differs in case is allowed as well (the witness is such a path).
\<close>

theorem AllowedPath_within:
  assumes "AllowedPath h dirs path w = (Ok True, w')" and "IsAbs path"
  shows "\<exists>dir \<in> set dirs. EqualFold (with_slash dir) (take (length (with_slash dir)) path)
    \<and> length (with_slash dir) \<le> length path
    \<and> (\<exists>w1 w2. h_RootStat h dir (drop (length (with_slash dir)) path) w1 = (Ok False, w2))"
  by (rule AllowedPath_True [OF assms])

theorem AllowedPath_within_witness:
  "AllowedPath mem_host [''/images''] ''/Images/a.img'' Map.empty = (Ok True, Map.empty)
    \<and> (\<exists>dir \<in> {''/images''}. EqualFold (with_slash dir) ''/Images/'')"
proof -
  have run: "AllowedPath mem_host [''/images''] ''/Images/a.img'' Map.empty = (Ok True, Map.empty)"
    by (simp add: AllowedPath_def IsAbs_def has_prefix_def with_slash_def has_suffix_def Let_def EqualFold_def
        mem_host_def io_simps str_simps)
  have "IsAbs ''/Images/a.img''" by (simp add: IsAbs_def has_prefix_def)
  from AllowedPath_within [OF run this] run show ?thesis by (auto simp: with_slash_def has_suffix_def has_prefix_def)
qed

end
