(* ===== verification/CloudInit.thy ===== *)
theory CloudInit
  imports Host
begin

text \<open>
  \<^verbatim>\<open>cloudinit/cloudinit.go\<close> and \<^verbatim>\<open>cloudinit/iso9660util.go\<close>: the cloud-init data of a virtual
  machine and the image it is written to. Executing a template of the repository on the data, and
  the ISO 9660 writer, are parameters.
\<close>

section \<open>Data\<close>

record MetaData =
  md_InstanceID :: string
  md_LocalHostname :: string

record CIFile =
  cf_Path :: string
  cf_Content :: string
  cf_Permissions :: string
  cf_Encoding :: string
  cf_Owner :: string
  cf_Group :: string

record CIMount =
  cm_Destination :: string
  cm_Tag :: string

record VendorData =
  vd_Password :: string
  vd_SSHKey :: string
  vd_RunCMD :: "string list"
  vd_BootCMD :: "string list"
  vd_Mounts :: "CIMount list"
  vd_Files :: "CIFile list"
  vd_Timezone :: string

record CIConfig =
  ci_VendorData :: VendorData
  ci_MetaData :: MetaData
  ci_UserData :: string

record Entry =
  en_Path :: string
  en_Content :: string

text \<open>
  The calls of the writer: the template executor, reading a file, and the file system of the image
  under construction. A handle of the image is a number; an open image file is closed and the
  working directory is removed on every way out.
\<close>

record 'w ciworld =
  w_template :: "string \<Rightarrow> CIConfig \<Rightarrow> string res"
  w_ReadFile :: "string \<Rightarrow> ('w, string) io"
  w_RemoveAll :: "string \<Rightarrow> ('w, unit) io"
  w_Create :: "string \<Rightarrow> ('w, unit) io"
  w_CloseFile :: "string \<Rightarrow> ('w, unit) io"
  w_MkdirTemp :: "('w, string) io"
  w_IsoCreate :: "string \<Rightarrow> string \<Rightarrow> ('w, nat) io"
  w_IsoMkdir :: "nat \<Rightarrow> string \<Rightarrow> ('w, unit) io"
  w_IsoPut :: "nat \<Rightarrow> string \<Rightarrow> string \<Rightarrow> ('w, unit) io"
  w_IsoFinalize :: "nat \<Rightarrow> string \<Rightarrow> ('w, unit) io"

section \<open>Writing the image\<close>

text \<open>\<open>defer m\<close>: the call is made when the function returns, whatever it returns.\<close>

definition deferring :: "('w, unit) io \<Rightarrow> ('w, 'a) io \<Rightarrow> ('w, 'a) io" where
  "deferring d m = (\<lambda>w. case m w of (r, w') \<Rightarrow> (r, snd (d w')))"

definition writeFile :: "'w ciworld \<Rightarrow> nat \<Rightarrow> Entry \<Rightarrow> ('w, unit) io" where
  "writeFile c fs f =
     (let dir = Dir (en_Path f) in
      iobind (if dir \<noteq> [] \<and> dir \<noteq> ''/'' then w_IsoMkdir c fs dir else ret ()) (\<lambda>_.
        w_IsoPut c fs (en_Path f) (en_Content f)))"

definition ci_Write :: "'w ciworld \<Rightarrow> string \<Rightarrow> string \<Rightarrow> Entry list \<Rightarrow> ('w, unit) io" where
  "ci_Write c isoPath label layout =
     iobind (w_RemoveAll c isoPath) (\<lambda>_.
     iobind (w_Create c isoPath) (\<lambda>_.
     deferring (w_CloseFile c isoPath)
       (iobind (w_MkdirTemp c) (\<lambda>workdir.
        deferring (w_RemoveAll c workdir)
          (iobind (w_IsoCreate c isoPath workdir) (\<lambda>fs.
           iobind (iofor layout (writeFile c fs)) (\<lambda>_.
             w_IsoFinalize c fs label)))))))"

section \<open>The controller\<close>

text \<open>The bytes a file name may not have: control characters and \<^verbatim>\<open><>:"/\|?*\<close>.\<close>

definition bad_name_char :: "char \<Rightarrow> bool" where
  "bad_name_char ch = ((of_char ch :: nat) < 32 \<or> (of_char ch :: nat) \<in> {60, 62, 58, 34, 47, 92, 124, 63, 42})"

definition split_file :: "string \<Rightarrow> string" where
  "split_file p = rev (takeWhile (\<lambda>ch. ch \<noteq> CHR ''/'') (rev p))"

definition isValidFilePathSyntax :: "string \<Rightarrow> bool" where
  "isValidFilePathSyntax filePath =
     (if \<not> IsAbs filePath \<and> filePath = [] then False
      else let fileName = split_file filePath in
        if fileName = [] then False
        else if list_ex bad_name_char fileName then False
        else True)"

definition ci_error :: "string \<Rightarrow> CIConfig \<Rightarrow> goerr \<Rightarrow> goerr" where
  "ci_error what ci e = wrapf (what @ md_InstanceID (ci_MetaData ci) @ '': '') e []"

definition executeTemplate :: "'w ciworld \<Rightarrow> string \<Rightarrow> CIConfig \<Rightarrow> string \<Rightarrow> ('w, string) io" where
  "executeTemplate c what ci name = (case w_template c name ci of
     Ok s \<Rightarrow> ret s
   | Fail e \<Rightarrow> throw (ci_error what ci (ci_error ''cloudinit: unable to execute template '' ci e))
   | Panic p \<Rightarrow> lift (Panic p))"

text \<open>
  The user data is read from a file when it looks like a path, and is the content itself otherwise;
  without user data it is the template's.
\<close>

definition user_data :: "'w ciworld \<Rightarrow> CIConfig \<Rightarrow> ('w, string) io" where
  "user_data c ci =
     (if ci_UserData ci \<noteq> [] then
        (if isValidFilePathSyntax (ci_UserData ci)
         then iotry (w_ReadFile c (ci_UserData ci)) ret
           (\<lambda>e. throw (ci_error ''cloudinit: unable to open user data file '' ci e))
         else ret (ci_UserData ci))
      else executeTemplate c ''cloudinit: unable to execute user data template '' ci ''user-data.tmpl'')"

definition ci_Apply :: "'w ciworld \<Rightarrow> CIConfig \<Rightarrow> string \<Rightarrow> ('w, unit) io" where
  "ci_Apply c ci ciPath =
     iobind (executeTemplate c ''cloudinit: unable to execute meta data template '' ci ''meta-data.tmpl'') (\<lambda>mdb.
     iobind (executeTemplate c ''cloudinit: unable to execute vendor data template '' ci ''vendor-data.tmpl'') (\<lambda>vdb.
     iobind (user_data c ci) (\<lambda>udb.
     iotry (ci_Write c ciPath ''cidata''
         [\<lparr>en_Path = ''/meta-data'', en_Content = mdb\<rparr>, \<lparr>en_Path = ''/user-data'', en_Content = udb\<rparr>,
          \<lparr>en_Path = ''/vendor-data'', en_Content = vdb\<rparr>]) ret
       (\<lambda>e. throw (ci_error ''cloudinit: unable to write configuration to file '' ci e)))))"

end
