(* ===== verification/VM.thy ===== *)
theory VM
  imports Storage NetConfig CloudInit
begin

text \<open>
  \<^verbatim>\<open>internal/shared/vm.go\<close>: the configuration of a virtual machine, its validation and copy, its
  cloud-init data, its states and the names of resources. Unsigned integers are natural numbers,
  as no arithmetic is done on them.
\<close>

section \<open>Data\<close>

definition minMemoryMB :: nat where "minMemoryMB = 500"
definition maxNameLength :: nat where "maxNameLength = 63"

definition ErrEmptyName :: goerr where
  "ErrEmptyName = wrapf [] ErrInvalidConfiguration '' - virtual machine name can not be empty''"

definition ErrNotEnoughMemory :: goerr where
  "ErrNotEnoughMemory = wrapf [] ErrInvalidConfiguration '' - not enough memory assigned to task''"

definition ErrNoCPUS :: goerr where
  "ErrNoCPUS = wrapf [] ErrInvalidConfiguration
     '' - no cpus configured, use resources.cores to assign cores in the job spec''"

definition ErrIncompleteOSVariant :: goerr where
  "ErrIncompleteOSVariant = wrapf [] ErrInvalidConfiguration
     '' - provided os information is incomplete: arch and machine are mandatory''"

definition ErrInvalidHostName :: goerr where
  "ErrInvalidHostName = wrapf [] ErrInvalidConfiguration (
     '' - a resource name must consist of lower case alphanumeric characters or '' @ [CHR 0x27, CHR ''-'', CHR 0x27]
     @ '', must start and end with an alphanumeric character and be less than ''
     @ dec (maxNameLength + 1) @ '' characters'')"

datatype VMState = VMStateStarting | VMStateRunning | VMStateShutdown | VMStatePowerOff
  | VMStateSuspended | VMStatePaused | VMStateError | VMStateUnknown | VMStateNone

datatype TaskState = TaskStateRunning | TaskStateExited | TaskStateUnknown

text \<open>A state that is the empty string is \<open>VMStateNone\<close>.\<close>

definition ToTaskState :: "VMState \<Rightarrow> TaskState" where
  "ToTaskState v = (case v of
     VMStateStarting \<Rightarrow> TaskStateRunning | VMStateRunning \<Rightarrow> TaskStateRunning
   | VMStateShutdown \<Rightarrow> TaskStateExited | VMStatePowerOff \<Rightarrow> TaskStateExited | VMStateError \<Rightarrow> TaskStateExited
   | _ \<Rightarrow> TaskStateUnknown)"

record MountFileConfig =
  mf_Source :: string
  mf_Destination :: string
  mf_ReadOnly :: bool
  mf_Tag :: string
  mf_Driver :: string

record OSVariant =
  os_Arch :: string
  os_Machine :: string

record VMConfig =
  vm_RemoveConfigFiles :: bool
  vm_XMLConfig :: string
  vm_Name :: string
  vm_Memory :: nat
  vm_CPUset :: string
  vm_CPUs :: nat
  vm_OsVariant :: "OSVariant option"
  vm_HostName :: string
  vm_Timezone :: string
  vm_Mounts :: "MountFileConfig list"
  vm_Files :: "CIFile list"
  vm_SSHKey :: string
  vm_Password :: string
  vm_CMDs :: "string list"
  vm_BOOTCMDs :: "string list"
  vm_CIUserData :: string
  vm_Volumes :: "Volume list"
  vm_NetworkInterfaces :: NetworkInterfacesConfig

definition zero_config :: VMConfig where
  "zero_config = \<lparr>vm_RemoveConfigFiles = False, vm_XMLConfig = [], vm_Name = [], vm_Memory = 0, vm_CPUset = [],
     vm_CPUs = 0, vm_OsVariant = None, vm_HostName = [], vm_Timezone = [], vm_Mounts = [], vm_Files = [],
     vm_SSHKey = [], vm_Password = [], vm_CMDs = [], vm_BOOTCMDs = [], vm_CIUserData = [], vm_Volumes = [],
     vm_NetworkInterfaces = []\<rparr>"

record NetworkInterface =
  nic_NetworkName :: string
  nic_DeviceName :: string
  nic_MAC :: string
  nic_Addrs :: "string option list"
  nic_Model :: string
  nic_Driver :: string

record VMInfo =
  inf_RawState :: string
  inf_State :: VMState
  inf_Memory :: nat
  inf_CPUTime :: nat
  inf_MaxMemory :: nat
  inf_NrVirtCPU :: nat

section \<open>Names\<close>

definition is_alnum :: "char \<Rightarrow> bool" where
  "is_alnum c = (let n = (of_char c :: nat) in
     (97 \<le> n \<and> n \<le> 122) \<or> (65 \<le> n \<and> n \<le> 90) \<or> (48 \<le> n \<and> n \<le> 57))"

text \<open>
  The pattern \<^verbatim>\<open>^[a-zA-Z0-9]([a-zA-Z0-9\-]{0,61}[a-zA-Z0-9])?$\<close>: one alphanumeric byte, alone or
  followed by at most 61 alphanumeric bytes or hyphens and one more alphanumeric byte.
\<close>

definition validLabel :: "string \<Rightarrow> bool" where
  "validLabel s = (case s of
     [] \<Rightarrow> False
   | c # rest \<Rightarrow> is_alnum c \<and> (rest = []
       \<or> (length (butlast rest) \<le> 61 \<and> list_all (\<lambda>x. is_alnum x \<or> x = CHR ''-'') (butlast rest)
          \<and> is_alnum (last rest))))"

definition IsValidLabel :: "string \<Rightarrow> bool" where
  "IsValidLabel name = validLabel name"

definition ValidateHostName :: "string \<Rightarrow> goerr option" where
  "ValidateHostName name =
     (if \<not> IsValidLabel name \<or> to_lower name \<noteq> name \<or> length name > maxNameLength
      then Some ErrInvalidHostName else None)"

section \<open>Operations of the configuration\<close>

text \<open>Validation, with the network interfaces as it leaves them.\<close>

definition VM_Validate :: "VMConfig \<Rightarrow> VMConfig \<times> goerr option" where
  "VM_Validate vm = (case Interfaces_Validate (vm_NetworkInterfaces vm) of (ns, e) \<Rightarrow>
     (vm\<lparr>vm_NetworkInterfaces := ns\<rparr>,
      err_or_nil (mappends []
        [err_when (vm_Name vm = []) ErrEmptyName,
         err_when (vm_Memory vm < minMemoryMB) ErrNotEnoughMemory,
         err_when (case vm_OsVariant vm of None \<Rightarrow> False | Some v \<Rightarrow> os_Arch v = [] \<and> os_Machine v = [])
           ErrIncompleteOSVariant,
         err_when (vm_CPUs vm < 1) ErrNoCPUS,
         err_when (vm_HostName vm \<noteq> [] \<and> \<not> IsValidLabel (vm_HostName vm)) ErrInvalidHostName,
         e])))"

definition VM_Copy :: "VMConfig \<Rightarrow> VMConfig" where
  "VM_Copy vm = zero_config\<lparr>vm_RemoveConfigFiles := vm_RemoveConfigFiles vm, vm_XMLConfig := vm_XMLConfig vm,
     vm_Name := vm_Name vm, vm_Memory := vm_Memory vm, vm_CPUset := vm_CPUset vm, vm_CPUs := vm_CPUs vm,
     vm_NetworkInterfaces := vm_NetworkInterfaces vm, vm_HostName := vm_HostName vm, vm_Mounts := vm_Mounts vm,
     vm_Files := vm_Files vm, vm_SSHKey := vm_SSHKey vm, vm_Password := vm_Password vm, vm_CMDs := vm_CMDs vm,
     vm_BOOTCMDs := vm_BOOTCMDs vm, vm_CIUserData := vm_CIUserData vm, vm_Timezone := vm_Timezone vm,
     vm_OsVariant := vm_OsVariant vm\<rparr>"

definition CloudInitConfig :: "VMConfig \<Rightarrow> CIConfig" where
  "CloudInitConfig vm =
     (let ms = map (\<lambda>m. \<lparr>cm_Destination = mf_Destination m, cm_Tag = mf_Tag m\<rparr>) (vm_Mounts vm);
          fs = map (\<lambda>f. \<lparr>cf_Path = cf_Path f, cf_Content = cf_Content f, cf_Permissions = cf_Permissions f,
             cf_Encoding = cf_Encoding f, cf_Owner = cf_Owner f, cf_Group = cf_Group f\<rparr>) (vm_Files vm)
      in \<lparr>ci_VendorData = \<lparr>vd_Password = vm_Password vm, vd_SSHKey = vm_SSHKey vm, vd_RunCMD = vm_CMDs vm,
             vd_BootCMD = vm_BOOTCMDs vm, vd_Mounts = ms, vd_Files = fs, vd_Timezone = []\<rparr>,
          ci_MetaData = \<lparr>md_InstanceID = vm_Name vm, md_LocalHostname = vm_HostName vm\<rparr>,
          ci_UserData = vm_CIUserData vm\<rparr>)"

section \<open>Lemmas\<close>

lemma validLabel_iff: "validLabel s \<longleftrightarrow> s \<noteq> [] \<and> length s \<le> 63 \<and> is_alnum (hd s) \<and> is_alnum (last s)
    \<and> (\<forall>c \<in> set s. is_alnum c \<or> c = CHR ''-'')"
proof (cases s)
  case Nil
  then show ?thesis by (simp add: validLabel_def)
next
  case (Cons c rest)
  show ?thesis
  proof (cases rest rule: rev_cases)
    case Nil
    with Cons show ?thesis by (auto simp: validLabel_def)
  next
    case (snoc ys y)
    with Cons show ?thesis by (auto simp: validLabel_def list_all_iff)
  qed
qed

lemma vm_errors_plain [simp]:
  "ErrEmptyName \<noteq> MultiErr es" "ErrNotEnoughMemory \<noteq> MultiErr es" "ErrNoCPUS \<noteq> MultiErr es"
  "ErrIncompleteOSVariant \<noteq> MultiErr es" "ErrInvalidHostName \<noteq> MultiErr es"
  "MultiErr es \<noteq> ErrEmptyName" "MultiErr es \<noteq> ErrNotEnoughMemory" "MultiErr es \<noteq> ErrNoCPUS"
  "MultiErr es \<noteq> ErrIncompleteOSVariant" "MultiErr es \<noteq> ErrInvalidHostName"
  by (simp_all add: ErrEmptyName_def ErrNotEnoughMemory_def ErrNoCPUS_def ErrIncompleteOSVariant_def
      ErrInvalidHostName_def)

lemma Interfaces_Validate_not_empty: "snd (Interfaces_Validate ns) \<noteq> Some (MultiErr [])"
  by (auto simp: Interfaces_Validate_def Let_def split: prod.splits)

lemma VM_Validate_None: "snd (VM_Validate vm) = None \<longleftrightarrow> vm_Name vm \<noteq> [] \<and> minMemoryMB \<le> vm_Memory vm
    \<and> (\<forall>v. vm_OsVariant vm = Some v \<longrightarrow> os_Arch v \<noteq> [] \<or> os_Machine v \<noteq> []) \<and> 1 \<le> vm_CPUs vm
    \<and> (vm_HostName vm = [] \<or> IsValidLabel (vm_HostName vm)) \<and> snd (Interfaces_Validate (vm_NetworkInterfaces vm)) = None"
proof -
  obtain ns e where ne: "Interfaces_Validate (vm_NetworkInterfaces vm) = (ns, e)" by fastforce
  have "e \<noteq> Some (MultiErr [])" using Interfaces_Validate_not_empty [of "vm_NetworkInterfaces vm"] ne by simp
  then have "snd (VM_Validate vm) = None \<longleftrightarrow> vm_Name vm \<noteq> [] \<and> \<not> vm_Memory vm < minMemoryMB
    \<and> \<not> (case vm_OsVariant vm of None \<Rightarrow> False | Some v \<Rightarrow> os_Arch v = [] \<and> os_Machine v = [])
    \<and> \<not> vm_CPUs vm < 1 \<and> \<not> (vm_HostName vm \<noteq> [] \<and> \<not> IsValidLabel (vm_HostName vm)) \<and> e = None"
    by (simp add: VM_Validate_def ne mappends_Nil del: mappends_simps)
  then show ?thesis using ne by (auto split: option.splits)
qed

section \<open>Properties\<close>

text \<open>
  C39. A host name is accepted exactly when it is a lower case DNS label: 1 to 63 bytes, letters,
  digits and hyphens, with a letter or digit at both ends. The separate length check adds nothing
  to the pattern.
\<close>

theorem ValidateHostName_iff:
  "ValidateHostName s = None \<longleftrightarrow> 1 \<le> length s \<and> length s \<le> 63 \<and> to_lower s = s \<and> is_alnum (hd s)
    \<and> is_alnum (last s) \<and> list_all (\<lambda>c. is_alnum c \<or> c = CHR ''-'') s"
  by (cases s) (auto simp: list_all_iff ValidateHostName_def IsValidLabel_def validLabel_iff maxNameLength_def)

text \<open>
  C40. Which configurations of a virtual machine are accepted, and what a copy keeps: validation
  accepts exactly a named machine with at least 500 MB, a CPU, valid network interfaces, a host
  name that is unset or a label, and an OS variant that is unset or names the architecture or the
  machine; the copy validates like the original and has the same cloud-init data, but its volumes
  are gone, and the time zone is in the cloud-init data of neither.
\<close>

theorem VM_Validate_Copy:
  "(snd (VM_Validate vm) = None \<longleftrightarrow> vm_Name vm \<noteq> [] \<and> 500 \<le> vm_Memory vm
    \<and> (\<forall>v. vm_OsVariant vm = Some v \<longrightarrow> os_Arch v \<noteq> [] \<or> os_Machine v \<noteq> []) \<and> 1 \<le> vm_CPUs vm
    \<and> (vm_HostName vm = [] \<or> IsValidLabel (vm_HostName vm)) \<and> snd (Interfaces_Validate (vm_NetworkInterfaces vm)) = None)
   \<and> snd (VM_Validate (VM_Copy vm)) = snd (VM_Validate vm)
   \<and> CloudInitConfig (VM_Copy vm) = CloudInitConfig vm \<and> vm_Volumes (VM_Copy vm) = []
   \<and> vd_Timezone (ci_VendorData (CloudInitConfig vm)) = []"
  using VM_Validate_None [of vm]
  by (simp add: minMemoryMB_def VM_Copy_def CloudInitConfig_def zero_config_def)
    (simp add: VM_Validate_def split: prod.splits)

theorem VM_Validate_Copy_witness:
  "snd (VM_Validate (zero_config\<lparr>vm_Name := ''vm'', vm_Memory := 500, vm_CPUs := 1\<rparr>)) = None
    \<and> snd (VM_Validate (zero_config\<lparr>vm_Name := ''vm'', vm_Memory := 499, vm_CPUs := 1\<rparr>)) \<noteq> None"
  using VM_Validate_Copy [of "zero_config\<lparr>vm_Name := ''vm'', vm_Memory := 500, vm_CPUs := 1\<rparr>"]
    VM_Validate_Copy [of "zero_config\<lparr>vm_Name := ''vm'', vm_Memory := 499, vm_CPUs := 1\<rparr>"]
  by (simp add: zero_config_def Interfaces_Validate_def)

end
