(* ===== verification/Domain.thy ===== *)
theory Domain
  imports VM
begin

text \<open>
  \<^verbatim>\<open>providers/libvirt/domain.go\<close>, \<^verbatim>\<open>providers/libvirt/capabilities.go\<close> and the parts of
  \<^verbatim>\<open>providers/libvirt/libvirt.go\<close> that only compute: versions, the capabilities of guests, the mount
  commands, and the domain made of a machine's configuration. The domain is the part of libvirt's
  XML document the code writes; its encoding as text belongs to the library.
\<close>

section \<open>Versions\<close>

definition majorDivisor :: nat where "majorDivisor = 1000000"
definition minorDivisor :: nat where "minorDivisor = 1000"

text \<open>\<open>strconv.Atoi\<close>: a sign, digits, and the range of a 64-bit integer.\<close>

definition Atoi :: "string \<Rightarrow> int option" where
  "Atoi s = (case (case s of c # r \<Rightarrow> if c = CHR ''-'' then (- 1, r) else if c = CHR ''+'' then (1, r) else (1, s)
       | [] \<Rightarrow> (1, [])) of
     (sign, ds) \<Rightarrow>
       if ds = [] \<or> \<not> list_all is_digit ds then None
       else let n = sign * int (dec_val ds) in
         if - (2 ^ 63) \<le> n \<and> n < 2 ^ 63 then Some n else None)"

text \<open>The sum is at 32 bits: the products are 64-bit integers, truncated by the conversion.\<close>

fun sum_parts :: "nat list \<Rightarrow> string list \<Rightarrow> 32 word \<Rightarrow> 32 word" where
  "sum_parts (d # divs) (part # parts) v =
     (case Atoi part of None \<Rightarrow> 0 | Some p \<Rightarrow> sum_parts divs parts (v + of_int (p * int d)))"
| "sum_parts _ _ v = v"

definition genVersion :: "string \<Rightarrow> 32 word" where
  "genVersion version =
     (let parts = split_on CHR ''.'' version in
      if length parts \<noteq> 3 then 0 else sum_parts [majorDivisor, minorDivisor, 1] parts 0)"

definition computeVersion :: "32 word \<Rightarrow> string" where
  "computeVersion version =
     (let major = version div of_nat majorDivisor; version = version mod of_nat majorDivisor;
          minor = version div of_nat minorDivisor; version = version mod of_nat minorDivisor
      in dec (unat major) @ ''.'' @ dec (unat minor) @ ''.'' @ dec (unat version))"

definition requiresLibvirtVersion :: "32 word \<Rightarrow> string \<Rightarrow> bool" where
  "requiresLibvirtVersion libvirtVersion version = (libvirtVersion \<ge> genVersion version)"

section \<open>Capabilities\<close>

definition MountFsVirtiofs :: string where "MountFsVirtiofs = ''vhost-user-fs-device''"
definition MountFs9p :: string where "MountFs9p = ''virtio-9p-device''"

record CapsGuest =
  cg_OSType :: string
  cg_Arch :: string
  cg_Emulator :: string
  cg_ACPI :: bool
  cg_MountFilesystems :: "string list"

record CapsHost =
  hc_Arch :: string
  hc_PM :: "(bool \<times> bool) option"

record Capabilities =
  cp_Host :: CapsHost
  cp_Guests :: "string \<rightharpoonup> CapsGuest"

definition Caps_Guest :: "Capabilities \<Rightarrow> string \<Rightarrow> CapsGuest res" where
  "Caps_Guest c arch = (case cp_Guests c arch of
     None \<Rightarrow> Fail (wrapf (''architecture '' @ quoted arch @ '' domain capabilities '') ErrNotFound [])
   | Some guest \<Rightarrow> Ok guest)"

text \<open>The file systems the emulator lists among its devices, one device a line.\<close>

definition device_line :: "string \<Rightarrow> string \<Rightarrow> bool" where
  "device_line fs line = has_prefix (''name '' @ quoted fs) line"

fun scan_devices :: "string list \<Rightarrow> string list \<Rightarrow> string list" where
  "scan_devices [] fs = fs"
| "scan_devices (line # ls) fs =
     (let fs = (if device_line MountFs9p line then List.insert MountFs9p fs else fs);
          fs = (if device_line MountFsVirtiofs line then List.insert MountFsVirtiofs fs else fs)
      in scan_devices ls fs)"

definition LoadMountFilesystems :: "(string list \<Rightarrow> ('w, string) io) \<Rightarrow> CapsGuest \<Rightarrow> ('w, CapsGuest) io" where
  "LoadMountFilesystems exec c =
     iobind (iowrap ''failed to inspect emulator devices: '' [] (exec [cg_Emulator c, ''-device'', ''?''])) (\<lambda>stdout.
       ret (c\<lparr>cg_MountFilesystems := scan_devices (split_on (CHR 0x0A) stdout) []\<rparr>))"

text \<open>Without capabilities, before \<open>Init\<close>, the dereference panics.\<close>

definition findGuestCaps :: "Capabilities option \<Rightarrow> VMConfig \<Rightarrow> CapsGuest res" where
  "findGuestCaps caps config = (case caps of
     None \<Rightarrow> Panic ''nil capabilities''
   | Some c \<Rightarrow> Caps_Guest c (case vm_OsVariant config of
         None \<Rightarrow> hc_Arch (cp_Host c)
       | Some v \<Rightarrow> if os_Arch v = [] then hc_Arch (cp_Host c) else os_Arch v))"

section \<open>Mount commands\<close>

definition mkdir_cmd :: "MountFileConfig \<Rightarrow> string" where
  "mkdir_cmd m = ''mkdir -p '' @ quoted (mf_Destination m)"

definition mount_cmd :: "string \<Rightarrow> MountFileConfig \<Rightarrow> string" where
  "mount_cmd how m = ''mountpoint -q '' @ quoted (mf_Destination m) @ '' || mount -t '' @ how
     @ '' '' @ mf_Tag m @ '' '' @ quoted (mf_Destination m)"

definition generateVirtiofsMountCmds :: "MountFileConfig \<Rightarrow> string list \<times> MountFileConfig" where
  "generateVirtiofsMountCmds m =
     ([mkdir_cmd m, mount_cmd (''virtiofs'' @ (if mf_ReadOnly m then '' -o ro'' else [])) m],
      m\<lparr>mf_Driver := MountFsVirtiofs\<rparr>)"

definition generate9pMountCmds :: "MountFileConfig \<Rightarrow> string list \<times> MountFileConfig" where
  "generate9pMountCmds m =
     ([mkdir_cmd m, mount_cmd (''9p -o trans=virtio'' @ (if mf_ReadOnly m then '',ro'' else [])) m],
      m\<lparr>mf_Driver := MountFs9p\<rparr>)"

text \<open>
  The commands of the mounts and the mounts with their driver. \<open>virtiofsRO\<close> says whether virtiofs
  may be used for a read-only mount.
\<close>

fun mount_cmds :: "CapsGuest \<Rightarrow> bool \<Rightarrow> MountFileConfig list \<Rightarrow> (string list \<times> MountFileConfig list) res" where
  "mount_cmds guest virtiofsRO [] = Ok ([], [])"
| "mount_cmds guest virtiofsRO (m # ms) =
     rbind
       (if mf_ReadOnly m \<and> \<not> virtiofsRO then
          (if MountFs9p \<notin> set (cg_MountFilesystems guest)
           then Fail (wrapf ''read-only virtiofs mount '' ErrNotSupported
             '' - libvirt version 11.0.0 or greater required'')
           else Ok (generate9pMountCmds m))
        else if MountFsVirtiofs \<in> set (cg_MountFilesystems guest) then Ok (generateVirtiofsMountCmds m)
        else if MountFs9p \<in> set (cg_MountFilesystems guest) then Ok (generate9pMountCmds m)
        else Fail (wrapf ''mounting '' ErrNotSupported '' - no supported filesystems available''))
       (\<lambda>(cs, m'). rbind (mount_cmds guest virtiofsRO ms) (\<lambda>(cmds, ms'). Ok (cs @ cmds, m' # ms')))"

definition GenerateMountCommands ::
  "Capabilities option \<Rightarrow> 32 word \<Rightarrow> bool \<Rightarrow> VMConfig \<Rightarrow> MountFileConfig list \<Rightarrow> (string list \<times> MountFileConfig list) res" where
  "GenerateMountCommands caps libvirtVersion insecure config mounts =
     rbind (findGuestCaps caps config) (\<lambda>guest.
       let virtiofsRO = requiresLibvirtVersion libvirtVersion ''11.0.0'';
           virtiofsRO = (if \<not> virtiofsRO \<and> insecure then True else virtiofsRO)
       in mount_cmds guest virtiofsRO mounts)"

section \<open>Domains\<close>

record domfs =
  fs_AccessMode :: string
  fs_ReadOnly :: bool
  fs_SourceDir :: string
  fs_TargetDir :: string
  fs_Driver :: "(string \<times> nat) option"

datatype ifsource = BridgeSource string | DirectSource string string | NoSource

record domiface =
  if_Source :: ifsource
  if_Model :: string

record domdesc =
  dm_Type :: string
  dm_Name :: string
  dm_OnPoweroff :: string
  dm_OnReboot :: string
  dm_OnCrash :: string
  dm_Partition :: string
  dm_VCPU :: "(string \<times> nat \<times> string) option"
  dm_Memory :: "(nat \<times> string) option"
  dm_HardLimit :: "(nat \<times> string) option"
  dm_Backing :: "(string \<times> string) option"
  dm_OS :: "(string \<times> string \<times> string) option"
  dm_PM :: "(string option \<times> string option) option"
  dm_ACPI :: bool
  dm_Consoles :: "(string \<times> string) list"
  dm_Channels :: "string list"
  dm_Disks :: "(domaindisk \<times> nat option) list"
  dm_Filesystems :: "domfs list"
  dm_Interfaces :: "domiface list"
  dm_RNGs :: "(string \<times> string) list"

text \<open>What the generators read of the provider.\<close>

record 'w genenv =
  g_caps :: "Capabilities option"
  g_insecure :: bool
  g_storage :: "'w storage option"

definition configureDomainProcessors :: "'w genenv \<Rightarrow> VMConfig \<Rightarrow> domdesc \<Rightarrow> ('w, domdesc) io" where
  "configureDomainProcessors p config dmn =
     ret (dmn\<lparr>dm_VCPU := Some (''static'', vm_CPUs config, vm_CPUset config)\<rparr>)"

definition configureDomainMemory :: "'w genenv \<Rightarrow> VMConfig \<Rightarrow> domdesc \<Rightarrow> ('w, domdesc) io" where
  "configureDomainMemory p config dmn =
     ret (dmn\<lparr>dm_Memory := Some (vm_Memory config, ''M''), dm_HardLimit := Some (vm_Memory config, ''M''),
       dm_Backing := Some (''memfd'', ''shared'')\<rparr>)"

definition configureDomainOS :: "'w genenv \<Rightarrow> VMConfig \<Rightarrow> domdesc \<Rightarrow> ('w, domdesc) io" where
  "configureDomainOS p config dmn = iobind (lift (findGuestCaps (g_caps p) config)) (\<lambda>guestCaps.
     ret (dmn\<lparr>dm_OS := Some (cg_OSType guestCaps,
       (case vm_OsVariant config of None \<Rightarrow> [] | Some v \<Rightarrow> os_Arch v),
       (case vm_OsVariant config of None \<Rightarrow> [] | Some v \<Rightarrow> os_Machine v))\<rparr>))"

definition configureDomainPowerManagement :: "'w genenv \<Rightarrow> VMConfig \<Rightarrow> domdesc \<Rightarrow> ('w, domdesc) io" where
  "configureDomainPowerManagement p config dmn = (case g_caps p of
     None \<Rightarrow> lift (Panic ''nil capabilities'')
   | Some c \<Rightarrow> (case hc_PM (cp_Host c) of
       None \<Rightarrow> ret dmn
     | Some (mem, disk) \<Rightarrow> ret (dmn\<lparr>dm_PM := Some (if mem then Some ''no'' else None,
         if disk then Some ''no'' else None)\<rparr>)))"

definition configureDomainFeatures :: "'w genenv \<Rightarrow> VMConfig \<Rightarrow> domdesc \<Rightarrow> ('w, domdesc) io" where
  "configureDomainFeatures p config dmn = iobind (lift (findGuestCaps (g_caps p) config)) (\<lambda>caps.
     ret (if cg_ACPI caps then dmn\<lparr>dm_ACPI := True\<rparr> else dmn))"

definition configureDomainDeviceConsoles :: "'w genenv \<Rightarrow> VMConfig \<Rightarrow> domdesc \<Rightarrow> ('w, domdesc) io" where
  "configureDomainDeviceConsoles p config dmn =
     ret (dmn\<lparr>dm_Consoles := [(''pty'', ''serial''), (''pty'', ''virtio'')]\<rparr>)"

definition configureDomainDeviceChannels :: "'w genenv \<Rightarrow> VMConfig \<Rightarrow> domdesc \<Rightarrow> ('w, domdesc) io" where
  "configureDomainDeviceChannels p config dmn = ret (dmn\<lparr>dm_Channels := []\<rparr>)"

definition configureDomainDeviceRNG :: "'w genenv \<Rightarrow> VMConfig \<Rightarrow> domdesc \<Rightarrow> ('w, domdesc) io" where
  "configureDomainDeviceRNG p config dmn = ret (dmn\<lparr>dm_RNGs := [(''virtio'', ''/dev/urandom'')]\<rparr>)"

text \<open>A storage that was never set up is a nil pointer; a volume that is a block device does not read it.\<close>

definition volume_disk :: "'w storage option \<Rightarrow> Volume \<Rightarrow> ('w, domaindisk \<times> nat option) io" where
  "volume_disk st fd =
     iobind (case st of
         Some s \<Rightarrow> VolumeToDisk s fd
       | None \<Rightarrow> if v_Block fd \<noteq> [] then ret (disk_of fd (Some (SourceBlock (v_Block fd))))
                 else lift (Panic ''nil storage'')) (\<lambda>disk.
     ret (disk, if v_Primary fd then Some 1 else None))"

fun volume_disks :: "'w storage option \<Rightarrow> Volume list \<Rightarrow> ('w, (domaindisk \<times> nat option) list) io" where
  "volume_disks st [] = ret []"
| "volume_disks st (fd # vols) =
     iobind (volume_disk st fd) (\<lambda>d. iobind (volume_disks st vols) (\<lambda>ds. ret (d # ds)))"

definition generateDomainDeviceDisks :: "'w genenv \<Rightarrow> VMConfig \<Rightarrow> domdesc \<Rightarrow> ('w, domdesc) io" where
  "generateDomainDeviceDisks p config dmn =
     iobind (volume_disks (g_storage p) (vm_Volumes config)) (\<lambda>result. ret (dmn\<lparr>dm_Disks := result\<rparr>))"

definition domain_interface :: "NetworkInterfaceConfig \<Rightarrow> domiface" where
  "domain_interface iface = (case ni_Bridge iface of
     Some b \<Rightarrow> \<lparr>if_Source = BridgeSource (br_Name b), if_Model = ''virtio''\<rparr>
   | None \<Rightarrow> (case ni_Macvtap iface of
       Some m \<Rightarrow> \<lparr>if_Source = DirectSource (mv_Device m) (mv_Mode m), if_Model = ''virtio''\<rparr>
     | None \<Rightarrow> \<lparr>if_Source = NoSource, if_Model = []\<rparr>))"

definition generateDomainDeviceInterfaces :: "'w genenv \<Rightarrow> VMConfig \<Rightarrow> domdesc \<Rightarrow> ('w, domdesc) io" where
  "generateDomainDeviceInterfaces p config dmn =
     ret (dmn\<lparr>dm_Interfaces := map domain_interface (vm_NetworkInterfaces config)\<rparr>)"

definition virtiofsQueueSize :: nat where "virtiofsQueueSize = 1024"

definition domain_filesystem :: "bool \<Rightarrow> MountFileConfig \<Rightarrow> domfs" where
  "domain_filesystem insecure m =
     (let mount = \<lparr>fs_AccessMode = ''mapped'', fs_ReadOnly = mf_ReadOnly m, fs_SourceDir = mf_Source m,
        fs_TargetDir = mf_Tag m, fs_Driver = None\<rparr>
      in if mf_Driver m = MountFsVirtiofs then
           mount\<lparr>fs_AccessMode := ''passthrough'', fs_Driver := Some (''virtiofs'', virtiofsQueueSize),
             fs_ReadOnly := (if insecure then False else fs_ReadOnly mount)\<rparr>
         else mount)"

definition generateDomainDeviceFilesystems :: "'w genenv \<Rightarrow> VMConfig \<Rightarrow> domdesc \<Rightarrow> ('w, domdesc) io" where
  "generateDomainDeviceFilesystems p config dmn =
     ret (dmn\<lparr>dm_Filesystems := map (domain_filesystem (g_insecure p)) (vm_Mounts config)\<rparr>)"

definition base_domain :: "VMConfig \<Rightarrow> domdesc" where
  "base_domain config = \<lparr>dm_Type = ''kvm'', dm_Name = vm_Name config, dm_OnPoweroff = ''destroy'',
     dm_OnReboot = ''restart'', dm_OnCrash = ''destroy'', dm_Partition = ''/machine'', dm_VCPU = None,
     dm_Memory = None, dm_HardLimit = None, dm_Backing = None, dm_OS = None, dm_PM = None, dm_ACPI = False,
     dm_Consoles = [], dm_Channels = [], dm_Disks = [], dm_Filesystems = [], dm_Interfaces = [], dm_RNGs = []\<rparr>"

definition generators :: "('w genenv \<Rightarrow> VMConfig \<Rightarrow> domdesc \<Rightarrow> ('w, domdesc) io) list" where
  "generators = [configureDomainProcessors, configureDomainMemory, configureDomainOS,
     configureDomainPowerManagement, configureDomainFeatures, configureDomainDeviceConsoles,
     configureDomainDeviceChannels, generateDomainDeviceDisks, generateDomainDeviceFilesystems,
     generateDomainDeviceInterfaces, configureDomainDeviceRNG]"

definition generateDomain :: "'w genenv \<Rightarrow> VMConfig \<Rightarrow> ('w, domdesc) io" where
  "generateDomain p config =
     iofold (\<lambda>genFn dmn. iowrap ''failed to create domain: '' [] (genFn p config dmn)) generators (base_domain config)"

section \<open>Lemmas\<close>

lemma digit_not_sign: "is_digit c \<Longrightarrow> c \<noteq> CHR ''-'' \<and> c \<noteq> CHR ''+'' \<and> c \<noteq> CHR ''.''"
  by (auto simp: is_digit_def)

lemma Atoi_dec: "int n < 2 ^ 63 \<Longrightarrow> Atoi (dec n) = Some (int n)"
  using dec_digits [of n] dec_nonempty [of n] dec_val_dec [of n]
  by (cases "dec n") (auto simp: Atoi_def Let_def dest: digit_not_sign)

lemma dec_no_dot: "CHR ''.'' \<notin> set (dec n)"
  using dec_digits [of n] by (auto simp: list_all_iff dest: digit_not_sign)

lemma split_version: "split_on CHR ''.'' (dec a @ ''.'' @ dec b @ ''.'' @ dec c) = [dec a, dec b, dec c]"
  using dec_no_dot by (simp add: split_on_append split_on_single)

lemma genVersion_dec:
  assumes "int a < 2 ^ 63" "int b < 2 ^ 63" "int c < 2 ^ 63"
  shows "genVersion (dec a @ ''.'' @ dec b @ ''.'' @ dec c) = of_nat (a * majorDivisor + b * minorDivisor + c)"
  by (simp add: genVersion_def split_version [simplified] Let_def Atoi_dec [OF assms(1)] Atoi_dec [OF assms(2)]
      Atoi_dec [OF assms(3)])

lemma small_word: "int (unat (x :: 32 word)) < 2 ^ 63"
proof -
  have "unat x < 2 ^ LENGTH(32)" by (rule unsigned_less)
  then have "int (unat x) < int (2 ^ LENGTH(32))" by (simp only: of_nat_less_iff)
  also have "\<dots> < 2 ^ 63" by simp
  finally show ?thesis .
qed

lemma VolumeToDisk_disk:
  assumes "VolumeToDisk s v w = (Ok d, w')"
  shows "d = disk_of v (dd_Source d) \<and> dd_Source d \<noteq> None"
proof (cases "v_Block v = []")
  case True
  with assms obtain pool where pool: "GetPool s (v_Pool v) = Ok pool"
    by (auto simp: VolumeToDisk_def iobind_Ok lift_def)
  from assms True pool show ?thesis
    by (cases "p_kind pool") (auto simp: VolumeToDisk_def iobind_Ok ret_def lift_def disk_of_def split: option.splits)
next
  case False
  with assms show ?thesis by (auto simp: VolumeToDisk_def ret_def disk_of_def)
qed

definition disk_matches :: "Volume \<Rightarrow> domaindisk \<times> nat option \<Rightarrow> bool" where
  "disk_matches v db \<longleftrightarrow> fst db = disk_of v (dd_Source (fst db)) \<and> dd_Source (fst db) \<noteq> None
     \<and> (snd db = Some 1 \<longleftrightarrow> v_Primary v)"

lemma volume_disk_matches: "volume_disk st v w = (Ok db, w') \<Longrightarrow> disk_matches v db"
  by (auto simp: volume_disk_def iobind_Ok ret_def lift_def disk_matches_def disk_of_def
      split: option.splits if_splits dest: VolumeToDisk_disk)

lemma volume_disks_match: "volume_disks st vols w = (Ok ds, w') \<Longrightarrow> list_all2 disk_matches vols ds"
  by (induction vols arbitrary: w ds) (auto simp: iobind_Ok ret_def dest: volume_disk_matches)

text \<open>What each generator that can fail writes.\<close>

lemma generator_results:
  "configureDomainOS p c d w = (Ok d', w') \<Longrightarrow> \<exists>x. d' = d\<lparr>dm_OS := x\<rparr>"
  "configureDomainPowerManagement p c d w = (Ok d', w') \<Longrightarrow> \<exists>x. d' = d\<lparr>dm_PM := x\<rparr>"
  "configureDomainFeatures p c d w = (Ok d', w') \<Longrightarrow> \<exists>x. d' = d\<lparr>dm_ACPI := x\<rparr>"
  "generateDomainDeviceDisks p c d w = (Ok d', w') \<Longrightarrow>
     \<exists>x. d' = d\<lparr>dm_Disks := x\<rparr> \<and> list_all2 disk_matches (vm_Volumes c) x
       \<and> volume_disks (g_storage p) (vm_Volumes c) w = (Ok x, w')"
proof -
  show "\<exists>x. d' = d\<lparr>dm_OS := x\<rparr>" if "configureDomainOS p c d w = (Ok d', w')"
    using that by (auto simp: configureDomainOS_def iobind_Ok ret_def)
  have pm: "\<exists>x. d = d\<lparr>dm_PM := x\<rparr>" by (rule exI [of _ "dm_PM d"]) simp
  show "\<exists>x. d' = d\<lparr>dm_PM := x\<rparr>" if "configureDomainPowerManagement p c d w = (Ok d', w')"
    using that pm by (auto simp: configureDomainPowerManagement_def ret_def lift_def split: option.splits)
  have acpi: "\<exists>x. d = d\<lparr>dm_ACPI := x\<rparr>" by (rule exI [of _ "dm_ACPI d"]) simp
  show "\<exists>x. d' = d\<lparr>dm_ACPI := x\<rparr>" if "configureDomainFeatures p c d w = (Ok d', w')"
    using that acpi by (auto simp: configureDomainFeatures_def iobind_Ok ret_def split: if_splits)
  show "\<exists>x. d' = d\<lparr>dm_Disks := x\<rparr> \<and> list_all2 disk_matches (vm_Volumes c) x
       \<and> volume_disks (g_storage p) (vm_Volumes c) w = (Ok x, w')"
    if "generateDomainDeviceDisks p c d w = (Ok d', w')"
    using that by (auto simp: generateDomainDeviceDisks_def iobind_Ok ret_def dest: volume_disks_match)
qed

lemma divide_again: "n div 1000000 * 1000000 + n mod 1000000 div 1000 * 1000 + n mod 1000000 mod 1000 = (n :: nat)"
proof -
  have "n mod 1000000 div 1000 * 1000 + n mod 1000000 mod 1000 = n mod 1000000" by (rule div_mult_mod_eq)
  moreover have "n div 1000000 * 1000000 + n mod 1000000 = n" by (rule div_mult_mod_eq)
  ultimately show ?thesis by linarith
qed

lemma genVersion_computeVersion: "genVersion (computeVersion v) = v"
proof -
  let ?n = "unat v"
  have parts: "unat (v div 1000000) = ?n div 1000000" "unat (v mod 1000000) = ?n mod 1000000"
    "unat (v mod 1000000 div 1000) = ?n mod 1000000 div 1000" "unat (v mod 1000000 mod 1000) = ?n mod 1000000 mod 1000"
    by (simp_all add: unat_div_distrib unat_mod_distrib)
  have "genVersion (computeVersion v) = of_nat (?n div 1000000 * 1000000 + ?n mod 1000000 div 1000 * 1000
      + ?n mod 1000000 mod 1000)"
    using genVersion_dec [OF small_word small_word small_word, of "v div 1000000" "v mod 1000000 div 1000"
        "v mod 1000000 mod 1000"]
    by (simp only: computeVersion_def Let_def majorDivisor_def minorDivisor_def of_nat_numeral parts)
  also have "\<dots> = v" by (simp only: divide_again) simp
  finally show ?thesis .
qed

section \<open>Properties\<close>

text \<open>
  The text computed from a libvirt version number is read back to the same number, for all
  \<open>2 ^ 32\<close> of them, so comparing with a version text is comparing the numbers.
\<close>

theorem version_roundtrip:
  "genVersion (computeVersion v) = v \<and> (requiresLibvirtVersion u (computeVersion v) \<longleftrightarrow> v \<le> u)"
  by (simp add: genVersion_computeVersion requiresLibvirtVersion_def)

definition readonly_cmds :: "MountFileConfig \<Rightarrow> string set" where
  "readonly_cmds m = {mount_cmd ''virtiofs -o ro'' m, mount_cmd ''9p -o trans=virtio,ro'' m}"

lemma mount_cmds_result:
  assumes "mount_cmds guest ro ms = Ok (cmds, ms')"
  shows "list_all2 (\<lambda>m m'. m' = m\<lparr>mf_Driver := mf_Driver m'\<rparr>
      \<and> (mf_ReadOnly m \<longrightarrow> set cmds \<inter> readonly_cmds m \<noteq> {}
        \<and> (mf_Driver m' = MountFsVirtiofs \<longrightarrow> ro))) ms ms'"
  using assms
proof (induction ms arbitrary: cmds ms')
  case Nil
  then show ?case by simp
next
  case (Cons m ms)
  from Cons.prems obtain cs m' cmds0 ms0 where first: "cs = fst (generate9pMountCmds m) \<and> m' = snd (generate9pMountCmds m)
      \<or> (cs = fst (generateVirtiofsMountCmds m) \<and> m' = snd (generateVirtiofsMountCmds m)
        \<and> (mf_ReadOnly m \<longrightarrow> ro))"
    and rest: "mount_cmds guest ro ms = Ok (cmds0, ms0)" "cmds = cs @ cmds0" "ms' = m' # ms0"
    by (auto simp: rbind_Ok split: if_splits)
  have m': "m' = m\<lparr>mf_Driver := mf_Driver m'\<rparr>"
    "mf_ReadOnly m \<Longrightarrow> set cs \<inter> readonly_cmds m \<noteq> {} \<and> (mf_Driver m' = MountFsVirtiofs \<longrightarrow> ro)"
    using first by (auto simp: generate9pMountCmds_def generateVirtiofsMountCmds_def readonly_cmds_def
        MountFsVirtiofs_def MountFs9p_def)
  have "list_all2 (\<lambda>m m'. m' = m\<lparr>mf_Driver := mf_Driver m'\<rparr>
      \<and> (mf_ReadOnly m \<longrightarrow> set cmds \<inter> readonly_cmds m \<noteq> {}
        \<and> (mf_Driver m' = MountFsVirtiofs \<longrightarrow> ro))) ms ms0"
    by (rule list_all2_mono [OF Cons.IH [OF rest(1)]]) (use rest(2) in auto)
  with m' rest(2,3) show ?case by auto
qed

text \<open>
  C30. A read-only mount stays read-only in the guest and, unless insecure mounts were allowed, on
  the host: whenever the commands of the mounts can be generated, only the driver of a mount is
  written, its mount command has the read-only option, and the file system of the domain is
  read-only unless it is virtiofs and insecure mounts are allowed; virtiofs is used for it only
  from libvirt 11.0.0 on, or with insecure mounts.
\<close>

theorem readonly_mounts:
  assumes "GenerateMountCommands caps version insecure config ms = Ok (cmds, ms')"
  shows "list_all2 (\<lambda>m m'. m' = m\<lparr>mf_Driver := mf_Driver m'\<rparr>
      \<and> (mf_ReadOnly m \<longrightarrow> set cmds \<inter> readonly_cmds m \<noteq> {}
        \<and> (mf_Driver m' = MountFsVirtiofs \<longrightarrow> insecure \<or> genVersion ''11.0.0'' \<le> version)
        \<and> (fs_ReadOnly (domain_filesystem insecure m') \<longleftrightarrow> \<not> (insecure \<and> mf_Driver m' = MountFsVirtiofs)))) ms ms'"
proof -
  from assms obtain guest where "mount_cmds guest (genVersion ''11.0.0'' \<le> version \<or> insecure) ms = Ok (cmds, ms')"
    by (auto simp: GenerateMountCommands_def rbind_Ok Let_def requiresLibvirtVersion_def split: if_splits)
  from mount_cmds_result [OF this] show ?thesis
  proof (rule list_all2_mono)
    fix m m'
    assume m: "m' = m\<lparr>mf_Driver := mf_Driver m'\<rparr> \<and> (mf_ReadOnly m \<longrightarrow> set cmds \<inter> readonly_cmds m \<noteq> {}
        \<and> (mf_Driver m' = MountFsVirtiofs \<longrightarrow> genVersion ''11.0.0'' \<le> version \<or> insecure))"
    then have "mf_ReadOnly m' = mf_ReadOnly m" by (metis MountFileConfig.select_convs(3) MountFileConfig.surjective
        MountFileConfig.update_convs(5))
    with m show "m' = m\<lparr>mf_Driver := mf_Driver m'\<rparr>
      \<and> (mf_ReadOnly m \<longrightarrow> set cmds \<inter> readonly_cmds m \<noteq> {}
        \<and> (mf_Driver m' = MountFsVirtiofs \<longrightarrow> insecure \<or> genVersion ''11.0.0'' \<le> version)
        \<and> (fs_ReadOnly (domain_filesystem insecure m') \<longleftrightarrow> \<not> (insecure \<and> mf_Driver m' = MountFsVirtiofs)))"
      by (auto simp: domain_filesystem_def Let_def)
  qed
qed

definition share :: MountFileConfig where
  "share = \<lparr>mf_Source = ''/alloc'', mf_Destination = ''/alloc'', mf_ReadOnly = True, mf_Tag = ''alloc'', mf_Driver = []\<rparr>"

definition kvm_caps :: Capabilities where
  "kvm_caps = \<lparr>cp_Host = \<lparr>hc_Arch = ''x86_64'', hc_PM = None\<rparr>,
     cp_Guests = [''x86_64'' \<mapsto> \<lparr>cg_OSType = ''hvm'', cg_Arch = ''x86_64'', cg_Emulator = ''/usr/bin/qemu'',
       cg_ACPI = True, cg_MountFilesystems = [MountFsVirtiofs]\<rparr>]\<rparr>"

theorem readonly_mounts_witness:
  "\<exists>cmds m'. GenerateMountCommands (Some kvm_caps) 0 True zero_config [share] = Ok (cmds, [m'])
    \<and> \<not> fs_ReadOnly (domain_filesystem True m')"
proof -
  have v: "genVersion ''11.0.0'' = 11000000"
    by (simp add: genVersion_def majorDivisor_def minorDivisor_def Atoi_def is_digit_def dec_val_def digit_val_def)
  have run: "GenerateMountCommands (Some kvm_caps) 0 True zero_config [share]
      = Ok (fst (generateVirtiofsMountCmds share), [snd (generateVirtiofsMountCmds share)])"
    by (simp add: GenerateMountCommands_def findGuestCaps_def Caps_Guest_def kvm_caps_def zero_config_def Let_def
        requiresLibvirtVersion_def v generateVirtiofsMountCmds_def)
  have "mf_ReadOnly share" "mf_Driver (snd (generateVirtiofsMountCmds share)) = MountFsVirtiofs"
    by (simp_all add: share_def generateVirtiofsMountCmds_def)
  with readonly_mounts [OF run] run show ?thesis by auto
qed

lemma generateDomain_run:
  assumes "generateDomain p config w = (Ok d, w')"
  shows "\<exists>os pm acpi ds w1. list_all2 disk_matches (vm_Volumes config) ds
    \<and> volume_disks (g_storage p) (vm_Volumes config) w1 = (Ok ds, w')
    \<and> d = (base_domain config)\<lparr>dm_VCPU := Some (''static'', vm_CPUs config, vm_CPUset config),
       dm_Memory := Some (vm_Memory config, ''M''), dm_HardLimit := Some (vm_Memory config, ''M''),
       dm_Backing := Some (''memfd'', ''shared''), dm_OS := os, dm_PM := pm, dm_ACPI := acpi,
       dm_Consoles := [(''pty'', ''serial''), (''pty'', ''virtio'')], dm_Channels := [], dm_Disks := ds,
       dm_Filesystems := map (domain_filesystem (g_insecure p)) (vm_Mounts config),
       dm_Interfaces := map domain_interface (vm_NetworkInterfaces config), dm_RNGs := [(''virtio'', ''/dev/urandom'')]\<rparr>"
proof -
  from assms obtain d2 w2 d3 w3 d4 w4 d7 where
    os: "configureDomainOS p config (base_domain config\<lparr>dm_VCPU := Some (''static'', vm_CPUs config, vm_CPUset config),
       dm_Memory := Some (vm_Memory config, ''M''), dm_HardLimit := Some (vm_Memory config, ''M''),
       dm_Backing := Some (''memfd'', ''shared'')\<rparr>) w = (Ok d2, w2)"
    and pm: "configureDomainPowerManagement p config d2 w2 = (Ok d3, w3)"
    and feat: "configureDomainFeatures p config d3 w3 = (Ok d4, w4)"
    and disks: "generateDomainDeviceDisks p config
      (d4\<lparr>dm_Consoles := [(''pty'', ''serial''), (''pty'', ''virtio'')], dm_Channels := []\<rparr>) w4 = (Ok d7, w')"
    and d: "d = d7\<lparr>dm_Filesystems := map (domain_filesystem (g_insecure p)) (vm_Mounts config),
      dm_Interfaces := map domain_interface (vm_NetworkInterfaces config), dm_RNGs := [(''virtio'', ''/dev/urandom'')]\<rparr>"
    by (auto simp: generateDomain_def generators_def iobind_Ok ret_def
      configureDomainProcessors_def configureDomainMemory_def configureDomainDeviceConsoles_def
      configureDomainDeviceChannels_def generateDomainDeviceFilesystems_def
      generateDomainDeviceInterfaces_def configureDomainDeviceRNG_def)
  from generator_results(1) [OF os] generator_results(2) [OF pm] generator_results(3) [OF feat]
    generator_results(4) [OF disks] d
  show ?thesis by fastforce
qed

lemma generateDomain_disks:
  "generateDomain p config w = (Ok d, w') \<Longrightarrow> \<exists>w1. volume_disks (g_storage p) (vm_Volumes config) w1 = (Ok (dm_Disks d), w')"
  by (drule generateDomain_run) auto

lemma generateDomain_name: "generateDomain p config w = (Ok d, w') \<Longrightarrow> dm_Name d = vm_Name config"
  by (drule generateDomain_run) (auto simp: base_domain_def)

text \<open>
  C36. The domain made of a configuration: its name, processors and memory are the configured ones,
  it has a disk for every volume, in order, with the volume's device and a source, of which exactly
  those of primary volumes are marked to boot, an interface for every network interface and a
  file system for every mount.
\<close>

theorem generateDomain_result:
  assumes "generateDomain p config w = (Ok d, w')"
  shows "dm_Name d = vm_Name config \<and> dm_VCPU d = Some (''static'', vm_CPUs config, vm_CPUset config)
    \<and> dm_Memory d = Some (vm_Memory config, ''M'') \<and> dm_HardLimit d = Some (vm_Memory config, ''M'')
    \<and> list_all2 disk_matches (vm_Volumes config) (dm_Disks d)
    \<and> dm_Interfaces d = map domain_interface (vm_NetworkInterfaces config)
    \<and> dm_Filesystems d = map (domain_filesystem (g_insecure p)) (vm_Mounts config)"
  using generateDomain_run [OF assms] by (auto simp: base_domain_def)

definition kvm_env :: "(volh \<rightharpoonup> volxml) genenv" where
  "kvm_env = \<lparr>g_caps = Some kvm_caps, g_insecure = False, g_storage = None\<rparr>"

theorem generateDomain_result_witness:
  "\<exists>d w'. generateDomain kvm_env (zero_config\<lparr>vm_Name := ''vm'', vm_CPUs := 2,
       vm_Volumes := [empty_volume\<lparr>v_Block := ''/dev/sdb'', v_Primary := True\<rparr>]\<rparr>) Map.empty = (Ok d, w')
     \<and> length (dm_Disks d) = 1 \<and> snd (hd (dm_Disks d)) = Some 1"
proof -
  let ?c = "zero_config\<lparr>vm_Name := ''vm'', vm_CPUs := 2,
       vm_Volumes := [empty_volume\<lparr>v_Block := ''/dev/sdb'', v_Primary := True\<rparr>]\<rparr>"
  have "\<exists>d w'. generateDomain kvm_env ?c Map.empty = (Ok d, w')"
    by (simp add: generateDomain_def generators_def base_domain_def io_simps iowrap_def
      configureDomainProcessors_def configureDomainMemory_def configureDomainOS_def
      configureDomainPowerManagement_def configureDomainFeatures_def configureDomainDeviceConsoles_def
      configureDomainDeviceChannels_def generateDomainDeviceDisks_def generateDomainDeviceFilesystems_def
      generateDomainDeviceInterfaces_def configureDomainDeviceRNG_def kvm_env_def kvm_caps_def zero_config_def
      findGuestCaps_def Caps_Guest_def volume_disk_def empty_volume_def)
  then obtain d w' where run: "generateDomain kvm_env ?c Map.empty = (Ok d, w')" by blast
  from generateDomain_result [OF run] have "list_all2 disk_matches (vm_Volumes ?c) (dm_Disks d)" by blast
  with run show ?thesis by (auto simp: zero_config_def list_all2_Cons1 disk_matches_def empty_volume_def)
qed

end
