(* ===== verification/Libvirt.thy ===== *)
theory Libvirt
  imports Domain Config
begin

text \<open>
  \<^verbatim>\<open>providers/libvirt/libvirt.go\<close>: the provider, its connection to the daemon, the life of the
  virtual machines, storage pools and secrets. The libvirt library is the record \<open>virt\<close>; a
  connection is a number, a domain, pool, secret or network is known by its name. The state is the
  provider's fields beside the world. The storage calls back into the provider, so its world is that
  pair and it is passed beside the provider. The mutex makes every use of the connection atomic;
  references that are freed leave no trace in the model.
\<close>

section \<open>Base64\<close>

text \<open>
  \<open>base64.StdEncoding\<close>: three bytes are four characters, the last group padded. The decoder skips
  line breaks and ignores the unused bits of the last character.
\<close>

definition b64_char :: "nat \<Rightarrow> char" where
  "b64_char n = (if n < 26 then char_of (65 + n) else if n < 52 then char_of (71 + n)
     else if n < 62 then char_of (n - 4) else if n = 62 then CHR ''+'' else CHR ''/'')"

definition b64_val :: "char \<Rightarrow> nat option" where
  "b64_val c = (let n = (of_char c :: nat) in
     if 65 \<le> n \<and> n \<le> 90 then Some (n - 65) else if 97 \<le> n \<and> n \<le> 122 then Some (n - 71)
     else if 48 \<le> n \<and> n \<le> 57 then Some (n + 4) else if n = 43 then Some 62 else if n = 47 then Some 63 else None)"

fun b64_encode :: "string \<Rightarrow> string" where
  "b64_encode (a # b # c # s) =
     (let x = (of_char a :: nat); y = of_char b; z = of_char c in
      b64_char (x div 4) # b64_char (x mod 4 * 16 + y div 16) # b64_char (y mod 16 * 4 + z div 64)
      # b64_char (z mod 64) # b64_encode s)"
| "b64_encode [a, b] =
     (let x = (of_char a :: nat); y = of_char b in
      [b64_char (x div 4), b64_char (x mod 4 * 16 + y div 16), b64_char (y mod 16 * 4), CHR ''=''])"
| "b64_encode [a] =
     (let x = (of_char a :: nat) in [b64_char (x div 4), b64_char (x mod 4 * 16), CHR ''='', CHR ''=''])"
| "b64_encode [] = []"

fun b64_groups :: "string \<Rightarrow> string option" where
  "b64_groups [] = Some []"
| "b64_groups (p # q # r # t # s) =
     (case (b64_val p, b64_val q) of
        (Some x, Some y) \<Rightarrow>
          if r = CHR ''='' \<and> t = CHR ''='' \<and> s = [] then Some [char_of (x * 4 + y div 16)]
          else (case b64_val r of
            None \<Rightarrow> None
          | Some z \<Rightarrow>
              if t = CHR ''='' \<and> s = [] then Some [char_of (x * 4 + y div 16), char_of (y mod 16 * 16 + z div 4)]
              else (case (b64_val t, b64_groups s) of
                (Some u, Some rest) \<Rightarrow> Some (char_of (x * 4 + y div 16) # char_of (y mod 16 * 16 + z div 4)
                   # char_of (z mod 4 * 64 + u) # rest)
              | _ \<Rightarrow> None))
      | _ \<Rightarrow> None)"
| "b64_groups s = None"

definition b64_decode :: "string \<Rightarrow> string option" where
  "b64_decode s = b64_groups (filter (\<lambda>c. c \<noteq> CHR 0x0A \<and> c \<noteq> CHR 0x0D) s)"

section \<open>The library and the provider\<close>

datatype domxml = RawXML string | DomainXML domdesc

datatype domstate = DOMAIN_RUNNING | DOMAIN_NOSTATE | DOMAIN_BLOCKED | DOMAIN_PAUSED | DOMAIN_SHUTDOWN
  | DOMAIN_CRASHED | DOMAIN_PMSUSPENDED | DOMAIN_SHUTOFF | DOMAIN_OTHER

record dominfo =
  di_State :: domstate
  di_MaxMem :: nat
  di_Memory :: nat
  di_NrVirtCpu :: nat
  di_CpuTime :: nat

record nodeinfo =
  ni_Model :: string
  ni_Memory :: nat
  ni_Cpus :: nat
  ni_Cores :: nat

text \<open>An interface of a running domain; absent elements of its XML are \<open>None\<close>.\<close>

record domnic =
  dn_Bridge :: "string option"
  dn_Model :: "string option"
  dn_Driver :: "string option"
  dn_MAC :: "string option"
  dn_Guest :: "string option"
  dn_IP :: "string list"

text \<open>
  \<open>c_DomDisks\<close> and \<open>c_DomNics\<close> read and decode the XML of a domain (\<open>None\<close> is a domain without
  devices). \<open>c_Stop n g\<close> is \<open>virDomainDestroy\<close>, graceful or not. \<open>c_is_lverr\<close> says whether an error
  value is libvirt's own type. \<open>c_raw\<close> holds the calls on pools and volumes that need no connection.
\<close>

record 'w virt =
  c_NewConnect :: "string \<Rightarrow> (string \<times> string) option \<Rightarrow> ('w, nat) io"
  c_IsAlive :: "nat \<Rightarrow> 'w \<Rightarrow> bool \<times> 'w"
  c_Close :: "nat \<Rightarrow> ('w, unit) io"
  c_GetVersion :: "nat \<Rightarrow> ('w, 32 word) io"
  c_GetLibVersion :: "nat \<Rightarrow> ('w, 32 word) io"
  c_GetType :: "nat \<Rightarrow> ('w, string) io"
  c_GetCapabilities :: "nat \<Rightarrow> ('w, CapsHost \<times> CapsGuest list) io"
  c_exec :: "string list \<Rightarrow> ('w, string) io"
  c_LookupDomain :: "nat \<Rightarrow> string \<Rightarrow> ('w, string) io"
  c_DefineDomain :: "nat \<Rightarrow> domxml \<Rightarrow> ('w, string) io"
  c_Create :: "string \<Rightarrow> ('w, unit) io"
  c_Stop :: "string \<Rightarrow> bool \<Rightarrow> ('w, unit) io"
  c_Undefine :: "string \<Rightarrow> ('w, unit) io"
  c_DomInfo :: "string \<Rightarrow> ('w, dominfo) io"
  c_DomDisks :: "string \<Rightarrow> ('w, domaindisk list option) io"
  c_DomNics :: "string \<Rightarrow> ('w, domnic list option) io"
  c_NodeInfo :: "nat \<Rightarrow> ('w, nodeinfo) io"
  c_FreeMemory :: "nat \<Rightarrow> ('w, nat) io"
  c_ListDomains :: "nat \<Rightarrow> bool \<Rightarrow> ('w, string list) io"
  c_DomName :: "string \<Rightarrow> ('w, string) io"
  c_ListPools :: "nat \<Rightarrow> ('w, string list) io"
  c_ListNetworks :: "nat \<Rightarrow> ('w, string list) io"
  c_LookupNetwork :: "nat \<Rightarrow> string \<Rightarrow> ('w, string) io"
  c_NetName :: "string \<Rightarrow> ('w, string) io"
  c_NetBridge :: "string \<Rightarrow> ('w, string) io"
  c_ParseAddr :: "string \<Rightarrow> string option"
  c_NewStream :: "nat \<Rightarrow> ('w, unit) io"
  c_LookupPool :: "nat \<Rightarrow> string \<Rightarrow> ('w, string) io"
  c_DefinePool :: "nat \<Rightarrow> poolxml \<Rightarrow> ('w, string) io"
  c_SetAutostart :: "string \<Rightarrow> ('w, unit) io"
  c_LookupSecret :: "nat \<Rightarrow> string \<Rightarrow> ('w, string) io"
  c_SecretValue :: "string \<Rightarrow> ('w, string) io"
  c_SecretSet :: "string \<Rightarrow> string \<Rightarrow> ('w, unit) io"
  c_SecretUUID :: "string \<Rightarrow> ('w, string) io"
  c_SecretDefine :: "nat \<Rightarrow> string \<Rightarrow> ('w, string) io"
  c_is_lverr :: "goerr \<Rightarrow> bool"
  c_raw :: "'w conn"

definition ErrConnectionClosed :: goerr where
  "ErrConnectionClosed = ErrNew ''libvirt connection is closed''"

definition ErrDomainExists :: goerr where
  "ErrDomainExists = ErrNew ''the domain exists already''"

definition ErrDomainNotFound :: goerr where
  "ErrDomainNotFound = wrapf ''domain '' ErrNotFound []"

definition ErrStoragePoolNotFound :: goerr where
  "ErrStoragePoolNotFound = wrapf ''storage pool '' ErrNotFound []"

definition ERR_NO_DOMAIN :: goerr where "ERR_NO_DOMAIN = ErrNew ''libvirt: domain not found''"
definition ERR_NO_STORAGE_POOL :: goerr where "ERR_NO_STORAGE_POOL = ErrNew ''libvirt: storage pool not found''"
definition ERR_NO_SECRET :: goerr where "ERR_NO_SECRET = ErrNew ''libvirt: secret not found''"
definition ERR_OPERATION_INVALID :: goerr where "ERR_OPERATION_INVALID = ErrNew ''libvirt: operation invalid''"

definition nomadDomainStates :: "domstate \<Rightarrow> string" where
  "nomadDomainStates s = (case s of
     DOMAIN_RUNNING \<Rightarrow> ''running'' | DOMAIN_NOSTATE \<Rightarrow> ''unknown'' | DOMAIN_BLOCKED \<Rightarrow> ''blocked''
   | DOMAIN_PAUSED \<Rightarrow> ''paused'' | DOMAIN_SHUTDOWN \<Rightarrow> ''shutdown'' | DOMAIN_CRASHED \<Rightarrow> ''crashed''
   | DOMAIN_PMSUSPENDED \<Rightarrow> ''pmsuspended'' | DOMAIN_SHUTOFF \<Rightarrow> ''shutoff'' | DOMAIN_OTHER \<Rightarrow> [])"

definition vmDomainStates :: "domstate \<Rightarrow> VMState" where
  "vmDomainStates s = (case s of
     DOMAIN_RUNNING \<Rightarrow> VMStateRunning | DOMAIN_NOSTATE \<Rightarrow> VMStateUnknown | DOMAIN_BLOCKED \<Rightarrow> VMStateError
   | DOMAIN_PAUSED \<Rightarrow> VMStatePaused | DOMAIN_SHUTDOWN \<Rightarrow> VMStateShutdown | DOMAIN_CRASHED \<Rightarrow> VMStateError
   | DOMAIN_PMSUSPENDED \<Rightarrow> VMStateSuspended | DOMAIN_SHUTOFF \<Rightarrow> VMStatePowerOff | DOMAIN_OTHER \<Rightarrow> VMStateNone)"

record prov =
  pv_uri :: string
  pv_user :: string
  pv_password :: string
  pv_closed :: bool
  pv_conn :: "nat option"
  pv_cancelled :: bool
  pv_libvirtVersion :: "32 word"
  pv_caps :: "Capabilities option"
  pv_insecure :: bool

type_synonym ('w, 'a) pio = "(prov \<times> 'w, 'a) io"

definition world :: "('w, 'a) io \<Rightarrow> ('w, 'a) pio" where
  "world m = (\<lambda>(p, w). case m w of (r, w') \<Rightarrow> (r, (p, w')))"

definition get_prov :: "('w, prov) pio" where
  "get_prov = (\<lambda>(p, w). (Ok p, (p, w)))"

definition mod_prov :: "(prov \<Rightarrow> prov) \<Rightarrow> ('w, unit) pio" where
  "mod_prov f = (\<lambda>(p, w). (Ok (), (f p, w)))"

section \<open>Making a provider\<close>

definition WithConfig :: "LibvirtConfig option \<Rightarrow> prov \<Rightarrow> prov" where
  "WithConfig c p = (case c of
     None \<Rightarrow> p
   | Some c \<Rightarrow> p\<lparr>pv_uri := (if lv_URI c \<noteq> [] then lv_URI c else pv_uri p),
       pv_user := (if lv_User c \<noteq> [] then lv_User c else pv_user p),
       pv_password := (if lv_Password c \<noteq> [] then lv_Password c else pv_password p),
       pv_insecure := (lv_AllowInsecureMounts c \<or> pv_insecure p)\<rparr>)"

definition WithConnectionURI :: "string \<Rightarrow> prov \<Rightarrow> prov" where
  "WithConnectionURI u p = p\<lparr>pv_uri := u\<rparr>"

definition WithAuth :: "string \<Rightarrow> string \<Rightarrow> prov \<Rightarrow> prov" where
  "WithAuth user password p = p\<lparr>pv_user := user, pv_password := password\<rparr>"

definition prov_New :: "(prov \<Rightarrow> prov) list \<Rightarrow> prov" where
  "prov_New opts = fold (\<lambda>opt p. opt p) opts
     \<lparr>pv_uri = ''qemu:///system'', pv_user = [], pv_password = [], pv_closed = False, pv_conn = None,
      pv_cancelled = False, pv_libvirtVersion = 0, pv_caps = None, pv_insecure = False\<rparr>"

text \<open>A copy has no connection of its own yet, and a context that is not cancelled.\<close>

definition prov_Copy :: "prov \<Rightarrow> prov" where
  "prov_Copy p = p\<lparr>pv_conn := None, pv_cancelled := False\<rparr>"

section \<open>The connection\<close>

definition newConnection :: "'w virt \<Rightarrow> string \<Rightarrow> string \<Rightarrow> string \<Rightarrow> ('w, nat) io" where
  "newConnection v uri user pass = c_NewConnect v uri (if user = [] then None else Some (user, pass))"

definition reconnect :: "'w virt \<Rightarrow> ('w, nat) pio" where
  "reconnect v = (\<lambda>(p, w). case newConnection v (pv_uri p) (pv_user p) (pv_password p) w of
     (Ok c, w') \<Rightarrow> (Ok c, (p\<lparr>pv_conn := Some c\<rparr>, w'))
   | (Fail e, w') \<Rightarrow> (Fail e, (p\<lparr>pv_conn := None\<rparr>, w'))
   | (Panic x, w') \<Rightarrow> (Panic x, (p, w')))"

definition connection :: "'w virt \<Rightarrow> ('w, nat) pio" where
  "connection v = (\<lambda>(p, w).
     if pv_closed p then (Fail ErrConnectionClosed, (p, w))
     else (case pv_conn p of
       None \<Rightarrow> reconnect v (p, w)
     | Some c \<Rightarrow> (case c_IsAlive v c w of
         (alive, w1) \<Rightarrow> if alive then (Ok c, (p, w1))
           else (case c_Close v c w1 of (_, w2) \<Rightarrow> reconnect v (p, w2)))))"

definition monitorCtx :: "'w virt \<Rightarrow> prov \<times> 'w \<Rightarrow> prov \<times> 'w" where
  "monitorCtx v = (\<lambda>(p, w). case pv_conn p of
     None \<Rightarrow> (p\<lparr>pv_closed := True\<rparr>, w)
   | Some c \<Rightarrow> (p\<lparr>pv_closed := True, pv_conn := None\<rparr>, snd (c_Close v c w)))"

definition prov_Close :: "'w virt \<Rightarrow> ('w, unit) pio" where
  "prov_Close v = (\<lambda>(p, w). case pv_conn p of
     None \<Rightarrow> (Ok (), (p\<lparr>pv_closed := True, pv_cancelled := True\<rparr>, w))
   | Some c \<Rightarrow> (case c_Close v c w of
       (r, w') \<Rightarrow> (r, (p\<lparr>pv_conn := None, pv_closed := True, pv_cancelled := True\<rparr>, w'))))"

section \<open>Capabilities and versions\<close>

fun load_guests :: "'w virt \<Rightarrow> CapsGuest list \<Rightarrow> (string \<rightharpoonup> CapsGuest) \<Rightarrow> ('w, string \<rightharpoonup> CapsGuest) io" where
  "load_guests v [] guests = ret guests"
| "load_guests v (guest # gs) guests =
     iobind (LoadMountFilesystems (c_exec v) guest) (\<lambda>c.
       load_guests v gs (guests(cg_Arch guest \<mapsto> c)))"

definition loadCapabilities :: "'w virt \<Rightarrow> ('w, unit) pio" where
  "loadCapabilities v =
     iobind (connection v) (\<lambda>conn.
     iobind (world (c_GetCapabilities v conn)) (\<lambda>(hst, gs).
     iobind (world (load_guests v gs Map.empty)) (\<lambda>guests.
     mod_prov (\<lambda>p. p\<lparr>pv_caps := Some \<lparr>cp_Host = hst, cp_Guests = guests\<rparr>\<rparr>))))"

definition prov_Init :: "'w virt \<Rightarrow> ('w, unit) pio" where
  "prov_Init v =
     iobind (connection v) (\<lambda>c.
     iobind (world (c_GetVersion v c)) (\<lambda>ver.
     iobind (mod_prov (\<lambda>p. p\<lparr>pv_libvirtVersion := ver\<rparr>)) (\<lambda>_.
     iobind get_prov (\<lambda>p. if pv_caps p = None then loadCapabilities v else ret ()))))"

section \<open>Storage pools, networks, secrets\<close>

definition FindStoragePool :: "'w virt \<Rightarrow> string \<Rightarrow> ('w, string) pio" where
  "FindStoragePool v name = iobind (connection v) (\<lambda>conn.
     iotry (world (c_LookupPool v conn name)) ret
       (\<lambda>e. if \<not> is_err ERR_NO_STORAGE_POOL e then throw e else throw ErrStoragePoolNotFound))"

definition CreateStoragePool :: "'w virt \<Rightarrow> poolxml \<Rightarrow> ('w, string) pio" where
  "CreateStoragePool v d = iobind (connection v) (\<lambda>conn.
     iobind (world (c_DefinePool v conn d)) (\<lambda>pool.
     iobind (world (c_SetAutostart v pool)) (\<lambda>_.
     iobind (world (l_StartPool (c_raw v) pool)) (\<lambda>_. ret pool))))"

definition UpdateStoragePool :: "'w virt \<Rightarrow> poolxml \<Rightarrow> ('w, unit) pio" where
  "UpdateStoragePool v d = iobind (connection v) (\<lambda>conn.
     iobind (world (c_DefinePool v conn d)) (\<lambda>pool. world (l_Refresh (c_raw v) pool)))"

definition NewStream :: "'w virt \<Rightarrow> ('w, bool) pio" where
  "NewStream v = iobind (connection v) (\<lambda>c. iobind (world (c_NewStream v c)) (\<lambda>_.
     iobind get_prov (\<lambda>p. ret (requiresLibvirtVersion (pv_libvirtVersion p) ''10.1.0''))))"

definition ListNetworks :: "'w virt \<Rightarrow> ('w, string list) pio" where
  "ListNetworks v = iobind (connection v) (\<lambda>conn. world (c_ListNetworks v conn))"

definition LookupNetworkByName :: "'w virt \<Rightarrow> string \<Rightarrow> ('w, string) pio" where
  "LookupNetworkByName v name = iobind (connection v) (\<lambda>conn. world (c_LookupNetwork v conn name))"

definition GetCephSecret :: "'w virt \<Rightarrow> string \<Rightarrow> ('w, string) pio" where
  "GetCephSecret v name = iobind (connection v) (\<lambda>conn.
     iobind (world (c_LookupSecret v conn name)) (\<lambda>secret.
     iobind (world (c_SecretValue v secret)) (\<lambda>val. ret (b64_encode val))))"

definition GetCephSecretID :: "'w virt \<Rightarrow> string \<Rightarrow> ('w, string) pio" where
  "GetCephSecretID v name = iobind (connection v) (\<lambda>conn.
     iobind (world (c_LookupSecret v conn name)) (\<lambda>secret. world (c_SecretUUID v secret)))"

definition ErrCorruptInput :: goerr where
  "ErrCorruptInput = ErrNew ''illegal base64 data''"

definition SetCephSecret :: "'w virt \<Rightarrow> string \<Rightarrow> string \<Rightarrow> ('w, string) pio" where
  "SetCephSecret v name credential = iobind (connection v) (\<lambda>conn.
     case b64_decode credential of
       None \<Rightarrow> throw ErrCorruptInput
     | Some decodedCred \<Rightarrow>
         iotry (world (c_LookupSecret v conn name))
           (\<lambda>secret.
             iobind (world (c_SecretValue v secret)) (\<lambda>value.
             iobind (if value \<noteq> decodedCred then world (c_SecretSet v secret decodedCred) else ret ()) (\<lambda>_.
             world (c_SecretUUID v secret))))
           (\<lambda>e. if \<not> is_err ERR_NO_SECRET e then throw e
             else
               iobind (world (c_SecretDefine v conn name)) (\<lambda>secret.
               iobind (world (c_SecretSet v secret decodedCred)) (\<lambda>_.
               world (c_SecretUUID v secret)))))"

text \<open>The provider as the storage sees it (the interface \<open>libvirtStorage\<close>).\<close>

definition provider_conn :: "'w virt \<Rightarrow> (prov \<times> 'w) conn" where
  "provider_conn v = (let r = c_raw v in
    \<lparr>l_CreateStoragePool = CreateStoragePool v, l_FindStoragePool = FindStoragePool v,
     l_UpdateStoragePool = UpdateStoragePool v, l_SetCephSecret = SetCephSecret v,
     l_GetCephSecret = GetCephSecret v, l_GetCephSecretID = GetCephSecretID v,
     l_PoolXML = (\<lambda>p. world (l_PoolXML r p)), l_PoolName = (\<lambda>p. world (l_PoolName r p)),
     l_IsActive = (\<lambda>p. world (l_IsActive r p)), l_StartPool = (\<lambda>p. world (l_StartPool r p)),
     l_ListVolumes = (\<lambda>p. world (l_ListVolumes r p)), l_Lookup = (\<lambda>p n. world (l_Lookup r p n)),
     l_Refresh = (\<lambda>p. world (l_Refresh r p)), l_CreateXML = (\<lambda>p x. world (l_CreateXML r p x)),
     l_CreateXMLFrom = (\<lambda>p x s. world (l_CreateXMLFrom r p x s)), l_Delete = (\<lambda>h. world (l_Delete r h)),
     l_Info = (\<lambda>h. world (l_Info r h)), l_Path = (\<lambda>h. world (l_Path r h)), l_VolXML = (\<lambda>h. world (l_VolXML r h)),
     l_Resize = (\<lambda>h n b. world (l_Resize r h n b)), l_FileSize = (\<lambda>f. world (l_FileSize r f)),
     l_NewStream = NewStream v, l_upload = (\<lambda>h f n b. world (l_upload r h f n b)),
     l_MkdirAll = (\<lambda>p. world (l_MkdirAll r p)),
     l_VolumeCopy = (\<lambda>c p s d. world (l_VolumeCopy r c p s d)),
     l_VolumeUpload = (\<lambda>c p h f. world (l_VolumeUpload r c p h f)),
     l_ctxDone = (\<lambda>n (p, w). case l_ctxDone r n w of (e, w') \<Rightarrow> (e, (p, w'))),
     l_took = (\<lambda>(p, w). l_took r w)\<rparr>)"

type_synonym 'w pstorage = "(prov \<times> 'w) storage"

definition SetupStorage ::
  "'w virt \<Rightarrow> goerr option \<Rightarrow> (string \<Rightarrow> (string \<times> string) res) \<Rightarrow> StorageConfig option \<Rightarrow> ('w, 'w pstorage) pio" where
  "SetupStorage v loaded split_host config = (case config of
     None \<Rightarrow> throw (wrapf [] ErrInvalidConfiguration '': missing storage pool configuration'')
   | Some c \<Rightarrow> storage_New loaded split_host (provider_conn v) c)"

section \<open>Virtual machines\<close>

definition getDomain :: "'w virt \<Rightarrow> string \<Rightarrow> ('w, string) pio" where
  "getDomain v name = iobind (connection v) (\<lambda>conn.
     iotry (world (c_LookupDomain v conn name)) ret
       (\<lambda>e. if \<not> is_err ERR_NO_DOMAIN e
         then throw (wrapf (''libvirt: unable to verify existing domain '' @ name @ '': '') e [])
         else throw ErrDomainNotFound))"

definition domain_xml :: "'w pstorage option \<Rightarrow> VMConfig \<Rightarrow> ('w, domxml) pio" where
  "domain_xml st config =
     (if vm_XMLConfig config \<noteq> [] then ret (RawXML (vm_XMLConfig config))
      else iobind get_prov (\<lambda>p.
        iowrap (''libvirt: unable to generate domain configuration '' @ vm_Name config @ '': '') []
          (iobind (generateDomain \<lparr>g_caps = pv_caps p, g_insecure = pv_insecure p, g_storage = st\<rparr> config)
            (\<lambda>d. ret (DomainXML d)))))"

definition CreateVM :: "'w virt \<Rightarrow> 'w pstorage option \<Rightarrow> VMConfig \<Rightarrow> ('w, unit) pio" where
  "CreateVM v st config =
     iobind (connection v) (\<lambda>conn.
     iotry (getDomain v (vm_Name config))
       (\<lambda>d. throw (wrapf (''libvirt: '' @ vm_Name config @ '': '') ErrDomainExists []))
       (\<lambda>e. if \<not> is_err ErrNotFound e then throw e
         else
           iobind (domain_xml st config) (\<lambda>xml.
           iobind (iowrap (''libvirt: unable to define domain '' @ vm_Name config @ '': '') []
             (world (c_DefineDomain v conn xml))) (\<lambda>d.
           iowrap (''libvirt: unable to create domain '' @ vm_Name config @ '': '') [] (world (c_Create v d))))))"

definition StopVM :: "'w virt \<Rightarrow> string \<Rightarrow> ('w, unit) pio" where
  "StopVM v name = iobind (getDomain v name) (\<lambda>d.
     iotry (world (c_Stop v d True)) ret
       (\<lambda>e. iowrap (''libvirt: unable to shut domain '' @ name @ '': '') [] (world (c_Stop v d False))))"

definition getDomainVolumes :: "'w virt \<Rightarrow> 'w pstorage option \<Rightarrow> string \<Rightarrow> ('w, Volume list) pio" where
  "getDomainVolumes v st d = iobind (world (c_DomDisks v d)) (\<lambda>disks.
     case disks of
       None \<Rightarrow> ret []
     | Some ds \<Rightarrow> if ds = [] then ret []
         else (case st of None \<Rightarrow> lift (Panic ''nil storage'') | Some s \<Rightarrow> DiscoverVolumes s ds))"

fun delete_volumes :: "'w pstorage option \<Rightarrow> Volume list \<Rightarrow> ('w, unit) pio" where
  "delete_volumes st [] = ret ()"
| "delete_volumes st (vol # vols) = (case st of
     None \<Rightarrow> lift (Panic ''nil storage'')
   | Some s \<Rightarrow>
       iobind (lift (GetPool s (v_Pool vol))) (\<lambda>pool.
       iobind (DeleteVolume pool (v_Name vol)) (\<lambda>_. delete_volumes st vols)))"

definition DestroyVM :: "'w virt \<Rightarrow> 'w pstorage option \<Rightarrow> string \<Rightarrow> ('w, unit) pio" where
  "DestroyVM v st name = iobind (getDomain v name) (\<lambda>d.
     iobind (getDomainVolumes v st d) (\<lambda>vols.
     iobind (iotry (world (c_Stop v d False)) ret
       (\<lambda>e. if c_is_lverr v e \<and> \<not> is_err ERR_OPERATION_INVALID e
         then throw (wrapf (''libvirt: unable to destroy domain '' @ name @ '': '') e []) else ret ())) (\<lambda>_.
     iobind (iowrap (''libvirt: unable to undefine domain '' @ name @ '': '') [] (world (c_Undefine v d))) (\<lambda>_.
     delete_volumes st vols))))"

definition GetVM :: "'w virt \<Rightarrow> string \<Rightarrow> ('w, VMInfo) pio" where
  "GetVM v name = iowrap (''libvirt: unable to get domain '' @ name @ '': '') []
     (iobind (getDomain v name) (\<lambda>d. iobind (world (c_DomInfo v d)) (\<lambda>info.
       ret \<lparr>inf_RawState = nomadDomainStates (di_State info), inf_State = vmDomainStates (di_State info),
         inf_Memory = di_Memory info, inf_CPUTime = di_CpuTime info, inf_MaxMemory = di_MaxMem info,
         inf_NrVirtCPU = di_NrVirtCpu info\<rparr>)))"

record VirtualizerInfo =
  vi_Model :: string
  vi_Memory :: nat
  vi_FreeMemory :: nat
  vi_Cpus :: nat
  vi_Cores :: nat
  vi_EmulatorVersion :: "32 word"
  vi_LibvirtVersion :: "32 word"
  vi_RunningDomains :: nat
  vi_InactiveDomains :: nat
  vi_StoragePools :: nat

definition GetInfo :: "'w virt \<Rightarrow> ('w, VirtualizerInfo) pio" where
  "GetInfo v =
     iobind (connection v) (\<lambda>conn.
     iobind (iowrap ''libvirt: unable to get node info: '' [] (world (c_NodeInfo v conn))) (\<lambda>ni.
     iobind (iowrap ''libvirt: unable to get e version: '' [] (world (c_GetVersion v conn))) (\<lambda>ev.
     iobind (iowrap ''libvirt: unable to get lib version: '' [] (world (c_GetLibVersion v conn))) (\<lambda>lv.
     iobind (iowrap ''libvirt: unable to get free memory: '' [] (world (c_FreeMemory v conn))) (\<lambda>fm.
     iobind (iowrap ''libvirt: unable to get active domains: '' [] (world (c_ListDomains v conn True))) (\<lambda>aDoms.
     iobind (iowrap ''libvirt: unable to get inactive domains: '' [] (world (c_ListDomains v conn False))) (\<lambda>iDoms.
     iobind (iowrap ''libvirt: unable to get storage pools: '' [] (world (c_ListPools v conn))) (\<lambda>sps.
     ret \<lparr>vi_Model = ni_Model ni, vi_Memory = ni_Memory ni, vi_FreeMemory = fm, vi_Cpus = ni_Cpus ni,
       vi_Cores = ni_Cores ni, vi_EmulatorVersion = ev, vi_LibvirtVersion = lv,
       vi_RunningDomains = length aDoms, vi_InactiveDomains = length iDoms, vi_StoragePools = length sps\<rparr>))))))))"

fun domain_names :: "'w virt \<Rightarrow> string list \<Rightarrow> ('w, string list) pio" where
  "domain_names v [] = ret []"
| "domain_names v (d # ds) =
     iobind (iowrap ''libvirt: unable get domain name: '' [] (world (c_DomName v d))) (\<lambda>name.
     iobind (domain_names v ds) (\<lambda>ns. ret (name # ns)))"

definition GetAllDomains :: "'w virt \<Rightarrow> ('w, string list) pio" where
  "GetAllDomains v = iobind (connection v) (\<lambda>conn.
     iobind (iowrap ''libvirt: unable to list domains: '' [] (world (c_ListDomains v conn True))) (\<lambda>doms.
     domain_names v doms))"

text \<open>The networks by the name of their bridge; one whose name or bridge cannot be read is left out.\<close>

fun bridge_networks :: "'w virt \<Rightarrow> string list \<Rightarrow> (string \<rightharpoonup> string) \<Rightarrow> ('w, string \<rightharpoonup> string) pio" where
  "bridge_networks v [] m = ret m"
| "bridge_networks v (n # ns) m =
     iotry (world (c_NetName v n))
       (\<lambda>netname. iotry (world (c_NetBridge v n))
         (\<lambda>bridge. bridge_networks v ns (m(bridge \<mapsto> netname)))
         (\<lambda>e. bridge_networks v ns m))
       (\<lambda>e. bridge_networks v ns m)"

definition or_empty :: "string option \<Rightarrow> string" where
  "or_empty s = (case s of None \<Rightarrow> [] | Some x \<Rightarrow> x)"

definition network_interface :: "'w virt \<Rightarrow> (string \<rightharpoonup> string) \<Rightarrow> domnic \<Rightarrow> NetworkInterface" where
  "network_interface v bridges iface =
     \<lparr>nic_NetworkName = (case dn_Bridge iface of None \<Rightarrow> [] | Some b \<Rightarrow> or_empty (bridges b)),
      nic_DeviceName = or_empty (dn_Guest iface), nic_MAC = or_empty (dn_MAC iface),
      nic_Addrs = map (c_ParseAddr v) (dn_IP iface), nic_Model = or_empty (dn_Model iface),
      nic_Driver = or_empty (dn_Driver iface)\<rparr>"

text \<open>
  The connection is read from the field here, after \<open>getDomain\<close> has set it. A domain without
  devices is a nil pointer.
\<close>

definition GetNetworkInterfaces :: "'w virt \<Rightarrow> string \<Rightarrow> ('w, NetworkInterface list) pio" where
  "GetNetworkInterfaces v name =
     iobind (iowrap (''libvirt: unable to get domain '' @ name @ '': '') [] (getDomain v name)) (\<lambda>d.
     iobind (iowrap (''libvirt: unable to get domain XML '' @ name @ '': '') [] (world (c_DomNics v d))) (\<lambda>nics.
     case nics of
       None \<Rightarrow> lift (Panic ''nil devices'')
     | Some ifs \<Rightarrow> iobind get_prov (\<lambda>p. case pv_conn p of
         None \<Rightarrow> lift (Panic ''nil connection'')
       | Some c \<Rightarrow>
           iobind (iowrap (''libvirt: unable to get domain interfaces list '' @ name @ '': '') []
             (world (c_ListNetworks v c))) (\<lambda>nets.
           iobind (bridge_networks v nets Map.empty) (\<lambda>bridges.
           ret (map (network_interface v bridges) ifs))))))"

text \<open>\<open>net_fp\<close> is the fingerprint of the networking subsystem.\<close>

definition prov_Fingerprint ::
  "'w virt \<Rightarrow> 'w pstorage option \<Rightarrow> ((string \<rightharpoonup> attribute) \<Rightarrow> ('w, string \<rightharpoonup> attribute) pio)
     \<Rightarrow> ('w, string \<rightharpoonup> attribute) pio" where
  "prov_Fingerprint v st net_fp =
     iobind (connection v) (\<lambda>conn.
     iobind (world (c_GetType v conn)) (\<lambda>driver.
     iobind (world (c_GetVersion v conn)) (\<lambda>driverVersion.
     iobind (world (c_GetLibVersion v conn)) (\<lambda>libvirtVersion.
     iobind (net_fp [''version'' \<mapsto> IntAttr (int (unat libvirtVersion)),
        ''version.readable'' \<mapsto> StringAttr (computeVersion libvirtVersion),
        ''driver'' \<mapsto> StringAttr driver,
        ''driver.version'' \<mapsto> IntAttr (int (unat driverVersion)),
        ''driver.version.readable'' \<mapsto> StringAttr (computeVersion driverVersion)]) (\<lambda>attrs.
     case st of None \<Rightarrow> lift (Panic ''nil storage'')
     | Some s \<Rightarrow> ret (storage_Fingerprint s ''driver.virt'' attrs))))))"

section \<open>Base64 round trip\<close>

lemma b64_val_char [simp]: "n < 64 \<Longrightarrow> b64_val (b64_char n) = Some n"
  by (auto simp: b64_val_def b64_char_def Let_def)

lemma b64_char_plain: "n < 64 \<Longrightarrow> b64_char n \<noteq> CHR ''='' \<and> b64_char n \<noteq> CHR 0x0A \<and> b64_char n \<noteq> CHR 0x0D"
proof -
  assume n: "n < 64"
  have "b64_val (CHR ''='') = None" "b64_val (CHR 0x0A) = None" "b64_val (CHR 0x0D) = None"
    by (simp_all add: b64_val_def Let_def)
  with b64_val_char [OF n] show ?thesis by auto
qed

lemma byte_parts:
  fixes x y z :: nat
  assumes "x < 256" "y < 256" "z < 256"
  shows "x div 4 < 64" "x mod 4 * 16 + y div 16 < 64" "y mod 16 * 4 + z div 64 < 64" "z mod 64 < 64"
    "x mod 4 * 16 < 64" "y mod 16 * 4 < 64"
    "x div 4 * 4 + (x mod 4 * 16 + y div 16) div 16 = x"
    "(x mod 4 * 16 + y div 16) mod 16 * 16 + (y mod 16 * 4 + z div 64) div 4 = y"
    "(y mod 16 * 4 + z div 64) mod 4 * 64 + z mod 64 = z"
    "x div 4 * 4 + x mod 4 * 16 div 16 = x" "(x mod 4 * 16 + y div 16) mod 16 * 16 + y mod 16 * 4 div 4 = y"
proof -
  have m: "x mod 4 < 4" "y mod 16 < 16" "y div 16 < 16" "z div 64 < 4" "z mod 64 < 64" using assms by simp_all
  then show "x div 4 < 64" "x mod 4 * 16 + y div 16 < 64" "y mod 16 * 4 + z div 64 < 64" "z mod 64 < 64"
    "x mod 4 * 16 < 64" "y mod 16 * 4 < 64" using assms by linarith+
  have d: "(x mod 4 * 16 + y div 16) div 16 = x mod 4" "(x mod 4 * 16 + y div 16) mod 16 = y div 16"
    "(y mod 16 * 4 + z div 64) div 4 = y mod 16" "(y mod 16 * 4 + z div 64) mod 4 = z div 64"
    using m by simp_all
  show "x div 4 * 4 + (x mod 4 * 16 + y div 16) div 16 = x"
    "(x mod 4 * 16 + y div 16) mod 16 * 16 + (y mod 16 * 4 + z div 64) div 4 = y"
    "(y mod 16 * 4 + z div 64) mod 4 * 64 + z mod 64 = z"
    "x div 4 * 4 + x mod 4 * 16 div 16 = x" "(x mod 4 * 16 + y div 16) mod 16 * 16 + y mod 16 * 4 div 4 = y"
    unfolding d by (simp_all add: div_mult_mod_eq)
qed

lemma byte_bound: "(of_char c :: nat) < 256"
  by (metis of_char_mod_256 mod_less_divisor zero_less_numeral)

text \<open>The characters of a group and the bytes they stand for.\<close>

definition quad :: "nat \<Rightarrow> nat \<Rightarrow> nat \<Rightarrow> nat \<times> nat \<times> nat \<times> nat" where
  "quad x y z = (x div 4, x mod 4 * 16 + y div 16, y mod 16 * 4 + z div 64, z mod 64)"

definition unquad :: "nat \<times> nat \<times> nat \<times> nat \<Rightarrow> nat \<times> nat \<times> nat" where
  "unquad q = (case q of (p, q, r, t) \<Rightarrow> (p * 4 + q div 16, q mod 16 * 16 + r div 4, r mod 4 * 64 + t))"

lemma quad_bound: "x < 256 \<Longrightarrow> y < 256 \<Longrightarrow> z < 256 \<Longrightarrow> quad x y z = (p, q, r, t) \<Longrightarrow> p < 64 \<and> q < 64 \<and> r < 64 \<and> t < 64"
  using byte_parts(1-4) [of x y z] by (simp add: quad_def)

lemma unquad_quad: "x < 256 \<Longrightarrow> y < 256 \<Longrightarrow> z < 256 \<Longrightarrow> unquad (quad x y z) = (x, y, z)"
  using byte_parts(7-9) [of x y z] by (simp only: quad_def unquad_def prod.case)

lemma encode_quad:
  "quad (of_char a) (of_char b) (of_char c) = (p, q, r, t) \<Longrightarrow>
     b64_encode (a # b # c # s) = b64_char p # b64_char q # b64_char r # b64_char t # b64_encode s"
  "quad (of_char a) (of_char b) 0 = (p, q, r, t) \<Longrightarrow> b64_encode [a, b] = [b64_char p, b64_char q, b64_char r, CHR ''='']"
  "quad (of_char a) 0 0 = (p, q, r, t) \<Longrightarrow> b64_encode [a] = [b64_char p, b64_char q, CHR ''='', CHR ''='']"
  by (simp_all only: quad_def prod.inject b64_encode.simps Let_def div_0 add_0_right)

lemma b64_encode_plain: "c \<in> set (b64_encode s) \<Longrightarrow> c \<noteq> CHR 0x0A \<and> c \<noteq> CHR 0x0D"
proof (induction s rule: b64_encode.induct)
  case (1 a b x s)
  obtain p q r t where e: "quad (of_char a) (of_char b) (of_char x) = (p, q, r, t)" by (metis prod_cases4)
  with quad_bound [OF byte_bound byte_bound byte_bound] have "p < 64" "q < 64" "r < 64" "t < 64" by blast+
  with 1 show ?case unfolding encode_quad(1) [OF e] by (auto dest: b64_char_plain)
next
  case (2 a b)
  obtain p q r t where e: "quad (of_char a) (of_char b) 0 = (p, q, r, t)" by (metis prod_cases4)
  with quad_bound [OF byte_bound byte_bound zero_less_numeral] have "p < 64" "q < 64" "r < 64" by blast+
  with 2 show ?case unfolding encode_quad(2) [OF e] by (auto dest: b64_char_plain)
next
  case (3 a)
  obtain p q r t where e: "quad (of_char a) 0 0 = (p, q, r, t)" by (metis prod_cases4)
  with quad_bound [OF byte_bound zero_less_numeral zero_less_numeral] have "p < 64" "q < 64" by blast+
  with 3 show ?case unfolding encode_quad(3) [OF e] by (auto dest: b64_char_plain)
qed simp

lemma b64_groups_encode: "b64_groups (b64_encode s) = Some s"
proof (induction s rule: b64_encode.induct)
  case (1 a b c s)
  obtain p q r t where e: "quad (of_char a) (of_char b) (of_char c) = (p, q, r, t)" by (metis prod_cases4)
  with quad_bound [OF byte_bound byte_bound byte_bound] have n: "p < 64" "q < 64" "r < 64" "t < 64" by blast+
  have "unquad (p, q, r, t) = (of_char a, of_char b, of_char c)"
    using unquad_quad [OF byte_bound byte_bound byte_bound, of a b c] e by simp
  then have "char_of (p * 4 + q div 16) = a" "char_of (q mod 16 * 16 + r div 4) = b" "char_of (r mod 4 * 64 + t) = c"
    by (simp_all only: unquad_def prod.case prod.inject char_of_char)
  with n 1 show ?case unfolding encode_quad(1) [OF e] by (simp add: b64_char_plain)
next
  case (2 a b)
  obtain p q r t where e: "quad (of_char a) (of_char b) 0 = (p, q, r, t)" by (metis prod_cases4)
  with quad_bound [OF byte_bound byte_bound zero_less_numeral] have n: "p < 64" "q < 64" "r < 64" by blast+
  have "unquad (p, q, r, t) = (of_char a, of_char b, 0)"
    using unquad_quad [OF byte_bound byte_bound zero_less_numeral, of a b] e by simp
  then have "char_of (p * 4 + q div 16) = a" "char_of (q mod 16 * 16 + r div 4) = b"
    by (simp_all only: unquad_def prod.case prod.inject char_of_char)
  with n show ?case unfolding encode_quad(2) [OF e] by (simp add: b64_char_plain)
next
  case (3 a)
  obtain p q r t where e: "quad (of_char a) 0 0 = (p, q, r, t)" by (metis prod_cases4)
  with quad_bound [OF byte_bound zero_less_numeral zero_less_numeral] have n: "p < 64" "q < 64" by blast+
  have "unquad (p, q, r, t) = (of_char a, 0, 0)"
    using unquad_quad [OF byte_bound zero_less_numeral zero_less_numeral, of a] e by simp
  then have "char_of (p * 4 + q div 16) = a"
    by (simp_all only: unquad_def prod.case prod.inject char_of_char)
  with n show ?case unfolding encode_quad(3) [OF e] by (simp add: b64_char_plain)
qed simp

lemma b64_roundtrip: "b64_decode (b64_encode s) = Some s"
proof -
  have "filter (\<lambda>c. c \<noteq> CHR 0x0A \<and> c \<noteq> CHR 0x0D) (b64_encode s) = b64_encode s"
    by (rule filter_True) (auto dest: b64_encode_plain)
  then show ?thesis by (simp add: b64_decode_def b64_groups_encode)
qed

section \<open>The connection\<close>

text \<open>
  \<open>opened w\<close> are the open connections. Connecting opens one that was not open, closing closes it,
  asking whether it is alive does neither.
\<close>

definition conn_laws :: "('w \<Rightarrow> nat set) \<Rightarrow> 'w virt \<Rightarrow> bool" where
  "conn_laws opened v \<longleftrightarrow>
     (\<forall>u a w c w'. c_NewConnect v u a w = (Ok c, w') \<longrightarrow> c \<notin> opened w \<and> opened w' = insert c (opened w))
   \<and> (\<forall>u a w e w'. c_NewConnect v u a w = (Fail e, w') \<longrightarrow> opened w' = opened w)
   \<and> (\<forall>u a w x w'. c_NewConnect v u a w \<noteq> (Panic x, w'))
   \<and> (\<forall>c w. opened (snd (c_IsAlive v c w)) = opened w)
   \<and> (\<forall>c w. opened (snd (c_Close v c w)) = opened w - {c})"

lemma conn_lawsD:
  assumes "conn_laws opened v" and "c_NewConnect v u a w = (r, w')"
  shows "r = Ok c \<Longrightarrow> opened w' = insert c (opened w)" "r = Fail e \<Longrightarrow> opened w' = opened w" "r \<noteq> Panic x"
  using assms unfolding conn_laws_def by (iprover | blast)+

text \<open>What can happen to a provider: a use of the connection, its closing, the end of its context.\<close>

inductive prov_step :: "'w virt \<Rightarrow> prov \<times> 'w \<Rightarrow> prov \<times> 'w \<Rightarrow> bool" for v where
  use: "connection v s = (r, s') \<Longrightarrow> prov_step v s s'"
| close: "prov_Close v s = (r, s') \<Longrightarrow> prov_step v s s'"
| ctx_done: "prov_step v s (monitorCtx v s)"

inductive prov_reach :: "'w virt \<Rightarrow> prov \<times> 'w \<Rightarrow> prov \<times> 'w \<Rightarrow> bool" for v s where
  start: "prov_reach v s s"
| step: "prov_reach v s t \<Longrightarrow> prov_step v t u \<Longrightarrow> prov_reach v s u"

inductive_cases prov_stepE: "prov_step v s t"

definition conn_inv :: "('w \<Rightarrow> nat set) \<Rightarrow> prov \<times> 'w \<Rightarrow> bool" where
  "conn_inv opened s \<longleftrightarrow> opened (snd s) = set_option (pv_conn (fst s)) \<and> (pv_closed (fst s) \<longrightarrow> pv_conn (fst s) = None)"

lemma reconnect_inv:
  assumes laws: "conn_laws opened v" and "opened w = {}" "\<not> pv_closed p" and run: "reconnect v (p, w) = (r, s)"
  shows "conn_inv opened s"
proof -
  obtain r1 w1 where new: "newConnection v (pv_uri p) (pv_user p) (pv_password p) w = (r1, w1)" by fastforce
  have "(\<forall>c. r1 = Ok c \<longrightarrow> opened w1 = {c}) \<and> (\<forall>e. r1 = Fail e \<longrightarrow> opened w1 = {}) \<and> (\<forall>x. r1 \<noteq> Panic x)"
    using conn_lawsD [OF laws new [unfolded newConnection_def]] assms(2) by auto
  then show ?thesis using run new assms(3)
    by (auto simp: reconnect_def conn_inv_def split: res.splits)
qed

lemma connection_inv:
  assumes laws: "conn_laws opened v" and inv: "conn_inv opened s" and run: "connection v s = (r, s')"
  shows "conn_inv opened s'"
proof -
  obtain p w where s: "s = (p, w)" by fastforce
  show ?thesis
  proof (cases "pv_closed p")
    case True
    with run inv s show ?thesis by (simp add: connection_def)
  next
    case False
    show ?thesis
    proof (cases "pv_conn p")
      case None
      with inv s have "opened w = {}" by (simp add: conn_inv_def)
      from reconnect_inv [OF laws this False] run None False s show ?thesis by (simp add: connection_def)
    next
      case (Some c)
      obtain alive w1 where alive: "c_IsAlive v c w = (alive, w1)" by fastforce
      have w1: "opened w1 = {c}" using laws alive inv s Some unfolding conn_laws_def conn_inv_def by (metis fst_conv option.set(2) snd_conv)
      obtain r2 w2 where cl: "c_Close v c w1 = (r2, w2)" by fastforce
      have w2: "opened w2 = {}" using laws cl w1 unfolding conn_laws_def by (metis Diff_cancel snd_conv)
      show ?thesis
      proof (cases alive)
        case True
        with run s False Some alive w1 show ?thesis by (auto simp: connection_def conn_inv_def)
      next
        case dead: False
        with run s False Some alive cl have "reconnect v (p, w2) = (r, s')" by (simp add: connection_def)
        from reconnect_inv [OF laws w2 False this] show ?thesis .
      qed
    qed
  qed
qed

lemma close_inv:
  assumes laws: "conn_laws opened v" and inv: "conn_inv opened s"
  shows "conn_inv opened (monitorCtx v s)" "conn_inv opened (snd (prov_Close v s))"
proof -
  obtain p w where s: "s = (p, w)" by fastforce
  have "opened (snd (c_Close v c w)) = {}" if "pv_conn p = Some c" for c
    using laws inv s that unfolding conn_laws_def conn_inv_def by simp
  then show "conn_inv opened (monitorCtx v s)" "conn_inv opened (snd (prov_Close v s))"
    using inv s by (auto simp: monitorCtx_def prov_Close_def conn_inv_def split: option.split prod.split)
qed

lemma prov_step_inv: "conn_laws opened v \<Longrightarrow> prov_step v s t \<Longrightarrow> conn_inv opened s \<Longrightarrow> conn_inv opened t"
  by (elim prov_stepE) (auto dest: connection_inv close_inv(2) simp: close_inv(1))

lemma prov_reach_inv: "prov_reach v s t \<Longrightarrow> conn_laws opened v \<Longrightarrow> conn_inv opened s \<Longrightarrow> conn_inv opened t"
  by (induction rule: prov_reach.induct) (auto dest: prov_step_inv)

lemma closed_stays: "prov_step v s t \<Longrightarrow> pv_closed (fst s) \<Longrightarrow> pv_closed (fst t)"
  by (elim prov_stepE) (auto simp: connection_def prov_Close_def monitorCtx_def split: option.splits prod.splits)

lemma closed_stays_reach: "prov_reach v s t \<Longrightarrow> pv_closed (fst s) \<Longrightarrow> pv_closed (fst t)"
  by (induction rule: prov_reach.induct) (auto dest: closed_stays)

section \<open>What the provider does to the world\<close>

definition lift_rel :: "('w \<Rightarrow> 'w \<Rightarrow> bool) \<Rightarrow> prov \<times> 'w \<Rightarrow> prov \<times> 'w \<Rightarrow> bool" where
  "lift_rel R s s' \<longleftrightarrow> R (snd s) (snd s')"

definition conn_keeps :: "('w \<Rightarrow> 'w \<Rightarrow> bool) \<Rightarrow> 'w virt \<Rightarrow> bool" where
  "conn_keeps R v \<longleftrightarrow> (\<forall>u a. steps R (c_NewConnect v u a)) \<and> (\<forall>c w. R w (snd (c_IsAlive v c w)))
     \<and> (\<forall>c. steps R (c_Close v c))"

lemma preorder_lift [simp, intro]: "preorder R \<Longrightarrow> preorder (lift_rel R)"
  unfolding preorder_def lift_rel_def by blast

lemma steps_world: "steps R m \<Longrightarrow> steps (lift_rel R) (world m)"
  by (auto simp: steps_def world_def lift_rel_def split: prod.splits)

lemma steps_prov: "preorder R \<Longrightarrow> steps (lift_rel R) get_prov" "preorder R \<Longrightarrow> steps (lift_rel R) (mod_prov f)"
  by (auto simp: steps_def get_prov_def mod_prov_def lift_rel_def preorder_def)

lemma reconnect_steps:
  assumes "conn_keeps R v"
  shows "steps (lift_rel R) (reconnect v)"
  using assms by (auto simp: steps_def reconnect_def lift_rel_def conn_keeps_def newConnection_def
      split: prod.splits res.splits)

lemma connection_steps:
  assumes R: "preorder R" and keep: "conn_keeps R v"
  shows "steps (lift_rel R) (connection v)"
  unfolding steps_def
proof (intro allI impI)
  fix s r s' assume run: "connection v s = (r, s')"
  obtain p w where s: "s = (p, w)" by fastforce
  have refl: "lift_rel R s s" using R by (simp add: preorder_def lift_rel_def)
  show "lift_rel R s s'"
  proof (cases "pv_closed p")
    case True
    with run s refl show ?thesis by (simp add: connection_def)
  next
    case False
    show ?thesis
    proof (cases "pv_conn p")
      case None
      with run s False have "reconnect v s = (r, s')" by (simp add: connection_def)
      from stepsD [OF reconnect_steps [OF keep] this] show ?thesis .
    next
      case (Some c)
      obtain alive w1 where alive: "c_IsAlive v c w = (alive, w1)" by fastforce
      obtain r2 w2 where cl: "c_Close v c w1 = (r2, w2)" by fastforce
      have k: "R w w1" "R w1 w2" using keep alive cl unfolding conn_keeps_def steps_def by (metis snd_conv)+
      from run s False Some alive cl consider "s' = (p, w1)" | "reconnect v (p, w2) = (r, s')"
        by (auto simp: connection_def split: if_splits)
      then show ?thesis
      proof cases
        case 2
        have "R w2 (snd s')" using stepsD [OF reconnect_steps [OF keep] 2] by (simp add: lift_rel_def)
        with k R s show ?thesis unfolding lift_rel_def preorder_def by (metis snd_conv)
      qed (use k s in \<open>simp add: lift_rel_def\<close>)
    qed
  qed
qed

lemma world_res: "world m s = (r, s') \<Longrightarrow> m (snd s) = (r, snd s') \<and> fst s' = fst s"
  by (auto simp: world_def split: prod.splits)

lemma grows_lift: "grows (\<lambda>s. vols (snd s)) S = lift_rel (grows vols S)"
  by (auto simp: fun_eq_iff grows_def lift_rel_def)

section \<open>The provider keeps the contract of the storage\<close>

text \<open>
  What the library documents: the laws of the storage for its calls on pools and volumes, and that
  connecting, looking up and reading secrets change no volume.
\<close>

definition lib_laws :: "('w \<Rightarrow> volh set) \<Rightarrow> 'w virt \<Rightarrow> bool" where
  "lib_laws vols v \<longleftrightarrow> storage_laws vols (c_raw v) \<and> conn_keeps (grows vols {}) v
     \<and> (\<forall>c n. steps (grows vols {}) (c_LookupPool v c n))
     \<and> (\<forall>c n w p w'. c_LookupPool v c n w = (Ok p, w') \<longrightarrow> p = n)
     \<and> (\<forall>c n. steps (grows vols {}) (c_LookupSecret v c n)) \<and> (\<forall>n. steps (grows vols {}) (c_SecretValue v n))
     \<and> (\<forall>c. steps (grows vols {}) (c_NewStream v c))"

lemma FindStoragePool_name:
  assumes "\<forall>c n w p w'. c_LookupPool v c n w = (Ok p, w') \<longrightarrow> p = n" and "FindStoragePool v n s = (Ok q, s')"
  shows "q = n"
proof -
  from assms(2) obtain c s1 where "iotry (world (c_LookupPool v c n)) ret
       (\<lambda>e. if \<not> is_err ERR_NO_STORAGE_POOL e then throw e else throw ErrStoragePoolNotFound) s1 = (Ok q, s')"
    by (auto simp: FindStoragePool_def iobind_Ok)
  then show ?thesis
  proof (cases rule: iotry_cases)
    case (Ok x w1)
    then have "x = q" by (simp add: ret_def)
    with world_res [OF Ok(1)] assms(1) show ?thesis by metis
  qed (auto simp: throw_def split: if_splits)
qed

lemma provider_queries:
  assumes lib: "lib_laws vols v"
  shows "queries_keep (\<lambda>s. vols (snd s)) (provider_conn v)"
proof -
  have raw: "queries_keep vols (c_raw v)" and conn: "conn_keeps (grows vols {}) v"
    using lib storage_lawsD(1) by (auto simp: lib_laws_def)
  note q = queries_keepD [OF raw] and c = connection_steps [OF preorder_grows conn]
  have pre: "preorder (lift_rel (grows vols {}))" by (rule preorder_lift [OF preorder_grows])
  note intros = steps_bind [OF pre] steps_try [OF pre] steps_ret [OF pre] steps_throw [OF pre] steps_if
    steps_world c steps_prov [OF preorder_grows]
  have "steps (lift_rel (grows vols {})) (FindStoragePool v n)" for n
    using lib unfolding FindStoragePool_def lib_laws_def by (auto intro!: intros)
  moreover have "steps (lift_rel (grows vols {})) (NewStream v)"
    using lib unfolding NewStream_def lib_laws_def by (auto intro!: intros)
  moreover have "steps (lift_rel (grows vols {})) (GetCephSecret v n)" for n
    using lib unfolding GetCephSecret_def lib_laws_def by (auto intro!: intros)
  moreover have "lift_rel (grows vols {}) s (snd (l_ctxDone (provider_conn v) n s))" for n s
    using queries_keepD(15) [OF raw, of "snd s" n]
    by (auto simp: provider_conn_def Let_def lift_rel_def split: prod.split)
  ultimately show ?thesis
    unfolding queries_keep_def grows_lift
    by (intro conjI allI) (simp_all add: provider_conn_def Let_def steps_world q)
qed

lemma worldD: "world m s = (r, s') \<Longrightarrow> m (snd s) = (r, snd s')"
  by (auto simp: world_def split: prod.splits)

lemma provider_conn_sel:
  "l_FindStoragePool (provider_conn v) = FindStoragePool v"
  "l_PoolName (provider_conn v) = (\<lambda>p. world (l_PoolName (c_raw v) p))"
  "l_Lookup (provider_conn v) = (\<lambda>p n. world (l_Lookup (c_raw v) p n))"
  "l_VolXML (provider_conn v) = (\<lambda>h. world (l_VolXML (c_raw v) h))"
  "l_CreateXML (provider_conn v) = (\<lambda>p x. world (l_CreateXML (c_raw v) p x))"
  "l_CreateXMLFrom (provider_conn v) = (\<lambda>p x s. world (l_CreateXMLFrom (c_raw v) p x s))"
  "l_VolumeCopy (provider_conn v) = (\<lambda>c p s d. world (l_VolumeCopy (c_raw v) c p s d))"
  "l_Delete (provider_conn v) = (\<lambda>h. world (l_Delete (c_raw v) h))"
  by (simp_all add: provider_conn_def Let_def)

lemma provider_laws:
  assumes lib: "lib_laws vols v"
  shows "storage_laws (\<lambda>s. vols (snd s)) (provider_conn v)"
proof -
  have raw: "storage_laws vols (c_raw v)" using lib by (simp add: lib_laws_def)
  have names: "\<forall>c n w p w'. c_LookupPool v c n w = (Ok p, w') \<longrightarrow> p = n"
    using lib unfolding lib_laws_def by blast
  note look = lookup_lawsD [OF storage_lawsD(2) [OF raw]] and err = error_lawsD [OF storage_lawsD(3) [OF raw]]
    and create = create_lawsD [OF storage_lawsD(4) [OF raw]] and delete = delete_lawsD [OF storage_lawsD(5) [OF raw]]
  have "lookup_laws (\<lambda>s. vols (snd s)) (provider_conn v)"
    unfolding lookup_laws_def provider_conn_sel
    by (intro conjI allI impI) (blast dest: worldD look FindStoragePool_name [OF names])+
  moreover have "error_laws (provider_conn v)"
    unfolding error_laws_def provider_conn_sel by (intro conjI allI impI) (blast dest: worldD err)+
  moreover have "create_laws (\<lambda>s. vols (snd s)) (provider_conn v)"
    unfolding create_laws_def provider_conn_sel grows_lift
    by (intro conjI allI impI steps_world create) (blast dest: worldD create(2,4))+
  moreover have "delete_laws (\<lambda>s. vols (snd s)) (provider_conn v)"
    unfolding delete_laws_def provider_conn_sel by (intro conjI allI impI notI) (blast dest: worldD delete)+
  ultimately show ?thesis using provider_queries [OF lib] by (simp add: storage_laws_def)
qed

end
