(* ===== verification/LibvirtLife.thy ===== *)
theory LibvirtLife
  imports Libvirt
begin

text \<open>
  What the provider promises of its virtual machines, its connection, its secrets and the volumes
  it deletes, over any libvirt that behaves as it documents (\<open>dom_laws\<close>, \<open>secret_laws\<close>,
  \<open>lib_laws\<close>, \<open>conn_laws\<close>), with a libvirt in memory that does.
\<close>

section \<open>What the calls of the provider change\<close>

text \<open>The calls that only look, then with those on volumes.\<close>

definition looks_keep :: "('w \<Rightarrow> 'w \<Rightarrow> bool) \<Rightarrow> 'w virt \<Rightarrow> bool" where
  "looks_keep R v \<longleftrightarrow> conn_keeps R v \<and> (\<forall>c n. steps R (c_LookupPool v c n)) \<and> (\<forall>c n. steps R (c_LookupSecret v c n))
     \<and> (\<forall>n. steps R (c_SecretUUID v n)) \<and> (\<forall>d. steps R (c_DomDisks v d)) \<and> (\<forall>p. steps R (l_PoolXML (c_raw v) p))"

definition calls_keep :: "('w \<Rightarrow> 'w \<Rightarrow> bool) \<Rightarrow> 'w virt \<Rightarrow> bool" where
  "calls_keep R v \<longleftrightarrow> looks_keep R v
     \<and> (\<forall>p. steps R (l_Refresh (c_raw v) p)) \<and> (\<forall>p n. steps R (l_Lookup (c_raw v) p n))
     \<and> (\<forall>h. steps R (l_Delete (c_raw v) h)) \<and> (\<forall>n w. R w (snd (l_ctxDone (c_raw v) n w)))"

lemma looks_keepD:
  assumes "looks_keep R v"
  shows "conn_keeps R v" "steps R (c_LookupPool v c n)" "steps R (c_LookupSecret v c n)" "steps R (c_SecretUUID v n)"
    "steps R (c_DomDisks v d)" "steps R (l_PoolXML (c_raw v) p)"
  using assms unfolding looks_keep_def by iprover+

lemma calls_keepD:
  assumes "calls_keep R v"
  shows "conn_keeps R v" "looks_keep R v"
    "steps R (l_Refresh (c_raw v) p)" "steps R (l_Lookup (c_raw v) p n)" "steps R (l_Delete (c_raw v) h)"
    "R w (snd (l_ctxDone (c_raw v) k w))"
  using assms looks_keepD(1) [of R v] unfolding calls_keep_def by iprover+

text \<open>A storage that was set up on the provider.\<close>

definition pool_on :: "'w virt \<Rightarrow> string \<Rightarrow> (prov \<times> 'w) pool \<Rightarrow> bool" where
  "pool_on v x pool \<longleftrightarrow> p_l pool = provider_conn v \<and> p_name pool = x
     \<and> (\<forall>c. p_custom pool = Some c \<longrightarrow> c = provider_conn v)"

definition storage_on :: "'w virt \<Rightarrow> 'w pstorage option \<Rightarrow> bool" where
  "storage_on v st \<longleftrightarrow> (\<forall>s. st = Some s \<longrightarrow> s_l s = provider_conn v
     \<and> (\<forall>x pool. GetPool s x = Ok pool \<longrightarrow> pool_on v x pool))"

lemma storage_onD:
  assumes "storage_on v (Some s)"
  shows "s_l s = provider_conn v" "GetPool s x = Ok pool \<Longrightarrow> pool_on v x pool"
  using assms by (auto simp: storage_on_def)

lemma pool_on_laws: "lib_laws vols v \<Longrightarrow> pool_on v x pool \<Longrightarrow> pool_laws (\<lambda>s. vols (snd s)) pool"
  using provider_laws [of vols v] storage_lawsD(1) [OF provider_laws] by (auto simp: pool_on_def pool_laws_def)

lemma lookup_steps:
  assumes R: "preorder R" and keep: "looks_keep R v"
  shows "steps (lift_rel R) (FindStoragePool v n)" "steps (lift_rel R) (GetCephSecretID v n)"
  unfolding FindStoragePool_def GetCephSecretID_def
  by (intro steps_intros preorder_lift [OF R] steps_world connection_steps [OF R] looks_keepD [OF keep])+

lemma lift_steps:
  assumes R: "preorder R"
  shows "steps (lift_rel R) (lift x)" "steps (lift_rel R) (ret y)" "steps (lift_rel R) (throw e)"
  by (intro steps_intros preorder_lift [OF R])+

lemma VolumeToDisk_steps:
  assumes R: "preorder R" and keep: "looks_keep R v" and st: "s_l s = provider_conn v"
  shows "steps (lift_rel R) (VolumeToDisk s vol)"
proof -
  have sel: "l_PoolXML (provider_conn v) = (\<lambda>p. world (l_PoolXML (c_raw v) p))"
    "l_GetCephSecretID (provider_conn v) = GetCephSecretID v"
    by (simp_all add: provider_conn_def Let_def)
  note i = preorder_lift [OF R]
  have "steps (lift_rel R) (case src of None \<Rightarrow> lift (Panic t)
      | Some src \<Rightarrow> iobind (lift (ceph_source src a b)) (\<lambda>ds. ret (f ds)))" for src t a b and f :: "_ \<Rightarrow> domaindisk"
    by (cases src) (auto intro!: steps_intros i)
  then have "steps (lift_rel R) (case k of DirectoryPool \<Rightarrow> ret x
      | CephPool \<Rightarrow> iobind (FindStoragePool v a) (\<lambda>p. iobind (world (l_PoolXML (c_raw v) p)) (\<lambda>info.
          iobind (GetCephSecretID v a) (\<lambda>secretId. case px_Source info of None \<Rightarrow> lift (Panic t)
            | Some src \<Rightarrow> iobind (lift (ceph_source src b secretId)) (\<lambda>ds. ret (f ds))))))"
    for k x a b t and f :: "_ \<Rightarrow> domaindisk"
    by (cases k) (auto intro!: steps_intros i steps_world lookup_steps [OF R keep] looks_keepD [OF keep])
  then show ?thesis unfolding VolumeToDisk_def st sel provider_conn_sel
    by (intro steps_intros i)
qed

lemma generateDomain_steps:
  assumes R: "preorder R" and keep: "looks_keep R v" and st: "storage_on v (g_storage p)"
  shows "steps (lift_rel R) (generateDomain p config)"
proof -
  note i = preorder_lift [OF R]
  have vol: "steps (lift_rel R) (volume_disk (g_storage p) fd)" for fd
    using st unfolding volume_disk_def
    by (cases "g_storage p") (auto intro!: steps_intros i VolumeToDisk_steps [OF R keep] dest: storage_onD(1))
  have "steps (lift_rel R) (volume_disks (g_storage p) vols)" for vols
    by (induction vols) (auto intro!: steps_intros i vol)
  then have disks: "steps (lift_rel R) (generateDomainDeviceDisks p config d)" for d
    unfolding generateDomainDeviceDisks_def by (intro steps_intros i)
  have pm: "steps (lift_rel R) (configureDomainPowerManagement p config d)" for d
    unfolding configureDomainPowerManagement_def
    by (auto split: option.split intro!: steps_intros i)
  have "steps (lift_rel R) (f p config d)" if "f \<in> set generators" for f d
    using that unfolding generators_def
    by (auto simp: configureDomainProcessors_def configureDomainMemory_def configureDomainOS_def
        configureDomainFeatures_def configureDomainDeviceConsoles_def configureDomainDeviceChannels_def
        generateDomainDeviceFilesystems_def generateDomainDeviceInterfaces_def configureDomainDeviceRNG_def
        intro!: steps_intros i disks pm)
  then show ?thesis unfolding generateDomain_def by (intro steps_fold [OF i] steps_wrap [OF i])
qed

lemma getDomainVolumes_steps:
  assumes R: "preorder R" and keep: "looks_keep R v" and st: "storage_on v st"
  shows "steps (lift_rel R) (getDomainVolumes v st d)"
proof -
  note i = preorder_lift [OF R]
  have sel: "l_PoolXML (provider_conn v) = (\<lambda>p. world (l_PoolXML (c_raw v) p))"
    by (simp add: provider_conn_def Let_def)
  have pools: "steps (lift_rel R) (ceph_pools (provider_conn v) ps m)" for ps m
  proof (induction ps arbitrary: m)
    case (Cons x ps)
    have "steps (lift_rel R) (case src of None \<Rightarrow> lift (Panic t)
      | Some src \<Rightarrow> ceph_pools (provider_conn v) ps (f src))" for src t f
      by (cases src) (auto intro!: steps_intros i Cons.IH)
    then show ?case
      by (cases x) (auto simp: provider_conn_sel sel intro!: steps_intros i Cons.IH steps_world
          lookup_steps [OF R keep] looks_keepD [OF keep])
  qed (simp add: steps_ret [OF i])
  have "steps (lift_rel R) (DiscoverVolumes s ds)" if "st = Some s" for s ds
    using st that unfolding DiscoverVolumes_def by (auto dest: storage_onD(1) intro!: steps_intros i pools)
  then have "steps (lift_rel R) (case disks of None \<Rightarrow> ret []
     | Some ds \<Rightarrow> if ds = [] then ret []
         else (case st of None \<Rightarrow> lift (Panic t) | Some s \<Rightarrow> DiscoverVolumes s ds))" for disks t
    by (cases disks; cases st) (auto intro!: steps_intros i)
  then show ?thesis unfolding getDomainVolumes_def
    by (intro steps_bind [OF i] steps_world looks_keepD [OF keep])
qed

lemma DeleteVolume_steps:
  assumes R: "preorder R" and keep: "calls_keep R v" and p: "p_l pool = provider_conn v"
  shows "steps (lift_rel R) (DeleteVolume pool n)"
proof -
  note i = preorder_lift [OF R]
  have sel: "l_Refresh (provider_conn v) = (\<lambda>p. world (l_Refresh (c_raw v) p))"
    "lift_rel R w (snd (l_ctxDone (provider_conn v) k w))" for k w
    using calls_keepD(6) [OF keep, of "snd w" k]
    by (auto simp: provider_conn_def Let_def lift_rel_def split: prod.split)
  have "steps (lift_rel R) (l_Refresh (provider_conn v) x)" for x
    unfolding sel(1) by (intro steps_world calls_keepD [OF keep])
  note refresh = refresh_loop_steps [OF i this sel(2)]
  have "steps (lift_rel R) (refreshPool (provider_conn v) x)" for x
    unfolding steps_def refreshPool_def using refresh by blast
  then show ?thesis unfolding DeleteVolume_def Let_def p findRawVolume_def provider_conn_sel
    by (intro steps_intros i steps_world lookup_steps [OF R calls_keepD(2) [OF keep]] calls_keepD [OF keep])
qed

lemma delete_volumes_steps:
  assumes R: "preorder R" and keep: "calls_keep R v" and st: "storage_on v st"
  shows "steps (lift_rel R) (delete_volumes st vols)"
proof (induction vols)
  case (Cons vol vols)
  note i = preorder_lift [OF R]
  show ?case
  proof (cases st)
    case None
    then show ?thesis by (simp add: steps_lift [OF i])
  next
    case (Some s)
    have "steps (lift_rel R) (iobind (DeleteVolume pool (v_Name vol)) (\<lambda>_. delete_volumes st vols))"
      if "GetPool s (v_Pool vol) = Ok pool" for pool
    proof -
      from st Some that have "p_l pool = provider_conn v" by (auto dest: storage_onD(2) simp: pool_on_def)
      from DeleteVolume_steps [OF R keep this] show ?thesis by (intro steps_bind [OF i] Cons.IH)
    qed
    then have "steps (lift_rel R) (iobind (lift (GetPool s (v_Pool vol)))
        (\<lambda>pool. iobind (DeleteVolume pool (v_Name vol)) (\<lambda>_. delete_volumes st vols)))"
      using i by (cases "GetPool s (v_Pool vol)")
        (auto simp: steps_def iobind_def lift_def preorder_def split: prod.splits)
    then show ?thesis using Some by simp
  qed
qed (simp add: lift_steps [OF R])

section \<open>The contract of domains\<close>

text \<open>
  \<open>doms w\<close> are the persistent domains by name, with whether each is running; \<open>xname\<close> is the name a
  description gives. What libvirt documents: a lookup finds what is defined; defining a new domain
  leaves it stopped; creating starts it and stopping stops it; undefining a stopped domain removes
  it, undefining a running one does not; a call that fails changes none of this. Stopping fails with
  \<open>ERR_OPERATION_INVALID\<close> only for a stopped domain, and no error of libvirt is the driver's own.
\<close>

definition look_laws :: "('w \<Rightarrow> string \<rightharpoonup> bool) \<Rightarrow> 'w virt \<Rightarrow> bool" where
  "look_laws doms v \<longleftrightarrow> (\<forall>c n. steps (same doms) (c_LookupDomain v c n))
     \<and> (\<forall>c n w d w'. c_LookupDomain v c n w = (Ok d, w') \<longrightarrow> d = n \<and> doms w n \<noteq> None)
     \<and> (\<forall>c n w e w'. c_LookupDomain v c n w = (Fail e, w') \<longrightarrow> \<not> is_err ErrNotFound e
         \<and> (is_err ERR_NO_DOMAIN e \<longrightarrow> doms w n = None))
     \<and> (\<forall>u a w e w'. c_NewConnect v u a w = (Fail e, w') \<longrightarrow> \<not> is_err ErrNotFound e)"

definition life_laws :: "('w \<Rightarrow> string \<rightharpoonup> bool) \<Rightarrow> (domxml \<Rightarrow> string) \<Rightarrow> 'w virt \<Rightarrow> bool" where
  "life_laws doms xname v \<longleftrightarrow>
     (\<forall>c x w d w'. c_DefineDomain v c x w = (Ok d, w') \<longrightarrow> d = xname x
         \<and> (doms w d = None \<longrightarrow> doms w' = (doms w)(d \<mapsto> False)))
   \<and> (\<forall>c x w r w'. c_DefineDomain v c x w = (r, w') \<longrightarrow> (\<forall>d. r \<noteq> Ok d) \<longrightarrow> doms w' = doms w)
   \<and> (\<forall>d w r w'. c_Create v d w = (r, w') \<longrightarrow> doms w' = (if r = Ok () then (doms w)(d \<mapsto> True) else doms w))
   \<and> (\<forall>d g w r w'. c_Stop v d g w = (r, w') \<longrightarrow> doms w d \<noteq> None \<longrightarrow>
         doms w' = (if r = Ok () then (doms w)(d \<mapsto> False) else doms w))
   \<and> (\<forall>d g w e w'. c_Stop v d g w = (Fail e, w') \<longrightarrow> c_is_lverr v e
         \<and> (is_err ERR_OPERATION_INVALID e \<longrightarrow> doms w d = Some False))
   \<and> (\<forall>d w r w'. c_Undefine v d w = (r, w') \<longrightarrow>
         doms w' = (if r = Ok () \<and> doms w d = Some False then (doms w)(d := None) else doms w))"

definition dom_laws :: "('w \<Rightarrow> string \<rightharpoonup> bool) \<Rightarrow> (domxml \<Rightarrow> string) \<Rightarrow> 'w virt \<Rightarrow> bool" where
  "dom_laws doms xname v \<longleftrightarrow> calls_keep (same doms) v \<and> look_laws doms v \<and> life_laws doms xname v
     \<and> (\<forall>d. xname (DomainXML d) = dm_Name d)"

lemma dom_lawsD:
  assumes "dom_laws doms xname v"
  shows "calls_keep (same doms) v" "look_laws doms v" "life_laws doms xname v" "xname (DomainXML d) = dm_Name d"
  using assms by (simp_all add: dom_laws_def)

lemma look_lawsD:
  assumes "look_laws doms v"
  shows "steps (same doms) (c_LookupDomain v c n)"
    "c_LookupDomain v c n w = (Ok d, w') \<Longrightarrow> d = n \<and> doms w n \<noteq> None"
    "c_LookupDomain v c n w = (Fail e, w') \<Longrightarrow> \<not> is_err ErrNotFound e"
    "c_LookupDomain v c n w = (Fail e, w') \<Longrightarrow> is_err ERR_NO_DOMAIN e \<Longrightarrow> doms w n = None"
    "c_NewConnect v u a w = (Fail e, w') \<Longrightarrow> \<not> is_err ErrNotFound e"
  using assms unfolding look_laws_def by (iprover | blast)+

lemma life_lawsD:
  assumes "life_laws doms xname v"
  shows "c_DefineDomain v c x w = (Ok d, w') \<Longrightarrow> d = xname x \<and> (doms w d = None \<longrightarrow> doms w' = (doms w)(d \<mapsto> False))"
    "c_DefineDomain v c x w = (q, w') \<Longrightarrow> (\<And>d. q \<noteq> Ok d) \<Longrightarrow> doms w' = doms w"
    "c_Create v d w = (r, w') \<Longrightarrow> doms w' = (if r = Ok () then (doms w)(d \<mapsto> True) else doms w)"
    "c_Stop v d g w = (r, w') \<Longrightarrow> doms w d \<noteq> None \<Longrightarrow> doms w' = (if r = Ok () then (doms w)(d \<mapsto> False) else doms w)"
    "c_Stop v d g w = (Fail e, w') \<Longrightarrow> c_is_lverr v e"
    "c_Stop v d g w = (Fail e, w') \<Longrightarrow> is_err ERR_OPERATION_INVALID e \<Longrightarrow> doms w d = Some False"
    "c_Undefine v d w = (r, w') \<Longrightarrow>
       doms w' = (if r = Ok () \<and> doms w d = Some False then (doms w)(d := None) else doms w)"
proof -
  note l = assms [unfolded life_laws_def]
  note l2 = conjunct2 [OF l] note l3 = conjunct2 [OF l2] note l4 = conjunct2 [OF l3] note l5 = conjunct2 [OF l4]
  note a = conjunct1 [OF l, rule_format] conjunct1 [OF l2, rule_format] conjunct1 [OF l3, rule_format]
    conjunct1 [OF l4, rule_format] conjunct1 [OF l5, rule_format] conjunct2 [OF l5, rule_format]
  show "c_DefineDomain v c x w = (Ok d, w') \<Longrightarrow> d = xname x \<and> (doms w d = None \<longrightarrow> doms w' = (doms w)(d \<mapsto> False))"
    by (rule a(1))
  show "c_DefineDomain v c x w = (q, w') \<Longrightarrow> (\<And>d. q \<noteq> Ok d) \<Longrightarrow> doms w' = doms w"
    by (rule a(2))
  show "c_Create v d w = (r, w') \<Longrightarrow> doms w' = (if r = Ok () then (doms w)(d \<mapsto> True) else doms w)"
    by (rule a(3))
  show "c_Stop v d g w = (r, w') \<Longrightarrow> doms w d \<noteq> None \<Longrightarrow> doms w' = (if r = Ok () then (doms w)(d \<mapsto> False) else doms w)"
    by (rule a(4)) auto
  show "c_Stop v d g w = (Fail e, w') \<Longrightarrow> c_is_lverr v e"
    using a(5) by blast
  show "c_Stop v d g w = (Fail e, w') \<Longrightarrow> is_err ERR_OPERATION_INVALID e \<Longrightarrow> doms w d = Some False"
    using a(5) by blast
  show "c_Undefine v d w = (r, w') \<Longrightarrow>
       doms w' = (if r = Ok () \<and> doms w d = Some False then (doms w)(d := None) else doms w)"
    by (rule a(6))
qed

text \<open>Looking up a machine: it is defined, or not, or the lookup itself failed.\<close>

lemma connection_error:
  assumes "look_laws doms v" and "connection v s = (Fail e, s')"
  shows "\<not> is_err ErrNotFound e"
  using assms(2) look_lawsD(5) [OF assms(1)]
  by (cases s) (auto simp: connection_def reconnect_def newConnection_def ErrConnectionClosed_def ErrNotFound_def
      split: option.splits prod.splits if_splits res.splits)

lemma getDomain_result:
  assumes laws: "dom_laws doms xname v" and run: "getDomain v n s = (r, s')"
  shows "doms (snd s') = doms (snd s)" "r = Ok d \<Longrightarrow> d = n \<and> doms (snd s) n \<noteq> None"
    "r = Fail e \<Longrightarrow> is_err ErrNotFound e \<Longrightarrow> e = ErrDomainNotFound \<and> doms (snd s) n = None"
proof -
  note look = look_lawsD [OF dom_lawsD(2) [OF laws]] and keep = calls_keepD [OF dom_lawsD(1) [OF laws]]
  note i = preorder_lift [OF preorder_same]
  have "steps (lift_rel (same doms)) (getDomain v n)"
    unfolding getDomain_def by (intro steps_intros i steps_world look connection_steps keep preorder_same)
  from stepsD [OF this run] show "doms (snd s') = doms (snd s)" by (simp add: lift_rel_def same_def)
  have conn: "doms (snd s1) = doms (snd s)" if "connection v s = (r1, s1)" for r1 s1
    using stepsD [OF connection_steps [OF preorder_same keep(1)] that] by (simp add: lift_rel_def same_def)
  show "d = n \<and> doms (snd s) n \<noteq> None" if "r = Ok d"
    using run that conn unfolding getDomain_def
    by (elim iobind_cases iotry_cases) (auto simp: ret_def throw_def dest!: worldD look(2) split: if_splits)
  show "e = ErrDomainNotFound \<and> doms (snd s) n = None" if "r = Fail e" "is_err ErrNotFound e"
    using run that conn connection_error [OF dom_lawsD(2) [OF laws]] unfolding getDomain_def
    by (elim iobind_cases iotry_cases)
      (auto simp: ret_def throw_def wrapf_def ErrNotFound_def dest!: worldD dest: look(3,4) split: if_splits)
qed

lemma domain_xml_steps:
  assumes R: "preorder R" and keep: "looks_keep R v" and st: "storage_on v st"
  shows "steps (lift_rel R) (domain_xml st config)"
proof -
  have gen: "steps (lift_rel R) (generateDomain \<lparr>g_caps = pv_caps p, g_insecure = pv_insecure p, g_storage = st\<rparr> config)" for p
    by (rule generateDomain_steps [OF R keep]) (simp add: st)
  show ?thesis unfolding domain_xml_def by (intro steps_intros preorder_lift R steps_prov gen)
qed

lemma domain_xml_result:
  assumes laws: "dom_laws doms xname v" and st: "storage_on v st" and run: "domain_xml st config s = (r, s')"
  shows "doms (snd s') = doms (snd s)"
    "vm_XMLConfig config = [] \<Longrightarrow> r = Ok x \<Longrightarrow> xname x = vm_Name config"
    "vm_XMLConfig config \<noteq> [] \<Longrightarrow> r = Ok x \<Longrightarrow> x = RawXML (vm_XMLConfig config)"
proof -
  from stepsD [OF domain_xml_steps [OF preorder_same calls_keepD(2) [OF dom_lawsD(1) [OF laws]] st] run] show "doms (snd s') = doms (snd s)" by (simp add: lift_rel_def same_def)
  show "xname x = vm_Name config" if "vm_XMLConfig config = []" "r = Ok x"
    using run that dom_lawsD(4) [OF laws] unfolding domain_xml_def
    by (auto simp: iobind_Ok ret_def dest: generateDomain_name)
  show "x = RawXML (vm_XMLConfig config)" if "vm_XMLConfig config \<noteq> []" "r = Ok x"
    using run that unfolding domain_xml_def by (auto simp: ret_def)
qed

text \<open>What is left of a creation once the name is known to be free.\<close>

lemma create_new:
  assumes laws: "dom_laws doms xname v" and free: "doms (snd s) (xname x) = None"
    and run: "iobind (iowrap a b (world (c_DefineDomain v conn x))) (\<lambda>d. iowrap a' b' (world (c_Create v d))) s = (r, s')"
  shows "if r = Ok () then doms (snd s') = (doms (snd s))(xname x \<mapsto> True)
    else doms (snd s') = doms (snd s) \<or> doms (snd s') = (doms (snd s))(xname x \<mapsto> False)"
  using run
proof (cases rule: iobind_cases)
  note life = life_lawsD [OF dom_lawsD(3) [OF laws]]
  case (Ok d s1)
  then have "world (c_DefineDomain v conn x) s = (Ok d, s1)" by simp
  from life(1) [OF worldD [OF this]] free
  have d: "d = xname x" "doms (snd s1) = (doms (snd s))(xname x \<mapsto> False)" by auto
  from Ok(2) show ?thesis
  proof (cases rule: iowrap_cases)
    case (Ok u)
    from life(3) [OF worldD [OF this(1)]] d Ok(2) show ?thesis by simp
  next
    case (Fail e)
    from life(3) [OF worldD [OF this(1)]] d Fail(2) show ?thesis by simp
  next
    case (Panic p)
    from life(3) [OF worldD [OF this(1)]] d Panic(2) show ?thesis by simp
  qed
next
  note life = life_lawsD [OF dom_lawsD(3) [OF laws]]
  case (Fail e)
  from Fail(1) obtain e' where "world (c_DefineDomain v conn x) s = (Fail e', s')" by (cases rule: iowrap_cases) auto
  from life(2) [OF worldD [OF this]] Fail(2) show ?thesis by simp
next
  note life = life_lawsD [OF dom_lawsD(3) [OF laws]]
  case (Panic p)
  from Panic(1) have "world (c_DefineDomain v conn x) s = (Panic p, s')" by (cases rule: iowrap_cases) auto
  from life(2) [OF worldD [OF this]] Panic(2) show ?thesis by simp
qed

text \<open>The volumes of a destroyed machine are gone once their deletion succeeded.\<close>

lemma delete_volumes_gone:
  assumes lib: "lib_laws vols v" and st: "storage_on v st"
  shows "delete_volumes st vs s = (Ok (), s') \<Longrightarrow>
    (\<forall>vol \<in> set vs. (v_Pool vol, v_Name vol) \<notin> vols (snd s')) \<and> vols (snd s') \<subseteq> vols (snd s)"
proof (induction vs arbitrary: s)
  case (Cons vol vs)
  from Cons.prems obtain sg pool s1 where sg: "st = Some sg" and pool: "GetPool sg (v_Pool vol) = Ok pool"
    and del: "DeleteVolume pool (v_Name vol) s = (Ok (), s1)" and rest: "delete_volumes st vs s1 = (Ok (), s')"
    by (cases st) (auto simp: iobind_Ok lift_def)
  have on: "pool_on v (v_Pool vol) pool" using st sg pool by (auto dest: storage_onD(2))
  have "vols (snd s1) = vols (snd s) - {(v_Pool vol, v_Name vol)}"
    using DeleteVolume_result [OF pool_on_laws [OF lib on] del] on by (simp add: pool_on_def)
  with Cons.IH [OF rest] show ?case by auto
qed (simp add: ret_def)

text \<open>Destroying once the machine was found and its volumes are known.\<close>

definition stop_undefine :: "'w virt \<Rightarrow> string \<Rightarrow> string \<Rightarrow> ('w, unit) pio" where
  "stop_undefine v name d = iobind (iotry (world (c_Stop v d False)) ret
       (\<lambda>e. if c_is_lverr v e \<and> \<not> is_err ERR_OPERATION_INVALID e
         then throw (wrapf (''libvirt: unable to destroy domain '' @ name @ '': '') e []) else ret ())) (\<lambda>_.
     iowrap (''libvirt: unable to undefine domain '' @ name @ '': '') [] (world (c_Undefine v d)))"

lemma DestroyVM_parts:
  "DestroyVM v st name = iobind (getDomain v name) (\<lambda>d. iobind (getDomainVolumes v st d) (\<lambda>vols.
     iobind (stop_undefine v name d) (\<lambda>_. delete_volumes st vols)))"
  by (simp add: DestroyVM_def stop_undefine_def iobind_assoc)

lemma stop_undefine_result:
  assumes laws: "dom_laws doms xname v" and there: "doms (snd s) d \<noteq> None"
    and run: "stop_undefine v name d s = (r, s')"
  shows "if r = Ok () then doms (snd s') = (doms (snd s))(d := None)
    else doms (snd s') = doms (snd s) \<or> doms (snd s') = (doms (snd s))(d \<mapsto> False)"
proof -
  note life = life_lawsD [OF dom_lawsD(3) [OF laws]]
  let ?stop = "iotry (world (c_Stop v d False)) ret
       (\<lambda>e. if c_is_lverr v e \<and> \<not> is_err ERR_OPERATION_INVALID e
         then throw (wrapf (''libvirt: unable to destroy domain '' @ name @ '': '') e []) else ret ())"
  have stop: "if q = Ok () then doms (snd t) = (doms (snd s))(d \<mapsto> False) else doms (snd t) = doms (snd s)"
    if "?stop s = (q, t)" for q t
    using that
  proof (cases rule: iotry_cases)
    case (Ok u s1)
    from life(4) [OF worldD [OF Ok(1)] there] Ok(2) show ?thesis by (simp add: ret_def)
  next
    case (Fail e s1)
    note f = worldD [OF Fail(1)]
    have "doms (snd s) = (doms (snd s))(d \<mapsto> False)" if "is_err ERR_OPERATION_INVALID e"
      using life(6) [OF f that] by auto
    then show ?thesis using life(4) [OF f there] life(5) [OF f] Fail(2)
      by (auto simp: ret_def throw_def split: if_splits)
  next
    case (Panic p)
    from life(4) [OF worldD [OF Panic(1)] there] Panic(2) show ?thesis by simp
  qed
  from run show ?thesis unfolding stop_undefine_def
  proof (cases rule: iobind_cases)
    case (Ok u s1)
    then have s1: "doms (snd s1) = (doms (snd s))(d \<mapsto> False)" using stop [OF Ok(1)] by simp
    from Ok(2) obtain q where "world (c_Undefine v d) s1 = (q, s')" "r = Ok () \<longleftrightarrow> q = Ok ()"
      by (cases rule: iowrap_cases) auto
    with life(7) [OF worldD [OF this(1)]] s1 show ?thesis by auto
  next
    case (Fail e)
    with stop [OF Fail(1)] show ?thesis by simp
  next
    case (Panic p)
    with stop [OF Panic(1)] show ?thesis by simp
  qed
qed

text \<open>Creating and destroying as a whole.\<close>

lemma CreateVM_effect:
  assumes "dom_laws doms xname v" and "storage_on v st"
    and "vm_XMLConfig config \<noteq> [] \<Longrightarrow> xname (RawXML (vm_XMLConfig config)) = vm_Name config"
    and "CreateVM v st config s = (r, s')"
  shows "if r = Ok () then doms (snd s) (vm_Name config) = None \<and> doms (snd s') = (doms (snd s))(vm_Name config \<mapsto> True)
    else doms (snd s') = doms (snd s)
      \<or> doms (snd s) (vm_Name config) = None \<and> doms (snd s') = (doms (snd s))(vm_Name config \<mapsto> False)"
proof -
  note laws = assms(1)
  have conn: "doms (snd s1) = doms (snd s)" if "connection v s = (r1, s1)" for r1 s1
    using stepsD [OF connection_steps [OF preorder_same calls_keepD(1) [OF dom_lawsD(1) [OF laws]]] that]
    by (simp add: lift_rel_def same_def)
  from assms(4) show ?thesis unfolding CreateVM_def
  proof (cases rule: iobind_cases)
    case (Ok c s1)
    note s1 = conn [OF Ok(1)]
    from Ok(2) show ?thesis
    proof (cases rule: iotry_cases)
      case (Ok d s2)
      with getDomain_result(1) [OF laws Ok(1)] s1 show ?thesis by (auto simp: throw_def)
    next
      case (Panic p)
      with getDomain_result(1) [OF laws Panic(1)] s1 show ?thesis by simp
    next
      case (Fail e s2)
      have s2: "doms (snd s2) = doms (snd s)" using getDomain_result(1) [OF laws Fail(1)] s1 by simp
      show ?thesis
      proof (cases "is_err ErrNotFound e")
        case False
        with Fail(2) s2 show ?thesis by (auto simp: throw_def)
      next
        case True
        have free: "doms (snd s) (vm_Name config) = None" using getDomain_result(3) [OF laws Fail(1) refl True] s1 by simp
        from Fail(2) True have "iobind (domain_xml st config) (\<lambda>xml.
           iobind (iowrap (''libvirt: unable to define domain '' @ vm_Name config @ '': '') []
             (world (c_DefineDomain v c xml))) (\<lambda>d.
           iowrap (''libvirt: unable to create domain '' @ vm_Name config @ '': '') [] (world (c_Create v d)))) s2 = (r, s')"
          by simp
        then show ?thesis
        proof (cases rule: iobind_cases)
          case (Ok x s3)
          have name: "xname x = vm_Name config"
            using domain_xml_result(2,3) [OF laws assms(2) Ok(1)] assms(3) by (cases "vm_XMLConfig config = []") auto
          have s3: "doms (snd s3) = doms (snd s)" using domain_xml_result(1) [OF laws assms(2) Ok(1)] s2 by simp
          from create_new [OF laws _ Ok(2)] show ?thesis unfolding name s3 using free by auto
        qed (use domain_xml_result(1) [OF laws assms(2)] s2 in auto)
      qed
    qed
  qed (use conn in auto)
qed

lemma DestroyVM_effect:
  assumes laws: "dom_laws doms xname v" and st: "storage_on v st"
    and run: "DestroyVM v st name s = (r, s')"
  shows "(r = Ok () \<longrightarrow> doms (snd s) name \<noteq> None \<and> doms (snd s') = (doms (snd s))(name := None)
      \<and> (lib_laws vols v \<longrightarrow> (\<exists>t vs t'. getDomainVolumes v st name t = (Ok vs, t')
          \<and> (\<forall>vol \<in> set vs. (v_Pool vol, v_Name vol) \<notin> vols (snd s')))))
    \<and> (\<forall>m. m \<noteq> name \<longrightarrow> doms (snd s') m = doms (snd s) m)"
proof -
  note keep = dom_lawsD(1) [OF laws]
  from run show ?thesis unfolding DestroyVM_parts
  proof (cases rule: iobind_cases)
    case (Ok d s1)
    have d: "d = name" "doms (snd s) name \<noteq> None" "doms (snd s1) = doms (snd s)"
      using getDomain_result(1,2) [OF laws Ok(1)] by simp_all
    note keepv = stepsD [OF getDomainVolumes_steps [OF preorder_same calls_keepD(2) [OF keep] st], unfolded lift_rel_def same_def]
    from Ok(2) show ?thesis
    proof (cases rule: iobind_cases)
      case (Ok vs s2)
      note found = Ok(1)
      have s2: "doms (snd s2) = doms (snd s)" using keepv [OF found] d by simp
      from Ok(2) show ?thesis
      proof (cases rule: iobind_cases)
        case (Ok u s3)
        have "doms (snd s3) = (doms (snd s))(name := None)"
          using stop_undefine_result [OF laws _ Ok(1)] s2 d by simp
        then have s': "doms (snd s') = (doms (snd s))(name := None)"
          using stepsD [OF delete_volumes_steps [OF preorder_same keep st] Ok(2)] by (simp add: lift_rel_def same_def)
        have "\<forall>vol \<in> set vs. (v_Pool vol, v_Name vol) \<notin> vols (snd s')" if "r = Ok ()" "lib_laws vols v"
          using delete_volumes_gone [OF that(2) st, of vs s3 s'] Ok(2) that(1) by simp
        with found d(1) have "\<exists>t vs t'. getDomainVolumes v st name t = (Ok vs, t')
          \<and> (\<forall>vol \<in> set vs. (v_Pool vol, v_Name vol) \<notin> vols (snd s'))" if "r = Ok ()" "lib_laws vols v"
          using that by blast
        with s' d(2) show ?thesis by simp
      next
        case (Fail e)
        with stop_undefine_result [OF laws _ Fail(1)] s2 d show ?thesis by auto
      next
        case (Panic p)
        with stop_undefine_result [OF laws _ Panic(1)] s2 d show ?thesis by auto
      qed
    qed (use keepv d in auto)
  qed (use getDomain_result(1) [OF laws] in auto)
qed

section \<open>The contract of secrets\<close>

text \<open>
  \<open>secs w\<close> are the values of the secrets by name; a secret that is defined and not yet set may have any.
\<close>

definition secret_laws :: "('w \<Rightarrow> string \<rightharpoonup> string) \<Rightarrow> 'w virt \<Rightarrow> bool" where
  "secret_laws secs v \<longleftrightarrow> conn_keeps (same secs) v \<and> (\<forall>c n. steps (same secs) (c_LookupSecret v c n))
     \<and> (\<forall>n. steps (same secs) (c_SecretValue v n)) \<and> (\<forall>n. steps (same secs) (c_SecretUUID v n))
     \<and> (\<forall>c n w h w'. c_LookupSecret v c n w = (Ok h, w') \<longrightarrow> h = n)
     \<and> (\<forall>h w x w'. c_SecretValue v h w = (Ok x, w') \<longrightarrow> secs w h = Some x)
     \<and> (\<forall>h x w w'. c_SecretSet v h x w = (Ok (), w') \<longrightarrow> secs w' = (secs w)(h \<mapsto> x))
     \<and> (\<forall>c n w h w'. c_SecretDefine v c n w = (Ok h, w') \<longrightarrow> h = n \<and> (\<forall>m. m \<noteq> n \<longrightarrow> secs w' m = secs w m))"

lemma secret_lawsD:
  assumes "secret_laws secs v"
  shows "conn_keeps (same secs) v" "steps (same secs) (c_LookupSecret v c n)" "steps (same secs) (c_SecretValue v n)"
    "steps (same secs) (c_SecretUUID v n)" "c_LookupSecret v c n w = (Ok h, w') \<Longrightarrow> h = n"
    "c_SecretValue v h w = (Ok x, w') \<Longrightarrow> secs w h = Some x"
    "c_SecretSet v h x w = (Ok (), w') \<Longrightarrow> secs w' = (secs w)(h \<mapsto> x)"
    "c_SecretDefine v c n w = (Ok h, w') \<Longrightarrow> h = n \<and> (\<forall>m. m \<noteq> n \<longrightarrow> secs w' m = secs w m)"
proof -
  note l = assms [unfolded secret_laws_def]
  note l1 = conjunct2 [OF l] note l2 = conjunct2 [OF l1] note l3 = conjunct2 [OF l2] note l4 = conjunct2 [OF l3]
  note l5 = conjunct2 [OF l4] note l6 = conjunct2 [OF l5]
  note a = conjunct1 [OF l1, rule_format] conjunct1 [OF l2, rule_format] conjunct1 [OF l3, rule_format]
    conjunct1 [OF l4, rule_format] conjunct1 [OF l5, rule_format] conjunct1 [OF l6, rule_format]
    conjunct2 [OF l6, rule_format]
  show "conn_keeps (same secs) v" by (rule conjunct1 [OF l])
  show "steps (same secs) (c_LookupSecret v c n)" by (rule a(1))
  show "steps (same secs) (c_SecretValue v n)" by (rule a(2))
  show "steps (same secs) (c_SecretUUID v n)" by (rule a(3))
  show "c_LookupSecret v c n w = (Ok h, w') \<Longrightarrow> h = n" by (rule a(4))
  show "c_SecretValue v h w = (Ok x, w') \<Longrightarrow> secs w h = Some x" by (rule a(5))
  show "c_SecretSet v h x w = (Ok (), w') \<Longrightarrow> secs w' = (secs w)(h \<mapsto> x)" by (rule a(6))
  show "c_SecretDefine v c n w = (Ok h, w') \<Longrightarrow> h = n \<and> (\<forall>m. m \<noteq> n \<longrightarrow> secs w' m = secs w m)" using a(7) by blast
qed

lemma SetCephSecret_sets:
  assumes laws: "secret_laws secs v" and run: "SetCephSecret v n cred s = (Ok uuid, s')"
  shows "\<exists>x. b64_decode cred = Some x \<and> secs (snd s') n = Some x \<and> (\<forall>m. m \<noteq> n \<longrightarrow> secs (snd s') m = secs (snd s) m)"
proof -
  note law = secret_lawsD [OF laws]
  note keep = law(2-4) [THEN stepsD, unfolded same_def]
  obtain c s1 where conn: "connection v s = (Ok c, s1)"
    and rest: "(case b64_decode cred of None \<Rightarrow> throw ErrCorruptInput
     | Some decodedCred \<Rightarrow>
         iotry (world (c_LookupSecret v c n))
           (\<lambda>secret.
             iobind (world (c_SecretValue v secret)) (\<lambda>value.
             iobind (if value \<noteq> decodedCred then world (c_SecretSet v secret decodedCred) else ret ()) (\<lambda>_.
             world (c_SecretUUID v secret))))
           (\<lambda>e. if \<not> is_err ERR_NO_SECRET e then throw e
             else
               iobind (world (c_SecretDefine v c n)) (\<lambda>secret.
               iobind (world (c_SecretSet v secret decodedCred)) (\<lambda>_.
               world (c_SecretUUID v secret))))) s1 = (Ok uuid, s')"
    using run unfolding SetCephSecret_def by (auto simp only: iobind_Ok)
  have s1: "secs (snd s1) = secs (snd s)"
    using stepsD [OF connection_steps [OF preorder_same law(1)] conn] by (simp add: lift_rel_def same_def)
  obtain x where x: "b64_decode cred = Some x" using rest by (cases "b64_decode cred") (auto simp: throw_def)
  show ?thesis
    using rest [unfolded x option.case]
  proof (cases rule: iotry_cases)
    case (Ok h s2)
    note look = worldD [OF Ok(1)]
    have h: "h = n" "secs (snd s2) = secs (snd s)" using law(5) [OF look] keep(1) [OF look] s1 by simp_all
    from Ok(2) obtain y s3 s4 where val: "world (c_SecretValue v h) s2 = (Ok y, s3)"
      and set: "(if y \<noteq> x then world (c_SecretSet v h x) else ret ()) s3 = (Ok (), s4)"
      and uuid: "world (c_SecretUUID v h) s4 = (Ok uuid, s')"
      by (auto simp only: iobind_Ok)
    have s3: "secs (snd s3) = secs (snd s)" "secs (snd s) n = Some y"
      using law(6) [OF worldD [OF val]] keep(2) [OF worldD [OF val]] h by simp_all
    have "secs (snd s4) n = Some x \<and> (\<forall>m. m \<noteq> n \<longrightarrow> secs (snd s4) m = secs (snd s) m)"
    proof (cases "y = x")
      case False
      with set have "world (c_SecretSet v h x) s3 = (Ok (), s4)" by simp
      from law(7) [OF worldD [OF this]] h s3 show ?thesis by simp
    qed (use set s3 in \<open>simp add: ret_def\<close>)
    with keep(3) [OF worldD [OF uuid]] x show ?thesis by simp
  next
    case (Fail e s2)
    have s2: "secs (snd s2) = secs (snd s)" using keep(1) [OF worldD [OF Fail(1)]] s1 by simp
    from Fail(2) obtain h s3 s4 where defi: "world (c_SecretDefine v c n) s2 = (Ok h, s3)"
      and set: "world (c_SecretSet v h x) s3 = (Ok (), s4)" and uuid: "world (c_SecretUUID v h) s4 = (Ok uuid, s')"
      by (auto simp: throw_def iobind_Ok split: if_splits)
    from law(8) [OF worldD [OF defi]] law(7) [OF worldD [OF set]] keep(3) [OF worldD [OF uuid]] s2 x
    show ?thesis by simp
  qed simp
qed

section \<open>A libvirt in memory\<close>

text \<open>
  The world holds the volumes, the domains and whether they run, the secrets, the open connections and
  the definitions. Starting a domain fails when \<open>bad\<close> is set, deleting a volume when \<open>stuck\<close> is.
\<close>

record memory =
  mem_vols :: "volh set"
  mem_doms :: "string \<rightharpoonup> bool"
  mem_secs :: "string \<rightharpoonup> string"
  mem_open :: "nat list"
  mem_xml :: "string \<rightharpoonup> domxml"

definition no_volume :: goerr where "no_volume = wrapf [] ERR_NO_STORAGE_VOL []"

definition mem_raw :: "bool \<Rightarrow> 'a memory_scheme conn" where
  "mem_raw stuck = \<lparr>l_CreateStoragePool = (\<lambda>d. ret (px_Name d)), l_FindStoragePool = ret,
     l_UpdateStoragePool = (\<lambda>d. ret ()), l_SetCephSecret = (\<lambda>n c. ret []),
     l_GetCephSecret = (\<lambda>n. ret []), l_GetCephSecretID = (\<lambda>n. ret []),
     l_PoolXML = (\<lambda>p. ret \<lparr>px_Name = p, px_Type = ''dir'', px_Path = None, px_Source = None\<rparr>),
     l_PoolName = ret, l_IsActive = (\<lambda>p. ret True), l_StartPool = (\<lambda>p. ret ()),
     l_ListVolumes = (\<lambda>p. ret []),
     l_Lookup = (\<lambda>p n w. (if (p, n) \<in> mem_vols w then Ok (p, n) else Fail no_volume, w)),
     l_Refresh = (\<lambda>p. ret ()),
     l_CreateXML = (\<lambda>p x w. (Ok (p, vx_Name x), w\<lparr>mem_vols := insert (p, vx_Name x) (mem_vols w)\<rparr>)),
     l_CreateXMLFrom = (\<lambda>p x v w. (Ok (p, vx_Name x), w\<lparr>mem_vols := insert (p, vx_Name x) (mem_vols w)\<rparr>)),
     l_Delete = (\<lambda>h w. if stuck then (Fail (ErrNew ''volume is in use''), w)
        else (Ok (), w\<lparr>mem_vols := mem_vols w - {h}\<rparr>)),
     l_Info = (\<lambda>v. ret (0, 0)), l_Path = (\<lambda>v. ret (fst v @ ''/'' @ snd v)),
     l_VolXML = (\<lambda>v. throw no_volume), l_Resize = (\<lambda>v n b. ret ()), l_FileSize = (\<lambda>f. ret 7),
     l_NewStream = ret True, l_upload = (\<lambda>v f n b. ret ()), l_MkdirAll = (\<lambda>p. ret ()),
     l_VolumeCopy = (\<lambda>c p s d. ret ()), l_VolumeUpload = (\<lambda>c p v f. ret ()), l_ctxDone = (\<lambda>n w. (None, w)),
     l_took = (\<lambda>w. 0)\<rparr>"

definition mem_name :: "domxml \<Rightarrow> string" where
  "mem_name x = (case x of RawXML s \<Rightarrow> s | DomainXML d \<Rightarrow> dm_Name d)"

definition mem_stop :: "string \<Rightarrow> ('a memory_scheme, unit) io" where
  "mem_stop d w = (case mem_doms w d of
     Some True \<Rightarrow> (Ok (), w\<lparr>mem_doms := (mem_doms w)(d \<mapsto> False)\<rparr>)
   | Some False \<Rightarrow> (Fail (wrapf [] ERR_OPERATION_INVALID []), w)
   | None \<Rightarrow> (Fail (wrapf [] ERR_NO_DOMAIN []), w))"

definition mem_disk :: "string \<Rightarrow> domaindisk" where
  "mem_disk d = disk_of (empty_volume\<lparr>v_Name := d\<rparr>) (Some (SourceVolume ''local'' d))"

definition mem_disks :: "domxml option \<Rightarrow> string \<Rightarrow> domaindisk list" where
  "mem_disks x d = (case x of Some (DomainXML g) \<Rightarrow> map fst (dm_Disks g) | _ \<Rightarrow> [mem_disk d])"

definition mem_virt :: "bool \<Rightarrow> bool \<Rightarrow> 'a memory_scheme virt" where
  "mem_virt bad stuck = \<lparr>
     c_NewConnect = (\<lambda>u a w. let c = Suc (sum_list (mem_open w)) in (Ok c, w\<lparr>mem_open := c # mem_open w\<rparr>)),
     c_IsAlive = (\<lambda>c w. (True, w)),
     c_Close = (\<lambda>c w. (Ok (), w\<lparr>mem_open := filter (\<lambda>x. x \<noteq> c) (mem_open w)\<rparr>)),
     c_GetVersion = (\<lambda>c. ret 11000000), c_GetLibVersion = (\<lambda>c. ret 11000000), c_GetType = (\<lambda>c. ret ''QEMU''),
     c_GetCapabilities = (\<lambda>c. ret (\<lparr>hc_Arch = ''x86_64'', hc_PM = None\<rparr>, [])), c_exec = (\<lambda>cmd. ret []),
     c_LookupDomain = (\<lambda>c n w. (case mem_doms w n of Some _ \<Rightarrow> Ok n | None \<Rightarrow> Fail (wrapf [] ERR_NO_DOMAIN []), w)),
     c_DefineDomain = (\<lambda>c x w. (Ok (mem_name x), (case mem_doms w (mem_name x) of Some _ \<Rightarrow> w
        | None \<Rightarrow> w\<lparr>mem_doms := (mem_doms w)(mem_name x \<mapsto> False)\<rparr>)\<lparr>mem_xml := (mem_xml w)(mem_name x \<mapsto> x)\<rparr>)),
     c_Create = (\<lambda>d w. if bad then (Fail (ErrNew ''cannot start''), w)
        else (Ok (), w\<lparr>mem_doms := (mem_doms w)(d \<mapsto> True)\<rparr>)),
     c_Stop = (\<lambda>d g. mem_stop d),
     c_Undefine = (\<lambda>d w. (Ok (), if mem_doms w d = Some False then w\<lparr>mem_doms := (mem_doms w)(d := None)\<rparr> else w)),
     c_DomInfo = (\<lambda>d. throw (ErrNew ''no info'')), c_DomDisks = (\<lambda>d w. (Ok (Some (mem_disks (mem_xml w d) d)), w)),
     c_DomNics = (\<lambda>d. ret None), c_NodeInfo = (\<lambda>c. throw (ErrNew ''no info'')), c_FreeMemory = (\<lambda>c. ret 0),
     c_ListDomains = (\<lambda>c b. ret []), c_DomName = ret, c_ListPools = (\<lambda>c. ret []), c_ListNetworks = (\<lambda>c. ret []),
     c_LookupNetwork = (\<lambda>c n. ret n), c_NetName = ret, c_NetBridge = ret, c_ParseAddr = Some,
     c_NewStream = (\<lambda>c. ret ()), c_LookupPool = (\<lambda>c n. ret n), c_DefinePool = (\<lambda>c d. ret (px_Name d)),
     c_SetAutostart = (\<lambda>p. ret ()),
     c_LookupSecret = (\<lambda>c n w. (if mem_secs w n \<noteq> None then Ok n else Fail (wrapf [] ERR_NO_SECRET []), w)),
     c_SecretValue = (\<lambda>h w. (case mem_secs w h of Some x \<Rightarrow> Ok x | None \<Rightarrow> Fail (wrapf [] ERR_NO_SECRET []), w)),
     c_SecretSet = (\<lambda>h x w. (Ok (), w\<lparr>mem_secs := (mem_secs w)(h \<mapsto> x)\<rparr>)),
     c_SecretUUID = ret, c_SecretDefine = (\<lambda>c n w. (Ok n, w\<lparr>mem_secs := (mem_secs w)(n \<mapsto> [])\<rparr>)),
     c_is_lverr = (\<lambda>e. True), c_raw = mem_raw stuck\<rparr>"

lemma mem_conn_keeps:
  "conn_keeps (same mem_doms) (mem_virt bad stuck :: 'a memory_scheme virt)" "conn_keeps (same mem_secs) (mem_virt bad stuck :: 'a memory_scheme virt)"
  "conn_keeps (grows mem_vols {}) (mem_virt bad stuck :: 'a memory_scheme virt)"
  by (auto simp: conn_keeps_def mem_virt_def steps_def same_def grows_def Let_def)

lemma mem_raw_laws: "storage_laws mem_vols (mem_raw stuck :: 'a memory_scheme conn)"
proof -
  have "queries_keep mem_vols (mem_raw stuck)"
    by (auto simp: queries_keep_def mem_raw_def steps_def ret_def throw_def grows_def)
  moreover have "lookup_laws mem_vols (mem_raw stuck)"
    by (auto simp: lookup_laws_def mem_raw_def ret_def)
  moreover have "error_laws (mem_raw stuck)"
    by (auto simp: error_laws_def mem_raw_def ret_def throw_def no_volume_def ERR_NO_STORAGE_VOL_def
        ErrVolumeNotFound_def wrapf_def)
  moreover have "create_laws mem_vols (mem_raw stuck)"
    by (auto simp: create_laws_def mem_raw_def steps_def ret_def grows_def)
  moreover have "delete_laws mem_vols (mem_raw stuck)"
    by (auto simp: delete_laws_def mem_raw_def)
  ultimately show ?thesis by (simp add: storage_laws_def)
qed

lemma mem_lib_laws: "lib_laws mem_vols (mem_virt bad stuck :: 'a memory_scheme virt)"
  using mem_raw_laws [where 'a = 'a] mem_conn_keeps(3) [where 'a = 'a]
  by (simp add: lib_laws_def mem_virt_def steps_def ret_def grows_def)

lemma mem_conn_laws_open: "conn_laws (\<lambda>w. set (mem_open w)) (mem_virt bad stuck)"
  using member_le_sum_list by (fastforce simp: conn_laws_def mem_virt_def Let_def)

lemma mem_secret_laws: "secret_laws mem_secs (mem_virt bad stuck :: 'a memory_scheme virt)"
  using mem_conn_keeps(2) [of bad stuck, where 'a = 'a]
  by (auto simp: secret_laws_def mem_virt_def steps_def ret_def same_def split: option.splits)

lemma mem_dom_laws: "dom_laws mem_doms mem_name (mem_virt bad stuck :: 'a memory_scheme virt)"
proof -
  have "calls_keep (same mem_doms) (mem_virt bad stuck :: 'a memory_scheme virt)"
    using mem_conn_keeps(1) [of bad stuck, where 'a = 'a]
    by (simp add: calls_keep_def looks_keep_def mem_virt_def mem_raw_def steps_def ret_def same_def)
  moreover have "look_laws mem_doms (mem_virt bad stuck :: 'a memory_scheme virt)"
    by (auto simp: look_laws_def mem_virt_def steps_def same_def Let_def wrapf_def ErrNotFound_def ERR_NO_DOMAIN_def
        split: option.splits)
  moreover have "life_laws mem_doms mem_name (mem_virt bad stuck :: 'a memory_scheme virt)"
    unfolding life_laws_def
    by (intro conjI) (auto simp: mem_virt_def mem_stop_def ERR_NO_DOMAIN_def ERR_OPERATION_INVALID_def wrapf_def
        split: option.splits bool.splits if_splits)
  ultimately show ?thesis by (simp add: dom_laws_def mem_name_def)
qed

section \<open>Properties\<close>

text \<open>
  C7. Creating a virtual machine, on any libvirt that keeps its contract: it succeeds only if no
  machine of that name was defined, and then exactly that machine is added, and runs. If the name is
  taken nothing changes and it fails. If it fails although the name was free, nothing changes or the
  machine stays defined without running: the description is not removed when the start fails, so
  the creation cannot be repeated (the witness is such a run).
\<close>

theorem CreateVM_outcomes:
  assumes "dom_laws doms xname v" and "storage_on v st"
    and "vm_XMLConfig config \<noteq> [] \<Longrightarrow> xname (RawXML (vm_XMLConfig config)) = vm_Name config"
    and "CreateVM v st config s = (r, s')"
  shows "if r = Ok () then doms (snd s) (vm_Name config) = None \<and> doms (snd s') = (doms (snd s))(vm_Name config \<mapsto> True)
    else doms (snd s') = doms (snd s)
      \<or> doms (snd s) (vm_Name config) = None \<and> doms (snd s') = (doms (snd s))(vm_Name config \<mapsto> False)"
  using CreateVM_effect [OF assms] .

definition vm_config :: VMConfig where
  "vm_config = zero_config\<lparr>vm_Name := ''vm'', vm_XMLConfig := ''vm''\<rparr>"

definition empty_memory :: memory where
  "empty_memory = \<lparr>mem_vols = {}, mem_doms = Map.empty, mem_secs = Map.empty, mem_open = [], mem_xml = Map.empty\<rparr>"

lemmas mem_run = io_simps mem_virt_def mem_stop_def connection_def reconnect_def newConnection_def getDomain_def
  world_def get_prov_def prov_New_def iowrap_def Let_def empty_memory_def

lemmas mem_errs = wrapf_def ERR_NO_DOMAIN_def ERR_OPERATION_INVALID_def ErrDomainNotFound_def ErrNotFound_def
  ErrDomainExists_def

theorem CreateVM_outcomes_witness:
  "\<exists>e s1 e'. CreateVM (mem_virt True False) None vm_config (prov_New [], empty_memory) = (Fail e, s1)
    \<and> mem_doms (snd s1) ''vm'' = Some False
    \<and> fst (CreateVM (mem_virt True False) None vm_config s1) = Fail e' \<and> is_err ErrDomainExists e'"
proof -
  let ?v = "mem_virt True False" and ?s = "(prov_New [], empty_memory)"
  obtain r s1 where run: "CreateVM ?v None vm_config ?s = (r, s1)" by (metis surj_pair)
  have st: "storage_on ?v None" by (simp add: storage_on_def)
  have name: "mem_name (RawXML (vm_XMLConfig vm_config)) = vm_Name vm_config"
    by (simp add: mem_name_def vm_config_def)
  note out = CreateVM_outcomes [OF mem_dom_laws st name run]
  have val: "mem_doms (snd s1) ''vm'' = Some False" "pv_conn (fst s1) = Some 1" "\<not> pv_closed (fst s1)"
    using run by (auto simp: CreateVM_def domain_xml_def vm_config_def mem_name_def mem_run mem_errs)
  then have "r \<noteq> Ok ()" using out by (auto simp: vm_config_def)
  moreover have "\<not> (\<exists>p. r = Panic p)"
    using run by (auto simp: CreateVM_def domain_xml_def vm_config_def mem_name_def mem_run mem_errs)
  ultimately obtain e where "r = Fail e" by (cases r) auto
  moreover obtain p w where "s1 = (p, w)" by fastforce
  with val have "\<exists>e'. fst (CreateVM ?v None vm_config s1) = Fail e' \<and> is_err ErrDomainExists e'"
    by (simp add: CreateVM_def vm_config_def mem_run)
  ultimately show ?thesis using run val(1) by blast
qed


definition mem_storage :: "memory virt \<Rightarrow> memory pstorage" where
  "mem_storage v = \<lparr>s_pools = [(''local'', \<lparr>p_kind = DirectoryPool, p_name = ''local'', p_l = provider_conn v,
     p_custom = None\<rparr>)], s_defaultPool = None, s_l = provider_conn v\<rparr>"

definition running_memory :: memory where
  "running_memory = empty_memory\<lparr>mem_doms := [''vm'' \<mapsto> True], mem_vols := {(''local'', ''vm'')}\<rparr>"

definition connected :: prov where
  "connected = (prov_New [])\<lparr>pv_conn := Some 1\<rparr>"

lemma mem_connected: "connection (mem_virt bad stuck) (connected, w) = (Ok 1, (connected, w))"
  by (simp add: connected_def connection_def prov_New_def mem_virt_def)

lemma mem_sel:
  "c_LookupDomain (mem_virt bad stuck) = (\<lambda>c n w. (case mem_doms w n of Some _ \<Rightarrow> Ok n | None \<Rightarrow> Fail (wrapf [] ERR_NO_DOMAIN []), w))"
  "c_DomDisks (mem_virt bad stuck) = (\<lambda>d w. (Ok (Some (mem_disks (mem_xml w d) d)), w))" "c_Stop (mem_virt bad stuck) = (\<lambda>d g. mem_stop d)"
  "c_Undefine (mem_virt bad stuck)
    = (\<lambda>d w. (Ok (), if mem_doms w d = Some False then w\<lparr>mem_doms := (mem_doms w)(d := None)\<rparr> else w))"
  "c_LookupPool (mem_virt bad stuck) = (\<lambda>c n. ret n)" "c_raw (mem_virt bad stuck) = mem_raw stuck"
  by (simp_all add: mem_virt_def)

lemma mem_getDomain:
  "mem_doms w n = Some b \<Longrightarrow> getDomain (mem_virt bad stuck) n (connected, w) = (Ok n, (connected, w))"
  by (simp add: getDomain_def iobind_apply mem_connected iotry_apply world_def mem_sel ret_def)

lemma mem_volumes:
  "mem_xml w d = None \<Longrightarrow> getDomainVolumes (mem_virt bad stuck) (Some (mem_storage (mem_virt bad stuck))) d (connected, w)
    = (Ok [volume_ref ''local'' d], (connected, w))"
  by (simp add: getDomainVolumes_def io_simps world_def mem_sel DiscoverVolumes_def mem_storage_def
      mem_disks_def mem_disk_def disk_of_def)

lemma mem_stop_undefine:
  "mem_doms w d = Some True \<Longrightarrow> stop_undefine (mem_virt bad stuck) n d (connected, w)
    = (Ok (), (connected, w\<lparr>mem_doms := (mem_doms w)(d := None)\<rparr>))"
  by (simp add: stop_undefine_def iowrap_def io_simps world_def mem_sel mem_stop_def)

lemma mem_find: "FindStoragePool (mem_virt bad stuck) n (connected, w) = (Ok n, (connected, w))"
  by (simp add: FindStoragePool_def iobind_apply mem_connected iotry_apply world_def mem_sel ret_def)

lemma mem_refresh:
  "refreshPool (provider_conn (mem_virt bad stuck)) n (p, w) = (Ok (), (p, w))"
  by (simp add: refreshPool_def refresh_loop.simps provider_conn_def Let_def mem_sel mem_raw_def world_def ret_def)

lemma mem_delete_stuck:
  assumes "(''local'', d) \<in> mem_vols w"
  shows "delete_volumes (Some (mem_storage (mem_virt bad True))) [volume_ref ''local'' d] (connected, w)
    = (Fail (ErrNew ''volume is in use''), (connected, w))"
proof -
  let ?v = "mem_virt bad True"
  have calls: "l_Lookup (provider_conn ?v) ''local'' d (connected, w) = (Ok (''local'', d), (connected, w))"
    "l_Delete (provider_conn ?v) (''local'', d) (connected, w) = (Fail (ErrNew ''volume is in use''), (connected, w))"
    unfolding provider_conn_sel using assms by (simp_all add: world_def mem_sel mem_raw_def)
  show ?thesis
    by (simp add: mem_storage_def GetPool_def DeleteVolume_def Let_def iobind_apply lift_def volume_ref_def empty_volume_def
        provider_conn_sel(1) mem_find mem_refresh iotry_apply findRawVolume_def calls ret_def)
qed


text \<open>
  C16. The connection is never leaked: whatever sequence of uses, closings and ends of the context a
  provider without a connection goes through, the open connections are exactly the one it holds; once
  it is closed it holds none, stays closed, and every use fails with \<open>ErrConnectionClosed\<close> without
  touching the daemon.
\<close>

theorem connection_no_leak:
  assumes "prov_reach v (p, w) s" and "conn_laws opened v" and "pv_conn p = None" and "opened w = {}"
  shows "opened (snd s) = set_option (pv_conn (fst s))
    \<and> (pv_closed (fst s) \<longrightarrow> opened (snd s) = {} \<and> connection v s = (Fail ErrConnectionClosed, s)
        \<and> (\<forall>t. prov_reach v s t \<longrightarrow> pv_closed (fst t) \<and> opened (snd t) = {}))"
proof -
  have inv: "conn_inv opened s"
    using prov_reach_inv [OF assms(1,2)] assms(3,4) by (simp add: conn_inv_def)
  have "connection v s = (Fail ErrConnectionClosed, s)" if "pv_closed (fst s)"
    using that by (cases s) (simp add: connection_def)
  moreover have "pv_closed (fst t) \<and> opened (snd t) = {}" if "pv_closed (fst s)" "prov_reach v s t" for t
    using closed_stays_reach [OF that(2,1)] prov_reach_inv [OF that(2) assms(2) inv] by (simp add: conn_inv_def)
  ultimately show ?thesis using inv by (auto simp: conn_inv_def)
qed

theorem connection_no_leak_witness:
  "\<exists>s. prov_reach (mem_virt False False) (prov_New [], empty_memory) s \<and> pv_closed (fst s) \<and> mem_open (snd s) = []"
proof -
  let ?v = "mem_virt False False" and ?s = "(prov_New [], empty_memory)"
  let ?t = "snd (connection ?v ?s)"
  have "connection ?v ?s = (fst (connection ?v ?s), ?t)" by simp
  then have "prov_reach ?v ?s ?t" by (intro prov_reach.step [OF prov_reach.start] prov_step.use)
  then have reach: "prov_reach ?v ?s (monitorCtx ?v ?t)" by (rule prov_reach.step) (rule prov_step.ctx_done)
  have "pv_closed (fst (monitorCtx ?v ?t))"
    by (cases ?t) (simp add: monitorCtx_def split: option.split)
  with connection_no_leak [OF reach mem_conn_laws_open] reach show ?thesis
    by (auto simp: prov_New_def empty_memory_def)
qed

text \<open>
  C37. A ceph secret reads back: whenever setting the secret of a pool to a credential succeeds,
  reading it succeeds only with a credential that decodes to the same key, which is the same text
  when the credential was in canonical form, and the secrets of the other pools are as they were.
\<close>

theorem ceph_secret_roundtrip:
  assumes "secret_laws secs v" and "SetCephSecret v n cred s = (Ok uuid, s')" and "GetCephSecret v n s' = (Ok c, t)"
  shows "b64_decode c = b64_decode cred \<and> b64_decode c = secs (snd s') n \<and> b64_decode c \<noteq> None
    \<and> (\<forall>key. cred = b64_encode key \<longrightarrow> c = cred) \<and> (\<forall>m. m \<noteq> n \<longrightarrow> secs (snd s') m = secs (snd s) m)"
proof -
  note law = secret_lawsD [OF assms(1)]
  obtain x where x: "b64_decode cred = Some x" "secs (snd s') n = Some x"
    "\<forall>m. m \<noteq> n \<longrightarrow> secs (snd s') m = secs (snd s) m"
    using SetCephSecret_sets [OF assms(1,2)] by blast
  from assms(3) obtain d s1 h s2 y s3 where conn: "connection v s' = (Ok d, s1)"
    and look: "world (c_LookupSecret v d n) s1 = (Ok h, s2)"
    and val: "world (c_SecretValue v h) s2 = (Ok y, s3)" and c: "c = b64_encode y"
    by (auto simp: GetCephSecret_def iobind_Ok ret_def)
  have "secs (snd s1) = secs (snd s')"
    using stepsD [OF connection_steps [OF preorder_same law(1)] conn] by (simp add: lift_rel_def same_def)
  moreover have "secs (snd s2) = secs (snd s1)" "h = n"
    using stepsD [OF law(2) worldD [OF look]] law(5) [OF worldD [OF look]] by (simp_all add: same_def)
  ultimately have "y = x" using law(6) [OF worldD [OF val]] x(2) by simp
  with c x show ?thesis by (auto simp: b64_roundtrip)
qed

lemma mem_secret_run:
  "\<exists>s. SetCephSecret (mem_virt False False) n (b64_encode key) (prov_New [], empty_memory) = (Ok n, s)
      \<and> (\<exists>t. GetCephSecret (mem_virt False False) n s = (Ok (b64_encode key), t))"
  by (simp add: SetCephSecret_def GetCephSecret_def b64_roundtrip mem_run ERR_NO_SECRET_def wrapf_def)

theorem ceph_secret_roundtrip_witness:
  "\<exists>s t. SetCephSecret (mem_virt False False) ''pool'' (b64_encode ''key'') (prov_New [], empty_memory) = (Ok ''pool'', s)
    \<and> GetCephSecret (mem_virt False False) ''pool'' s = (Ok (b64_encode ''key''), t)
    \<and> mem_secs (snd s) ''pool'' = Some ''key''"
proof -
  obtain s t where run: "SetCephSecret (mem_virt False False) ''pool'' (b64_encode ''key'') (prov_New [], empty_memory)
      = (Ok ''pool'', s)" "GetCephSecret (mem_virt False False) ''pool'' s = (Ok (b64_encode ''key''), t)"
    using mem_secret_run by blast
  from ceph_secret_roundtrip [OF mem_secret_laws run] have "b64_decode (b64_encode ''key'') = mem_secs (snd s) ''pool''" by blast
  then show ?thesis using run unfolding b64_roundtrip by auto
qed

text \<open>
  C20. The provider implements the interface its storage is written against: over a library that
  behaves as it documents, the provider's own calls, with their reconnecting, keep every law of the
  storage contract, so what is proved of pools holds of the pools of a storage set up on it.
\<close>

theorem provider_implements_storage:
  assumes "lib_laws vols v"
  shows "storage_laws (\<lambda>s. vols (snd s)) (provider_conn v)
    \<and> (\<forall>n pool. pool_on v n pool \<longrightarrow> pool_laws (\<lambda>s. vols (snd s)) pool
        \<and> (\<forall>vol opts s x s'. AddVolume pool vol opts s = (Ok x, s') \<longrightarrow> (n, vol) \<in> vols (snd s'))
        \<and> (\<forall>vol s s'. DeleteVolume pool vol s = (Ok (), s') \<longrightarrow> vols (snd s') = vols (snd s) - {(n, vol)}))"
proof (intro conjI allI impI)
  show "storage_laws (\<lambda>s. vols (snd s)) (provider_conn v)" by (rule provider_laws [OF assms])
  fix n pool assume on: "pool_on v n pool"
  then have name: "p_name pool = n" by (simp add: pool_on_def)
  show laws: "pool_laws (\<lambda>s. vols (snd s)) pool" by (rule pool_on_laws [OF assms on])
  show "(n, vol) \<in> vols (snd s')" if "AddVolume pool vol opts s = (Ok x, s')" for vol opts s x s'
    using any_pool.add_result [OF laws that] name by simp
  show "vols (snd s') = vols (snd s) - {(n, vol)}" if "DeleteVolume pool vol s = (Ok (), s')" for vol s s'
    using DeleteVolume_result [OF laws that] name by simp
qed

theorem provider_implements_storage_witness:
  "storage_laws (\<lambda>s. mem_vols (snd s)) (provider_conn (mem_virt False False))"
  using provider_implements_storage [OF mem_lib_laws] by blast

end
