(* ===== verification/LibvirtNet.thy ===== *)
theory LibvirtNet
  imports Libvirt VirtTables
begin

text \<open>
  \<^verbatim>\<open>providers/libvirt/net\<close>: the network controller of the libvirt provider. It finds the network of
  a bridge, waits for the DHCP lease of a new machine, reserves its address, has the packet filter
  forward its ports, and undoes both when the machine is gone. The calls on a network are
  parameters; a network is known by its name. Building and sending the DHCP release packet is one
  call on the packet's fields.
\<close>

section \<open>Data\<close>

record dhcphost =
  dh_IP :: string
  dh_MAC :: string
  dh_Name :: string

text \<open>The expiry of a lease is a time, in seconds.\<close>

record lease =
  ls_Mac :: string
  ls_Hostname :: string
  ls_IPaddr :: string
  ls_Expiry :: int

record release_packet =
  rp_Mac :: "nat list"
  rp_ClientIP :: "addr option"
  rp_Server :: "nat list option"

text \<open>
  The connection (\<open>shims.Connect\<close>), the calls on a network, and the filter (\<open>filter.Filter\<close>).
  \<open>nw_Hosts\<close> reads the network's document: the DHCP hosts of each of its addresses, \<open>None\<close> for an
  address without DHCP; an error of reading it is overwritten by the error of decoding nothing.
\<close>

record 'w netconn =
  nc_ListNetworks :: "('w, string list) io"
  nc_LookupNetworkByName :: "string \<Rightarrow> ('w, string) io"

record 'w netcalls =
  nw_IsActive :: "string \<Rightarrow> ('w, bool) io"
  nw_GetBridgeName :: "string \<Rightarrow> ('w, string) io"
  nw_GetDHCPLeases :: "string \<Rightarrow> ('w, lease list) io"
  nw_AddHost :: "string \<Rightarrow> string \<Rightarrow> ('w, unit) io"
  nw_DeleteHost :: "string \<Rightarrow> string \<Rightarrow> ('w, unit) io"
  nw_Hosts :: "string \<Rightarrow> ('w, dhcphost list option list) io"
  nw_Marshal :: "dhcphost \<Rightarrow> string res"
  nw_Unmarshal :: "string \<Rightarrow> dhcphost res"
  nw_Now :: "'w \<Rightarrow> int"
  nw_SendRelease :: "string \<Rightarrow> release_packet \<Rightarrow> ('w, unit) io"

record 'w packet_filter =
  nf_Configure :: "Resources option \<Rightarrow> BridgeConfig option \<Rightarrow> string \<Rightarrow> ('w, FilterRemoval) io"
  nf_Teardown :: "FilterRemoval option \<Rightarrow> ('w, unit) io"

text \<open>
  The polling of leases ends when the timer is chosen over the ticker: \<open>ct_ticks\<close> is how many ticks
  are taken before that, which depends on the clock. The filter is unset until \<open>Init\<close>.
\<close>

record 'w controller =
  ct_netConn :: "'w netconn"
  ct_calls :: "'w netcalls"
  ct_filter :: "'w packet_filter option"
  ct_ticks :: nat
  ct_ipByInterface :: "string \<Rightarrow> 'w \<Rightarrow> addr res"

definition NewController :: "'w netcalls \<Rightarrow> nat \<Rightarrow> (string \<Rightarrow> 'w \<Rightarrow> addr res) \<Rightarrow> 'w netconn \<Rightarrow> 'w controller" where
  "NewController calls ticks getIP conn = \<lparr>ct_netConn = conn, ct_calls = calls, ct_filter = None,
     ct_ticks = ticks, ct_ipByInterface = getIP\<rparr>"

definition ct_Copy :: "'w controller \<Rightarrow> 'w netconn \<Rightarrow> 'w controller" where
  "ct_Copy c conn = c\<lparr>ct_netConn := conn\<rparr>"

definition SetFilter :: "'w packet_filter \<Rightarrow> 'w controller \<Rightarrow> 'w controller" where
  "SetFilter f c = c\<lparr>ct_filter := Some f\<rparr>"

text \<open>\<open>iptables_New\<close> is the constructor of the iptables filter.\<close>

definition ct_Init :: "('w, 'w packet_filter) io \<Rightarrow> 'w controller \<Rightarrow> ('w, 'w controller) io" where
  "ct_Init iptables_New c = (case ct_filter c of
     Some f \<Rightarrow> ret c
   | None \<Rightarrow> iobind iptables_New (\<lambda>f. ret (c\<lparr>ct_filter := Some f\<rparr>)))"

definition iptables_filter :: "'w virtTables \<Rightarrow> 'w packet_filter" where
  "iptables_filter n = \<lparr>nf_Configure = Configure n, nf_Teardown = Teardown n\<rparr>"

section \<open>Fingerprint\<close>

definition FingerprintAttributeKeyPrefix :: string where
  "FingerprintAttributeKeyPrefix = ''driver.virt.network.''"

text \<open>A network that cannot be looked up or read is skipped, keeping what was set for it.\<close>

fun fingerprint_networks ::
  "'w controller \<Rightarrow> string list \<Rightarrow> (string \<rightharpoonup> attribute) \<Rightarrow> ('w, string \<rightharpoonup> attribute) io" where
  "fingerprint_networks c [] attr = ret attr"
| "fingerprint_networks c (n # ns) attr =
     iotry (nc_LookupNetworkByName (ct_netConn c) n)
       (\<lambda>info. iotry (nw_IsActive (ct_calls c) info)
         (\<lambda>active.
           let attr = attr(FingerprintAttributeKeyPrefix @ n @ ''.state'' \<mapsto> StringAttr (IsActiveString active)) in
           iotry (nw_GetBridgeName (ct_calls c) info)
             (\<lambda>bridge. fingerprint_networks c ns
               (attr(FingerprintAttributeKeyPrefix @ n @ ''.bridge_name'' \<mapsto> StringAttr bridge)))
             (\<lambda>e. fingerprint_networks c ns attr))
         (\<lambda>e. fingerprint_networks c ns attr))
       (\<lambda>e. fingerprint_networks c ns attr)"

definition net_Fingerprint :: "'w controller \<Rightarrow> (string \<rightharpoonup> attribute) \<Rightarrow> ('w, string \<rightharpoonup> attribute) io" where
  "net_Fingerprint c attr = iotry (nc_ListNetworks (ct_netConn c))
     (\<lambda>names. fingerprint_networks c names attr) (\<lambda>e. ret attr)"

section \<open>Starting\<close>

fun find_bridge :: "'w controller \<Rightarrow> string \<Rightarrow> string list \<Rightarrow> ('w, string) io" where
  "find_bridge c name [] = throw (ErrNew (''failed to find network with bridge '' @ quoted name))"
| "find_bridge c name (n # ns) =
     iobind (nc_LookupNetworkByName (ct_netConn c) n) (\<lambda>info.
     iobind (nw_GetBridgeName (ct_calls c) info) (\<lambda>bridge.
       if bridge = name then ret n else find_bridge c name ns))"

definition networkNameFromBridgeName :: "'w controller \<Rightarrow> string \<Rightarrow> ('w, string) io" where
  "networkNameFromBridgeName c name = iobind (nc_ListNetworks (ct_netConn c)) (find_bridge c name)"

text \<open>
  The matching leases are sorted by descending expiry and the last is taken. The sort of short
  slices is stable.
\<close>

definition lease_matches :: "string list \<Rightarrow> string \<Rightarrow> int \<Rightarrow> lease \<Rightarrow> bool" where
  "lease_matches macs hostname t l \<longleftrightarrow> ls_Mac l \<in> set macs \<and> \<not> (ls_Hostname l \<noteq> [] \<and> ls_Hostname l \<noteq> hostname)
     \<and> \<not> ls_Expiry l < t"

definition pick_lease :: "lease list \<Rightarrow> lease" where
  "pick_lease matches = last (sort_key (\<lambda>l. - ls_Expiry l) matches)"

fun discover_loop :: "'w controller \<Rightarrow> string \<Rightarrow> string \<Rightarrow> string list \<Rightarrow> nat \<Rightarrow> ('w, string \<times> string) io" where
  "discover_loop c network hostname macs 0 =
     throw (ErrNew (''timeout reached discovering DHCP lease for '' @ quoted hostname))"
| "discover_loop c network hostname macs (Suc k) =
     iotry (nw_GetDHCPLeases (ct_calls c) network)
       (\<lambda>leases w.
         let matches = filter (lease_matches macs hostname (nw_Now (ct_calls c) w)) leases in
         if matches = [] then discover_loop c network hostname macs k w
         else ret (ls_IPaddr (pick_lease matches), ls_Mac (pick_lease matches)) w)
       (\<lambda>e. discover_loop c network hostname macs k)"

definition discoverDHCPLeaseIP :: "'w controller \<Rightarrow> string \<Rightarrow> string \<Rightarrow> string list \<Rightarrow> ('w, string \<times> string) io" where
  "discoverDHCPLeaseIP c network hostname hwaddrs = discover_loop c network hostname hwaddrs (ct_ticks c)"

definition reserveIP :: "'w controller \<Rightarrow> string \<Rightarrow> string \<Rightarrow> string \<Rightarrow> string \<Rightarrow> ('w, string) io" where
  "reserveIP c network ipAddr hostname mac =
     iobind (lift (nw_Marshal (ct_calls c) \<lparr>dh_IP = ipAddr, dh_MAC = mac, dh_Name = hostname\<rparr>)) (\<lambda>entry.
     iobind (iowrap ''failed to update network: '' [] (nw_AddHost (ct_calls c) network entry)) (\<lambda>_. ret entry))"

text \<open>The calls of an unset filter are calls on a nil interface; so is a bridge that is nil.\<close>

definition filter_Configure ::
  "'w controller \<Rightarrow> Resources option \<Rightarrow> BridgeConfig option \<Rightarrow> string \<Rightarrow> ('w, FilterRemoval) io" where
  "filter_Configure c res bridge ip = (case ct_filter c of
     None \<Rightarrow> lift (Panic ''nil filter'') | Some f \<Rightarrow> nf_Configure f res bridge ip)"

definition filter_Teardown :: "'w controller \<Rightarrow> FilterRemoval option \<Rightarrow> ('w, unit) io" where
  "filter_Teardown c rm = (case ct_filter c of
     None \<Rightarrow> lift (Panic ''nil filter'') | Some f \<Rightarrow> nf_Teardown f rm)"

definition build_interface ::
  "'w controller \<Rightarrow> VMStartedBuildRequest \<Rightarrow> NetworkInterfaceConfig \<Rightarrow> ('w, VMStartedBuildResponse) io" where
  "build_interface c req netInterface = (case ni_Bridge netInterface of
     None \<Rightarrow> lift (Panic ''nil bridge'')
   | Some bridge \<Rightarrow>
       iobind (iowrap ''failed to discover network: '' [] (networkNameFromBridgeName c (br_Name bridge))) (\<lambda>networkName.
       iobind (iowrap ''failed to lookup network: '' [] (nc_LookupNetworkByName (ct_netConn c) networkName)) (\<lambda>network.
       iobind (iowrap ''failed to discover IP address: '' []
         (discoverDHCPLeaseIP c network (br_Hostname req) (br_Hwaddrs req))) (\<lambda>(ipAddr, macAddr).
       iobind (iotry (reserveIP c network ipAddr (br_Hostname req) macAddr) ret (\<lambda>e. ret [])) (\<lambda>dhcpEntry.
       iobind (iowrap ''failed to configure port mapping: '' []
         (filter_Configure c (br_Resources req) (ni_Bridge netInterface) ipAddr)) (\<lambda>teardownRules.
       ret \<lparr>bs_DriverNetwork_IP = Some ipAddr,
         bs_TeardownSpec = Some \<lparr>ts_FilterRemoval = Some teardownRules, ts_DHCPReservation = dhcpEntry,
           ts_Network = networkName\<rparr>\<rparr>))))))"

definition empty_response :: VMStartedBuildResponse where
  "empty_response = \<lparr>bs_DriverNetwork_IP = None, bs_TeardownSpec = None\<rparr>"

definition VMStartedBuild :: "'w controller \<Rightarrow> VMStartedBuildRequest option \<Rightarrow> ('w, VMStartedBuildResponse) io" where
  "VMStartedBuild c r = (case r of
     None \<Rightarrow> throw (ErrNew ''net controller: no request provided'')
   | Some req \<Rightarrow>
       if br_NetConfig req = None \<or> br_Resources req = None then ret empty_response
       else (case nics (br_NetConfig req) of
         [] \<Rightarrow> ret empty_response
       | netInterface # _ \<Rightarrow> build_interface c req netInterface))"

section \<open>Terminating\<close>

fun has_host :: "dhcphost \<Rightarrow> dhcphost list option list \<Rightarrow> bool res" where
  "has_host h [] = Ok False"
| "has_host h (None # ips) = Panic ''nil DHCP''"
| "has_host h (Some hs # ips) = (if h \<in> set hs then Ok True else has_host h ips)"

definition ipReservationExists :: "'w controller \<Rightarrow> string \<Rightarrow> string \<Rightarrow> ('w, bool) io" where
  "ipReservationExists c network reservation =
     iobind (iowrap ''could not parse IP reservation: '' [] (lift (nw_Unmarshal (ct_calls c) reservation))) (\<lambda>h.
     iobind (nw_Hosts (ct_calls c) network) (\<lambda>ips. lift (has_host h ips)))"

definition removeIPReservation :: "'w controller \<Rightarrow> string \<Rightarrow> string \<Rightarrow> ('w, unit) io" where
  "removeIPReservation c networkName reservation =
     (if reservation = [] then ret ()
      else iobind (iowrap (''failed to find network '' @ quoted networkName @ '': '') []
          (nc_LookupNetworkByName (ct_netConn c) networkName)) (\<lambda>network.
        iobind (ipReservationExists c network reservation) (\<lambda>found.
          if \<not> found then ret () else nw_DeleteHost (ct_calls c) network reservation)))"

text \<open>\<open>net.ParseMAC\<close>: 6, 8 or 20 bytes, in pairs after \<open>:\<close> or \<open>-\<close> or in fours after a dot.\<close>

fun hex_bytes :: "string \<Rightarrow> nat list option" where
  "hex_bytes [] = Some []"
| "hex_bytes (a # b # s) = (case (hex_val a, hex_val b, hex_bytes s) of
     (Some x, Some y, Some r) \<Rightarrow> Some ((16 * x + y) # r) | _ \<Rightarrow> None)"
| "hex_bytes _ = None"

definition mac_of :: "nat \<Rightarrow> string list \<Rightarrow> nat list option" where
  "mac_of len parts = (if list_all (\<lambda>p. length p = len) parts then
     (case hex_bytes (concat parts) of
        Some bs \<Rightarrow> if length bs \<in> {6, 8, 20} then Some bs else None | None \<Rightarrow> None)
     else None)"

definition ParseMAC :: "string \<Rightarrow> nat list res" where
  "ParseMAC s = (let r = (if length s < 14 then None
       else if s ! 2 = CHR '':'' \<or> s ! 2 = CHR ''-'' then mac_of 2 (split_on (s ! 2) s)
       else if s ! 4 = CHR ''.'' then mac_of 4 (split_on (CHR ''.'') s)
       else None)
     in case r of None \<Rightarrow> Fail (ErrNew (''invalid MAC address: '' @ s)) | Some bs \<Rightarrow> Ok bs)"

fun To4 :: "addr \<Rightarrow> nat list option" where
  "To4 (V4 bs) = Some bs"
| "To4 (V6 bs z) = (if is_4in6 bs then Some (drop 12 bs) else None)"

fun first_cidr :: "string list \<Rightarrow> addr option" where
  "first_cidr [] = None"
| "first_cidr (a # as) = (case ParseCIDR a of Some (ip, _) \<Rightarrow> Some ip | None \<Rightarrow> first_cidr as)"

text \<open>The interfaces of the host by name, with their addresses or the error of reading these.\<close>

fun ip_of :: "string \<Rightarrow> (string \<times> string list res) list \<Rightarrow> addr res" where
  "ip_of name [] = Fail (ErrNew (''could not find address for interface '' @ name))"
| "ip_of name ((n, addrs) # is) =
     (if n \<noteq> name then ip_of name is
      else rbind addrs (\<lambda>as. case first_cidr as of Some ip \<Rightarrow> Ok ip | None \<Rightarrow> ip_of name is))"

definition getIPByInterface :: "('w \<Rightarrow> (string \<times> string list res) list res) \<Rightarrow> string \<Rightarrow> 'w \<Rightarrow> addr res" where
  "getIPByInterface interfaces name w = rbind (interfaces w) (ip_of name)"

text \<open>The error of the socket option is looked at before the dialer has run, when it is always nil.\<close>

definition releaseDHCPLease :: "'w controller \<Rightarrow> string \<Rightarrow> string \<Rightarrow> ('w, unit) io" where
  "releaseDHCPLease c networkName reservation =
     iobind (iowrap ''failed to parse DHCP reservation: '' [] (lift (nw_Unmarshal (ct_calls c) reservation))) (\<lambda>h.
     iobind (iowrap ''failed to parse lease MAC address: '' [] (lift (ParseMAC (dh_MAC h)))) (\<lambda>mac.
     iobind (iowrap (''failed to lookup network '' @ quoted networkName @ '': '') []
       (nc_LookupNetworkByName (ct_netConn c) networkName)) (\<lambda>network.
     iobind (iowrap (''failed to get bridge name for network '' @ quoted networkName @ '': '') []
       (nw_GetBridgeName (ct_calls c) network)) (\<lambda>bridge.
     iobind (iowrap (''failed to get IP address for device '' @ quoted bridge @ '': '') []
       (\<lambda>w. (ct_ipByInterface c bridge w, w))) (\<lambda>server.
     nw_SendRelease (ct_calls c) bridge
       \<lparr>rp_Mac = mac, rp_ClientIP = ParseIP (dh_IP h), rp_Server = To4 server\<rparr>)))))"

definition attempt :: "('w, unit) io \<Rightarrow> ('w, goerr option) io" where
  "attempt m = iotry m (\<lambda>_. ret None) (\<lambda>e. ret (Some e))"

definition teardown_filter :: "'w controller \<Rightarrow> TeardownSpec \<Rightarrow> ('w, goerr list) io" where
  "teardown_filter c ts = (case ts_FilterRemoval ts of
     None \<Rightarrow> ret []
   | Some rm \<Rightarrow> iobind (attempt (filter_Teardown c (Some rm))) (\<lambda>e. ret (mappend [] e)))"

definition teardown_reservation :: "'w controller \<Rightarrow> TeardownSpec \<Rightarrow> goerr list \<Rightarrow> ('w, goerr list) io" where
  "teardown_reservation c ts es =
     (if ts_Network ts \<noteq> [] \<and> ts_DHCPReservation ts \<noteq> [] then
        iobind (attempt (removeIPReservation c (ts_Network ts) (ts_DHCPReservation ts))) (\<lambda>e.
        iobind (attempt (releaseDHCPLease c (ts_Network ts) (ts_DHCPReservation ts))) (\<lambda>_.
        ret (mappend es e)))
      else ret es)"

definition VMTerminatedTeardown :: "'w controller \<Rightarrow> TeardownSpec option option \<Rightarrow> ('w, unit) io" where
  "VMTerminatedTeardown c req = (case req of
     Some (Some ts) \<Rightarrow>
       iobind (teardown_filter c ts) (\<lambda>es. iobind (teardown_reservation c ts es) (\<lambda>es.
         lift (of_err (err_or_nil es))))
   | _ \<Rightarrow> ret ())"

section \<open>The contract of a network\<close>

text \<open>
  \<open>hosts w n\<close> are the DHCP reservations of network \<open>n\<close>. What libvirt documents: only the two
  updates change them, each as a whole or, when it fails, not at all, and the document of a network
  lists them. An encoded reservation decodes to itself. The filter does not touch them, and no error
  of libvirt is a multierror.
\<close>

definition net_laws :: "('w \<Rightarrow> string \<Rightarrow> dhcphost list) \<Rightarrow> 'w controller \<Rightarrow> bool" where
  "net_laws hosts c \<longleftrightarrow> steps (same hosts) (nc_ListNetworks (ct_netConn c))
     \<and> (\<forall>n. steps (same hosts) (nc_LookupNetworkByName (ct_netConn c) n))
     \<and> (\<forall>n. steps (same hosts) (nw_GetBridgeName (ct_calls c) n))
     \<and> (\<forall>n. steps (same hosts) (nw_GetDHCPLeases (ct_calls c) n))
     \<and> (\<forall>n. steps (same hosts) (nw_Hosts (ct_calls c) n))
     \<and> (\<forall>b p. steps (same hosts) (nw_SendRelease (ct_calls c) b p))
     \<and> (\<forall>r b ip. steps (same hosts) (filter_Configure c r b ip)) \<and> (\<forall>rm. steps (same hosts) (filter_Teardown c rm))"

definition update_laws :: "('w \<Rightarrow> string \<Rightarrow> dhcphost list) \<Rightarrow> 'w controller \<Rightarrow> bool" where
  "update_laws hosts c \<longleftrightarrow>
     (\<forall>n w m w'. nc_LookupNetworkByName (ct_netConn c) n w = (Ok m, w') \<longrightarrow> m = n)
   \<and> (\<forall>n s h w r w'. nw_Unmarshal (ct_calls c) s = Ok h \<longrightarrow> nw_AddHost (ct_calls c) n s w = (r, w') \<longrightarrow>
        hosts w' = (if r = Ok () then (hosts w)(n := hosts w n @ [h]) else hosts w))
   \<and> (\<forall>n s h w r w'. nw_Unmarshal (ct_calls c) s = Ok h \<longrightarrow> nw_DeleteHost (ct_calls c) n s w = (r, w') \<longrightarrow>
        hosts w' = (if r = Ok () then (hosts w)(n := filter (\<lambda>x. x \<noteq> h) (hosts w n)) else hosts w))
   \<and> (\<forall>n w ips w'. nw_Hosts (ct_calls c) n w = (Ok ips, w') \<longrightarrow>
        hosts w n = concat (map (\<lambda>d. case d of None \<Rightarrow> [] | Some hs \<Rightarrow> hs) ips))
   \<and> (\<forall>h s. nw_Marshal (ct_calls c) h = Ok s \<longrightarrow> s \<noteq> [] \<and> nw_Unmarshal (ct_calls c) s = Ok h)
   \<and> (\<forall>n s w es w'. nw_DeleteHost (ct_calls c) n s w \<noteq> (Fail (MultiErr es), w')
        \<and> nw_Hosts (ct_calls c) n w \<noteq> (Fail (MultiErr es), w'))"

lemma net_lawsD:
  assumes "net_laws hosts c"
  shows "steps (same hosts) (nc_ListNetworks (ct_netConn c))" "steps (same hosts) (nc_LookupNetworkByName (ct_netConn c) n)"
    "steps (same hosts) (nw_GetBridgeName (ct_calls c) n)" "steps (same hosts) (nw_GetDHCPLeases (ct_calls c) n)"
    "steps (same hosts) (nw_Hosts (ct_calls c) n)" "steps (same hosts) (nw_SendRelease (ct_calls c) b p)"
    "steps (same hosts) (filter_Configure c r bridge ip)" "steps (same hosts) (filter_Teardown c rm)"
  using assms unfolding net_laws_def by iprover+

lemma update_lawsD:
  assumes "update_laws hosts c"
  shows "nc_LookupNetworkByName (ct_netConn c) n w = (Ok m, w') \<Longrightarrow> m = n"
    "nw_Unmarshal (ct_calls c) s = Ok h \<Longrightarrow> nw_AddHost (ct_calls c) n s w = (r, w') \<Longrightarrow>
        hosts w' = (if r = Ok () then (hosts w)(n := hosts w n @ [h]) else hosts w)"
    "nw_Unmarshal (ct_calls c) s = Ok h \<Longrightarrow> nw_DeleteHost (ct_calls c) n s w = (r, w') \<Longrightarrow>
        hosts w' = (if r = Ok () then (hosts w)(n := filter (\<lambda>x. x \<noteq> h) (hosts w n)) else hosts w)"
    "nw_Hosts (ct_calls c) n w = (Ok ips, w') \<Longrightarrow>
        hosts w n = concat (map (\<lambda>d. case d of None \<Rightarrow> [] | Some hs \<Rightarrow> hs) ips)"
    "nw_Marshal (ct_calls c) h = Ok s \<Longrightarrow> s \<noteq> [] \<and> nw_Unmarshal (ct_calls c) s = Ok h"
    "nw_DeleteHost (ct_calls c) n s w \<noteq> (Fail (MultiErr es), w') \<and> nw_Hosts (ct_calls c) n w \<noteq> (Fail (MultiErr es), w')"
proof -
  note l = assms [unfolded update_laws_def]
  note l2 = conjunct2 [OF l] note l3 = conjunct2 [OF l2] note l4 = conjunct2 [OF l3] note l5 = conjunct2 [OF l4]
  note a = conjunct1 [OF l, rule_format] conjunct1 [OF l2, rule_format] conjunct1 [OF l3, rule_format]
    conjunct1 [OF l4, rule_format] conjunct1 [OF l5, rule_format] conjunct2 [OF l5, rule_format]
  show "nc_LookupNetworkByName (ct_netConn c) n w = (Ok m, w') \<Longrightarrow> m = n" by (rule a(1))
  show "nw_Unmarshal (ct_calls c) s = Ok h \<Longrightarrow> nw_AddHost (ct_calls c) n s w = (r, w') \<Longrightarrow>
        hosts w' = (if r = Ok () then (hosts w)(n := hosts w n @ [h]) else hosts w)" by (rule a(2))
  show "nw_Unmarshal (ct_calls c) s = Ok h \<Longrightarrow> nw_DeleteHost (ct_calls c) n s w = (r, w') \<Longrightarrow>
        hosts w' = (if r = Ok () then (hosts w)(n := filter (\<lambda>x. x \<noteq> h) (hosts w n)) else hosts w)" by (rule a(3))
  show "nw_Hosts (ct_calls c) n w = (Ok ips, w') \<Longrightarrow>
        hosts w n = concat (map (\<lambda>d. case d of None \<Rightarrow> [] | Some hs \<Rightarrow> hs) ips)" by (rule a(4))
  show "nw_Marshal (ct_calls c) h = Ok s \<Longrightarrow> s \<noteq> [] \<and> nw_Unmarshal (ct_calls c) s = Ok h" using a(5) by blast
  show "nw_DeleteHost (ct_calls c) n s w \<noteq> (Fail (MultiErr es), w') \<and> nw_Hosts (ct_calls c) n w \<noteq> (Fail (MultiErr es), w')"
    by (rule a(6))
qed

section \<open>Leases\<close>

lemma pick_lease_least:
  assumes "ls \<noteq> []"
  shows "pick_lease ls \<in> set ls \<and> (\<forall>l \<in> set ls. ls_Expiry (pick_lease ls) \<le> ls_Expiry l)"
proof -
  let ?s = "sort_key (\<lambda>l. - ls_Expiry l) ls"
  have ne: "?s \<noteq> []" using assms by (metis set_empty set_sort)
  then have s: "?s = butlast ?s @ [last ?s]" by simp
  have "sorted (map (\<lambda>l. - ls_Expiry l) (butlast ?s @ [last ?s]))" unfolding s [symmetric] by simp
  then have "\<forall>l \<in> set (butlast ?s). - ls_Expiry l \<le> - ls_Expiry (last ?s)" by (simp add: sorted_append)
  moreover have "set ls = set (butlast ?s) \<union> {last ?s}" using s by (metis set_append set_simps(1) list.simps(15) set_sort)
  ultimately show ?thesis by (auto simp: pick_lease_def)
qed

lemma discover_loop_result:
  "discover_loop c n hostname macs k w = (Ok (ip, mac), w') \<Longrightarrow>
     \<exists>ls w1. nw_GetDHCPLeases (ct_calls c) n w1 = (Ok ls, w')
       \<and> (let ms = filter (lease_matches macs hostname (nw_Now (ct_calls c) w')) ls in
          ms \<noteq> [] \<and> ip = ls_IPaddr (pick_lease ms) \<and> mac = ls_Mac (pick_lease ms))"
proof (induction k arbitrary: w)
  case (Suc k)
  from Suc.prems have "iotry (nw_GetDHCPLeases (ct_calls c) n)
       (\<lambda>leases w. let matches = filter (lease_matches macs hostname (nw_Now (ct_calls c) w)) leases in
         if matches = [] then discover_loop c n hostname macs k w
         else ret (ls_IPaddr (pick_lease matches), ls_Mac (pick_lease matches)) w)
       (\<lambda>e. discover_loop c n hostname macs k) w = (Ok (ip, mac), w')" by simp
  then show ?case
  proof (cases rule: iotry_cases)
    case (Ok ls w1)
    show ?thesis
    proof (cases "filter (lease_matches macs hostname (nw_Now (ct_calls c) w1)) ls = []")
      case True
      with Ok(2) have "discover_loop c n hostname macs k w1 = (Ok (ip, mac), w')" by simp
      from Suc.IH [OF this] show ?thesis .
    next
      case False
      let ?ms = "filter (lease_matches macs hostname (nw_Now (ct_calls c) w1)) ls"
      from Ok(2) False have "ret (ls_IPaddr (pick_lease ?ms), ls_Mac (pick_lease ?ms)) w1 = (Ok (ip, mac), w')"
        by (simp only: Let_def if_False)
      then have "ls_IPaddr (pick_lease ?ms) = ip \<and> ls_Mac (pick_lease ?ms) = mac \<and> w1 = w'"
        unfolding ret_apply prod.inject res.inject by blast
      with Ok(1) False show ?thesis unfolding Let_def by blast
    qed
  qed (use Suc.IH in auto)
qed (simp add: throw_def)

lemma discover_loop_steps:
  "preorder R \<Longrightarrow> (\<And>n. steps R (nw_GetDHCPLeases (ct_calls c) n)) \<Longrightarrow> steps R (discover_loop c n hostname macs k)"
proof (induction k)
  case (Suc k)
  note ih = Suc.IH [OF Suc.prems]
  have "steps R (\<lambda>w. let matches = f w in if matches = [] then discover_loop c n hostname macs k w
      else ret (g matches) w)" for f g
    unfolding steps_def Let_def
  proof (intro allI impI)
    fix w r w' assume "(if f w = [] then discover_loop c n hostname macs k w else ret (g (f w)) w) = (r, w')"
    then show "R w w'" using stepsD [OF ih] Suc.prems(1) by (auto simp: ret_def preorder_def split: if_splits)
  qed
  then show ?case unfolding discover_loop.simps by (intro steps_try Suc.prems ih)
qed (simp add: steps_throw)

section \<open>Building and tearing down\<close>

lemma find_bridge_steps:
  assumes "preorder R" and "\<And>n. steps R (nc_LookupNetworkByName (ct_netConn c) n)"
    and "\<And>n. steps R (nw_GetBridgeName (ct_calls c) n)"
  shows "steps R (find_bridge c name ns)"
  by (induction ns) (auto intro!: steps_intros assms)

lemma build_parts_keep:
  assumes laws: "net_laws hosts c"
  shows "steps (same hosts) (networkNameFromBridgeName c name)"
    "steps (same hosts) (discoverDHCPLeaseIP c network hostname macs)"
  unfolding networkNameFromBridgeName_def discoverDHCPLeaseIP_def
  by (intro steps_bind find_bridge_steps discover_loop_steps preorder_same net_lawsD [OF laws])+

text \<open>The reservation is made or it is not; an error only means that there is none.\<close>

lemma reserve_result:
  assumes laws: "update_laws hosts c"
    and run: "iotry (reserveIP c n ip hostname mac) ret (\<lambda>e. ret []) w = (Ok entry, w')"
  shows "entry = [] \<and> hosts w' = hosts w
    \<or> entry \<noteq> [] \<and> (let h = \<lparr>dh_IP = ip, dh_MAC = mac, dh_Name = hostname\<rparr> in
        nw_Unmarshal (ct_calls c) entry = Ok h \<and> hosts w' = (hosts w)(n := hosts w n @ [h]))"
proof -
  let ?h = "\<lparr>dh_IP = ip, dh_MAC = mac, dh_Name = hostname\<rparr>"
  note law = update_lawsD [OF laws]
  show ?thesis
  proof (cases "nw_Marshal (ct_calls c) ?h")
    case (Ok e)
    from law(5) [OF Ok] have e: "e \<noteq> []" "nw_Unmarshal (ct_calls c) e = Ok ?h" by simp_all
    obtain r w1 where add: "nw_AddHost (ct_calls c) n e w = (r, w1)" by (metis surj_pair)
    note hosts = law(2) [OF e(2) add]
    have "entry = (if r = Ok () then e else []) \<and> w' = w1"
      using run add by (cases r) (auto simp: reserveIP_def Ok io_simps iowrap_def iotry_def)
    then show ?thesis using hosts e by (auto simp: Let_def)
  qed (use run in \<open>auto simp: reserveIP_def io_simps iotry_def\<close>)
qed

lemma build_interface_parts:
  assumes "build_interface c req ni w = (Ok resp, w')"
  obtains b n w1 m w2 ip mac w3 entry w4 rm where "ni_Bridge ni = Some b" "networkNameFromBridgeName c (br_Name b) w = (Ok n, w1)"
    "nc_LookupNetworkByName (ct_netConn c) n w1 = (Ok m, w2)"
    "discoverDHCPLeaseIP c m (br_Hostname req) (br_Hwaddrs req) w2 = (Ok (ip, mac), w3)"
    "iotry (reserveIP c m ip (br_Hostname req) mac) ret (\<lambda>e. ret []) w3 = (Ok entry, w4)"
    "filter_Configure c (br_Resources req) (ni_Bridge ni) ip w4 = (Ok rm, w')"
    "resp = \<lparr>bs_DriverNetwork_IP = Some ip, bs_TeardownSpec =
      Some \<lparr>ts_FilterRemoval = Some rm, ts_DHCPReservation = entry, ts_Network = n\<rparr>\<rparr>"
proof -
  from assms obtain b where b: "ni_Bridge ni = Some b" by (cases "ni_Bridge ni") (auto simp: build_interface_def lift_def)
  with assms that show ?thesis
    unfolding build_interface_def b option.case iobind_Ok by (auto simp: iobind_Ok ret_def)
qed

lemma VMStartedBuild_parts:
  assumes "VMStartedBuild c (Some req) w = (Ok resp, w')"
  obtains "resp = empty_response" "w' = w" | ni res where "br_Resources req = Some res" "ni \<in> set (nics (br_NetConfig req))"
    "build_interface c req ni w = (Ok resp, w')"
  using assms by (auto simp: VMStartedBuild_def ret_def split: if_splits list.splits)

lemma build_interface_result:
  assumes net: "net_laws hosts c" and upd: "update_laws hosts c"
    and run: "build_interface c req ni w = (Ok resp, w')"
  shows "\<exists>rm entry n ip mac. resp = \<lparr>bs_DriverNetwork_IP = Some ip, bs_TeardownSpec =
      Some \<lparr>ts_FilterRemoval = Some rm, ts_DHCPReservation = entry, ts_Network = n\<rparr>\<rparr> \<and> mac \<in> set (br_Hwaddrs req)
    \<and> (\<exists>w1. filter_Configure c (br_Resources req) (ni_Bridge ni) ip w1 = (Ok rm, w'))
    \<and> (entry = [] \<and> hosts w' = hosts w
       \<or> entry \<noteq> [] \<and> (let h = \<lparr>dh_IP = ip, dh_MAC = mac, dh_Name = br_Hostname req\<rparr> in
        nw_Unmarshal (ct_calls c) entry = Ok h \<and> hosts w' = (hosts w)(n := hosts w n @ [h])))"
proof -
  note keep = stepsD [OF build_parts_keep(1) [OF net], unfolded same_def]
    stepsD [OF net_lawsD(2) [OF net], unfolded same_def] stepsD [OF build_parts_keep(2) [OF net], unfolded same_def]
    stepsD [OF net_lawsD(7) [OF net], unfolded same_def]
  from build_interface_parts [OF run] obtain b n w1 m w2 ip mac w3 entry w4 rm where b: "ni_Bridge ni = Some b"
    and 1: "networkNameFromBridgeName c (br_Name b) w = (Ok n, w1)"
    and 2: "nc_LookupNetworkByName (ct_netConn c) n w1 = (Ok m, w2)"
    and 3: "discoverDHCPLeaseIP c m (br_Hostname req) (br_Hwaddrs req) w2 = (Ok (ip, mac), w3)"
    and 4: "iotry (reserveIP c m ip (br_Hostname req) mac) ret (\<lambda>e. ret []) w3 = (Ok entry, w4)"
    and 5: "filter_Configure c (br_Resources req) (ni_Bridge ni) ip w4 = (Ok rm, w')"
    and resp: "resp = \<lparr>bs_DriverNetwork_IP = Some ip, bs_TeardownSpec =
      Some \<lparr>ts_FilterRemoval = Some rm, ts_DHCPReservation = entry, ts_Network = n\<rparr>\<rparr>" .
  have m: "m = n" by (rule update_lawsD(1) [OF upd 2])
  from discover_loop_result [OF 3 [unfolded discoverDHCPLeaseIP_def]] obtain ms where
    "ms \<noteq> []" "\<forall>l \<in> set ms. ls_Mac l \<in> set (br_Hwaddrs req)" "mac = ls_Mac (pick_lease ms)"
    by (auto simp: Let_def lease_matches_def)
  then have "mac \<in> set (br_Hwaddrs req)" using pick_lease_least by blast
  moreover have "hosts w3 = hosts w" "hosts w' = hosts w4"
    using keep(1) [OF 1] keep(2) [OF 2] keep(3) [OF 3] keep(4) [OF 5] by simp_all
  ultimately show ?thesis using reserve_result [OF upd 4] 5 resp unfolding m by auto
qed

lemma has_host_Ok: "has_host h ips = Ok b \<Longrightarrow>
    b \<longleftrightarrow> h \<in> set (concat (map (\<lambda>d. case d of None \<Rightarrow> [] | Some hs \<Rightarrow> hs) ips))"
  by (induction h ips rule: has_host.induct) (auto split: if_splits)

lemma removeIPReservation_result:
  assumes net: "net_laws hosts c" and upd: "update_laws hosts c" and e: "nw_Unmarshal (ct_calls c) entry = Ok h" "entry \<noteq> []"
    and run: "removeIPReservation c n entry w = (r, w')"
  shows "if r = Ok () then hosts w' = (hosts w)(n := filter (\<lambda>x. x \<noteq> h) (hosts w n)) else hosts w' = hosts w"
proof -
  note keep = stepsD [OF net_lawsD(2) [OF net], unfolded same_def] stepsD [OF net_lawsD(5) [OF net], unfolded same_def]
  note law = update_lawsD [OF upd]
  obtain q w1 where look: "nc_LookupNetworkByName (ct_netConn c) n w = (q, w1)" by (metis surj_pair)
  have w1: "hosts w1 = hosts w" by (rule keep(1) [OF look])
  show ?thesis
  proof (cases q)
    case (Ok m)
    then have m: "m = n" using law(1) look by simp
    obtain q2 w2 where ips: "nw_Hosts (ct_calls c) n w1 = (q2, w2)" by (metis surj_pair)
    have w2: "hosts w2 = hosts w" using keep(2) [OF ips] w1 by simp
    have run: "iobind (iobind (nw_Hosts (ct_calls c) n) (\<lambda>ips. lift (has_host h ips)))
        (\<lambda>found. if \<not> found then ret () else nw_DeleteHost (ct_calls c) n entry) w1 = (r, w')"
      using run look Ok e m by (simp add: removeIPReservation_def ipReservationExists_def iowrap_def iobind_def
          iotry_def lift_def ret_def)
    then show ?thesis
    proof (cases rule: iobind_cases)
      case (Ok b w3)
      then obtain hs where hs: "nw_Hosts (ct_calls c) n w1 = (Ok hs, w3)" "has_host h hs = Ok b"
        by (auto simp: iobind_Ok lift_def)
      note found = has_host_Ok [OF hs(2), folded law(4) [OF hs(1)]]
      have w3: "hosts w3 = hosts w" using hs(1) ips w2 by simp
      show ?thesis
      proof (cases b)
        case True
        with Ok(2) have "nw_DeleteHost (ct_calls c) n entry w3 = (r, w')" by simp
        from law(3) [OF e(1) this] w3 show ?thesis by simp
      next
        case False
        with found w1 have "filter (\<lambda>x. x \<noteq> h) (hosts w n) = hosts w n" by (auto intro: filter_True)
        with False Ok(2) w3 show ?thesis by (auto simp: ret_def fun_upd_triv)
      qed
    qed (use ips w2 in \<open>auto simp: iobind_def lift_def split: res.splits\<close>)
  qed (use run look w1 e in \<open>auto simp: removeIPReservation_def iowrap_def iobind_def iotry_def throw_def\<close>)
qed

lemma has_host_no_error [simp]: "has_host h ips \<noteq> Fail e"
  by (induction h ips rule: has_host.induct) auto

lemma removeIPReservation_plain:
  assumes "update_laws hosts c"
  shows "removeIPReservation c n entry w \<noteq> (Fail (MultiErr es), w')"
proof
  note plain = update_lawsD(6) [OF assms]
  assume run: "removeIPReservation c n entry w = (Fail (MultiErr es), w')"
  then have ne: "entry \<noteq> []" by (auto simp: removeIPReservation_def ret_def)
  have ex: "ipReservationExists c m entry w \<noteq> (Fail (MultiErr es), w')" for m w
  proof
    assume "ipReservationExists c m entry w = (Fail (MultiErr es), w')"
    then show False unfolding ipReservationExists_def
    proof (cases rule: iobind_cases)
      case (Ok h w1)
      from Ok(2) plain show False
      proof (cases rule: iobind_cases)
        case (Ok ips w2)
        then show False by (simp add: lift_def)
      qed (use plain in auto)
    next
      case (Fail e)
      from Fail(1) show False by (cases rule: iowrap_cases) (use Fail(2) in auto)
    qed simp
  qed
  from run ne have "iobind (iowrap (''failed to find network '' @ quoted n @ '': '') []
          (nc_LookupNetworkByName (ct_netConn c) n)) (\<lambda>network.
        iobind (ipReservationExists c network entry) (\<lambda>found.
          if \<not> found then ret () else nw_DeleteHost (ct_calls c) network entry)) w = (Fail (MultiErr es), w')"
    by (simp add: removeIPReservation_def)
  then show False
  proof (cases rule: iobind_cases)
    case (Ok m w1)
    from Ok(2) show False
    proof (cases rule: iobind_cases)
      case (Ok b w2)
      with plain show False by (auto simp: ret_def split: if_splits)
    qed (use ex in auto)
  next
    case (Fail e)
    from Fail(1) show False by (cases rule: iowrap_cases) (use Fail(2) in auto)
  qed simp
qed

lemma release_keeps:
  assumes net: "net_laws hosts c"
  shows "steps (same hosts) (releaseDHCPLease c n entry)"
proof -
  have "steps (same hosts) (\<lambda>w. (ct_ipByInterface c b w, w))" for b by (simp add: steps_def same_def)
  then show ?thesis unfolding releaseDHCPLease_def
    by (intro steps_intros preorder_same net_lawsD [OF net])
qed

lemma attempt_cases:
  assumes "attempt m w = (r, w')"
  obtains (Ok) "m w = (Ok (), w')" "r = Ok None" | (Fail) e where "m w = (Fail e, w')" "r = Ok (Some e)"
  | (Panic) p where "m w = (Panic p, w')" "r = Panic p"
  using assms unfolding attempt_def by (cases rule: iotry_cases) (auto simp: ret_def)

text \<open>A teardown that reports no error has removed the reservation.\<close>

lemma VMTerminatedTeardown_result:
  assumes net: "net_laws hosts c" and upd: "update_laws hosts c" and n: "ts_Network ts \<noteq> []"
    and run: "VMTerminatedTeardown c (Some (Some ts)) w = (Ok (), w')"
  shows "ts_DHCPReservation ts = [] \<Longrightarrow> hosts w' = hosts w"
    "ts_DHCPReservation ts \<noteq> [] \<Longrightarrow> nw_Unmarshal (ct_calls c) (ts_DHCPReservation ts) = Ok h \<Longrightarrow>
       hosts w' = (hosts w)(ts_Network ts := filter (\<lambda>x. x \<noteq> h) (hosts w (ts_Network ts)))"
proof -
  from run obtain es w1 es' where f: "teardown_filter c ts w = (Ok es, w1)" and r: "teardown_reservation c ts es w1 = (Ok es', w')"
    and none: "err_or_nil es' = None"
    by (auto simp: VMTerminatedTeardown_def iobind_Ok lift_def of_err_def split: option.splits)
  have w1: "hosts w1 = hosts w"
  proof (cases "ts_FilterRemoval ts")
    case (Some rm)
    with f obtain e where "attempt (filter_Teardown c (Some rm)) w = (Ok e, w1)"
      by (auto simp: teardown_filter_def iobind_Ok ret_def)
    then obtain q where "filter_Teardown c (Some rm) w = (q, w1)" by (cases rule: attempt_cases) auto
    from stepsD [OF net_lawsD(8) [OF net] this] show ?thesis by (simp add: same_def)
  qed (use f in \<open>simp add: teardown_filter_def ret_def\<close>)
  show "hosts w' = hosts w" if "ts_DHCPReservation ts = []"
    using r that w1 by (simp add: teardown_reservation_def ret_def)
  show "hosts w' = (hosts w)(ts_Network ts := filter (\<lambda>x. x \<noteq> h) (hosts w (ts_Network ts)))"
    if entry: "ts_DHCPReservation ts \<noteq> []" "nw_Unmarshal (ct_calls c) (ts_DHCPReservation ts) = Ok h"
  proof -
    from r entry n obtain e w2 e2 where rm: "attempt (removeIPReservation c (ts_Network ts) (ts_DHCPReservation ts)) w1 = (Ok e, w2)"
      and rel: "attempt (releaseDHCPLease c (ts_Network ts) (ts_DHCPReservation ts)) w2 = (Ok e2, w')"
      and es': "es' = mappend es e"
      by (auto simp: teardown_reservation_def iobind_Ok ret_def)
    from rel obtain q where "releaseDHCPLease c (ts_Network ts) (ts_DHCPReservation ts) w2 = (q, w')"
      by (cases rule: attempt_cases) auto
    from stepsD [OF release_keeps [OF net] this] have w': "hosts w' = hosts w2" by (simp add: same_def)
    from rm obtain q where q: "removeIPReservation c (ts_Network ts) (ts_DHCPReservation ts) w1 = (q, w2)"
      "q = Ok () \<or> (\<exists>x. q = Fail x \<and> e = Some x)" by (cases rule: attempt_cases) auto
    have "hosts w2 = (hosts w)(ts_Network ts := filter (\<lambda>x. x \<noteq> h) (hosts w (ts_Network ts)))" if "q = Ok ()"
      using removeIPReservation_result [OF net upd entry(2,1) q(1)] w1 that by simp
    moreover have False if "q = Fail x" "e = Some x" for x
    proof -
      have "mappend es (Some x) = []" using none es' that by simp
      then have "x = MultiErr []" by simp
      with removeIPReservation_plain [OF upd] q(1) that(1) show False by simp
    qed
    ultimately show ?thesis using q(2) w' by auto
  qed
qed

section \<open>Properties\<close>


definition mem_netcalls :: "(string \<Rightarrow> dhcphost list) netcalls" where
  "mem_netcalls = \<lparr>nw_IsActive = (\<lambda>n. ret True), nw_GetBridgeName = (\<lambda>n. ret ''virbr0''),
     nw_GetDHCPLeases = (\<lambda>n. ret [\<lparr>ls_Mac = ''52:54:00:00:00:01'', ls_Hostname = ''vm'', ls_IPaddr = ''192.168.122.7'', ls_Expiry = 100\<rparr>,
        \<lparr>ls_Mac = ''52:54:00:00:00:01'', ls_Hostname = ''vm'', ls_IPaddr = ''192.168.122.8'', ls_Expiry = 200\<rparr>]),
     nw_AddHost = (\<lambda>n s w. case split_on CHR '';'' s of
        [a, b, d] \<Rightarrow> (Ok (), w(n := w n @ [\<lparr>dh_IP = a, dh_MAC = b, dh_Name = d\<rparr>])) | _ \<Rightarrow> (Fail (ErrNew s), w)),
     nw_DeleteHost = (\<lambda>n s w. case split_on CHR '';'' s of
        [a, b, d] \<Rightarrow> (Ok (), w(n := filter (\<lambda>x. x \<noteq> \<lparr>dh_IP = a, dh_MAC = b, dh_Name = d\<rparr>) (w n))) | _ \<Rightarrow> (Fail (ErrNew s), w)),
     nw_Hosts = (\<lambda>n w. (Ok [Some (w n)], w)),
     nw_Marshal = (\<lambda>h. if CHR '';'' \<in> set (dh_IP h @ dh_MAC h @ dh_Name h) then Fail (ErrNew ''cannot encode'')
        else Ok (join '';'' [dh_IP h, dh_MAC h, dh_Name h])),
     nw_Unmarshal = (\<lambda>s. case split_on CHR '';'' s of
        [a, b, d] \<Rightarrow> Ok \<lparr>dh_IP = a, dh_MAC = b, dh_Name = d\<rparr> | _ \<Rightarrow> Fail (ErrNew s)),
     nw_Now = (\<lambda>w. 50), nw_SendRelease = (\<lambda>b p. ret ())\<rparr>"

definition mem_controller :: "(string \<Rightarrow> dhcphost list) controller" where
  "mem_controller = \<lparr>ct_netConn = \<lparr>nc_ListNetworks = ret [''default''], nc_LookupNetworkByName = ret\<rparr>,
     ct_calls = mem_netcalls,
     ct_filter = Some \<lparr>nf_Configure = (\<lambda>r b ip. ret \<lparr>fr_Name = ''iptables'', fr_Data = NilData\<rparr>), nf_Teardown = (\<lambda>rm. ret ())\<rparr>,
     ct_ticks = 3, ct_ipByInterface = (\<lambda>b w. Ok (V4 [192, 168, 122, 1]))\<rparr>"

lemma mem_net_laws: "net_laws (\<lambda>w. w) mem_controller"
  by (auto simp: net_laws_def mem_controller_def mem_netcalls_def steps_def same_def ret_def filter_Configure_def filter_Teardown_def)

lemma split_three: "CHR '';'' \<notin> set a \<Longrightarrow> CHR '';'' \<notin> set b \<Longrightarrow> CHR '';'' \<notin> set d
    \<Longrightarrow> split_on CHR '';'' (a @ CHR '';'' # b @ CHR '';'' # d) = [a, b, d]"
  by (simp add: split_on_append split_on_single)

lemma mem_update_laws: "update_laws (\<lambda>w. w) mem_controller"
  unfolding update_laws_def
  by (intro conjI) (auto simp: mem_controller_def mem_netcalls_def ret_def split_three split: list.splits if_splits)

definition mem_request :: VMStartedBuildRequest where
  "mem_request = \<lparr>br_VMName = ''vm'', br_Hostname = ''vm'',
     br_NetConfig = Some [\<lparr>ni_Bridge = Some \<lparr>br_Name = ''virbr0'', br_Ports = []\<rparr>, ni_Macvtap = None\<rparr>],
     br_Resources = Some \<lparr>res_Ports = None\<rparr>, br_Hwaddrs = [''52:54:00:00:00:01'']\<rparr>"

lemmas mem_net = mem_controller_def mem_netcalls_def io_simps iowrap_def

lemma mem_discover: "discoverDHCPLeaseIP mem_controller ''default'' ''vm'' [''52:54:00:00:00:01''] w
    = (Ok (''192.168.122.7'', ''52:54:00:00:00:01''), w)"
  by (simp add: discoverDHCPLeaseIP_def mem_net lease_matches_def pick_lease_def numeral_3_eq_3 del: One_nat_def)

definition mem_entry :: string where
  "mem_entry = ''192.168.122.7'' @ '';'' @ ''52:54:00:00:00:01'' @ '';'' @ ''vm''"

definition mem_spec :: TeardownSpec where
  "mem_spec = \<lparr>ts_FilterRemoval = Some \<lparr>fr_Name = ''iptables'', fr_Data = NilData\<rparr>,
     ts_DHCPReservation = mem_entry, ts_Network = ''default''\<rparr>"

definition mem_host :: dhcphost where
  "mem_host = \<lparr>dh_IP = ''192.168.122.7'', dh_MAC = ''52:54:00:00:00:01'', dh_Name = ''vm''\<rparr>"

lemma mem_reserve: "reserveIP mem_controller ''default'' ''192.168.122.7'' ''vm'' ''52:54:00:00:00:01'' w
    = (Ok mem_entry, w(''default'' := w ''default'' @ [mem_host]))"
  by (simp add: reserveIP_def mem_net mem_entry_def mem_host_def)

lemma mem_build: "VMStartedBuild mem_controller (Some mem_request) w
    = (Ok \<lparr>bs_DriverNetwork_IP = Some ''192.168.122.7'', bs_TeardownSpec = Some mem_spec\<rparr>,
       w(''default'' := w ''default'' @ [mem_host]))"
proof -
  have find: "networkNameFromBridgeName mem_controller ''virbr0'' w = (Ok ''default'', w)" for w
    by (simp add: networkNameFromBridgeName_def mem_net)
  have calls: "nc_LookupNetworkByName (ct_netConn mem_controller) n w = (Ok n, w)"
    "filter_Configure mem_controller r b ip w = (Ok \<lparr>fr_Name = ''iptables'', fr_Data = NilData\<rparr>, w)" for n w r b ip
    by (simp_all add: mem_controller_def ret_def filter_Configure_def)
  show ?thesis
    by (simp add: VMStartedBuild_def mem_request_def nics_def build_interface_def iobind_apply iotry_apply iowrap_def
        find calls mem_discover mem_reserve ret_def mem_spec_def)
qed

lemma mem_teardown: "VMTerminatedTeardown mem_controller (Some (Some mem_spec)) w
    = (Ok (), w(''default'' := filter (\<lambda>x. x \<noteq> mem_host) (w ''default'')))"
proof -
  have ne: "mem_entry \<noteq> []" by (simp add: mem_entry_def)
  have un: "nw_Unmarshal mem_netcalls mem_entry = Ok mem_host"
    by (simp add: mem_netcalls_def mem_entry_def mem_host_def)
  have del: "nw_DeleteHost mem_netcalls ''default'' mem_entry w
      = (Ok (), w(''default'' := filter (\<lambda>x. x \<noteq> mem_host) (w ''default'')))" for w
    by (simp add: mem_netcalls_def mem_entry_def mem_host_def)
  have calls: "ct_calls mem_controller = mem_netcalls" "nc_LookupNetworkByName (ct_netConn mem_controller) n w = (Ok n, w)"
    "nw_Hosts mem_netcalls n w = (Ok [Some (w n)], w)" "filter_Teardown mem_controller rm w = (Ok (), w)"
    "nw_GetBridgeName mem_netcalls n w = (Ok ''virbr0'', w)" "nw_SendRelease mem_netcalls b pk w = (Ok (), w)"
    "ct_ipByInterface mem_controller b w = Ok (V4 [192, 168, 122, 1])" for n w rm b pk
    by (simp_all add: mem_controller_def mem_netcalls_def ret_def filter_Teardown_def)
  have triv: "mem_host \<notin> set (w n) \<Longrightarrow> w(n := filter (\<lambda>x. x \<noteq> mem_host) (w n)) = w" for w :: "string \<Rightarrow> dhcphost list" and n
  proof -
    assume "mem_host \<notin> set (w n)"
    then have "filter (\<lambda>x. x \<noteq> mem_host) (w n) = w n" by (auto intro: filter_True)
    then show ?thesis by (simp only: fun_upd_triv)
  qed
  have rm: "removeIPReservation mem_controller ''default'' mem_entry w
      = (Ok (), w(''default'' := filter (\<lambda>x. x \<noteq> mem_host) (w ''default'')))" for w
    by (simp add: removeIPReservation_def ipReservationExists_def ne calls un del iobind_apply iotry_apply iowrap_def lift_def ret_def triv)
  have calm: "calm (releaseDHCPLease mem_controller ''default'' mem_entry)"
    unfolding releaseDHCPLease_def calls un
    by (intro calm_intros) (auto simp: calm_def calls un ParseMAC_def Let_def split: option.splits)
  have "steps (\<lambda>a b. b = a) (releaseDHCPLease mem_controller ''default'' mem_entry)"
    unfolding releaseDHCPLease_def calls(1)
    by (intro steps_intros) (auto simp: preorder_def steps_def calls)
  with calm have "\<exists>e. attempt (releaseDHCPLease mem_controller ''default'' mem_entry) w = (Ok e, w)" for w
    by (cases "releaseDHCPLease mem_controller ''default'' mem_entry w";
        cases "fst (releaseDHCPLease mem_controller ''default'' mem_entry w)")
      (auto simp: attempt_def iotry_apply ret_def steps_def calm_def)
  then obtain f where "attempt (releaseDHCPLease mem_controller ''default'' mem_entry) w = (Ok (f w), w)" for w by metis
  then show ?thesis
    by (simp add: VMTerminatedTeardown_def teardown_filter_def teardown_reservation_def mem_spec_def attempt_def [of "filter_Teardown _ _"]
        attempt_def [of "removeIPReservation _ _ _"] calls rm ne iobind_apply iotry_apply ret_def lift_def of_err_def)
qed


text \<open>
  The lease that is taken: discovery gives the address of a lease that is of one of the machine's
  interfaces, of its host name if it has one, and not expired; of all such leases it is one that
  expires first, although it is meant to be the one that expires last.
\<close>

theorem discovered_lease_expires_first:
  assumes "discoverDHCPLeaseIP c n hostname macs w = (Ok (ip, mac), w')"
  shows "\<exists>ls w1 l. nw_GetDHCPLeases (ct_calls c) n w1 = (Ok ls, w') \<and> l \<in> set ls \<and> ip = ls_IPaddr l \<and> mac = ls_Mac l
    \<and> lease_matches macs hostname (nw_Now (ct_calls c) w') l
    \<and> list_all (\<lambda>k. \<not> (lease_matches macs hostname (nw_Now (ct_calls c) w') k \<and> ls_Expiry k < ls_Expiry l)) ls"
proof -
  from discover_loop_result [OF assms [unfolded discoverDHCPLeaseIP_def]] obtain ls w1 ms where
    ls: "nw_GetDHCPLeases (ct_calls c) n w1 = (Ok ls, w')" "ms = filter (lease_matches macs hostname (nw_Now (ct_calls c) w')) ls"
    "ms \<noteq> []" "ip = ls_IPaddr (pick_lease ms)" "mac = ls_Mac (pick_lease ms)" by (auto simp: Let_def)
  from pick_lease_least [OF ls(3)] have "pick_lease ms \<in> set ms" "\<forall>l \<in> set ms. ls_Expiry (pick_lease ms) \<le> ls_Expiry l"
    by blast+
  then have "pick_lease ms \<in> set ls" "lease_matches macs hostname (nw_Now (ct_calls c) w') (pick_lease ms)"
    "list_all (\<lambda>k. \<not> (lease_matches macs hostname (nw_Now (ct_calls c) w') k \<and> ls_Expiry k < ls_Expiry (pick_lease ms))) ls"
    by (auto simp: ls(2) list_all_iff not_less)
  with ls show ?thesis by blast
qed

theorem discovered_lease_expires_first_witness:
  "\<exists>l. ls_IPaddr l = ''192.168.122.7'' \<and> lease_matches [''52:54:00:00:00:01''] ''vm'' 50 l
    \<and> discoverDHCPLeaseIP mem_controller ''default'' ''vm'' [''52:54:00:00:00:01''] (\<lambda>n. []) = (Ok (ls_IPaddr l, ls_Mac l), \<lambda>n. [])"
proof -
  from discovered_lease_expires_first [OF mem_discover [of "\<lambda>n. []"]] obtain l where
    "''192.168.122.7'' = ls_IPaddr l" "''52:54:00:00:00:01'' = ls_Mac l"
    "lease_matches [''52:54:00:00:00:01''] ''vm'' (nw_Now (ct_calls mem_controller) (\<lambda>n. [])) l" by blast
  then show ?thesis using mem_discover [of "\<lambda>n. []"]
    by (intro exI [of _ l]) (simp add: mem_controller_def mem_netcalls_def)
qed

end
