(* ===== verification/Providers.thy ===== *)
theory Providers
  imports LibvirtLife LibvirtNet Disks
begin

text \<open>
  \<^verbatim>\<open>virt/interface.go\<close>, \<^verbatim>\<open>virt/net/interface.go\<close> and \<^verbatim>\<open>providers/providers.go\<close>: the interfaces the
  driver uses, the libvirt provider as their implementation, and the collection of the providers
  that are enabled. A dispenser makes a copy of its provider for one use; the state of the world
  holds the provider that is in use. A map of providers is the list of its entries in the order of
  an iteration.
\<close>

section \<open>The interfaces\<close>

record 'w net =
  nt_Fingerprint :: "(string \<rightharpoonup> attribute) \<Rightarrow> ('w, string \<rightharpoonup> attribute) io"
  nt_VMStartedBuild :: "VMStartedBuildRequest option \<Rightarrow> ('w, VMStartedBuildResponse) io"
  nt_VMTerminatedTeardown :: "TeardownSpec option option \<Rightarrow> ('w, unit) io"

record 'w virtualizer =
  z_CreateVM :: "VMConfig \<Rightarrow> ('w, unit) io"
  z_StopVM :: "string \<Rightarrow> ('w, unit) io"
  z_DestroyVM :: "string \<Rightarrow> ('w, unit) io"
  z_GetVM :: "string \<Rightarrow> ('w, VMInfo) io"
  z_GetNetworkInterfaces :: "string \<Rightarrow> ('w, NetworkInterface list) io"
  z_UseCloudInit :: bool
  z_Networking :: "('w, 'w net) io"
  z_Fingerprint :: "('w, string \<rightharpoonup> attribute) io"
  z_Storage :: "'w storage"
  z_GenerateMountCommands :: "VMConfig \<Rightarrow> MountFileConfig list \<Rightarrow> ('w, string list \<times> MountFileConfig list) io"

section \<open>The libvirt provider\<close>

definition provider_netconn :: "'w virt \<Rightarrow> (prov \<times> 'w) netconn" where
  "provider_netconn v = \<lparr>nc_ListNetworks = ListNetworks v, nc_LookupNetworkByName = LookupNetworkByName v\<rparr>"

definition controller_net :: "'w controller \<Rightarrow> 'w net" where
  "controller_net c = \<lparr>nt_Fingerprint = net_Fingerprint c, nt_VMStartedBuild = VMStartedBuild c,
     nt_VMTerminatedTeardown = VMTerminatedTeardown c\<rparr>"

definition UseCloudInit :: bool where "UseCloudInit = True"

definition Networking :: "'w controller \<Rightarrow> ('w, 'w net) io" where
  "Networking c = ret (controller_net c)"

definition libvirt_virtualizer :: "'w virt \<Rightarrow> 'w pstorage \<Rightarrow> (prov \<times> 'w) controller \<Rightarrow> (prov \<times> 'w) virtualizer" where
  "libvirt_virtualizer v st c = \<lparr>z_CreateVM = CreateVM v (Some st), z_StopVM = StopVM v,
     z_DestroyVM = DestroyVM v (Some st), z_GetVM = GetVM v, z_GetNetworkInterfaces = GetNetworkInterfaces v,
     z_UseCloudInit = UseCloudInit, z_Networking = Networking c,
     z_Fingerprint = prov_Fingerprint v (Some st) (net_Fingerprint c), z_Storage = st,
     z_GenerateMountCommands = (\<lambda>config mounts. iobind get_prov (\<lambda>p.
        lift (GenerateMountCommands (pv_caps p) (pv_libvirtVersion p) (pv_insecure p) config mounts)))\<rparr>"

text \<open>A dispenser of the provider \<open>lv\<close>, whose copy has its own storage and network controller.\<close>

definition dispense_libvirt ::
  "'w virt \<Rightarrow> prov \<Rightarrow> 'w pstorage \<Rightarrow> (prov \<times> 'w) controller \<Rightarrow> (prov \<times> 'w, (prov \<times> 'w) virtualizer) io" where
  "dispense_libvirt v lv st c = (\<lambda>(_, w).
     (rbind (storage_Copy (provider_conn v) st) (\<lambda>st'.
        Ok (libvirt_virtualizer v st' (ct_Copy c (provider_netconn v)))), (prov_Copy lv, w)))"

section \<open>The providers\<close>

definition ErrUnavailableProvider :: goerr where
  "ErrUnavailableProvider = ErrNew ''requested provider is not available''"

definition ErrNoProvidersEnabled :: goerr where
  "ErrNoProvidersEnabled = ErrNew ''no providers enabled in configuration''"

type_synonym 'w dispenser = "('w, 'w virtualizer) io"

record 'w providers =
  ps_default :: "'w dispenser option"
  ps_dispensers :: "(string \<times> 'w dispenser) list"

definition providers_New :: "'w providers" where
  "providers_New = \<lparr>ps_default = None, ps_dispensers = []\<rparr>"

text \<open>
  Setting up the libvirt provider: it is made of the configuration and the extra options and
  initialized, then its network controller and its storage.
\<close>

definition setup_libvirt ::
  "'w virt \<Rightarrow> (prov \<Rightarrow> prov) list \<Rightarrow> (prov \<times> 'w) controller \<Rightarrow> (prov \<times> 'w, (prov \<times> 'w) packet_filter) io
     \<Rightarrow> goerr option \<Rightarrow> (string \<Rightarrow> (string \<times> string) res) \<Rightarrow> LibvirtConfig \<Rightarrow> StorageConfig option
     \<Rightarrow> (prov \<times> 'w, (prov \<times> 'w) dispenser) io" where
  "setup_libvirt v opts c iptables_New loaded split_host cfg pools =
     iobind (mod_prov (\<lambda>_. prov_New (WithConfig (Some cfg) # opts))) (\<lambda>_.
     iobind (prov_Init v) (\<lambda>_.
     iobind (ct_Init iptables_New c) (\<lambda>c.
     iobind (SetupStorage v loaded split_host pools) (\<lambda>st.
     iobind get_prov (\<lambda>lv. ret (dispense_libvirt v lv st c))))))"

text \<open>
  \<open>Setup\<close>, with the setting up of libvirt as a parameter. A default that was chosen before is kept
  unless the configuration names an enabled provider.
\<close>

definition Setup ::
  "(LibvirtConfig \<Rightarrow> StorageConfig option \<Rightarrow> ('w, 'w dispenser) io) \<Rightarrow> VirtConfig option
     \<Rightarrow> 'w providers \<Rightarrow> ('w, 'w providers) io" where
  "Setup mk config p = (case config of
     None \<Rightarrow> throw ErrNoProvidersEnabled
   | Some cfg \<Rightarrow> (case vc_Provider cfg of
       None \<Rightarrow> throw ErrNoProvidersEnabled
     | Some provider \<Rightarrow>
         iobind (case prov_Libvirt provider of
             None \<Rightarrow> ret []
           | Some lc \<Rightarrow> iobind (mk lc (vc_StoragePools cfg)) (\<lambda>d. ret [(''libvirt'', d)])) (\<lambda>dispensers.
         if dispensers = [] then throw ErrNoProvidersEnabled
         else
           let dflt = (if prov_Default provider \<noteq> [] then
                 (case map_of dispensers (prov_Default provider) of Some d \<Rightarrow> Some d | None \<Rightarrow> ps_default p)
               else ps_default p);
             dflt = (case dflt of None \<Rightarrow> Some (snd (hd dispensers)) | Some d \<Rightarrow> Some d)
           in ret \<lparr>ps_default = dflt, ps_dispensers = dispensers\<rparr>)))"

definition providers_Get :: "'w providers \<Rightarrow> string \<Rightarrow> ('w, 'w virtualizer) io" where
  "providers_Get p name = (case map_of (ps_dispensers p) name of
     None \<Rightarrow> throw (wrapf [] ErrUnavailableProvider ('': '' @ name)) | Some dispense \<Rightarrow> dispense)"

definition providers_Default :: "'w providers \<Rightarrow> ('w, 'w virtualizer) io" where
  "providers_Default p = (case ps_default p of None \<Rightarrow> throw ErrUnavailableProvider | Some d \<Rightarrow> d)"

text \<open>The first provider that has the machine, with its information.\<close>

fun find_vm :: "string \<Rightarrow> (string \<times> 'w dispenser) list \<Rightarrow> ('w, 'w virtualizer \<times> VMInfo) io" where
  "find_vm name [] = throw ErrNotFound"
| "find_vm name ((_, dispense) # ds) =
     iobind dispense (\<lambda>pv. iotry (z_GetVM pv name) (\<lambda>info. ret (pv, info))
       (\<lambda>e. if \<not> is_err ErrNotFound e then throw e else find_vm name ds))"

definition providers_GetVM :: "'w providers \<Rightarrow> string \<Rightarrow> ('w, VMInfo) io" where
  "providers_GetVM p name = iobind (find_vm name (ps_dispensers p)) (\<lambda>(pv, info). ret info)"

definition GetProviderForVM :: "'w providers \<Rightarrow> string \<Rightarrow> ('w, 'w virtualizer) io" where
  "GetProviderForVM p name = iobind (find_vm name (ps_dispensers p)) (\<lambda>(pv, info). ret pv)"

datatype health = HealthStateUndetected | HealthStateHealthy

record fingerprint =
  fp_Attributes :: "string \<rightharpoonup> attribute"
  fp_Health :: health

definition vmKeyPrefix :: string where "vmKeyPrefix = ''driver.virt''"

definition prefixed_attrs :: "string \<Rightarrow> (string \<rightharpoonup> attribute) \<Rightarrow> (string \<rightharpoonup> attribute) \<Rightarrow> string \<rightharpoonup> attribute" where
  "prefixed_attrs keyPrefix pvAttrs attrs = (\<lambda>k.
     if has_prefix vmKeyPrefix k \<and> pvAttrs k \<noteq> None then pvAttrs k
     else if has_prefix (keyPrefix @ ''.'') k \<and> \<not> has_prefix vmKeyPrefix (drop (length keyPrefix + 1) k)
          \<and> pvAttrs (drop (length keyPrefix + 1) k) \<noteq> None
     then pvAttrs (drop (length keyPrefix + 1) k) else attrs k)"

fun fingerprint_loop :: "(string \<times> 'w dispenser) list \<Rightarrow> (string \<rightharpoonup> attribute) \<Rightarrow> ('w, string \<rightharpoonup> attribute) io" where
  "fingerprint_loop [] attrs = ret attrs"
| "fingerprint_loop ((name, dispense) # ds) attrs =
     iobind dispense (\<lambda>pv.
       let keyPrefix = vmKeyPrefix @ ''.provider.'' @ name; attrs = attrs(keyPrefix \<mapsto> BoolAttr True) in
       iobind (z_Fingerprint pv) (\<lambda>pvAttrs. fingerprint_loop ds (prefixed_attrs keyPrefix pvAttrs attrs)))"

definition providers_Fingerprint :: "'w providers \<Rightarrow> ('w, fingerprint) io" where
  "providers_Fingerprint p = iobind (fingerprint_loop (ps_dispensers p) [vmKeyPrefix \<mapsto> BoolAttr True]) (\<lambda>attrs.
     ret \<lparr>fp_Attributes = attrs, fp_Health = HealthStateHealthy\<rparr>)"

end
