(* ===== verification/Task.thy ===== *)
theory Task
  imports Providers
begin

text \<open>
  \<^verbatim>\<open>plugin/state.go\<close> and \<^verbatim>\<open>plugin/handle.go\<close>: the store of the task handles, and a handle with the
  monitoring of its virtual machine. A handle is shared: the store and the monitors hold references
  to it, so the operations of this theory take the handle and give it back. The query for the machine
  (\<open>taskGetter\<close>) and the clock are parameters; the locks make each operation atomic.
\<close>

section \<open>The store\<close>

definition newTaskStore :: "string \<rightharpoonup> 'h" where
  "newTaskStore = Map.empty"

definition ts_Set :: "string \<Rightarrow> 'h \<Rightarrow> (string \<rightharpoonup> 'h) \<Rightarrow> string \<rightharpoonup> 'h" where
  "ts_Set i h store = store(i \<mapsto> h)"

definition ts_Get :: "(string \<rightharpoonup> 'h) \<Rightarrow> string \<Rightarrow> 'h option" where
  "ts_Get store i = store i"

definition ts_Delete :: "string \<Rightarrow> (string \<rightharpoonup> 'h) \<Rightarrow> string \<rightharpoonup> 'h" where
  "ts_Delete i store = store(i := None)"

text \<open>What the driver relies on, and what follows for any sequence of changes.\<close>

datatype ('i, 'h) store_op = SetOp 'i 'h | DeleteOp 'i

fun op_id :: "('i, 'h) store_op \<Rightarrow> 'i" where
  "op_id (SetOp i h) = i"
| "op_id (DeleteOp i) = i"

fun op_result :: "('i, 'h) store_op \<Rightarrow> 'h option" where
  "op_result (SetOp i h) = Some h"
| "op_result (DeleteOp i) = None"

locale task_store =
  fixes empty :: 's and set_handle :: "'i \<Rightarrow> 'h \<Rightarrow> 's \<Rightarrow> 's"
    and get_handle :: "'s \<Rightarrow> 'i \<Rightarrow> 'h option" and delete_handle :: "'i \<Rightarrow> 's \<Rightarrow> 's"
  assumes get_empty: "get_handle empty i = None"
    and get_set: "get_handle (set_handle i h s) j = (if j = i then Some h else get_handle s j)"
    and get_delete: "get_handle (delete_handle i s) j = (if j = i then None else get_handle s j)"
begin

fun run_op :: "('i, 'h) store_op \<Rightarrow> 's \<Rightarrow> 's" where
  "run_op (SetOp i h) s = set_handle i h s"
| "run_op (DeleteOp i) s = delete_handle i s"

lemma get_run_op: "get_handle (run_op x s) j = (if j = op_id x then op_result x else get_handle s j)"
  by (cases x) (simp_all add: get_set get_delete)

text \<open>The handle of an id is the one of the last change to that id.\<close>

lemma get_last:
  "get_handle (fold run_op xs s) j = (case filter (\<lambda>x. op_id x = j) (rev xs) of [] \<Rightarrow> get_handle s j | x # _ \<Rightarrow> op_result x)"
proof (induction xs arbitrary: s)
  case (Cons x xs)
  then show ?case by (cases "filter (\<lambda>x. op_id x = j) (rev xs)") (simp_all add: get_run_op)
qed simp

lemma untouched: "list_all (\<lambda>x. op_id x \<noteq> j) xs \<Longrightarrow> get_handle (fold run_op xs s) j = get_handle s j"
  by (induction xs arbitrary: s) (auto simp: get_run_op)

end

interpretation handles: task_store newTaskStore ts_Set ts_Get ts_Delete
  by unfold_locales (simp_all add: newTaskStore_def ts_Set_def ts_Get_def ts_Delete_def)

section \<open>The handle\<close>

text \<open>
  The configuration of a task as Nomad sends it, with the directories it names; the environment is
  the list of its entries in the order of an iteration.
\<close>

record TaskConfig =
  tc_ID :: string
  tc_Name :: string
  tc_AllocID :: string
  tc_AllocDir :: string
  tc_TaskDir :: string
  tc_SharedAllocDir :: string
  tc_LocalDir :: string
  tc_SecretsDir :: string
  tc_Env :: "(string \<times> string) list"
  tc_Mounts :: "MountConfig list"
  tc_Resources :: "Resources option"
  tc_MemoryMB :: int
  tc_CpusetCpus :: string

record ExitResult =
  er_ExitCode :: int
  er_Err :: "goerr option"

record taskHandle =
  th_taskConfig :: "TaskConfig option"
  th_procState :: TaskState
  th_startedAt :: int
  th_completedAt :: "int option"
  th_name :: string
  th_exitResult :: "ExitResult option"
  th_netTeardown :: "TeardownSpec option"
  th_cancelled :: bool

record TaskStatus =
  st_ID :: string
  st_Name :: string
  st_State :: TaskState
  st_StartedAt :: int
  st_CompletedAt :: "int option"
  st_ExitResult :: "ExitResult option"

record TaskResourceUsage =
  ru_Timestamp :: int
  ru_Usage :: nat
  ru_MaxUsage :: nat
  ru_ThrottledTime :: nat

text \<open>The errors of Nomad's driver interface and of the driver.\<close>

definition ErrTaskNotFound :: goerr where "ErrTaskNotFound = ErrNew ''task not found for given id''"
definition ErrTaskCrashed :: goerr where "ErrTaskCrashed = ErrNew ''task has crashed''"

fun VMState_string :: "VMState \<Rightarrow> string" where
  "VMState_string VMStateStarting = ''starting''" | "VMState_string VMStateRunning = ''running''"
| "VMState_string VMStateShutdown = ''shutdown''" | "VMState_string VMStatePowerOff = ''poweroff''"
| "VMState_string VMStateSuspended = ''suspended''" | "VMState_string VMStatePaused = ''paused''"
| "VMState_string VMStateError = ''error''" | "VMState_string VMStateUnknown = ''unknown''"
| "VMState_string VMStateNone = []"

definition th_TaskStatus :: "taskHandle \<Rightarrow> TaskStatus res" where
  "th_TaskStatus h = (case th_taskConfig h of
     None \<Rightarrow> Panic ''nil task configuration''
   | Some c \<Rightarrow> Ok \<lparr>st_ID = tc_ID c, st_Name = tc_Name c, st_State = th_procState h, st_StartedAt = th_startedAt h,
       st_CompletedAt = th_completedAt h, st_ExitResult = th_exitResult h\<rparr>)"

definition IsRunning :: "taskHandle \<Rightarrow> bool" where
  "IsRunning h = (th_procState h = TaskStateRunning)"

definition fillStats :: "int \<Rightarrow> VMInfo \<Rightarrow> TaskResourceUsage" where
  "fillStats t info = \<lparr>ru_Timestamp = t, ru_Usage = inf_Memory info, ru_MaxUsage = inf_MaxMemory info,
     ru_ThrottledTime = inf_CPUTime info\<rparr>"

definition GetStats :: "(string \<Rightarrow> ('w, VMInfo) io) \<Rightarrow> ('w \<Rightarrow> int) \<Rightarrow> taskHandle \<Rightarrow> ('w, TaskResourceUsage) io" where
  "GetStats getVM clock h = iotry (getVM (th_name h)) (\<lambda>info w. ret (fillStats (clock w) info) w)
     (\<lambda>e. if is_err ErrNotFound e
        then throw (wrapf (''virt: task not found '' @ th_name h @ '': '') ErrTaskNotFound [])
        else throw (wrapf (''virt: unable to get task '' @ th_name h @ '' stats: '') e []))"

definition fillExitResult :: "VMInfo option \<Rightarrow> ExitResult" where
  "fillExitResult info = (case info of
     None \<Rightarrow> \<lparr>er_ExitCode = 1, er_Err = Some ErrTaskNotFound\<rparr>
   | Some i \<Rightarrow> (case inf_State i of
       VMStateError \<Rightarrow> \<lparr>er_ExitCode = 1, er_Err = Some ErrTaskCrashed\<rparr>
     | VMStateShutdown \<Rightarrow> \<lparr>er_ExitCode = 0, er_Err = None\<rparr>
     | VMStatePowerOff \<Rightarrow> \<lparr>er_ExitCode = 0, er_Err = None\<rparr>
     | s \<Rightarrow> \<lparr>er_ExitCode = 1, er_Err = Some (Errorf
         (''unexpected state: '' @ VMState_string s @ '' ('' @ inf_RawState i @ '')'') [])\<rparr>))"

section \<open>Monitoring\<close>

text \<open>
  One tick: the machine is queried. An error other than \<open>ErrNotFound\<close> makes the state unknown and the
  loop goes on; a machine that is gone or not running ends it with the exit result.
\<close>

definition exited :: "int \<Rightarrow> ExitResult \<Rightarrow> taskHandle \<Rightarrow> taskHandle" where
  "exited t er h = h\<lparr>th_procState := TaskStateExited, th_completedAt := Some t, th_exitResult := Some er\<rparr>"

definition monitor_tick ::
  "(string \<Rightarrow> ('w, VMInfo) io) \<Rightarrow> ('w \<Rightarrow> int) \<Rightarrow> taskHandle \<Rightarrow> ('w, taskHandle \<times> ExitResult option) io" where
  "monitor_tick getVM clock h = iotry (getVM (th_name h))
     (\<lambda>info w. if inf_State info \<noteq> VMStateRunning
        then let er = fillExitResult (Some info) in ret (exited (clock w) er h, Some er) w
        else ret (h, None) w)
     (\<lambda>e w. if \<not> is_err ErrNotFound e then ret (h\<lparr>th_procState := TaskStateUnknown\<rparr>, None) w
        else let er = fillExitResult None in ret (exited (clock w) er h, Some er) w)"

text \<open>
  What the \<open>select\<close> of the loop chooses each time it is reached: the ticker, or one of the two
  contexts that is done. The monitor ends with a result on its channel, or with the channel closed
  without one, or is still waiting when the choices end.
\<close>

datatype choice = Tick | CtxDone | HandleDone

datatype monitored = Sent ExitResult | Closed | Waiting

fun monitor ::
  "(string \<Rightarrow> ('w, VMInfo) io) \<Rightarrow> ('w \<Rightarrow> int) \<Rightarrow> choice list \<Rightarrow> taskHandle \<Rightarrow> ('w, taskHandle \<times> monitored) io" where
  "monitor getVM clock [] h = ret (h, Waiting)"
| "monitor getVM clock (Tick # cs) h = iobind (monitor_tick getVM clock h) (\<lambda>(h', sent). case sent of
     Some er \<Rightarrow> ret (h', Sent er) | None \<Rightarrow> monitor getVM clock cs h')"
| "monitor getVM clock (c # cs) h = ret (h, Closed)"

definition defaultMonitorInterval :: int where "defaultMonitorInterval = 10 ^ 9"

definition monitor_interval :: "int \<Rightarrow> int" where
  "monitor_interval i = (if i < 1 then defaultMonitorInterval else i)"

section \<open>Lemmas\<close>

lemma fillExitResult_code: "er_ExitCode (fillExitResult info) = 0
    \<longleftrightarrow> (\<exists>i. info = Some i \<and> (inf_State i = VMStateShutdown \<or> inf_State i = VMStatePowerOff))"
  by (auto simp: fillExitResult_def split: option.split VMState.split)

lemma fillExitResult_err: "er_Err (fillExitResult info) = None \<longleftrightarrow> er_ExitCode (fillExitResult info) = 0"
  by (auto simp: fillExitResult_def split: option.split VMState.split)

text \<open>The machine as a tick saw it: \<open>None\<close> when the query did not find it.\<close>

definition seen :: "VMInfo res \<Rightarrow> VMInfo option \<Rightarrow> bool" where
  "seen r info \<longleftrightarrow> (case info of Some i \<Rightarrow> r = Ok i \<and> inf_State i \<noteq> VMStateRunning
     | None \<Rightarrow> (\<exists>e. r = Fail e \<and> is_err ErrNotFound e))"

lemma monitor_tick_result:
  assumes "monitor_tick getVM clock h w = (Ok (h', sent), w')"
  shows "case sent of
      Some er \<Rightarrow> (\<exists>info q. getVM (th_name h) w = (q, w') \<and> seen q info \<and> er = fillExitResult info
        \<and> h' = exited (clock w') er h)
    | None \<Rightarrow> (\<exists>i. getVM (th_name h) w = (Ok i, w') \<and> inf_State i = VMStateRunning) \<and> h' = h
        \<or> (\<exists>e. getVM (th_name h) w = (Fail e, w') \<and> \<not> is_err ErrNotFound e)
          \<and> h' = h\<lparr>th_procState := TaskStateUnknown\<rparr>"
  using assms unfolding monitor_tick_def
proof (cases rule: iotry_cases)
  case (Ok info w1)
  then show ?thesis
    by (auto simp: ret_def Let_def seen_def intro!: exI [of _ "Some info"] split: if_splits)
next
  case (Fail e w1)
  then show ?thesis
    by (auto simp: ret_def Let_def seen_def intro!: exI [of _ "None"] split: if_splits)
qed simp

lemma monitor_tick_keeps:
  assumes "monitor_tick getVM clock h w = (Ok (h', None), w')"
  shows "th_name h' = th_name h" "th_exitResult h' = th_exitResult h" "th_completedAt h' = th_completedAt h"
    "th_procState h' = th_procState h \<or> th_procState h' = TaskStateUnknown"
  using monitor_tick_result [OF assms] by auto

text \<open>A monitor that ended with a result or without one, from the handle \<open>h\<close>.\<close>

definition reported :: "(string \<Rightarrow> ('w, VMInfo) io) \<Rightarrow> ('w \<Rightarrow> int) \<Rightarrow> taskHandle \<Rightarrow> taskHandle \<Rightarrow> monitored \<Rightarrow> 'w \<Rightarrow> bool" where
  "reported getVM clock h h' m w' \<longleftrightarrow> (case m of
      Sent er \<Rightarrow> (\<exists>info q w1. getVM (th_name h) w1 = (q, w') \<and> seen q info \<and> er = fillExitResult info)
        \<and> th_procState h' = TaskStateExited \<and> th_exitResult h' = Some er \<and> th_completedAt h' = Some (clock w')
    | _ \<Rightarrow> th_exitResult h' = th_exitResult h \<and> th_completedAt h' = th_completedAt h
        \<and> (th_procState h' = th_procState h \<or> th_procState h' = TaskStateUnknown))"

lemma reported_step:
  assumes "monitor_tick getVM clock h w = (Ok (h1, None), w1)" and "reported getVM clock h1 h' m w'"
  shows "reported getVM clock h h' m w'"
  using monitor_tick_keeps [OF assms(1)] assms(2) by (cases m) (auto simp: reported_def)

lemma reported_sent:
  assumes "monitor_tick getVM clock h w = (Ok (h', Some er), w')"
  shows "reported getVM clock h h' (Sent er) w'"
  using monitor_tick_result [OF assms] by (auto simp: reported_def exited_def)

lemma monitor_result: "monitor getVM clock cs h w = (Ok (h', m), w') \<Longrightarrow> reported getVM clock h h' m w'"
proof (induction cs arbitrary: h w)
  case Nil
  then show ?case by (auto simp: ret_def reported_def)
next
  case (Cons c cs)
  show ?case
  proof (cases c)
    case Tick
    from Cons.prems [unfolded Tick] obtain h1 sent w1 where tick: "monitor_tick getVM clock h w = (Ok (h1, sent), w1)"
      and rest: "(case sent of Some er \<Rightarrow> ret (h1, Sent er) | None \<Rightarrow> monitor getVM clock cs h1) w1 = (Ok (h', m), w')"
      by (auto simp: iobind_Ok)
    show ?thesis
    proof (cases sent)
      case None
      with rest have "monitor getVM clock cs h1 w1 = (Ok (h', m), w')" by simp
      from reported_step [OF tick [unfolded None] Cons.IH [OF this]] show ?thesis .
    next
      case (Some er)
      with rest have "h1 = h'" "m = Sent er" "w1 = w'" by (simp_all add: ret_def)
      with tick Some show ?thesis by (auto intro: reported_sent)
    qed
  qed (use Cons.prems in \<open>auto simp: ret_def reported_def\<close>)
qed

text \<open>The world after a number of queries, and a tick that does not panic.\<close>

definition after :: "(string \<Rightarrow> ('w, VMInfo) io) \<Rightarrow> string \<Rightarrow> nat \<Rightarrow> 'w \<Rightarrow> 'w" where
  "after getVM n k w = ((\<lambda>w. snd (getVM n w)) ^^ k) w"

lemma after_simps [simp]: "after getVM n 0 w = w" "after getVM n (Suc k) w = after getVM n k (snd (getVM n w))"
  by (simp add: after_def) (simp only: after_def funpow_Suc_right comp_def)

lemma monitor_tick_total:
  assumes "\<And>x. fst (getVM (th_name h) w) \<noteq> Panic x"
  shows "\<exists>h1 sent. monitor_tick getVM clock h w = (Ok (h1, sent), snd (getVM (th_name h) w)) \<and> th_name h1 = th_name h
    \<and> (seen (fst (getVM (th_name h) w)) info \<longrightarrow> sent \<noteq> None)"
proof (cases "getVM (th_name h) w")
  case (Pair r w1)
  with assms show ?thesis
    by (cases r; cases info) (auto simp: monitor_tick_def iotry_apply ret_apply Let_def exited_def seen_def)
qed

lemma monitor_sends:
  assumes "\<And>w x. fst (getVM n w) \<noteq> Panic x"
  shows "th_name h = n \<Longrightarrow> seen (fst (getVM n (after getVM n k w))) info \<Longrightarrow>
    \<exists>h' er j. j \<le> k \<and> monitor getVM clock (replicate (Suc k) Tick @ cs) h w = (Ok (h', Sent er), after getVM n (Suc j) w)"
proof (induction k arbitrary: h w)
  case 0
  obtain h1 sent where "monitor_tick getVM clock h w = (Ok (h1, sent), snd (getVM n w))" "sent \<noteq> None"
    using monitor_tick_total [of getVM h w clock info] assms 0 by auto
  then show ?case by (auto simp: iobind_apply ret_apply)
next
  case (Suc k)
  obtain h1 sent where tick: "monitor_tick getVM clock h w = (Ok (h1, sent), snd (getVM n w))" and "th_name h1 = n"
    using monitor_tick_total [of getVM h w clock info] assms Suc.prems(1) by auto
  show ?case
  proof (cases sent)
    case None
    have "seen (fst (getVM n (after getVM n k (snd (getVM n w))))) info" using Suc.prems(2) by simp
    from Suc.IH [OF \<open>th_name h1 = n\<close> this] obtain h' er j where "j \<le> k"
      "monitor getVM clock (replicate (Suc k) Tick @ cs) h1 (snd (getVM n w)) = (Ok (h', Sent er), after getVM n (Suc j) (snd (getVM n w)))"
      by blast
    with tick None show ?thesis
      by (intro exI [of _ h'] exI [of _ er] exI [of _ "Suc j"]) (simp add: iobind_apply [of "monitor_tick getVM clock h"])
  next
    case (Some er)
    with tick show ?thesis by (intro exI [of _ h1] exI [of _ er] exI [of _ 0]) (simp add: iobind_apply ret_apply)
  qed
qed

section \<open>Properties\<close>

text \<open>
  C24. What a monitor reports. A result is sent only after a query that did not find the machine or
  found it in a state other than running; it is the one made of what that query saw, is recorded in
  the handle with the time, and has exit code 0, and no error, exactly for a machine that was shut
  down or powered off: a machine that is still starting, or paused, counts as a failed exit. Without a
  result the handle is as it was, but for the state, which one failed query makes unknown: no later
  query that finds the machine running makes it running again. A monitor of a task whose context is
  done, as it is after \<open>StopTask\<close>, ends without a result and leaves the state as it was.
\<close>

theorem monitor_outcome:
  assumes "monitor getVM clock cs h w = (Ok (h', m), w')"
  shows "(case m of
      Sent er \<Rightarrow> (\<exists>info q w1. getVM (th_name h) w1 = (q, w') \<and> seen q info \<and> er = fillExitResult info
          \<and> (er_ExitCode er = 0 \<longleftrightarrow> (\<exists>i. info = Some i \<and> (inf_State i = VMStateShutdown \<or> inf_State i = VMStatePowerOff)))
          \<and> (er_Err er = None \<longleftrightarrow> er_ExitCode er = 0))
        \<and> th_procState h' = TaskStateExited \<and> th_exitResult h' = Some er \<and> th_completedAt h' = Some (clock w')
    | _ \<Rightarrow> th_exitResult h' = th_exitResult h \<and> th_completedAt h' = th_completedAt h
        \<and> (th_procState h' = th_procState h \<or> th_procState h' = TaskStateUnknown))
    \<and> (\<forall>cs'. cs = HandleDone # cs' \<longrightarrow> h' = h \<and> m = Closed \<and> w' = w)"
proof
  show "\<forall>cs'. cs = HandleDone # cs' \<longrightarrow> h' = h \<and> m = Closed \<and> w' = w" using assms by (auto simp: ret_def)
  note r = monitor_result [OF assms, unfolded reported_def]
  show "case m of
      Sent er \<Rightarrow> (\<exists>info q w1. getVM (th_name h) w1 = (q, w') \<and> seen q info \<and> er = fillExitResult info
          \<and> (er_ExitCode er = 0 \<longleftrightarrow> (\<exists>i. info = Some i \<and> (inf_State i = VMStateShutdown \<or> inf_State i = VMStatePowerOff)))
          \<and> (er_Err er = None \<longleftrightarrow> er_ExitCode er = 0))
        \<and> th_procState h' = TaskStateExited \<and> th_exitResult h' = Some er \<and> th_completedAt h' = Some (clock w')
    | _ \<Rightarrow> th_exitResult h' = th_exitResult h \<and> th_completedAt h' = th_completedAt h
        \<and> (th_procState h' = th_procState h \<or> th_procState h' = TaskStateUnknown)"
  proof (cases m)
    case (Sent er)
    with r show ?thesis using fillExitResult_code fillExitResult_err by auto metis
  qed (use r in auto)
qed

text \<open>A machine that gives a list of answers, and one handle.\<close>

definition answers :: "string \<Rightarrow> (VMInfo res list, VMInfo) io" where
  "answers n w = (case w of [] \<Rightarrow> (Fail ErrNotFound, []) | a # as \<Rightarrow> (a, as))"

definition in_state :: "VMState \<Rightarrow> VMInfo" where
  "in_state s = \<lparr>inf_RawState = [], inf_State = s, inf_Memory = 0, inf_CPUTime = 0, inf_MaxMemory = 0, inf_NrVirtCPU = 0\<rparr>"

definition a_handle :: taskHandle where
  "a_handle = \<lparr>th_taskConfig = None, th_procState = TaskStateRunning, th_startedAt = 0, th_completedAt = None,
     th_name = ''vm'', th_exitResult = None, th_netTeardown = None, th_cancelled = False\<rparr>"

theorem monitor_outcome_witness:
  "\<exists>h'. monitor answers (\<lambda>w. 7) [Tick, Tick] a_handle [Fail (ErrNew ''busy''), Ok (in_state VMStateRunning)]
      = (Ok (h', Waiting), []) \<and> th_procState h' = TaskStateUnknown
    \<and> (\<exists>h'' er. monitor answers (\<lambda>w. 7) [Tick] h' [Ok (in_state VMStatePaused)] = (Ok (h'', Sent er), [])
        \<and> er_ExitCode er = 1 \<and> th_exitResult h'' = Some er)"
proof -
  let ?h' = "a_handle\<lparr>th_procState := TaskStateUnknown\<rparr>"
  have "\<not> is_err ErrNotFound (ErrNew ''busy'')" by (simp add: ErrNotFound_def)
  then have 1: "monitor answers (\<lambda>w. 7) [Tick, Tick] a_handle [Fail (ErrNew ''busy''), Ok (in_state VMStateRunning)]
      = (Ok (?h', Waiting), [])"
    by (simp add: monitor_tick_def answers_def io_simps in_state_def a_handle_def del: is_err.simps)
  obtain h'' er where 2: "monitor answers (\<lambda>w. 7) [Tick] ?h' [Ok (in_state VMStatePaused)] = (Ok (h'', Sent er), [])"
    "er_ExitCode er = 1"
    by (simp add: monitor_tick_def answers_def io_simps in_state_def Let_def fillExitResult_def)
  have "th_procState ?h' = TaskStateUnknown" by simp
  with monitor_outcome [OF 2(1)] 1 2 show ?thesis by auto
qed

text \<open>
  C28. A monitor reports the end of its machine: as long as its ticker is chosen, it sends a result at the
  latest with the first query that does not find the machine or finds it in another state than running,
  whatever errors the queries before gave; it makes no query after that.
\<close>

theorem monitor_reports_end:
  assumes "\<forall>w x. fst (getVM (th_name h) w) \<noteq> Panic x" and "seen (fst (getVM (th_name h) (after getVM (th_name h) k w))) info"
  shows "\<exists>h' er j. j \<le> k \<and> th_procState h' = TaskStateExited \<and> th_exitResult h' = Some er
    \<and> monitor getVM clock (replicate (Suc k) Tick @ cs) h w = (Ok (h', Sent er), after getVM (th_name h) (Suc j) w)"
proof -
  obtain h' er j where j: "j \<le> k"
    and run: "monitor getVM clock (replicate (Suc k) Tick @ cs) h w = (Ok (h', Sent er), after getVM (th_name h) (Suc j) w)"
    using monitor_sends [of getVM "th_name h" h k w info clock cs] assms by blast
  from monitor_result [OF run] have "th_procState h' = TaskStateExited" "th_exitResult h' = Some er"
    by (simp_all add: reported_def)
  with j run show ?thesis by blast
qed

text \<open>A machine that answers without panics.\<close>

definition replies :: "string \<Rightarrow> ((goerr + VMInfo) list, VMInfo) io" where
  "replies n w = (case w of [] \<Rightarrow> (Fail ErrNotFound, []) | Inl e # as \<Rightarrow> (Fail e, as) | Inr i # as \<Rightarrow> (Ok i, as))"

theorem monitor_reports_end_witness:
  "\<exists>h' er w'. th_exitResult h' = Some er
    \<and> monitor replies (\<lambda>w. 7) (replicate (Suc 2) Tick @ [HandleDone]) a_handle
        [Inl (ErrNew ''busy''), Inr (in_state VMStateRunning), Inr (in_state VMStateShutdown)] = (Ok (h', Sent er), w')"
proof -
  let ?w = "[Inl (ErrNew ''busy''), Inr (in_state VMStateRunning), Inr (in_state VMStateShutdown)]"
  have "\<forall>w x. fst (replies (th_name a_handle) w) \<noteq> Panic x" by (auto simp: replies_def split: list.split sum.split)
  moreover have "seen (fst (replies (th_name a_handle) (after replies (th_name a_handle) 2 ?w))) (Some (in_state VMStateShutdown))"
    by (simp add: after_def replies_def numeral_2_eq_2 seen_def in_state_def)
  ultimately show ?thesis
    using monitor_reports_end [of replies a_handle 2 ?w "Some (in_state VMStateShutdown)" "\<lambda>w. 7" "[HandleDone]"] by blast
qed

end
