(* ===== verification/Frame.thy ===== *)
theory Frame
  imports Disks CloudInit
begin

text \<open>
  What the storage, the disks and the cloud-init image do to the rest of the world: an operation is
  made of calls of the library, of the host and of the image writer, so whatever preorder each of these
  calls keeps, the operation keeps. It lets the operations of the driver be framed by what is
  documented of the calls alone.
\<close>

section \<open>Calls\<close>

text \<open>Calls that look, calls that write.\<close>

definition look_steps :: "('w \<Rightarrow> 'w \<Rightarrow> bool) \<Rightarrow> 'w conn \<Rightarrow> bool" where
  "look_steps R l \<longleftrightarrow> (\<forall>n. steps R (l_FindStoragePool l n)) \<and> (\<forall>p. steps R (l_PoolXML l p))
     \<and> (\<forall>p. steps R (l_PoolName l p)) \<and> (\<forall>p. steps R (l_Refresh l p)) \<and> (\<forall>p n. steps R (l_Lookup l p n))
     \<and> (\<forall>v. steps R (l_Info l v)) \<and> (\<forall>v. steps R (l_Path l v)) \<and> (\<forall>v. steps R (l_VolXML l v))
     \<and> (\<forall>f. steps R (l_FileSize l f)) \<and> steps R (l_NewStream l) \<and> (\<forall>n. steps R (l_GetCephSecret l n))
     \<and> (\<forall>n w. R w (snd (l_ctxDone l n w)))"

definition write_steps :: "('w \<Rightarrow> 'w \<Rightarrow> bool) \<Rightarrow> 'w conn \<Rightarrow> bool" where
  "write_steps R l \<longleftrightarrow> (\<forall>p x. steps R (l_CreateXML l p x)) \<and> (\<forall>p x v. steps R (l_CreateXMLFrom l p x v))
     \<and> (\<forall>v. steps R (l_Delete l v)) \<and> (\<forall>v k b. steps R (l_Resize l v k b)) \<and> (\<forall>v f k b. steps R (l_upload l v f k b))
     \<and> (\<forall>c p s d. steps R (l_VolumeCopy l c p s d)) \<and> (\<forall>c p n f. steps R (l_VolumeUpload l c p n f))"

definition conn_steps :: "('w \<Rightarrow> 'w \<Rightarrow> bool) \<Rightarrow> 'w conn \<Rightarrow> bool" where
  "conn_steps R l \<longleftrightarrow> look_steps R l \<and> write_steps R l"

definition host_steps :: "('w \<Rightarrow> 'w \<Rightarrow> bool) \<Rightarrow> 'w host \<Rightarrow> bool" where
  "host_steps R h \<longleftrightarrow> (\<forall>p. steps R (h_Stat h p)) \<and> steps R (h_Getwd h) \<and> (\<forall>p. steps R (h_OpenRoot h p))
     \<and> (\<forall>d p. steps R (h_RootStat h d p)) \<and> (\<forall>p. steps R (h_sha256 h p)) \<and> (\<forall>d p. steps R (h_CreateTemp h d p))
     \<and> (\<forall>p. steps R (h_Remove h p)) \<and> (\<forall>p. steps R (h_RemoveAll h p)) \<and> (\<forall>p. steps R (h_Open h p))
     \<and> (\<forall>p. steps R (h_OpenWrite h p)) \<and> (\<forall>d p. steps R (h_CopyTo h d p)) \<and> (\<forall>a. steps R (h_qemu h a))"

definition iso_steps :: "('w \<Rightarrow> 'w \<Rightarrow> bool) \<Rightarrow> 'w ciworld \<Rightarrow> bool" where
  "iso_steps R c \<longleftrightarrow> (\<forall>p. steps R (w_ReadFile c p)) \<and> (\<forall>p. steps R (w_RemoveAll c p)) \<and> (\<forall>p. steps R (w_Create c p))
     \<and> (\<forall>p. steps R (w_CloseFile c p)) \<and> steps R (w_MkdirTemp c) \<and> (\<forall>p d. steps R (w_IsoCreate c p d))
     \<and> (\<forall>f p. steps R (w_IsoMkdir c f p)) \<and> (\<forall>f p s. steps R (w_IsoPut c f p s)) \<and> (\<forall>f s. steps R (w_IsoFinalize c f s))"

lemma conn_stepsD:
  assumes "conn_steps R l"
  shows "steps R (l_FindStoragePool l n)" "steps R (l_PoolXML l p)" "steps R (l_PoolName l p)" "steps R (l_Refresh l p)"
    "steps R (l_Lookup l p n)" "steps R (l_Info l v)" "steps R (l_Path l v)" "steps R (l_VolXML l v)"
    "steps R (l_FileSize l f)" "steps R (l_NewStream l)" "steps R (l_GetCephSecret l n)" "R w (snd (l_ctxDone l k w))"
    "steps R (l_CreateXML l p x)" "steps R (l_CreateXMLFrom l p x v)" "steps R (l_Delete l v)" "steps R (l_Resize l v k b)"
    "steps R (l_upload l v f k b)" "steps R (l_VolumeCopy l c p s d)" "steps R (l_VolumeUpload l c p n f)"
  using assms unfolding conn_steps_def look_steps_def write_steps_def by iprover+

lemma host_stepsD:
  assumes "host_steps R h"
  shows "steps R (h_Stat h p)" "steps R (h_Getwd h)" "steps R (h_OpenRoot h p)" "steps R (h_RootStat h d p)"
    "steps R (h_sha256 h p)" "steps R (h_CreateTemp h d p)" "steps R (h_Remove h p)" "steps R (h_RemoveAll h p)"
    "steps R (h_Open h p)" "steps R (h_OpenWrite h p)" "steps R (h_CopyTo h d p)" "steps R (h_qemu h a)"
  using assms unfolding host_steps_def by iprover+

lemma iso_stepsD:
  assumes "iso_steps R c"
  shows "steps R (w_ReadFile c p)" "steps R (w_RemoveAll c p)" "steps R (w_Create c p)" "steps R (w_CloseFile c p)"
    "steps R (w_MkdirTemp c)" "steps R (w_IsoCreate c p d)" "steps R (w_IsoMkdir c f p)" "steps R (w_IsoPut c f p s)"
    "steps R (w_IsoFinalize c f s)"
  using assms unfolding iso_steps_def by iprover+

lemma steps_for: "preorder R \<Longrightarrow> (\<And>x. steps R (f x)) \<Longrightarrow> steps R (iofor xs f)"
  by (induction xs) (auto intro!: steps_intros)

lemma steps_then: "preorder R \<Longrightarrow> steps R m \<Longrightarrow> (\<And>r. steps R (d r)) \<Longrightarrow> steps R (\<lambda>w. case m w of (r, w') \<Rightarrow> (r, snd (d r w')))"
  unfolding steps_def preorder_def by (auto split: prod.splits) (metis prod.collapse)

section \<open>Pools\<close>

lemma refreshPool_frame:
  assumes R: "preorder R" and l: "conn_steps R l"
  shows "steps R (refreshPool l p)"
  unfolding steps_def refreshPool_def
  by (intro allI impI, rule refresh_loop_steps [OF R conn_stepsD(4) [OF l] conn_stepsD(12) [OF l]])

lemma find_frame:
  assumes R: "preorder R" and l: "conn_steps R l"
  shows "steps R (findRawVolume l p n)" "steps R (findVolume l p n)" "steps R (getVolumeFormat l v)"
proof -
  note rules = steps_intros R conn_stepsD [OF l]
  show raw: "steps R (findRawVolume l p n)" unfolding findRawVolume_def by (intro rules)
  show "steps R (findVolume l p n)" unfolding findVolume_def by (intro rules raw)
  show "steps R (getVolumeFormat l v)" unfolding getVolumeFormat_def by (intro rules)
qed

lemma write_frame:
  assumes R: "preorder R" and l: "conn_steps R l"
  shows "steps R (defaultOverwriter l v f)" "steps R (defaultResizer l v k b)" "steps R (ceph_resizeVol l v k b)"
    "steps R (buildConnectOpts l n)" "steps R (ceph_overwriteVolume l n v f)"
proof -
  note rules = steps_intros R conn_stepsD [OF l] find_frame [OF R l]
  show "steps R (defaultOverwriter l v f)" unfolding defaultOverwriter_def by (intro rules)
  show "steps R (defaultResizer l v k b)" unfolding defaultResizer_def Let_def split_beta by (intro rules)
  show "steps R (ceph_resizeVol l v k b)" unfolding ceph_resizeVol_def split_beta by (intro rules)
  show opts: "steps R (buildConnectOpts l n)" for n
    unfolding buildConnectOpts_def by (intro rules) (auto split: option.split intro!: rules)
  show "steps R (ceph_overwriteVolume l n v f)"
    unfolding ceph_overwriteVolume_def by (intro rules) (auto split: option.split intro!: rules opts)
qed

definition pool_frame :: "('w \<Rightarrow> 'w \<Rightarrow> bool) \<Rightarrow> 'w pool \<Rightarrow> bool" where
  "pool_frame R p \<longleftrightarrow> conn_steps R (p_l p) \<and> (\<forall>c. p_custom p = Some c \<longrightarrow> conn_steps R c)"

definition storage_frame :: "('w \<Rightarrow> 'w \<Rightarrow> bool) \<Rightarrow> 'w storage \<Rightarrow> bool" where
  "storage_frame R s \<longleftrightarrow> (\<forall>x p. GetPool s x = Ok p \<longrightarrow> pool_frame R p) \<and> (\<forall>p. DefaultPool s = Ok p \<longrightarrow> pool_frame R p)"

lemma storage_frameD: "storage_frame R s \<Longrightarrow> disk_pool s d = Ok p \<Longrightarrow> pool_frame R p"
  by (auto simp: storage_frame_def disk_pool_def split: if_splits)

lemma volume_frame:
  assumes R: "preorder R" and p: "pool_frame R p"
  shows "steps R (GetVolume p n)" "steps R (DeleteVolume p n)" "steps R (AddVolume p n opts)"
proof -
  have l: "conn_steps R (p_l p)" using p by (simp add: pool_frame_def)
  note rules = steps_intros R conn_stepsD [OF l] find_frame [OF R l] write_frame [OF R l] refreshPool_frame [OF R l]
  show "steps R (GetVolume p n)" unfolding GetVolume_def by (intro rules)
  show "steps R (DeleteVolume p n)" unfolding DeleteVolume_def Let_def by (intro rules)
  have fns: "steps R (overwrite_fn p v f)" "steps R (resize_fn p v k b)" for v f k b
    using p write_frame [OF R] unfolding overwrite_fn_def resize_fn_def pool_frame_def by (auto split: option.split)
  have "steps R (chain_to (p_l p) opts src x)" for opts src x
    unfolding chain_to_def by (auto split: option.split intro!: rules)
  moreover have "steps R (create_volume p pool opts src x)" for pool opts src x
    unfolding create_volume_def by (auto split: option.split bool.split intro!: rules fns simp del: if_split)
  ultimately have "steps R (build_volume p pool n opts)" for pool n opts
    unfolding build_volume_def load_source_def by (intro rules fns)
  then have add: "steps R (pool_AddVolume p n opts)" for n opts
    unfolding pool_AddVolume_def Let_def by (intro rules)
  have "steps R (ceph_copyVol p n opts)"
    unfolding ceph_copyVol_def Let_def by (intro rules) (auto split: option.split intro!: rules)
  with add show "steps R (AddVolume p n opts)"
    unfolding AddVolume_def ceph_AddVolume_def by (auto split: poolkind.split)
qed

section \<open>Disks\<close>

lemma image_frame:
  assumes R: "preorder R" and h: "host_steps R h"
  shows "steps R (fileExists h p)" "steps R (GetImageFormat h p)" "steps R (GetImageSize h p)" "steps R (ConvertImage h a b c d)"
    "steps R (AllowedPath h ds p)" "steps R (convertImage h a b c)" "steps R (source_format h disk)"
proof -
  note rules = steps_intros R host_stepsD [OF h]
  show "steps R (fileExists h p)" unfolding fileExists_def split_beta by (intro rules)
  show fmt: "steps R (GetImageFormat h p)" for p unfolding GetImageFormat_def getImageInfo_def by (intro rules)
  show "steps R (GetImageSize h p)" unfolding GetImageSize_def getImageInfo_def by (intro rules)
  show conv: "steps R (ConvertImage h a b c d)" for a b c d unfolding ConvertImage_def by (intro rules fmt)
  have "steps R (allowed_in h ds p)" for p by (induction ds) (auto simp: Let_def intro!: rules)
  then show "steps R (AllowedPath h ds p)" unfolding AllowedPath_def Abs_def by (intro rules)
  show "steps R (convertImage h a b c)" unfolding convertImage_def by (intro rules conv)
  show "steps R (source_format h disk)" unfolding source_format_def by (auto split: option.split intro!: rules fmt)
qed

lemma ResolveImages_frame:
  assumes R: "preorder R" and h: "host_steps R h"
  shows "steps R (ResolveImages h dirs ds)"
proof -
  note rules = steps_intros R image_frame [OF R h]
  have img: "steps R (resolve_image h dirs img)" for img
    by (induction dirs arbitrary: img) (auto simp: Let_def simp del: if_split intro!: rules)
  have "steps R (resolve_disk h dirs d)" for d
    unfolding resolve_disk_def by (auto split: option.split simp del: if_split intro!: rules img)
  then show ?thesis by (induction ds) (auto intro!: rules)
qed

lemma Validate_frame:
  assumes R: "preorder R" and h: "host_steps R h" and s: "storage_frame R s"
  shows "steps R (Validate h s allowed ds)"
proof -
  note rules = steps_intros R image_frame [OF R h] host_stepsD [OF h]
  have img: "steps R (check_image h allowed pre d)" for pre d
    unfolding check_image_def by (auto split: option.split simp del: if_split intro!: rules)
  have "steps R (check_source h p pre d)" if "pool_frame R p" for p pre d
    unfolding check_source_def source_size_def split_beta
    by (auto split: option.split simp del: if_split intro!: rules volume_frame [OF R that])
  then have pool: "steps R (check_pool h s pre d)" for pre d
    unfolding check_pool_def split_beta
    by (auto split: res.split intro!: rules dest: storage_frameD [OF s])
  have "steps R (validate_disk h s allowed i d)" for i d
    unfolding validate_disk_def Let_def split_beta by (intro rules img pool)
  then have "steps R (validate_loop h s allowed i ds es)" for i es
    by (induction ds arbitrary: i es) (auto simp: split_beta intro!: rules)
  then show ?thesis unfolding Validate_def split_beta by (auto split: option.split intro!: rules)
qed

lemma Generate_frame:
  assumes R: "preorder R" and h: "host_steps R h" and s: "storage_frame R s"
  shows "steps R (Generate h name s ds)"
proof -
  note rules = steps_intros R image_frame [OF R h] host_stepsD [OF h]
  have copy: "steps R (iobind (h_Open h img) (\<lambda>_. iobind (h_OpenWrite h dev) (\<lambda>_. h_CopyTo h dev img)))" for img dev
    by (intro rules)
  have nomad: "steps R (writeNomadVolume h d)" for d
    unfolding writeNomadVolume_def Let_def
    by (auto split: option.split simp del: if_split intro!: rules copy steps_then [OF R copy])
  have pool: "steps R (iobind (lift (disk_pool s d)) f)" if "\<And>p. pool_frame R p \<Longrightarrow> steps R (f p)"
    for d and f :: "_ \<Rightarrow> ('a, Disk) io"
    using R that storage_frameD [OF s] by (cases "disk_pool s d") (auto simp: steps_def iobind_def lift_def preorder_def)
  have gen: "steps R (generate_disk h name s d)" for d
    unfolding generate_disk_def Let_def by (intro rules nomad pool) (auto intro: volume_frame [OF R])
  then show ?thesis by (induction ds) (auto intro!: rules)
qed

text \<open>The deferred removals of \<open>Prepare\<close> are calls of the host too.\<close>

definition fst_rel :: "('w \<Rightarrow> 'w \<Rightarrow> bool) \<Rightarrow> 'w \<times> 'd \<Rightarrow> 'w \<times> 'd \<Rightarrow> bool" where
  "fst_rel R a b \<longleftrightarrow> R (fst a) (fst b)"

lemma preorder_fst: "preorder R \<Longrightarrow> preorder (fst_rel R)"
  unfolding preorder_def fst_rel_def by blast

lemma Prepare_frame:
  assumes R: "preorder R" and h: "host_steps R h" and s: "storage_frame R s"
  shows "steps R (Prepare h s ds)"
proof -
  note calls = steps_intros R image_frame [OF R h] host_stepsD [OF h]
  have now: "steps R m \<Longrightarrow> steps (fst_rel R) (now m)" for m :: "('a, 'b) io"
    by (auto simp: steps_def now_def fst_rel_def split: prod.splits)
  have dfr: "steps (fst_rel R) (defer_remove f)" for f
    using R by (auto simp: steps_def defer_remove_def fst_rel_def preorder_def)
  note rules = steps_intros preorder_fst [OF R] now dfr
  have ident: "steps R (source_identifier h src f)" for src f
    unfolding source_identifier_def generateIdentifier_def by (intro calls)
  have src: "steps (fst_rel R) (prepare_source h p d)" "steps R (prepare_size h p d)" if p: "pool_frame R p" for p d
  proof -
    note vols = volume_frame [OF R p]
    have "steps (fst_rel R) (create_parent h p i src f)" for i src f
      unfolding create_parent_def by (intro rules image_frame [OF R h] vols)
    then have "steps (fst_rel R) (prepare_chained h p d src)" for d src
      unfolding prepare_chained_def parent_volume_def by (intro rules ident vols)
    then show "steps (fst_rel R) (prepare_source h p d)"
      unfolding prepare_source_def by (auto split: option.split simp del: if_split intro!: rules image_frame [OF R h])
    show "steps R (prepare_size h p d)"
      unfolding prepare_size_def image_size_def by (auto split: option.split simp del: if_split intro!: calls vols)
  qed
  have pool: "steps (fst_rel R) (iobind (lift (disk_pool s d)) f)"
    if "\<And>p. pool_frame R p \<Longrightarrow> steps (fst_rel R) (f p)" for d and f :: "_ \<Rightarrow> ('a, Disk) dio"
  proof (cases "disk_pool s d")
    case (Ok p)
    then have "iobind (lift (disk_pool s d)) f = f p" by (simp add: iobind_def lift_def)
    with that [OF storage_frameD [OF s Ok]] show ?thesis by simp
  next
    case (Fail e)
    then have "iobind (lift (disk_pool s d)) f = throw e" by (simp add: iobind_def lift_def throw_def)
    then show ?thesis by (simp add: steps_throw [OF preorder_fst [OF R]])
  next
    case (Panic x)
    then have "iobind (lift (disk_pool s d)) f = lift (Panic x)" by (simp add: iobind_def lift_def)
    then show ?thesis by (simp add: steps_lift [OF preorder_fst [OF R]])
  qed
  have "steps (fst_rel R) (prepare_disk h s before d behind)" for before d behind
    unfolding prepare_disk_def by (intro rules image_frame [OF R h] pool src)
  then have "steps (fst_rel R) (prepare_loop h s before ds)" for before
    by (induction ds arbitrary: before) (auto intro!: rules)
  then have loop: "steps (fst_rel R) (iobind (prepare_loop h s [] ds) (\<lambda>ds. ret (mark_primary ds)))" by (intro rules)
  have dfs: "R w (run_deferred h fs w)" for fs w
  proof (induction fs arbitrary: w)
    case (Cons f fs)
    have "R w (snd (h_Remove h f w))" using stepsD [OF host_stepsD(7) [OF h]] by (metis prod.collapse)
    with Cons R show ?case unfolding preorder_def run_deferred.simps by blast
  qed (use R in \<open>simp add: preorder_def\<close>)
  show ?thesis unfolding Prepare_def with_deferred_def steps_def
  proof (intro allI impI)
    fix w r w' assume run: "(case iobind (prepare_loop h s [] ds) (\<lambda>ds. ret (mark_primary ds)) (w, []) of
        (r, w', fs) \<Rightarrow> (r, run_deferred h fs w')) = (r, w')"
    obtain r1 w1 fs where 1: "iobind (prepare_loop h s [] ds) (\<lambda>ds. ret (mark_primary ds)) (w, []) = (r1, w1, fs)"
      by (metis prod_cases3)
    with stepsD [OF loop 1] dfs [of w1 fs] run R show "R w w'" by (auto simp: fst_rel_def preorder_def)
  qed
qed

section \<open>The cloud-init image\<close>

lemma deferring_frame: "preorder R \<Longrightarrow> steps R d \<Longrightarrow> steps R m \<Longrightarrow> steps R (deferring d m)"
  unfolding deferring_def by (rule steps_then)

lemma ci_Apply_frame:
  assumes R: "preorder R" and c: "iso_steps R c"
  shows "steps R (ci_Apply c ci p)"
proof -
  note rules = steps_intros R iso_stepsD [OF c] deferring_frame [OF R] steps_for [OF R]
  have tmpl: "steps R (executeTemplate c what ci n)" for what n
    unfolding executeTemplate_def by (auto split: res.split intro!: rules)
  have "steps R (user_data c ci)" unfolding user_data_def by (intro rules tmpl)
  moreover have "steps R (ci_Write c a b d)" for a b d
    unfolding ci_Write_def writeFile_def Let_def by (intro rules)
  ultimately show ?thesis unfolding ci_Apply_def by (intro rules tmpl)
qed

end
