(* ===== verification/Driver.thy ===== *)
theory Driver
  imports Task Frame
begin

text \<open>
  \<^verbatim>\<open>plugin/driver.go\<close>: the driver plugin of Nomad. Its state is beside the world of the providers;
  the store maps a task id to a reference to its handle, and \<open>pl_heap\<close> holds the handles, as the
  monitors share them with the store. What Nomad supplies (decoding the task's configuration, the
  set of CPUs, the names of its environment variables, encoding the driver state) are parameters.
\<close>

section \<open>Data\<close>

record OS =
  os_cfg_Arch :: string
  os_cfg_Machine :: string

record VirtTaskConfig =
  vt_Hostname :: string
  vt_OS :: "OS option"
  vt_UserData :: string
  vt_Timezone :: string
  vt_CMDs :: "string list"
  vt_DefaultUserSSHKey :: string
  vt_DefaultUserPassword :: string
  vt_Disks :: "Disk list"
  vt_NetworkInterfacesConfig :: NetworkInterfacesConfig

record DriverState =
  dr_TaskConfig :: "TaskConfig option"
  dr_StartedAt :: int
  dr_NetTeardown :: "TeardownSpec option"

text \<open>The handle given to Nomad, with the encoded driver state.\<close>

record NomadHandle =
  nh_Version :: nat
  nh_Config :: TaskConfig
  nh_State :: string

record 'w plugin =
  pl_config :: VirtConfig
  pl_nomadConfig :: "(nat \<times> nat) option"
  pl_providers :: "'w providers"
  pl_ci :: bool
  pl_tasks :: "string \<rightharpoonup> nat"
  pl_heap :: "nat \<Rightarrow> taskHandle"
  pl_next :: nat
  pl_shutdown :: bool

type_synonym ('w, 'a) plug = "('w plugin \<times> 'w, 'a) io"

record 'w env =
  e_host :: "'w Host.host"
  e_ci :: "'w ciworld"
  e_clock :: "'w \<Rightarrow> int"
  e_decode :: "TaskConfig \<Rightarrow> VirtTaskConfig res"
  e_decodeConfig :: "string \<Rightarrow> VirtConfig res"
  e_cpus :: "string \<Rightarrow> nat"
  e_AllocDirKey :: string
  e_TaskLocalDirKey :: string
  e_SecretsDirKey :: string
  e_encodeState :: "DriverState \<Rightarrow> string res"
  e_decodeState :: "string \<Rightarrow> DriverState res"
  e_setup :: "LibvirtConfig \<Rightarrow> StorageConfig option \<Rightarrow> ('w, 'w dispenser) io"

definition on_world :: "('w, 'a) io \<Rightarrow> ('w, 'a) plug" where
  "on_world m = (\<lambda>(p, w). case m w of (r, w') \<Rightarrow> (r, (p, w')))"

definition get_plugin :: "('w, 'w plugin) plug" where
  "get_plugin = (\<lambda>(p, w). (Ok p, (p, w)))"

definition mod_plugin :: "('w plugin \<Rightarrow> 'w plugin) \<Rightarrow> ('w, unit) plug" where
  "mod_plugin f = (\<lambda>(p, w). (Ok (), (f p, w)))"

definition no_handle :: taskHandle where
  "no_handle = \<lparr>th_taskConfig = None, th_procState = TaskStateUnknown, th_startedAt = 0, th_completedAt = None,
     th_name = [], th_exitResult = None, th_netTeardown = None, th_cancelled = False\<rparr>"

definition NewPlugin :: "'w plugin" where
  "NewPlugin = \<lparr>pl_config = \<lparr>vc_Provider = None, vc_ImagePaths = [], vc_StoragePools = None\<rparr>,
     pl_nomadConfig = None, pl_providers = providers_New, pl_ci = False, pl_tasks = newTaskStore,
     pl_heap = (\<lambda>_. no_handle), pl_next = 0, pl_shutdown = False\<rparr>"

section \<open>The plugin\<close>

definition taskHandleVersion :: nat where "taskHandleVersion = 1"
definition envVariblesFilePath :: string where "envVariblesFilePath = ''/etc/profile.d/virt.sh''"
definition envVariblesFilePermissions :: string where "envVariblesFilePermissions = ''777''"

record DriverCapabilities =
  ca_SendSignals :: bool
  ca_Exec :: bool
  ca_DisableLogCollection :: bool
  ca_FSIsolation :: string
  ca_NetIsolationModes :: "string list"
  ca_MustInitiateNetwork :: bool
  ca_MountConfigs :: bool

definition pl_Capabilities :: DriverCapabilities where
  "pl_Capabilities = \<lparr>ca_SendSignals = False, ca_Exec = False, ca_DisableLogCollection = True,
     ca_FSIsolation = ''image'', ca_NetIsolationModes = [''host''], ca_MustInitiateNetwork = False,
     ca_MountConfigs = False\<rparr>"

definition Shutdown :: "('w, unit) plug" where
  "Shutdown = mod_plugin (\<lambda>p. p\<lparr>pl_shutdown := True\<rparr>)"

text \<open>
  The configuration is stored before it is validated and stays when it is invalid. Making the
  cloud-init controller does not fail.
\<close>

definition SetConfig :: "'w env \<Rightarrow> string \<Rightarrow> (nat \<times> nat) option option \<Rightarrow> ('w, unit) plug" where
  "SetConfig env pluginConfig agentConfig =
     iobind (if pluginConfig \<noteq> [] then lift (e_decodeConfig env pluginConfig) else ret (pl_config (NewPlugin :: 'w plugin))) (\<lambda>config.
     iobind (case VirtConfig_Validate config of (c, r) \<Rightarrow>
       iobind (mod_plugin (\<lambda>p. p\<lparr>pl_config := c\<rparr>)) (\<lambda>_. lift (rbind r of_err))) (\<lambda>_.
     iobind (case agentConfig of None \<Rightarrow> ret () | Some d \<Rightarrow> mod_plugin (\<lambda>p. p\<lparr>pl_nomadConfig := d\<rparr>)) (\<lambda>_.
     iobind get_plugin (\<lambda>p.
     iobind (iowrap ''virt: failed to setup providers: '' []
       (on_world (Setup (e_setup env) (Some (pl_config p)) (pl_providers p)))) (\<lambda>ps.
     mod_plugin (\<lambda>p. p\<lparr>pl_providers := ps, pl_ci := True\<rparr>))))))"

definition no_fingerprint :: fingerprint where
  "no_fingerprint = \<lparr>fp_Attributes = Map.empty, fp_Health = HealthStateUndetected\<rparr>"

definition buildFingerprint :: "('w, fingerprint) plug" where
  "buildFingerprint = iobind get_plugin (\<lambda>p.
     iotry (on_world (providers_Fingerprint (pl_providers p))) ret (\<lambda>e. ret no_fingerprint))"

text \<open>The fingerprints that are sent: one at once, then one for each tick until a context is done.\<close>

fun fingerprint_ticks :: "choice list \<Rightarrow> ('w, fingerprint list) plug" where
  "fingerprint_ticks [] = ret []"
| "fingerprint_ticks (Tick # cs) = iobind buildFingerprint (\<lambda>f. iobind (fingerprint_ticks cs) (\<lambda>fs. ret (f # fs)))"
| "fingerprint_ticks (c # cs) = ret []"

definition handleFingerprint :: "choice list \<Rightarrow> ('w, fingerprint list) plug" where
  "handleFingerprint cs = iobind buildFingerprint (\<lambda>f. iobind (fingerprint_ticks cs) (\<lambda>fs. ret (f # fs)))"

section \<open>Names and files\<close>

definition vmNameFromTaskID :: "string \<Rightarrow> string" where
  "vmNameFromTaskID taskID = join ''-'' (tl (split_on CHR ''/'' taskID))"

definition buildHostname :: "string \<Rightarrow> string" where
  "buildHostname taskName = ''nomad-'' @ taskName"

definition env_value :: "TaskConfig \<Rightarrow> string \<Rightarrow> string" where
  "env_value task k = (case map_of (tc_Env task) k of None \<Rightarrow> [] | Some v \<Rightarrow> v)"

definition createAllocFileMounts :: "'w env \<Rightarrow> TaskConfig \<Rightarrow> MountFileConfig list" where
  "createAllocFileMounts env task =
     [\<lparr>mf_Source = tc_SharedAllocDir task, mf_Destination = env_value task (e_AllocDirKey env), mf_ReadOnly = True,
        mf_Tag = ''allocDir'', mf_Driver = []\<rparr>,
      \<lparr>mf_Source = tc_LocalDir task, mf_Destination = env_value task (e_TaskLocalDirKey env), mf_ReadOnly = True,
        mf_Tag = ''localDir'', mf_Driver = []\<rparr>,
      \<lparr>mf_Source = tc_SecretsDir task, mf_Destination = env_value task (e_SecretsDirKey env), mf_ReadOnly = True,
        mf_Tag = ''secretsDir'', mf_Driver = []\<rparr>]"

definition host_mount :: "MountConfig \<Rightarrow> MountFileConfig" where
  "host_mount m = \<lparr>mf_Source = mc_HostPath m, mf_Destination = mc_TaskPath m, mf_ReadOnly = mc_Readonly m,
     mf_Tag = map (\<lambda>c. if c = CHR ''/'' then CHR ''_'' else c) (mc_TaskPath m), mf_Driver = []\<rparr>"

definition env_script :: "(string \<times> string) list \<Rightarrow> string" where
  "env_script envs = join [CHR 0x0A, CHR 0x09] (map (\<lambda>(k, v). ''export '' @ k @ ''='' @ v) envs)"

definition createEnvsFile :: "(string \<times> string) list \<Rightarrow> CIFile" where
  "createEnvsFile envs = \<lparr>cf_Path = envVariblesFilePath, cf_Content = b64_encode (env_script envs),
     cf_Permissions = envVariblesFilePermissions, cf_Encoding = ''b64'', cf_Owner = [], cf_Group = []\<rparr>"

section \<open>Starting a task\<close>

fun volumeCleanup :: "'w storage \<Rightarrow> Volume list \<Rightarrow> ('w, unit) io" where
  "volumeCleanup s [] = ret ()"
| "volumeCleanup s (v # vs) = iotry (lift (GetPool s (v_Pool v)))
     (\<lambda>p. iotry (DeleteVolume p (v_Name v)) (\<lambda>_. volumeCleanup s vs) (\<lambda>e. volumeCleanup s vs))
     (\<lambda>e. volumeCleanup s vs)"

text \<open>
  A deferred call that is made only when the function returns an error; a panic of the function is
  not an error it returns.
\<close>

definition cleanup_on_error :: "('w, unit) io \<Rightarrow> ('w, 'a) io \<Rightarrow> ('w, 'a) io" where
  "cleanup_on_error d m = (\<lambda>w. case m w of
     (Fail e, w') \<Rightarrow> (case d w' of (Panic x, w2) \<Rightarrow> (Panic x, w2) | (_, w2) \<Rightarrow> (Fail e, w2))
   | (r, w') \<Rightarrow> (r, w'))"

definition start_wrap :: "string \<Rightarrow> TaskConfig \<Rightarrow> ('w, 'a) io \<Rightarrow> ('w, 'a) plug" where
  "start_wrap what cfg m = iowrap (''virt: '' @ what @ '' '' @ tc_AllocID cfg @ '': '') [] (on_world m)"

definition task_hostname :: "VirtTaskConfig \<Rightarrow> string \<Rightarrow> string" where
  "task_hostname dcfg taskName = (if vt_Hostname dcfg \<noteq> [] then vt_Hostname dcfg else buildHostname taskName)"

text \<open>\<open>uint(MemoryMB)\<close> of an \<open>int64\<close>.\<close>

definition vm_config_of :: "'w env \<Rightarrow> TaskConfig \<Rightarrow> VirtTaskConfig \<Rightarrow> VMConfig" where
  "vm_config_of env cfg dcfg = (let taskName = vmNameFromTaskID (tc_ID cfg) in
     zero_config\<lparr>vm_RemoveConfigFiles := True, vm_Name := taskName, vm_Memory := nat (tc_MemoryMB cfg mod 2 ^ 64),
       vm_CPUs := e_cpus env (tc_CpusetCpus cfg), vm_CPUset := tc_CpusetCpus cfg,
       vm_OsVariant := map_option (\<lambda>o'. \<lparr>os_Arch = os_cfg_Arch o', os_Machine = os_cfg_Machine o'\<rparr>) (vt_OS dcfg),
       vm_HostName := task_hostname dcfg taskName, vm_CMDs := vt_CMDs dcfg, vm_CIUserData := vt_UserData dcfg,
       vm_Password := vt_DefaultUserPassword dcfg, vm_SSHKey := vt_DefaultUserSSHKey dcfg,
       vm_Files := [createEnvsFile (tc_Env cfg)], vm_NetworkInterfaces := vt_NetworkInterfacesConfig dcfg,
       vm_Timezone := vt_Timezone dcfg\<rparr>)"

text \<open>The image of the cloud-init data, removed again when the function returns.\<close>

definition with_cloudinit ::
  "'w env \<Rightarrow> 'w virtualizer \<Rightarrow> bool \<Rightarrow> TaskConfig \<Rightarrow> VMConfig \<Rightarrow> Disk list \<Rightarrow> (Disk list \<Rightarrow> ('w, 'a) plug) \<Rightarrow> ('w, 'a) plug" where
  "with_cloudinit env z ci cfg dc vdisks k =
     (if z_UseCloudInit z then
        let isoPath = Join [tc_AllocDir cfg, ''cloudinit.iso''] in
        iobind (if ci then on_world (ci_Apply (e_ci env) (CloudInitConfig dc) isoPath)
                else lift (Panic ''nil cloud-init controller'')) (\<lambda>_.
        deferring (on_world (h_RemoveAll (e_host env) isoPath)) (k (ApplyCloudInit vdisks isoPath)))
      else k vdisks)"

text \<open>
  From the disks to the network of the running machine. The volumes are removed when a later step
  fails, those of a \<open>Generate\<close> that fails are not.
\<close>

definition bridge_only :: "NetworkInterfacesConfig \<Rightarrow> NetworkInterfacesConfig option" where
  "bridge_only ns = (case ConfigurableOnly ns of [] \<Rightarrow> None | xs \<Rightarrow> Some xs)"

definition start_vm ::
  "'w virtualizer \<Rightarrow> TaskConfig \<Rightarrow> VMConfig \<Rightarrow> ('w, VMStartedBuildResponse) plug" where
  "start_vm z cfg dc =
     iobind (start_wrap ''failed to start task'' cfg (z_Networking z)) (\<lambda>networking.
     iobind (start_wrap ''failed to start task'' cfg (z_CreateVM z dc)) (\<lambda>_.
     iobind (start_wrap ''failed to retrieve guest interfaces'' cfg (z_GetNetworkInterfaces z (vm_Name dc))) (\<lambda>ifaces.
     iotry (on_world (nt_VMStartedBuild networking (Some \<lparr>br_VMName = vm_Name dc, br_Hostname = vm_HostName dc,
         br_NetConfig = bridge_only (vm_NetworkInterfaces dc), br_Resources = tc_Resources cfg,
         br_Hwaddrs = map nic_MAC ifaces\<rparr>))) ret
       (\<lambda>e. let failed = wrapf ''virt: failed to build task network: '' e [] in
          iotry (on_world (z_DestroyVM z (vm_Name dc))) (\<lambda>_. throw failed) (\<lambda>_. throw failed)))))"

definition new_handle :: "'w env \<Rightarrow> TaskConfig \<Rightarrow> 'w \<Rightarrow> TeardownSpec option \<Rightarrow> taskHandle" where
  "new_handle env cfg w td = \<lparr>th_taskConfig = Some cfg, th_procState = TaskStateRunning, th_startedAt = e_clock env w,
     th_completedAt = None, th_name = vmNameFromTaskID (tc_ID cfg), th_exitResult = None, th_netTeardown = td,
     th_cancelled = False\<rparr>"

definition put_handle :: "string \<Rightarrow> taskHandle \<Rightarrow> 'w plugin \<Rightarrow> 'w plugin" where
  "put_handle i h p = p\<lparr>pl_tasks := ts_Set i (pl_next p) (pl_tasks p), pl_heap := (pl_heap p)(pl_next p := h),
     pl_next := Suc (pl_next p)\<rparr>"

definition cancel_handle :: "nat \<Rightarrow> 'w plugin \<Rightarrow> 'w plugin" where
  "cancel_handle r p = p\<lparr>pl_heap := (pl_heap p)(r := (pl_heap p r)\<lparr>th_cancelled := True\<rparr>)\<rparr>"

text \<open>The handle is stored before its state is encoded, and stays in the store when that fails.\<close>

definition register_task :: "'w env \<Rightarrow> TaskConfig \<Rightarrow> VMStartedBuildResponse \<Rightarrow> ('w, NomadHandle) plug" where
  "register_task env cfg resp = (\<lambda>(p, w).
     let h = new_handle env cfg w (bs_TeardownSpec resp); r = pl_next p; p' = put_handle (tc_ID cfg) h p in
     case e_encodeState env \<lparr>dr_TaskConfig = Some cfg, dr_StartedAt = th_startedAt h, dr_NetTeardown = th_netTeardown h\<rparr> of
       Ok s \<Rightarrow> (Ok \<lparr>nh_Version = taskHandleVersion, nh_Config = cfg, nh_State = s\<rparr>, (p', w))
     | Fail e \<Rightarrow> (Fail (Errorf (''virt: failed to set driver state for '' @ tc_AllocID cfg @ '': '' @ err_text e) []),
         (cancel_handle r p', w))
     | Panic x \<Rightarrow> (Panic x, (p', w)))"

definition start_disks ::
  "'w env \<Rightarrow> 'w virtualizer \<Rightarrow> TaskConfig \<Rightarrow> VMConfig \<Rightarrow> string list \<Rightarrow> Disk list \<Rightarrow> ('w, NomadHandle) plug" where
  "start_disks env z cfg dc allowedPaths vdisks =
     iobind (start_wrap ''failed to prepare disks'' cfg (Prepare (e_host env) (z_Storage z) vdisks)) (\<lambda>vdisks.
     iobind (start_wrap ''invalid disks configuration'' cfg (Validate (e_host env) (z_Storage z) allowedPaths vdisks)) (\<lambda>vdisks.
     iobind (start_wrap ''failed to create storage volumes'' cfg
       (Generate (e_host env) (vm_Name dc) (z_Storage z) vdisks)) (\<lambda>vdisks.
     let dc = dc\<lparr>vm_Volumes := Volumes vdisks\<rparr> in
     cleanup_on_error (on_world (volumeCleanup (z_Storage z) (vm_Volumes dc)))
       (iobind (start_vm z cfg dc) (register_task env cfg)))))"

definition start_with ::
  "'w env \<Rightarrow> 'w plugin \<Rightarrow> TaskConfig \<Rightarrow> VirtTaskConfig \<Rightarrow> 'w virtualizer \<Rightarrow> ('w, NomadHandle) plug" where
  "start_with env p cfg dcfg z = (let allowedPaths = vc_ImagePaths (pl_config p) @ [tc_AllocDir cfg] in
     case VM_Validate (vm_config_of env cfg dcfg) of
       (dc, Some e) \<Rightarrow> throw (wrapf (''virt: invalid configuration '' @ tc_AllocID cfg @ '': '') e [])
     | (dc, None) \<Rightarrow>
         let (vdisks, remainingMounts) = ApplyMounts (vt_Disks dcfg) (tc_Mounts cfg) in
         iobind (start_wrap ''failed to start task'' cfg (z_GenerateMountCommands z dc
             (createAllocFileMounts env cfg @ map host_mount remainingMounts))) (\<lambda>(bootCMDs, mounts).
         let dc = dc\<lparr>vm_Mounts := mounts, vm_BOOTCMDs := bootCMDs\<rparr> in
         iobind (on_world (ResolveImages (e_host env) (allowedPaths @ [tc_TaskDir cfg]) vdisks)) (\<lambda>vdisks.
         with_cloudinit env z (pl_ci p) cfg dc vdisks (start_disks env z cfg dc allowedPaths))))"

definition StartTask :: "'w env \<Rightarrow> TaskConfig \<Rightarrow> ('w, NomadHandle) plug" where
  "StartTask env cfg = iobind get_plugin (\<lambda>p.
     if ts_Get (pl_tasks p) (tc_ID cfg) \<noteq> None
     then throw (Errorf (''task with ID '' @ quoted (tc_ID cfg) @ '' already started'') [])
     else (case e_decode env cfg of
       Panic x \<Rightarrow> lift (Panic x)
     | Fail e \<Rightarrow> throw (Errorf (''virt: failed to decode driver config: '' @ err_text e) [])
     | Ok dcfg \<Rightarrow>
         if tc_Resources cfg = None then lift (Panic ''nil resources'')
         else iobind (start_wrap ''failed to start task'' cfg (providers_Default (pl_providers p)))
           (start_with env p cfg dcfg)))"

section \<open>The other operations\<close>

definition RecoverTask :: "'w env \<Rightarrow> NomadHandle option \<Rightarrow> ('w, unit) plug" where
  "RecoverTask env nh = (case nh of
     None \<Rightarrow> throw (ErrNew ''virt: handle cannot be nil'')
   | Some nh \<Rightarrow> (let taskID = tc_ID (nh_Config nh) in
       iobind get_plugin (\<lambda>p.
       if ts_Get (pl_tasks p) taskID \<noteq> None then ret ()
       else (case e_decodeState env (nh_State nh) of
         Panic x \<Rightarrow> lift (Panic x)
       | Fail e \<Rightarrow> throw (Errorf (''virt: failed to decode task state from handle '' @ taskID @ '': '' @ err_text e) [])
       | Ok st \<Rightarrow>
           let h = no_handle\<lparr>th_name := vmNameFromTaskID taskID, th_taskConfig := dr_TaskConfig st,
             th_startedAt := dr_StartedAt st, th_netTeardown := dr_NetTeardown st\<rparr> in
           iotry (on_world (providers_GetVM (pl_providers p) (th_name h)))
             (\<lambda>vm. mod_plugin (put_handle taskID (h\<lparr>th_procState := ToTaskState (inf_State vm)\<rparr>)))
             (\<lambda>e. if is_err ErrNotFound e then throw ErrTaskNotFound
               else throw (Errorf (''virt: failed to recover task '' @ taskID @ '': '' @ err_text e) []))))))"

definition StopTask :: "string \<Rightarrow> ('w, unit) plug" where
  "StopTask taskID = iobind get_plugin (\<lambda>p. case ts_Get (pl_tasks p) taskID of
     None \<Rightarrow> ret ()
   | Some r \<Rightarrow>
       iobind (mod_plugin (cancel_handle r)) (\<lambda>_.
       let vmname = vmNameFromTaskID taskID; pre = ''virt: unable to stop task '' @ taskID @ '': '' in
       iobind (iowrap pre [] (on_world (GetProviderForVM (pl_providers p) vmname))) (\<lambda>z.
       iowrap pre [] (on_world (z_StopVM z vmname)))))"

text \<open>The handle is deleted under the name of the machine.\<close>

definition DestroyTask :: "string \<Rightarrow> bool \<Rightarrow> ('w, unit) plug" where
  "DestroyTask taskID force = iobind get_plugin (\<lambda>p. case ts_Get (pl_tasks p) taskID of
     None \<Rightarrow> ret ()
   | Some r \<Rightarrow>
       if IsRunning (pl_heap p r) \<and> \<not> force then throw (Errorf (''virt: cannot destroy running task '' @ taskID) [])
       else
         iobind (mod_plugin (cancel_handle r)) (\<lambda>_.
         let vmname = vmNameFromTaskID taskID; pre = ''virt: unable to destroy task '' @ taskID @ '': '' in
         iobind (iowrap pre [] (on_world (GetProviderForVM (pl_providers p) vmname))) (\<lambda>z.
         iobind (iowrap pre [] (on_world (z_Networking z))) (\<lambda>network.
         iobind (iowrap pre [] (on_world (z_DestroyVM z vmname))) (\<lambda>_.
         iobind (iowrap ''virt: failed to destroy task network: '' []
           (on_world (nt_VMTerminatedTeardown network (Some (th_netTeardown (pl_heap p r)))))) (\<lambda>_.
         mod_plugin (\<lambda>p. p\<lparr>pl_tasks := ts_Delete vmname (pl_tasks p)\<rparr>)))))))"

definition task_ref :: "string \<Rightarrow> ('w, nat) plug" where
  "task_ref taskID = iobind get_plugin (\<lambda>p. case ts_Get (pl_tasks p) taskID of
     None \<Rightarrow> throw ErrTaskNotFound | Some r \<Rightarrow> ret r)"

definition InspectTask :: "string \<Rightarrow> ('w, TaskStatus) plug" where
  "InspectTask taskID = iobind (task_ref taskID) (\<lambda>r. iobind get_plugin (\<lambda>p. lift (th_TaskStatus (pl_heap p r))))"

text \<open>
  \<open>WaitTask\<close> and \<open>TaskStats\<close> start a goroutine on the handle; \<open>monitor_once\<close> is one tick of the
  monitor of a handle, and \<open>publishStats\<close> gives the statistics that are sent.
\<close>

definition WaitTask :: "string \<Rightarrow> ('w, nat) plug" where
  "WaitTask taskID = task_ref taskID"

definition monitor_once :: "'w env \<Rightarrow> nat \<Rightarrow> ('w, ExitResult option) plug" where
  "monitor_once env r = iobind get_plugin (\<lambda>p.
     iobind (on_world (monitor_tick (providers_GetVM (pl_providers p)) (e_clock env) (pl_heap p r))) (\<lambda>(h, sent).
     iobind (mod_plugin (\<lambda>p. p\<lparr>pl_heap := (pl_heap p)(r := h)\<rparr>)) (\<lambda>_. ret sent)))"

definition TaskStats :: "string \<Rightarrow> ('w, nat) plug" where
  "TaskStats taskID = task_ref taskID"

fun publishStats :: "'w env \<Rightarrow> nat \<Rightarrow> choice list \<Rightarrow> ('w, TaskResourceUsage list) plug" where
  "publishStats env r [] = ret []"
| "publishStats env r (Tick # cs) = iobind get_plugin (\<lambda>p.
     iotry (on_world (GetStats (providers_GetVM (pl_providers p)) (e_clock env) (pl_heap p r)))
       (\<lambda>stats. iobind (publishStats env r cs) (\<lambda>ss. ret (stats # ss)))
       (\<lambda>e. publishStats env r cs))"
| "publishStats env r (c # cs) = ret []"

definition SignalTask :: "string \<Rightarrow> string \<Rightarrow> ('w, unit) plug" where
  "SignalTask taskID signal = throw (ErrNew ''This driver does not support signaling'')"

definition ExecTask :: "string \<Rightarrow> string list \<Rightarrow> ('w, unit) plug" where
  "ExecTask taskID cmd = throw (ErrNew ''This driver does not support exec'')"

end
