(* ===== verification/DriverLife.thy ===== *)
theory DriverLife
  imports Driver
begin

text \<open>
  What the driver promises of the tasks, the virtual machines and the store of the handles, over any
  provider that keeps the contract of a virtualizer (\<open>machine_laws\<close>), and the proof that the libvirt
  provider keeps it.
\<close>

section \<open>The contract of a virtualizer\<close>

text \<open>
  \<open>doms w\<close> are the machines by name, with whether each is running. Creating makes a machine that was
  not there run, or fails, leaving at most that machine stopped; stopping and destroying concern the
  named machine only; the rest changes no machine, and a machine that is reported is there.
\<close>

definition life_contract :: "('w \<Rightarrow> string \<rightharpoonup> bool) \<Rightarrow> 'w virtualizer \<Rightarrow> bool" where
  "life_contract doms z \<longleftrightarrow>
     (\<forall>c w r w'. z_CreateVM z c w = (r, w') \<longrightarrow> vm_XMLConfig c = [] \<longrightarrow>
        (if r = Ok () then doms w (vm_Name c) = None \<and> doms w' = (doms w)(vm_Name c \<mapsto> True)
         else doms w' = doms w \<or> doms w (vm_Name c) = None \<and> doms w' = (doms w)(vm_Name c \<mapsto> False)))
   \<and> (\<forall>n w r w'. z_StopVM z n w = (r, w') \<longrightarrow> (\<forall>m. m \<noteq> n \<longrightarrow> doms w' m = doms w m)
        \<and> (r = Ok () \<longrightarrow> doms w n \<noteq> None \<and> doms w' n = Some False))
   \<and> (\<forall>n w r w'. z_DestroyVM z n w = (r, w') \<longrightarrow> (\<forall>m. m \<noteq> n \<longrightarrow> doms w' m = doms w m)
        \<and> (r = Ok () \<longrightarrow> doms w n \<noteq> None \<and> doms w' n = None))"

definition quiet_contract :: "('w \<Rightarrow> string \<rightharpoonup> bool) \<Rightarrow> 'w virtualizer \<Rightarrow> bool" where
  "quiet_contract doms z \<longleftrightarrow> (\<forall>n. steps (same doms) (z_GetVM z n))
   \<and> (\<forall>n w i w'. z_GetVM z n w = (Ok i, w') \<longrightarrow> doms w n \<noteq> None)
   \<and> (\<forall>n. steps (same doms) (z_GetNetworkInterfaces z n)) \<and> (\<forall>c m. steps (same doms) (z_GenerateMountCommands z c m))
   \<and> steps (same doms) (z_Networking z) \<and> storage_frame (same doms) (z_Storage z)
   \<and> (\<forall>w net w'. z_Networking z w = (Ok net, w') \<longrightarrow>
        (\<forall>q. steps (same doms) (nt_VMStartedBuild net q)) \<and> (\<forall>q. steps (same doms) (nt_VMTerminatedTeardown net q)))"

definition machine_laws :: "('w \<Rightarrow> string \<rightharpoonup> bool) \<Rightarrow> 'w virtualizer \<Rightarrow> bool" where
  "machine_laws doms z \<longleftrightarrow> life_contract doms z \<and> quiet_contract doms z"

definition dispenser_laws :: "('w \<Rightarrow> string \<rightharpoonup> bool) \<Rightarrow> 'w dispenser \<Rightarrow> bool" where
  "dispenser_laws doms d \<longleftrightarrow> steps (same doms) d \<and> (\<forall>w z w'. d w = (Ok z, w') \<longrightarrow> machine_laws doms z)"

text \<open>What every dispenser of the providers gives.\<close>

definition dispenses :: "('w \<Rightarrow> 'o) \<Rightarrow> ('w virtualizer \<Rightarrow> bool) \<Rightarrow> 'w dispenser \<Rightarrow> bool" where
  "dispenses obs P d \<longleftrightarrow> steps (same obs) d \<and> (\<forall>w z w'. d w = (Ok z, w') \<longrightarrow> P z)"

definition provide :: "('w \<Rightarrow> 'o) \<Rightarrow> ('w virtualizer \<Rightarrow> bool) \<Rightarrow> 'w providers \<Rightarrow> bool" where
  "provide obs P ps \<longleftrightarrow> (\<forall>d. ps_default ps = Some d \<longrightarrow> dispenses obs P d)
     \<and> list_all (\<lambda>(n, d). dispenses obs P d) (ps_dispensers ps)"

lemma provide_default:
  assumes "provide obs P ps"
  shows "steps (same obs) (providers_Default ps)" "providers_Default ps w = (Ok z, w') \<Longrightarrow> P z"
  using assms by (auto simp: provide_def providers_Default_def dispenses_def throw_def intro!: steps_throw [OF preorder_same, unfolded throw_def]
      split: option.splits)

definition providers_laws :: "('w \<Rightarrow> string \<rightharpoonup> bool) \<Rightarrow> 'w providers \<Rightarrow> bool" where
  "providers_laws doms ps \<longleftrightarrow> (\<forall>d. ps_default ps = Some d \<longrightarrow> dispenser_laws doms d)
     \<and> (\<forall>(n, d) \<in> set (ps_dispensers ps). dispenser_laws doms d)"

lemma providers_laws_provide: "providers_laws doms ps \<longleftrightarrow> provide doms (machine_laws doms) ps"
  by (auto simp: providers_laws_def provide_def dispenser_laws_def dispenses_def list_all_iff)

lemma createD:
  assumes "machine_laws doms z" and "z_CreateVM z c w = (r, w')" and "vm_XMLConfig c = []"
  shows "if r = Ok () then doms w (vm_Name c) = None \<and> doms w' = (doms w)(vm_Name c \<mapsto> True)
    else doms w' = doms w \<or> doms w (vm_Name c) = None \<and> doms w' = (doms w)(vm_Name c \<mapsto> False)"
  using assms(1) [unfolded machine_laws_def life_contract_def, THEN conjunct1, THEN conjunct1, rule_format, OF assms(2,3)] .

lemma stopD:
  assumes "machine_laws doms z" and "z_StopVM z n w = (r, w')"
  shows "m \<noteq> n \<Longrightarrow> doms w' m = doms w m" "r = Ok () \<Longrightarrow> doms w n \<noteq> None \<and> doms w' n = Some False"
  using assms(1) [unfolded machine_laws_def life_contract_def, THEN conjunct1, THEN conjunct2, THEN conjunct1, rule_format, OF assms(2)]
  by blast+

lemma destroyD:
  assumes "machine_laws doms z" and "z_DestroyVM z n w = (r, w')"
  shows "m \<noteq> n \<Longrightarrow> doms w' m = doms w m" "r = Ok () \<Longrightarrow> doms w n \<noteq> None \<and> doms w' n = None"
  using assms(1) [unfolded machine_laws_def life_contract_def, THEN conjunct1, THEN conjunct2, THEN conjunct2, rule_format, OF assms(2)]
  by blast+

lemma quietD:
  assumes "machine_laws doms z"
  shows "steps (same doms) (z_GetVM z n)" "z_GetVM z n w = (Ok i, w') \<Longrightarrow> doms w n \<noteq> None"
    "steps (same doms) (z_GetNetworkInterfaces z n)" "steps (same doms) (z_GenerateMountCommands z c m)"
    "steps (same doms) (z_Networking z)" "storage_frame (same doms) (z_Storage z)"
    "z_Networking z w = (Ok net, w') \<Longrightarrow> steps (same doms) (nt_VMStartedBuild net q)"
    "z_Networking z w = (Ok net, w') \<Longrightarrow> steps (same doms) (nt_VMTerminatedTeardown net u)"
  using assms unfolding machine_laws_def quiet_contract_def by (iprover | blast)+

section \<open>Outcomes\<close>

text \<open>The plugin and what is observed of the world as they were.\<close>

definition quiet :: "('w \<Rightarrow> 'o) \<Rightarrow> 'w plugin \<times> 'w \<Rightarrow> 'w plugin \<times> 'w \<Rightarrow> bool" where
  "quiet obs s s' \<longleftrightarrow> fst s' = fst s \<and> obs (snd s') = obs (snd s)"

lemma preorder_quiet [simp, intro]: "preorder (quiet obs)"
  by (simp add: preorder_def quiet_def)

lemma quiet_world: "steps (same obs) m \<Longrightarrow> steps (quiet obs) (on_world m)"
  by (auto simp: steps_def on_world_def same_def quiet_def split: prod.splits)

lemma quiet_get: "steps (quiet obs) get_plugin"
  by (simp add: steps_def get_plugin_def quiet_def split: prod.split)

lemma get_run: "iobind get_plugin k s = k (fst s) s"
  by (simp add: iobind_def get_plugin_def split: prod.split)

lemma quiet_wrap: "steps (same obs) m \<Longrightarrow> steps (quiet obs) (start_wrap what cfg m)"
  unfolding start_wrap_def by (intro steps_wrap preorder_quiet quiet_world)

text \<open>
  \<open>outcomes Q m\<close>: whatever \<open>m\<close> gives, \<open>Q\<close> holds of it. \<open>settled\<close> predicates do not see quiet calls, and
  hold when nothing happened and nothing succeeded; then outcomes compose along the control flow.
\<close>

definition outcomes :: "('a res \<Rightarrow> 's \<Rightarrow> 's \<Rightarrow> bool) \<Rightarrow> ('s, 'a) io \<Rightarrow> bool" where
  "outcomes Q m \<longleftrightarrow> (\<forall>s r s'. m s = (r, s') \<longrightarrow> Q r s s')"

definition failed :: "'a res \<Rightarrow> bool" where
  "failed r \<longleftrightarrow> (\<forall>x. r \<noteq> Ok x)"

definition settled :: "('s \<Rightarrow> 's \<Rightarrow> bool) \<Rightarrow> ('a res \<Rightarrow> 's \<Rightarrow> 's \<Rightarrow> bool) \<Rightarrow> bool" where
  "settled R Q \<longleftrightarrow> (\<forall>r a b c. R a b \<longrightarrow> Q r b c \<longrightarrow> Q r a c) \<and> (\<forall>r a b c. Q r a b \<longrightarrow> R b c \<longrightarrow> Q r a c)
     \<and> (\<forall>r a b. failed r \<longrightarrow> R a b \<longrightarrow> Q r a b) \<and> (\<forall>r r' a b. failed r \<longrightarrow> failed r' \<longrightarrow> Q r a b \<longrightarrow> Q r' a b)"

lemma failed_simps [simp]: "failed (Fail e)" "failed (Panic p)" "\<not> failed (Ok x)"
  by (simp_all add: failed_def)

lemma settledD:
  assumes "settled R Q"
  shows "R a b \<Longrightarrow> Q r b c \<Longrightarrow> Q r a c" "Q r a b \<Longrightarrow> R b c \<Longrightarrow> Q r a c" "failed r \<Longrightarrow> R a b \<Longrightarrow> Q r a b"
    "failed r \<Longrightarrow> failed r' \<Longrightarrow> Q r a b \<Longrightarrow> Q r' a b"
  using assms unfolding settled_def by blast+

lemma outcomesD: "outcomes Q m \<Longrightarrow> m s = (r, s') \<Longrightarrow> Q r s s'"
  by (simp add: outcomes_def)

lemma outcomes_bind:
  assumes Q: "settled R Q" and m: "steps R m" and k: "\<And>s x s1. m s = (Ok x, s1) \<Longrightarrow> outcomes Q (k x)"
  shows "outcomes Q (iobind m k)"
  unfolding outcomes_def
proof (intro allI impI)
  fix s r s' assume "iobind m k s = (r, s')"
  then show "Q r s s'"
  proof (cases rule: iobind_cases)
    case (Ok x s1)
    from settledD(1) [OF Q stepsD [OF m Ok(1)] outcomesD [OF k [OF Ok(1)] Ok(2)]] show ?thesis .
  qed (auto intro: settledD(3) [OF Q] stepsD [OF m])
qed

lemma outcomes_fails:
  assumes "settled R Q" and "preorder R"
  shows "outcomes Q (throw e)" "outcomes Q (lift (Panic x))"
  using settledD(3) [OF assms(1)] assms(2) by (auto simp: outcomes_def throw_def lift_def preorder_def)

lemma outcomes_deferring:
  assumes Q: "settled R Q" and d: "steps R d" and m: "outcomes Q m"
  shows "outcomes Q (deferring d m)"
  unfolding outcomes_def deferring_def
proof (intro allI impI)
  fix s r s' assume run: "(case m s of (r, w') \<Rightarrow> (r, snd (d w'))) = (r, s')"
  obtain r1 s1 where 1: "m s = (r1, s1)" by fastforce
  obtain r2 s2 where 2: "d s1 = (r2, s2)" by fastforce
  from run 1 2 settledD(2) [OF Q outcomesD [OF m 1] stepsD [OF d 2]] show "Q r s s'" by simp
qed

lemma outcomes_cleanup:
  assumes Q: "settled R Q" and d: "steps R d" and m: "outcomes Q m"
  shows "outcomes Q (cleanup_on_error d m)"
  unfolding outcomes_def cleanup_on_error_def
proof (intro allI impI)
  fix s r s' assume run: "(case m s of (Fail e, w') \<Rightarrow> (case d w' of (Panic x, w2) \<Rightarrow> (Panic x, w2) | (_, w2) \<Rightarrow> (Fail e, w2))
   | (r, w') \<Rightarrow> (r, w')) = (r, s')"
  obtain r1 s1 where 1: "m s = (r1, s1)" by fastforce
  note q = outcomesD [OF m 1]
  show "Q r s s'"
  proof (cases r1)
    case (Fail e)
    obtain r2 s2 where 2: "d s1 = (r2, s2)" by fastforce
    have "s' = s2" "failed r" using run 1 2 Fail by (auto split: res.splits)
    with settledD(2) [OF Q q stepsD [OF d 2]] settledD(4) [OF Q, of r1 r] Fail show ?thesis by simp
  qed (use run 1 q in auto)
qed

lemma on_world_run: "on_world m s = (r, s') \<Longrightarrow> m (snd s) = (r, snd s') \<and> fst s' = fst s"
  by (auto simp: on_world_def split: prod.splits)

lemma iotry_rethrow:
  assumes "iotry m ret (\<lambda>e. iotry d (\<lambda>_. throw (f e)) (\<lambda>_. throw (f e))) s = (Ok x, s')"
  shows "m s = (Ok x, s')"
proof -
  have "iotry d (\<lambda>_. throw e) (\<lambda>_. throw e) t \<noteq> (Ok x, s')" for e t
    by (auto simp: iotry_apply throw_def split: prod.splits res.splits)
  with assms show ?thesis by (auto simp: iotry_apply [of m] ret_def split: prod.splits res.splits)
qed

lemma start_wrap_Ok: "start_wrap what cfg m s = (Ok x, s') \<Longrightarrow> m (snd s) = (Ok x, snd s') \<and> fst s' = fst s"
  unfolding start_wrap_def by (simp add: on_world_run)

section \<open>The steps up to the machine\<close>

text \<open>
  What a start does before it makes the machine, and after that when it fails, is the same for every
  outcome that does not see quiet calls: preparing the disks, the image of the cloud-init data and the
  volumes, and taking these away again.
\<close>

definition start_quiet :: "('w \<Rightarrow> 'o) \<Rightarrow> 'w env \<Rightarrow> 'w virtualizer \<Rightarrow> bool" where
  "start_quiet obs env z \<longleftrightarrow> host_steps (same obs) (e_host env) \<and> iso_steps (same obs) (e_ci env)
     \<and> storage_frame (same obs) (z_Storage z) \<and> (\<forall>c m. steps (same obs) (z_GenerateMountCommands z c m))"

lemma start_quietD:
  assumes "start_quiet obs env z"
  shows "host_steps (same obs) (e_host env)" "iso_steps (same obs) (e_ci env)" "storage_frame (same obs) (z_Storage z)"
    "steps (same obs) (z_GenerateMountCommands z c m)"
  using assms unfolding start_quiet_def by iprover+

text \<open>The configuration of the machine of a task, as validation leaves it.\<close>

definition task_vm :: "TaskConfig \<Rightarrow> VirtTaskConfig \<Rightarrow> VMConfig \<Rightarrow> bool" where
  "task_vm cfg dcfg dc \<longleftrightarrow> vm_XMLConfig dc = [] \<and> vm_Name dc = vmNameFromTaskID (tc_ID cfg)
     \<and> vm_HostName dc = task_hostname dcfg (vmNameFromTaskID (tc_ID cfg))
     \<and> vm_NetworkInterfaces dc = fst (Interfaces_Validate (vt_NetworkInterfacesConfig dcfg))"

lemma task_vm_validated: "VM_Validate (vm_config_of env cfg dcfg) = (dc, e) \<Longrightarrow> task_vm cfg dcfg dc"
  by (auto simp: VM_Validate_def vm_config_of_def task_vm_def Let_def zero_config_def split: prod.splits)

lemma task_vm_upd [simp]:
  "task_vm cfg dcfg (dc\<lparr>vm_Volumes := vs\<rparr>) = task_vm cfg dcfg dc"
  "task_vm cfg dcfg (dc\<lparr>vm_Mounts := ms, vm_BOOTCMDs := cs\<rparr>) = task_vm cfg dcfg dc"
  by (simp_all add: task_vm_def)

lemma volumeCleanup_frame:
  assumes R: "preorder R" and s: "storage_frame R s"
  shows "steps R (volumeCleanup s vs)"
proof (induction vs)
  case (Cons v vs)
  have "steps R (iotry (DeleteVolume p (v_Name v)) (\<lambda>_. volumeCleanup s vs) (\<lambda>e. volumeCleanup s vs))"
    if "pool_frame R p" for p by (intro steps_intros R Cons.IH volume_frame [OF R that])
  moreover have "pool_frame R p" if "GetPool s (v_Pool v) = Ok p" for p using s that by (auto simp: storage_frame_def)
  ultimately show ?case using Cons.IH R
    by (cases "GetPool s (v_Pool v)") (auto simp: iotry_def lift_def steps_def preorder_def)
qed (simp add: steps_ret [OF R])

text \<open>
  What the disks of a task became before its machine is made: prepared, validated, and generated. The
  worlds in which this happened are not said.
\<close>

definition made_volumes :: "'w env \<Rightarrow> 'w storage \<Rightarrow> string \<Rightarrow> Disk list \<Rightarrow> bool" where
  "made_volumes env s n ds' \<longleftrightarrow> (\<exists>allowed ds0 ds1 ds t0 t1 t2 t3 t4 t5. Prepare (e_host env) s ds0 t0 = (Ok ds1, t1)
     \<and> Validate (e_host env) s allowed ds1 t2 = (Ok ds, t3) \<and> Generate (e_host env) n s ds t4 = (Ok ds', t5))"

definition machine_outcomes ::
  "(NomadHandle res \<Rightarrow> 'w plugin \<times> 'w \<Rightarrow> 'w plugin \<times> 'w \<Rightarrow> bool) \<Rightarrow> 'w env \<Rightarrow> TaskConfig \<Rightarrow> VirtTaskConfig \<Rightarrow> 'w virtualizer \<Rightarrow> bool" where
  "machine_outcomes Q env cfg dcfg z \<longleftrightarrow> (\<forall>dc ds'. task_vm cfg dcfg dc \<longrightarrow> vm_Volumes dc = Volumes ds' \<longrightarrow>
     made_volumes env (z_Storage z) (vm_Name dc) ds' \<longrightarrow> outcomes Q (iobind (start_vm z cfg dc) (register_task env cfg)))"

lemma start_disks_outcomes:
  assumes Q: "settled (quiet obs) Q" and z: "start_quiet obs env z" and dc: "task_vm cfg dcfg dc"
    and vm: "machine_outcomes Q env cfg dcfg z"
  shows "outcomes Q (start_disks env z cfg dc allowed vdisks)"
  unfolding start_disks_def Let_def
proof (rule outcomes_bind [OF Q quiet_wrap [OF Prepare_frame [OF preorder_same start_quietD(1,3) [OF z]]]],
    rule outcomes_bind [OF Q quiet_wrap [OF Validate_frame [OF preorder_same start_quietD(1,3) [OF z]]]],
    rule outcomes_bind [OF Q quiet_wrap [OF Generate_frame [OF preorder_same start_quietD(1,3) [OF z]]]])
  fix s0 ds1 s1 s2 ds s3 s4 ds' s5
  assume "start_wrap ''failed to prepare disks'' cfg (Prepare (e_host env) (z_Storage z) vdisks) s0 = (Ok ds1, s1)"
    "start_wrap ''invalid disks configuration'' cfg (Validate (e_host env) (z_Storage z) allowed ds1) s2 = (Ok ds, s3)"
    "start_wrap ''failed to create storage volumes'' cfg (Generate (e_host env) (vm_Name dc) (z_Storage z) ds) s4 = (Ok ds', s5)"
  note runs = this [THEN start_wrap_Ok, THEN conjunct1]
  have "made_volumes env (z_Storage z) (vm_Name dc) ds'" unfolding made_volumes_def by (intro exI conjI) (rule runs)+
  with vm dc have "outcomes Q (iobind (start_vm z cfg (dc\<lparr>vm_Volumes := Volumes ds'\<rparr>)) (register_task env cfg))"
    by (simp add: machine_outcomes_def)
  then show "outcomes Q (cleanup_on_error (on_world (volumeCleanup (z_Storage z) (vm_Volumes (dc\<lparr>vm_Volumes := Volumes ds'\<rparr>))))
      (iobind (start_vm z cfg (dc\<lparr>vm_Volumes := Volumes ds'\<rparr>)) (register_task env cfg)))"
    by (intro outcomes_cleanup [OF Q] quiet_world volumeCleanup_frame [OF preorder_same start_quietD(3) [OF z]])
qed

lemma start_with_outcomes:
  assumes Q: "settled (quiet obs) Q" and z: "start_quiet obs env z" and vm: "machine_outcomes Q env cfg dcfg z"
  shows "outcomes Q (start_with env p cfg dcfg z)"
proof -
  note pre = preorder_same [of obs] and q = start_quietD [OF z]
  obtain dc e where dc: "VM_Validate (vm_config_of env cfg dcfg) = (dc, e)" by fastforce
  note disks = start_disks_outcomes [OF Q z _ vm]
  have ci: "steps (quiet obs) (if b then on_world (ci_Apply (e_ci env) ci iso) else lift (Panic x))" for b ci iso x
    by (intro steps_if quiet_world ci_Apply_frame [OF pre q(2)] steps_lift preorder_quiet)
  have "outcomes Q (with_cloudinit env z b cfg dc' vdisks (start_disks env z cfg dc' allowed))"
    if "task_vm cfg dcfg dc'" for b dc' vdisks allowed
    unfolding with_cloudinit_def Let_def
    by (auto simp del: if_split intro!: ci outcomes_bind [OF Q] outcomes_deferring [OF Q] quiet_world host_stepsD [OF q(1)]
        disks that split: if_split [of _ "z_UseCloudInit z"])
  then show ?thesis unfolding start_with_def dc Let_def split_beta
    by (cases e) (auto intro!: outcomes_bind [OF Q] outcomes_fails [OF Q preorder_quiet] quiet_wrap quiet_world
        q(4) ResolveImages_frame [OF pre q(1)] simp: split_beta task_vm_validated [OF dc])
qed

lemma StartTask_by:
  assumes Q: "settled (quiet obs) Q" and default: "steps (same obs) (providers_Default (pl_providers (fst s)))"
    and z: "\<And>w z w'. providers_Default (pl_providers (fst s)) w = (Ok z, w') \<Longrightarrow> start_quiet obs env z"
    and vm: "\<And>w z w' dcfg. providers_Default (pl_providers (fst s)) w = (Ok z, w') \<Longrightarrow> e_decode env cfg = Ok dcfg \<Longrightarrow>
      machine_outcomes Q env cfg dcfg z"
    and run: "StartTask env cfg s = (r, s')"
  shows "Q r s s' \<and> (pl_tasks (fst s) (tc_ID cfg) \<noteq> None \<longrightarrow> failed r \<and> s' = s)"
proof -
  let ?p = "fst s"
  let ?start = "iobind (start_wrap ''failed to start task'' cfg (providers_Default (pl_providers ?p)))"
  have "outcomes Q (?start (start_with env ?p cfg dcfg))" if "e_decode env cfg = Ok dcfg" for dcfg
  proof (rule outcomes_bind [OF Q quiet_wrap [OF default]])
    fix t z t1 assume "start_wrap ''failed to start task'' cfg (providers_Default (pl_providers ?p)) t = (Ok z, t1)"
    note disp = conjunct1 [OF start_wrap_Ok [OF this]]
    show "outcomes Q (start_with env ?p cfg dcfg z)"
      by (rule start_with_outcomes [OF Q assms(3) [OF disp] vm [OF disp that]])
  qed
  then have out: "outcomes Q (case e_decode env cfg of
       Panic x \<Rightarrow> lift (Panic x) | Fail e \<Rightarrow> throw (err e)
     | Ok dcfg \<Rightarrow> if tc_Resources cfg = None then lift (Panic ''nil resources'') else ?start (start_with env ?p cfg dcfg))" for err
    by (auto split: res.split intro: outcomes_fails [OF Q preorder_quiet])
  note eq = run [unfolded StartTask_def get_run]
  show ?thesis
  proof (cases "ts_Get (pl_tasks ?p) (tc_ID cfg) = None")
    case True
    with eq outcomesD [OF out] show ?thesis by (simp add: ts_Get_def)
  next
    case False
    with eq have "s' = s" "failed r" by (auto simp: throw_def)
    moreover have "quiet obs s s" by (simp add: quiet_def)
    ultimately show ?thesis using settledD(3) [OF Q] by metis
  qed
qed

section \<open>Starting a task\<close>

text \<open>
  How a start ends: the machine of the task is the only one concerned; on success it was not there,
  runs, and the store has a new handle for the task, whose encoded state is what Nomad gets. On a
  failure the store is as it was, unless the state could not be encoded.
\<close>

definition fresh_handle :: "TaskConfig \<Rightarrow> taskHandle \<Rightarrow> bool" where
  "fresh_handle cfg h \<longleftrightarrow> th_taskConfig h = Some cfg \<and> th_procState h = TaskStateRunning \<and> th_completedAt h = None
     \<and> th_name h = vmNameFromTaskID (tc_ID cfg) \<and> th_exitResult h = None \<and> \<not> th_cancelled h"

definition driver_state :: "taskHandle \<Rightarrow> DriverState" where
  "driver_state h = \<lparr>dr_TaskConfig = th_taskConfig h, dr_StartedAt = th_startedAt h, dr_NetTeardown = th_netTeardown h\<rparr>"

type_synonym domains = "string \<rightharpoonup> bool"

definition start_rel ::
  "'w env \<Rightarrow> TaskConfig \<Rightarrow> NomadHandle res \<Rightarrow> 'w plugin \<Rightarrow> domains \<Rightarrow> 'w plugin \<Rightarrow> domains \<Rightarrow> bool" where
  "start_rel env cfg r p d p' d' \<longleftrightarrow> (let n = vmNameFromTaskID (tc_ID cfg) in
     (case r of
        Ok nh \<Rightarrow> d n = None \<and> d' = d(n \<mapsto> True) \<and> (\<exists>h. fresh_handle cfg h \<and> p' = put_handle (tc_ID cfg) h p
          \<and> nh_Config nh = cfg \<and> e_encodeState env (driver_state h) = Ok (nh_State nh))
      | _ \<Rightarrow> (d' = d \<or> d n = None \<and> (\<exists>x. d' = d(n := x)))
          \<and> (p' = p \<or> d n = None \<and> d' = d(n \<mapsto> True)
             \<and> (\<exists>h. fresh_handle cfg h \<and> failed (e_encodeState env (driver_state h))
               \<and> p' \<in> {put_handle (tc_ID cfg) h p, cancel_handle (pl_next p) (put_handle (tc_ID cfg) h p)}))))"

definition start_outcome ::
  "('w \<Rightarrow> domains) \<Rightarrow> 'w env \<Rightarrow> TaskConfig \<Rightarrow> NomadHandle res \<Rightarrow> 'w plugin \<times> 'w \<Rightarrow> 'w plugin \<times> 'w \<Rightarrow> bool" where
  "start_outcome doms env cfg r s s' \<longleftrightarrow> start_rel env cfg r (fst s) (doms (snd s)) (fst s') (doms (snd s'))"

lemma settled_start: "settled (quiet doms) (start_outcome doms env cfg)"
  unfolding settled_def
proof (intro conjI allI impI)
  fix r r' :: "NomadHandle res" and a b c
  show "start_outcome doms env cfg r a c" if "quiet doms a b" "start_outcome doms env cfg r b c" for a b c
    using that by (simp add: start_outcome_def quiet_def)
  show "start_outcome doms env cfg r a c" if "start_outcome doms env cfg r a b" "quiet doms b c"
    using that by (simp add: start_outcome_def quiet_def)
  show "start_outcome doms env cfg r a b" if "failed r" "quiet doms a b"
    using that by (cases r) (simp_all add: start_outcome_def start_rel_def quiet_def Let_def)
  show "start_outcome doms env cfg r' a b" if "failed r" "failed r'" "start_outcome doms env cfg r a b"
    using that by (cases r; cases r') (simp_all add: start_outcome_def start_rel_def Let_def)
qed

text \<open>Once the machine runs: how the rest of the start ends.\<close>

lemma register_outcome:
  assumes run: "register_task env cfg resp s = (r, s')" and d: "d (vmNameFromTaskID (tc_ID cfg)) = None"
    and s: "doms (snd s) = d(vmNameFromTaskID (tc_ID cfg) \<mapsto> True)"
  shows "start_rel env cfg r (fst s) d (fst s') (doms (snd s'))"
proof -
  obtain p w where p: "s = (p, w)" by fastforce
  let ?h = "new_handle env cfg w (bs_TeardownSpec resp)"
  have h: "fresh_handle cfg ?h" by (simp add: fresh_handle_def new_handle_def)
  have st: "driver_state ?h = \<lparr>dr_TaskConfig = Some cfg, dr_StartedAt = th_startedAt ?h, dr_NetTeardown = th_netTeardown ?h\<rparr>"
    by (simp add: driver_state_def new_handle_def)
  show ?thesis
    using run h d s unfolding p register_task_def Let_def prod.case st [symmetric]
    by (cases "e_encodeState env (driver_state ?h)")
      (auto simp: start_rel_def Let_def intro!: exI [of _ ?h])
qed

definition after_create ::
  "'w virtualizer \<Rightarrow> 'w net \<Rightarrow> TaskConfig \<Rightarrow> VMConfig \<Rightarrow> ('w, VMStartedBuildResponse) plug" where
  "after_create z networking cfg dc =
     iobind (start_wrap ''failed to retrieve guest interfaces'' cfg (z_GetNetworkInterfaces z (vm_Name dc))) (\<lambda>ifaces.
     iotry (on_world (nt_VMStartedBuild networking (Some \<lparr>br_VMName = vm_Name dc, br_Hostname = vm_HostName dc,
         br_NetConfig = bridge_only (vm_NetworkInterfaces dc), br_Resources = tc_Resources cfg,
         br_Hwaddrs = map nic_MAC ifaces\<rparr>))) ret
       (\<lambda>e. let failed = wrapf ''virt: failed to build task network: '' e [] in
          iotry (on_world (z_DestroyVM z (vm_Name dc))) (\<lambda>_. throw failed) (\<lambda>_. throw failed)))"

lemma start_vm_parts: "start_vm z cfg dc = iobind (start_wrap ''failed to start task'' cfg (z_Networking z)) (\<lambda>networking.
     iobind (start_wrap ''failed to start task'' cfg (z_CreateVM z dc)) (\<lambda>_. after_create z networking cfg dc))"
  by (simp add: start_vm_def after_create_def)

lemma after_create_result:
  assumes z: "machine_laws doms z" and net: "\<And>q. steps (same doms) (nt_VMStartedBuild networking q)"
    and run: "after_create z networking cfg dc s = (r, s')"
  shows "fst s' = fst s \<and> (if failed r then \<exists>x. doms (snd s') = (doms (snd s))(vm_Name dc := x) else doms (snd s') = doms (snd s))"
proof -
  have idem: "\<exists>x. f = f(n := x)" for f :: domains and n by (rule exI [of _ "f n"]) simp
  note q1 = stepsD [OF quiet_wrap [OF quietD(3) [OF z]], unfolded quiet_def]
  note q2 = stepsD [OF quiet_world [OF net], unfolded quiet_def]
  have d: "fst t' = fst t \<and> failed q \<and> (\<exists>x. doms (snd t') = (doms (snd t))(vm_Name dc := x))"
    if "iotry (on_world (z_DestroyVM z (vm_Name dc))) (\<lambda>_. throw e) (\<lambda>_. throw e) t = (q, t')" for e t q t'
  proof -
    note runs = that
    obtain q' where q: "on_world (z_DestroyVM z (vm_Name dc)) t = (q', t')" "failed q"
      using runs by (cases rule: iotry_cases) (auto simp: throw_def)
    from destroyD(1) [OF z conjunct1 [OF on_world_run [OF q(1)]]]
    have "doms (snd t') = (doms (snd t))(vm_Name dc := doms (snd t') (vm_Name dc))" by (auto simp: fun_eq_iff)
    with on_world_run [OF q(1)] q(2) show ?thesis by blast
  qed
  from run show ?thesis unfolding after_create_def
  proof (cases rule: iobind_cases)
    case (Ok ifaces s1)
    note s1 = q1 [OF Ok(1)]
    from Ok(2) show ?thesis
    proof (cases rule: iotry_cases)
      case (Ok x s2)
      with q2 [OF Ok(1)] s1 show ?thesis by (auto simp: ret_def)
    next
      case (Fail e s2)
      with q2 [OF Fail(1)] s1 d [OF Fail(2) [unfolded Let_def]] show ?thesis by auto
    next
      case (Panic p)
      with q2 [OF Panic(1)] s1 idem show ?thesis by auto
    qed
  next
    case (Fail e)
    with q1 [OF Fail(1)] idem show ?thesis by auto
  next
    case (Panic p)
    with q1 [OF Panic(1)] idem show ?thesis by auto
  qed
qed

lemma start_vm_outcome:
  assumes z: "machine_laws doms z" and xml: "vm_XMLConfig dc = []" and n: "vm_Name dc = vmNameFromTaskID (tc_ID cfg)"
  shows "outcomes (start_outcome doms env cfg) (iobind (start_vm z cfg dc) (register_task env cfg))"
  unfolding start_vm_parts iobind_assoc
proof (rule outcomes_bind [OF settled_start quiet_wrap [OF quietD(5) [OF z]]])
  fix s networking s1 assume "start_wrap ''failed to start task'' cfg (z_Networking z) s = (Ok networking, s1)"
  note net = quietD(7) [OF z conjunct1 [OF start_wrap_Ok [OF this]]]
  let ?n = "vmNameFromTaskID (tc_ID cfg)"
  show "outcomes (start_outcome doms env cfg) (iobind (start_wrap ''failed to start task'' cfg (z_CreateVM z dc))
      (\<lambda>_. iobind (after_create z networking cfg dc) (register_task env cfg)))"
    unfolding outcomes_def start_outcome_def
  proof (intro allI impI)
    fix s r s' assume run: "iobind (start_wrap ''failed to start task'' cfg (z_CreateVM z dc))
      (\<lambda>_. iobind (after_create z networking cfg dc) (register_task env cfg)) s = (r, s')"
    have bad: "start_rel env cfg r (fst s) (doms (snd s)) (fst s') (doms (snd s'))"
      if "start_wrap ''failed to start task'' cfg (z_CreateVM z dc) s = (q, s')" "failed q" "failed r" for q :: "unit res"
    proof -
      note runs = that
      obtain q' where "z_CreateVM z dc (snd s) = (q', snd s')" "fst s' = fst s" "failed q'"
        using runs(1,2) unfolding start_wrap_def by (cases rule: iowrap_cases) (auto dest: on_world_run)
      with createD [OF z this(1) xml] n runs(3) show ?thesis by (cases r) (auto simp: start_rel_def Let_def failed_def)
    qed
    from run show "start_rel env cfg r (fst s) (doms (snd s)) (fst s') (doms (snd s'))"
    proof (cases rule: iobind_cases)
      case (Ok u s1)
      have s1: "fst s1 = fst s" "doms (snd s) ?n = None" "doms (snd s1) = (doms (snd s))(?n \<mapsto> True)"
        using start_wrap_Ok [OF Ok(1)] createD [OF z _ xml, of "snd s" "Ok ()" "snd s1"] n by simp_all
      from Ok(2) show ?thesis
      proof (cases rule: iobind_cases)
        case (Ok resp s2)
        from after_create_result [OF z net Ok(1)] s1 have "fst s2 = fst s" "doms (snd s2) = (doms (snd s))(?n \<mapsto> True)" by simp_all
        with register_outcome [where doms = doms and d = "doms (snd s)", OF Ok(2) s1(2)] show ?thesis by simp
      next
        case (Fail e)
        with after_create_result [OF z net Fail(1)] s1 n obtain x where
          "fst s' = fst s" "doms (snd s') = (doms (snd s))(?n := x)" by auto
        then show ?thesis using s1(2) Fail(2) by (auto simp: start_rel_def Let_def)
      next
        case (Panic p)
        with after_create_result [OF z net Panic(1)] s1 n obtain x where
          "fst s' = fst s" "doms (snd s') = (doms (snd s))(?n := x)" by auto
        then show ?thesis using s1(2) Panic(2) by (auto simp: start_rel_def Let_def)
      qed
    next
      case (Fail e)
      show ?thesis by (rule bad [OF Fail(1)]) (simp_all add: Fail(2))
    next
      case (Panic p)
      show ?thesis by (rule bad [OF Panic(1)]) (simp_all add: Panic(2))
    qed
  qed
qed

lemma vm_config_of_simps [simp]:
  "vm_XMLConfig (vm_config_of env cfg dcfg) = []" "vm_Name (vm_config_of env cfg dcfg) = vmNameFromTaskID (tc_ID cfg)"
  by (simp_all add: vm_config_of_def Let_def zero_config_def)

lemma StartTask_result:
  assumes ps: "providers_laws doms (pl_providers (fst s))"
    and h: "host_steps (same doms) (e_host env)" and c: "iso_steps (same doms) (e_ci env)"
    and run: "StartTask env cfg s = (r, s')"
  shows "start_outcome doms env cfg r s s' \<and> (pl_tasks (fst s) (tc_ID cfg) \<noteq> None \<longrightarrow> failed r \<and> s' = s)"
proof (rule StartTask_by [OF settled_start _ _ _ run])
  note d = provide_default [OF ps [unfolded providers_laws_provide]]
  show "steps (same doms) (providers_Default (pl_providers (fst s)))" by (rule d(1))
  fix w z w' assume "providers_Default (pl_providers (fst s)) w = (Ok z, w')"
  then have z: "machine_laws doms z" by (rule d(2))
  then show "start_quiet doms env z" by (simp add: start_quiet_def h c quietD)
  fix dcfg show "machine_outcomes (start_outcome doms env cfg) env cfg dcfg z"
    unfolding machine_outcomes_def by (intro allI impI start_vm_outcome [OF z]) (simp_all add: task_vm_def)
qed

text \<open>
  What a recovery is given: the encoded driver state, in which the rules of the packet filter are a
  value of an interface type, so a decoder makes a list of lists of any of them.
\<close>

definition decoded_removal :: "FilterRemoval \<Rightarrow> FilterRemoval" where
  "decoded_removal rm = rm\<lparr>fr_Data := (case fr_Data rm of RulesData rules \<Rightarrow> OtherData ''[]interface {}'' | d \<Rightarrow> d)\<rparr>"

definition decoded_spec :: "TeardownSpec \<Rightarrow> TeardownSpec" where
  "decoded_spec t = t\<lparr>ts_FilterRemoval := map_option decoded_removal (ts_FilterRemoval t)\<rparr>"

definition decoded_state :: "DriverState \<Rightarrow> DriverState" where
  "decoded_state st = st\<lparr>dr_NetTeardown := map_option decoded_spec (dr_NetTeardown st)\<rparr>"

section \<open>A provider in memory\<close>

text \<open>
  A provider over the memory of \<open>LibvirtLife\<close>, whose network interfaces cannot be read when \<open>bad\<close> is
  set, and a task with one empty disk.
\<close>

definition toy_conn :: "'a memory_scheme conn" where
  "toy_conn = (mem_raw False)\<lparr>l_VolXML := (\<lambda>v. ret \<lparr>vx_Name = snd v, vx_Type = ''file'', vx_Capacity = Some 64,
     vx_Allocation = Some 64, vx_Format = Some ''raw'', vx_Backing = None\<rparr>)\<rparr>"

definition toy_pool :: "'a memory_scheme pool" where
  "toy_pool = \<lparr>p_kind = DirectoryPool, p_name = ''local'', p_l = toy_conn, p_custom = None\<rparr>"

definition toy_storage :: "'a memory_scheme storage" where
  "toy_storage = \<lparr>s_pools = [(''local'', toy_pool)], s_defaultPool = Some toy_pool, s_l = toy_conn\<rparr>"

definition webbed_response :: VMStartedBuildResponse where
  "webbed_response = empty_response\<lparr>bs_TeardownSpec := Some \<lparr>ts_FilterRemoval = Some \<lparr>fr_Name = ''iptables'',
     fr_Data = RulesData [[''nat'']]\<rparr>, ts_DHCPReservation = [], ts_Network = []\<rparr>\<rparr>"

definition toy_net :: "'a memory_scheme net" where
  "toy_net = \<lparr>nt_Fingerprint = ret, nt_VMStartedBuild = (\<lambda>r. ret webbed_response), nt_VMTerminatedTeardown = (\<lambda>r. ret ())\<rparr>"

definition toy_z :: "bool \<Rightarrow> 'a memory_scheme virtualizer" where
  "toy_z bad = \<lparr>
     z_CreateVM = (\<lambda>c w. case mem_doms w (vm_Name c) of Some _ \<Rightarrow> (Fail ErrDomainExists, w)
        | None \<Rightarrow> (Ok (), w\<lparr>mem_doms := (mem_doms w)(vm_Name c \<mapsto> True)\<rparr>)),
     z_StopVM = (\<lambda>n w. case mem_doms w n of None \<Rightarrow> (Fail ErrDomainNotFound, w)
        | Some _ \<Rightarrow> (Ok (), w\<lparr>mem_doms := (mem_doms w)(n \<mapsto> False)\<rparr>)),
     z_DestroyVM = (\<lambda>n w. case mem_doms w n of None \<Rightarrow> (Fail ErrDomainNotFound, w)
        | Some _ \<Rightarrow> (Ok (), w\<lparr>mem_doms := (mem_doms w)(n := None)\<rparr>)),
     z_GetVM = (\<lambda>n w. (case mem_doms w n of None \<Rightarrow> Fail ErrDomainNotFound
        | Some b \<Rightarrow> Ok (in_state (if b then VMStateRunning else VMStateShutdown)), w)),
     z_GetNetworkInterfaces = (\<lambda>n. if bad then throw (ErrNew ''no interfaces'') else ret []),
     z_UseCloudInit = False, z_Networking = ret toy_net, z_Fingerprint = ret Map.empty, z_Storage = toy_storage,
     z_GenerateMountCommands = (\<lambda>c m. ret ([], m))\<rparr>"

definition toy_providers :: "bool \<Rightarrow> 'a memory_scheme providers" where
  "toy_providers bad = \<lparr>ps_default = Some (ret (toy_z bad)), ps_dispensers = [(''libvirt'', ret (toy_z bad))]\<rparr>"

definition toy_host :: "'a memory_scheme Host.host" where
  "toy_host = \<lparr>h_Stat = (\<lambda>p. throw ErrNotFound), h_Getwd = ret ''/'', h_OpenRoot = (\<lambda>p. ret ()), h_RootStat = (\<lambda>d p. ret False),
     h_sha256 = (\<lambda>p. ret []), h_CreateTemp = (\<lambda>d p. ret d), h_Remove = (\<lambda>p. ret ()), h_RemoveAll = (\<lambda>p. ret ()),
     h_Open = (\<lambda>p. ret ()), h_OpenWrite = (\<lambda>p. ret ()), h_CopyTo = (\<lambda>a b. ret ()), h_MkdirAll = (\<lambda>p. ret ()),
     h_qemu = (\<lambda>a. ret []), h_json_str = (\<lambda>f s. Ok s), h_json_num = (\<lambda>f s. Ok 0)\<rparr>"

definition toy_iso :: "'a memory_scheme ciworld" where
  "toy_iso = \<lparr>w_template = (\<lambda>n c. Ok []), w_ReadFile = (\<lambda>p. ret []), w_RemoveAll = (\<lambda>p. ret ()), w_Create = (\<lambda>p. ret ()),
     w_CloseFile = (\<lambda>p. ret ()), w_MkdirTemp = ret [], w_IsoCreate = (\<lambda>p d. ret 0), w_IsoMkdir = (\<lambda>f p. ret ()),
     w_IsoPut = (\<lambda>f p s. ret ()), w_IsoFinalize = (\<lambda>f s. ret ())\<rparr>"

definition toy_disk :: Disk where
  "toy_disk = zero_disk\<lparr>d_Devname := ''vda'', d_Driver := ''qemu'', d_Kind := ''disk'', d_BusType := ''virtio'',
     d_Primary := True, d_Format := ''raw'', d_Size := dec 64\<rparr>"

definition toy_config :: VirtTaskConfig where
  "toy_config = \<lparr>vt_Hostname = ''vm'', vt_OS = None, vt_UserData = [], vt_Timezone = [], vt_CMDs = [],
     vt_DefaultUserSSHKey = [], vt_DefaultUserPassword = [], vt_Disks = [toy_disk], vt_NetworkInterfacesConfig = []\<rparr>"

definition toy_task :: TaskConfig where
  "toy_task = \<lparr>tc_ID = ''a/vm'', tc_Name = ''vm'', tc_AllocID = ''a'', tc_AllocDir = ''/a'', tc_TaskDir = ''/a/t'',
     tc_SharedAllocDir = ''/a/s'', tc_LocalDir = ''/a/l'', tc_SecretsDir = ''/a/x'', tc_Env = [], tc_Mounts = [],
     tc_Resources = Some \<lparr>res_Ports = None\<rparr>, tc_MemoryMB = 500, tc_CpusetCpus = ''0''\<rparr>"

definition toy_state :: DriverState where
  "toy_state = \<lparr>dr_TaskConfig = Some toy_task, dr_StartedAt = 7, dr_NetTeardown = bs_TeardownSpec webbed_response\<rparr>"

definition toy_plugin_config :: VirtConfig where
  "toy_plugin_config = \<lparr>vc_Provider = None, vc_ImagePaths = [], vc_StoragePools = Some \<lparr>sc_Default = [],
     sc_Directory = [(''local'', \<lparr>dir_Path = ''/p''\<rparr>)], sc_Ceph = []\<rparr>\<rparr>"

definition toy_env :: "'a memory_scheme env" where
  "toy_env = \<lparr>e_host = toy_host, e_ci = toy_iso, e_clock = (\<lambda>w. 7), e_decode = (\<lambda>c. Ok toy_config),
     e_decodeConfig = (\<lambda>s. Ok toy_plugin_config), e_cpus = (\<lambda>s. 1), e_AllocDirKey = [], e_TaskLocalDirKey = [],
     e_SecretsDirKey = [], e_encodeState = (\<lambda>st. if st = toy_state then Ok ''state'' else Fail ErrNotFound),
     e_decodeState = (\<lambda>s. Ok (decoded_state toy_state)),
     e_setup = (\<lambda>l s. ret (ret (toy_z False)))\<rparr>"

definition toy_plugin :: "bool \<Rightarrow> 'a memory_scheme plugin" where
  "toy_plugin bad = NewPlugin\<lparr>pl_providers := toy_providers bad\<rparr>"

lemma toy_machine: "machine_laws mem_doms (toy_z bad)"
proof -
  have "conn_steps (same mem_doms) toy_conn"
    by (simp add: conn_steps_def look_steps_def write_steps_def toy_conn_def mem_raw_def steps_def same_def ret_def throw_def)
  then have pool: "pool_frame (same mem_doms) toy_pool" by (simp add: pool_frame_def toy_pool_def)
  have "storage_frame (same mem_doms) toy_storage"
    using pool by (auto simp: storage_frame_def toy_storage_def GetPool_def DefaultPool_def split: if_splits)
  moreover have "life_contract mem_doms (toy_z bad)"
    by (auto simp: life_contract_def toy_z_def split: option.splits if_splits)
  ultimately show ?thesis
    by (auto simp: machine_laws_def quiet_contract_def toy_z_def toy_net_def steps_def same_def ret_def throw_def
        split: option.splits)
qed

lemma toy_laws: "providers_laws mem_doms (toy_providers bad)"
proof -
  have "dispenser_laws mem_doms (ret (toy_z bad))"
    using toy_machine [of bad] by (auto simp: dispenser_laws_def steps_def same_def ret_def)
  then show ?thesis by (simp add: providers_laws_def toy_providers_def)
qed

lemma toy_host_steps: "host_steps (same mem_doms) (e_host toy_env)" "iso_steps (same mem_doms) (e_ci toy_env)"
  by (simp_all add: toy_env_def toy_host_def toy_iso_def host_steps_def iso_steps_def steps_def same_def ret_def throw_def)

lemma toy_name: "vmNameFromTaskID (tc_ID toy_task) = ''vm''"
  by (simp add: toy_task_def vmNameFromTaskID_def)

text \<open>The volume of the disk, and the disks through preparation, validation and generation.\<close>

definition toy_volume :: volh where "toy_volume = (''local'', ''vm_vda.img'')"

lemma toy_Prepare: "Prepare toy_host toy_storage [toy_disk] w = (Ok [toy_disk], w)"
  by (simp add: Prepare_def with_deferred_def prepare_disk_def now_def source_format_def default_devname_def default_attrs_def
      toy_disk_def zero_disk_def Let_def io_simps IsNomadVolume_def disk_pool_def DefaultPool_def toy_storage_def
      default_disk_format_def prepare_source_def prepare_size_def mark_primary_def)

lemma toy_size: "ToBytes (dec 64) = Ok 64" "ValidBytesString (dec 64)"
proof -
  show "ToBytes (dec 64) = Ok 64" using ToBytes_dec [of 64] by simp
  then show "ValidBytesString (dec 64)" by (simp add: ValidBytesString_def)
qed

lemma toy_pools [simp]: "disk_pool toy_storage toy_disk = Ok toy_pool"
  by (simp add: disk_pool_def DefaultPool_def toy_storage_def toy_disk_def zero_disk_def)

lemma toy_Validate: "Validate toy_host toy_storage allowed [toy_disk] w = (Ok [toy_disk], w)" for w :: "'a memory_scheme"
proof -
  have parts: "check_image toy_host allowed pre toy_disk w = (Ok [], w)" "check_attrs pre toy_disk = [None, None, None]"
    "check_source toy_host toy_pool pre toy_disk w = (Ok [], w)" "\<not> IsNomadVolume toy_disk"
    "ValidateDisk toy_pool toy_disk = (None, toy_disk)" for pre and w :: "'a memory_scheme"
    by (simp_all add: check_image_def check_attrs_def missing_def check_source_def IsNomadVolume_def ValidateDisk_def
        directory_ValidateDisk_def toy_pool_def toy_disk_def zero_disk_def ret_def)
  have plain: "check_plain pre toy_disk = [None, None, None, None]" for pre
    using toy_size(2) by (simp add: check_plain_def missing_def toy_disk_def zero_disk_def)
  have "check_pool toy_host toy_storage pre toy_disk w = (Ok ([None], toy_disk), w)" for pre and w :: "'a memory_scheme"
    by (simp add: check_pool_def iobind_apply parts ret_def)
  then have "validate_disk toy_host toy_storage allowed 0 toy_disk w
      = (Ok ([None, None, None, None, None, None, None, None], toy_disk), w)"
    by (simp add: validate_disk_def Let_def iobind_apply parts plain ret_def)
  moreover have "primary_error [toy_disk] = None" by (simp add: primary_error_None toy_disk_def)
  ultimately show ?thesis by (simp add: Validate_def iobind_apply ret_def)
qed

lemma toy_refresh: "refreshPool toy_conn p w = (Ok (), w)"
  by (simp add: refreshPool_def refresh_loop.simps toy_conn_def mem_raw_def ret_def)

lemma toy_calls:
  "l_FindStoragePool toy_conn n = ret n" "l_Lookup toy_conn p n = (\<lambda>w. (if (p, n) \<in> mem_vols w then Ok (p, n) else Fail no_volume, w))"
  "l_CreateXML toy_conn p x = (\<lambda>w. (Ok (p, vx_Name x), w\<lparr>mem_vols := insert (p, vx_Name x) (mem_vols w)\<rparr>))"
  "l_Info toy_conn v = ret (0, 0)" "l_Resize toy_conn v k b = ret ()"
  "l_Delete toy_conn v = (\<lambda>w. (Ok (), w\<lparr>mem_vols := mem_vols w - {v}\<rparr>))"
  "l_VolXML toy_conn v = ret \<lparr>vx_Name = snd v, vx_Type = ''file'', vx_Capacity = Some 64,
     vx_Allocation = Some 64, vx_Format = Some ''raw'', vx_Backing = None\<rparr>"
  by (simp_all add: toy_conn_def mem_raw_def)

lemma toy_pool_sel: "p_l toy_pool = toy_conn" "p_name toy_pool = ''local''" "p_kind toy_pool = DirectoryPool" "p_custom toy_pool = None"
  by (simp_all add: toy_pool_def)

lemma toy_lookup:
  "findRawVolume toy_conn p n w = (if (p, n) \<in> mem_vols w then (Ok (p, n), w) else (Fail ErrVolumeNotFound, w))"
  by (simp add: findRawVolume_def toy_calls iotry_apply ret_def throw_def no_volume_def)

definition with_volume :: "string \<Rightarrow> 'a memory_scheme \<Rightarrow> 'a memory_scheme" where
  "with_volume n w = w\<lparr>mem_vols := insert (''local'', n) (mem_vols w)\<rparr>"

lemma toy_Add:
  assumes "(''local'', n) \<notin> mem_vols w" and "so_Volume (op_Source opts) = []" "so_Path (op_Source opts) = []"
    "\<not> op_Chained opts" "op_Size opts = 64"
  shows "\<exists>v. v_Name v = n \<and> (v_Pool v = ''local'' \<and> v_Block v = []) \<and> AddVolume toy_pool n opts w = (Ok v, with_volume n w)"
proof -
  have no: "findVolume toy_conn ''local'' n w = (Fail ErrVolumeNotFound, w)"
    using assms(1) by (simp add: findVolume_def iobind_apply toy_lookup)
  have o': "so_Volume (op_Source (default_format opts)) = []" "so_Path (op_Source (default_format opts)) = []"
    "\<not> op_Chained (default_format opts)" "op_Size (default_format opts) = 64"
    using assms by (simp_all add: default_format_def)
  let ?v = "volume_of n ''local'' \<lparr>vx_Name = n, vx_Type = ''file'', vx_Capacity = Some 64, vx_Allocation = Some 64,
    vx_Format = Some ''raw'', vx_Backing = None\<rparr>"
  have "build_volume toy_pool ''local'' n (default_format opts) w = (Ok ?v, with_volume n w)"
    by (simp add: build_volume_def toy_pool_sel load_source_def chain_to_def create_volume_def resize_fn_def defaultResizer_def
        o' iobind_apply toy_calls ret_def new_volume_def with_volume_def)
  then have "AddVolume toy_pool n opts w = (Ok ?v, with_volume n w)"
    by (simp add: AddVolume_def pool_AddVolume_def Let_def toy_pool_sel toy_calls toy_refresh no iobind_apply iotry_apply ret_def)
  moreover have "v_Name ?v = n" "v_Pool ?v = ''local'' \<and> v_Block ?v = []" by (simp_all add: volume_of_def empty_volume_def)
  ultimately show ?thesis by blast
qed

lemma toy_Generate:
  assumes "toy_volume \<notin> mem_vols w"
  shows "\<exists>d v. Generate toy_host ''vm'' toy_storage [toy_disk] w = (Ok [d], with_volume ''vm_vda.img'' w)
    \<and> d_Volume d = Some v \<and> v_Name v = ''vm_vda.img'' \<and> v_Pool v = ''local'' \<and> v_Block v = []"
proof -
  let ?d = "toy_disk\<lparr>d_Sparse := Some False\<rparr>"
  have d: "default_disk_format toy_pool toy_disk = toy_disk" "d_Sparse toy_disk = None" "\<not> IsNomadVolume toy_disk"
    "volume_name ''vm'' ?d = ''vm_vda.img''"
    by (simp_all add: default_disk_format_def toy_disk_def zero_disk_def IsNomadVolume_def volume_name_def)
  have "MustToBytes (dec 64) = Ok 64" by (simp add: MustToBytes_def toy_size)
  then obtain opts where o': "disk_options ?d = Ok opts" "so_Volume (op_Source opts) = []" "so_Path (op_Source opts) = []"
    "\<not> op_Chained opts" "op_Size opts = 64"
    by (simp add: disk_options_def toy_disk_def zero_disk_def)
  from toy_Add [OF assms [unfolded toy_volume_def] o'(2-5)] obtain v where
    v: "v_Name v = ''vm_vda.img''" "v_Pool v = ''local'' \<and> v_Block v = []" "AddVolume toy_pool ''vm_vda.img'' opts w = (Ok v, with_volume ''vm_vda.img'' w)"
    by blast
  have "Generate toy_host ''vm'' toy_storage [toy_disk] w
      = (Ok [?d\<lparr>d_Volume := Some (fill_volume ?d v)\<rparr>], with_volume ''vm_vda.img'' w)"
    by (simp add: generate_disk_def d o'(1) v(3) iobind_apply lift_def ret_def Let_def)
  with v show ?thesis by (simp add: fill_volume_def)
qed

lemma toy_cleanup:
  fixes w :: "'a memory_scheme"
  assumes "v_Name v = n" and "v_Pool v = ''local''"
  shows "volumeCleanup toy_storage [v] w = (Ok (), w\<lparr>mem_vols := mem_vols w - {(''local'', n)}\<rparr>)"
proof -
  have "DeleteVolume toy_pool n w = (Ok (), w\<lparr>mem_vols := mem_vols w - {(''local'', n)}\<rparr>)"
    by (simp add: DeleteVolume_def Let_def toy_pool_sel toy_calls toy_refresh toy_lookup iobind_apply iotry_apply ret_def)
  moreover have "GetPool (toy_storage :: 'a memory_scheme storage) ''local'' = Ok toy_pool"
    by (simp add: GetPool_def toy_storage_def)
  ultimately show ?thesis using assms by (simp add: iotry_apply lift_def ret_def)
qed

text \<open>A start whose interfaces cannot be read, and one that succeeds.\<close>

definition toy_dc :: VMConfig where
  "toy_dc = vm_config_of (toy_env :: memory env) toy_task toy_config"

lemma toy_dc: "vm_config_of toy_env toy_task toy_config = toy_dc"
  by (simp add: toy_dc_def vm_config_of_def toy_env_def)

lemma toy_dc_simps: "vm_Name toy_dc = ''vm''" "vm_XMLConfig toy_dc = []"
  by (simp_all add: toy_dc_def toy_name)

lemma toy_VM_Validate: "VM_Validate toy_dc = (toy_dc, None)"
proof -
  have f: "vm_Name toy_dc = ''vm''" "vm_Memory toy_dc = 500" "vm_OsVariant toy_dc = None" "vm_CPUs toy_dc = 1"
    "vm_HostName toy_dc = ''vm''" "vm_NetworkInterfaces toy_dc = []"
    using toy_name by (simp_all add: toy_dc_def vm_config_of_def Let_def zero_config_def toy_task_def toy_config_def toy_env_def task_hostname_def)
  have "IsValidLabel ''vm''" by (simp add: IsValidLabel_def validLabel_def is_alnum_def Let_def)
  then show ?thesis by (simp add: VM_Validate_def Interfaces_Validate_def f minMemoryMB_def)
qed

lemma toy_sel:
  "z_Storage (toy_z b) = toy_storage" "z_UseCloudInit (toy_z b) = False" "z_Networking (toy_z b) = ret toy_net"
  "z_GenerateMountCommands (toy_z b) = (\<lambda>c m. ret ([], m))"
  "z_GetNetworkInterfaces (toy_z b) = (\<lambda>n. if b then throw (ErrNew ''no interfaces'') else ret [])"
  "z_CreateVM (toy_z b) = (\<lambda>c w. case mem_doms w (vm_Name c) of Some _ \<Rightarrow> (Fail ErrDomainExists, w)
        | None \<Rightarrow> (Ok (), w\<lparr>mem_doms := (mem_doms w)(vm_Name c \<mapsto> True)\<rparr>))"
  by (simp_all add: toy_z_def)

definition started :: "'a memory_scheme \<Rightarrow> 'a memory_scheme" where
  "started w = w\<lparr>mem_doms := (mem_doms w)(''vm'' \<mapsto> True)\<rparr>"

lemma toy_start_vm:
  assumes "mem_doms w ''vm'' = None" and "vm_Name dc = ''vm''"
  shows "\<exists>e. start_vm (toy_z True) toy_task dc (p, w) = (Fail e, (p, started w))"
    and "start_vm (toy_z False) toy_task dc (p, w) = (Ok webbed_response, (p, started w))"
proof -
  have create: "z_CreateVM (toy_z b) dc w = (Ok (), started w)" for b using assms by (simp add: toy_sel started_def)
  note run = start_vm_def start_wrap_def on_world_def iobind_apply iotry_apply iowrap_def ret_def throw_def
  show "\<exists>e. start_vm (toy_z True) toy_task dc (p, w) = (Fail e, (p, started w))"
    by (simp add: run create toy_sel(3,5))
  show "start_vm (toy_z False) toy_task dc (p, w) = (Ok webbed_response, (p, started w))"
    by (simp add: run create toy_sel(3,5) toy_net_def)
qed

lemma toy_start_disks:
  fixes w :: "'a memory_scheme"
  assumes "mem_doms w ''vm'' = None" and "toy_volume \<notin> mem_vols w" and dc: "vm_Name dc = ''vm''"
  shows "\<exists>e. start_disks toy_env (toy_z True) toy_task dc allowed [toy_disk] (p, w) = (Fail e, (p, started w))"
    and "\<exists>nh p'. start_disks toy_env (toy_z False) toy_task dc allowed [toy_disk] (p, w)
      = (Ok nh, (p', started (with_volume ''vm_vda.img'' w)))"
proof -
  obtain d v where gen: "Generate toy_host ''vm'' toy_storage [toy_disk] w = (Ok [d], with_volume ''vm_vda.img'' w)"
    and v: "d_Volume d = Some v" "v_Name v = ''vm_vda.img''" "v_Pool v = ''local''"
    using toy_Generate [OF assms(2)] by blast
  let ?w = "with_volume ''vm_vda.img'' w" and ?dc = "dc\<lparr>vm_Volumes := [v]\<rparr>"
  have free: "mem_doms ?w ''vm'' = None" "vm_Name ?dc = ''vm''" using assms(1) dc by (simp_all add: with_volume_def)
  have vols: "Volumes [d] = [v]" using v by (simp add: Volumes_def map_filter_def)
  have clean: "volumeCleanup toy_storage [v] (started ?w) = (Ok (), started w)"
    using toy_cleanup [OF v(2,3), of "started ?w"] assms(2) by (simp add: started_def with_volume_def toy_volume_def)
  note run = start_disks_def start_wrap_def on_world_def iobind_apply iotry_apply iowrap_def ret_def throw_def Let_def
    cleanup_on_error_def toy_sel(1) toy_Prepare toy_Validate gen vols dc
  have h: "e_host (toy_env :: 'a memory_scheme env) = toy_host" by (simp add: toy_env_def)
  obtain e where bad: "start_vm (toy_z True) toy_task ?dc (p, ?w) = (Fail e, (p, started ?w))"
    using toy_start_vm(1) [OF free] by blast
  show "\<exists>e. start_disks toy_env (toy_z True) toy_task dc allowed [toy_disk] (p, w) = (Fail e, (p, started w))"
    by (simp add: run h bad clean del: Generate.simps volumeCleanup.simps)
  have good: "start_vm (toy_z False) toy_task ?dc (p, ?w) = (Ok webbed_response, (p, started ?w))"
    using toy_start_vm(2) [OF free] .
  have "\<exists>nh p'. register_task toy_env toy_task webbed_response (p, started ?w) = (Ok nh, (p', started ?w))"
    by (simp add: register_task_def Let_def new_handle_def toy_env_def toy_state_def)
  then obtain nh p' where "register_task toy_env toy_task webbed_response (p, started ?w) = (Ok nh, (p', started ?w))" by blast
  then show "\<exists>nh p'. start_disks toy_env (toy_z False) toy_task dc allowed [toy_disk] (p, w)
      = (Ok nh, (p', started (with_volume ''vm_vda.img'' w)))"
    by (simp add: run h good del: Generate.simps volumeCleanup.simps)
qed

lemma toy_StartTask:
  fixes p :: "'a memory_scheme plugin"
  assumes "pl_tasks p ''a/vm'' = None" and "pl_providers p = toy_providers b"
  shows "StartTask toy_env toy_task (p, w) = start_disks toy_env (toy_z b) toy_task
      (toy_dc\<lparr>vm_Mounts := createAllocFileMounts (toy_env :: 'a memory_scheme env) toy_task, vm_BOOTCMDs := []\<rparr>)
      (vc_ImagePaths (pl_config p) @ [''/a'']) [toy_disk] (p, w)"
proof -
  have t: "tc_ID toy_task = ''a/vm''" "tc_Resources toy_task = Some \<lparr>res_Ports = None\<rparr>" "tc_Mounts toy_task = []" "tc_AllocDir toy_task = ''/a''"
    by (simp_all add: toy_task_def)
  have e: "e_decode (toy_env :: 'a memory_scheme env) toy_task = Ok toy_config" "e_host (toy_env :: 'a memory_scheme env) = toy_host" "vt_Disks toy_config = [toy_disk]"
    by (simp_all add: toy_env_def toy_config_def)
  have mounts: "ApplyMounts [toy_disk] [] = ([toy_disk], [])"
    by (simp add: ApplyMounts_def device_mounts_def apply_mount_def used_mounts_def Let_def)
  have res: "ResolveImages toy_host dirs [toy_disk] w = (Ok [toy_disk], w)" for dirs and w :: "'a memory_scheme"
    by (simp add: resolve_disk_def toy_disk_def zero_disk_def iobind_apply ret_def)
  have "start_with toy_env p toy_task toy_config (toy_z b) (p, w) = start_disks toy_env (toy_z b) toy_task
      (toy_dc\<lparr>vm_Mounts := createAllocFileMounts (toy_env :: 'a memory_scheme env) toy_task, vm_BOOTCMDs := []\<rparr>)
      (vc_ImagePaths (pl_config p) @ [''/a'']) [toy_disk] (p, w)"
    by (simp add: start_with_def toy_dc toy_VM_Validate Let_def e t mounts start_wrap_def on_world_def
        iobind_apply iotry_apply iowrap_def ret_def toy_sel(2,4) res with_cloudinit_def del: ResolveImages.simps)
  then show ?thesis using assms t
    by (simp add: StartTask_def get_plugin_def ts_Get_def e start_wrap_def on_world_def iobind_apply iotry_apply iowrap_def ret_def
        providers_Default_def toy_providers_def)
qed

section \<open>Properties\<close>

text \<open>
  C12. How starting a task ends, on any provider that keeps the contract of a virtualizer. No machine
  but the task's is concerned. It succeeds only for a task that is not in the store and whose machine
  is not there; then the machine runs and the store has a new running handle for it, with the state
  that was encoded for Nomad. A failure leaves the store as it was unless the state could not be
  encoded, and changes no machine when the task's machine was there before. It can leave the new
  machine running although its volumes were deleted: when its network interfaces cannot be read (the
  witness is such a run).
\<close>

theorem StartTask_outcomes:
  assumes "providers_laws doms (pl_providers p)" and "host_steps (same doms) (e_host env)"
    and "iso_steps (same doms) (e_ci env)" and "StartTask env cfg (p, w) = (r, (p', w'))"
    and "n = vmNameFromTaskID (tc_ID cfg)"
  shows "(\<forall>m. m \<noteq> n \<longrightarrow> doms w' m = doms w m)
    \<and> (case r of
        Ok nh \<Rightarrow> pl_tasks p (tc_ID cfg) = None \<and> doms w n = None \<and> doms w' n = Some True
          \<and> (\<exists>h. fresh_handle cfg h \<and> p' = put_handle (tc_ID cfg) h p \<and> nh_Config nh = cfg
            \<and> e_encodeState env (driver_state h) = Ok (nh_State nh))
      | _ \<Rightarrow> (doms w n \<noteq> None \<longrightarrow> doms w' = doms w \<and> p' = p)
          \<and> (p' = p \<or> (\<exists>h. fresh_handle cfg h \<and> failed (e_encodeState env (driver_state h))
            \<and> p' \<in> {put_handle (tc_ID cfg) h p, cancel_handle (pl_next p) (put_handle (tc_ID cfg) h p)})))"
proof -
  from StartTask_result [OF _ assms(2-4)] assms(1)
  have "start_rel env cfg r p (doms w) p' (doms w')" "pl_tasks p (tc_ID cfg) \<noteq> None \<longrightarrow> failed r"
    by (simp_all add: start_outcome_def)
  with assms(5) show ?thesis by (cases r) (auto simp: start_rel_def Let_def)
qed

theorem StartTask_outcomes_witness:
  "(\<exists>e w'. StartTask toy_env toy_task (toy_plugin True, empty_memory) = (Fail e, (toy_plugin True, w'))
      \<and> mem_doms w' ''vm'' = Some True \<and> mem_vols w' = {})
    \<and> (\<exists>nh p' w'. StartTask toy_env toy_task (toy_plugin False, empty_memory) = (Ok nh, (p', w'))
      \<and> mem_doms w' ''vm'' = Some True \<and> pl_tasks p' ''a/vm'' = Some 0)"
proof -
  have pl: "pl_tasks (toy_plugin b) ''a/vm'' = None" "pl_providers (toy_plugin b) = toy_providers b" "pl_next (toy_plugin b) = 0" for b
    by (simp_all add: toy_plugin_def NewPlugin_def newTaskStore_def)
  have w: "mem_doms empty_memory ''vm'' = None" "toy_volume \<notin> mem_vols empty_memory" by (simp_all add: empty_memory_def)
  note disks = toy_start_disks [OF w]
  obtain e where bad: "StartTask toy_env toy_task (toy_plugin True, empty_memory) = (Fail e, (toy_plugin True, started empty_memory))"
    unfolding toy_StartTask [OF pl(1,2)] using disks(1) toy_dc_simps(1) by fastforce
  obtain nh p' where good: "StartTask toy_env toy_task (toy_plugin False, empty_memory)
      = (Ok nh, (p', started (with_volume ''vm_vda.img'' empty_memory)))"
    unfolding toy_StartTask [OF pl(1,2)] using disks(2) toy_dc_simps(1) by fastforce
  have laws: "providers_laws mem_doms (pl_providers (toy_plugin b))" for b by (simp add: pl toy_laws)
  from StartTask_outcomes [OF laws toy_host_steps good toy_name [symmetric]]
  have "pl_tasks p' ''a/vm'' = Some 0" by (auto simp: put_handle_def ts_Set_def pl toy_task_def)
  moreover have "mem_doms (started w) ''vm'' = Some True" "mem_vols (started empty_memory) = {}" for w
    by (simp_all add: started_def empty_memory_def)
  ultimately show ?thesis using bad good by blast
qed

end
