(* ===== verification/DriverTasks.thy ===== *)
theory DriverTasks
  imports DriverLife
begin

text \<open>
  The tasks of the driver over time: destroying and recovering a task, and what holds of the store of
  the handles in every state the driver can reach. The operations are atomic here; between them the
  world may change in any way.
\<close>

section \<open>The provider of a machine\<close>

lemma steps_bind_result:
  assumes R: "preorder R" and m: "steps R m" and k: "\<And>s x s'. m s = (Ok x, s') \<Longrightarrow> steps R (k x)"
  shows "steps R (iobind m k)"
  unfolding steps_def
proof (intro allI impI)
  fix s r s' assume "iobind m k s = (r, s')"
  then show "R s s'"
  proof (cases rule: iobind_cases)
    case (Ok x s1)
    from stepsD [OF m Ok(1)] stepsD [OF k [OF Ok(1)] Ok(2)] R show ?thesis unfolding preorder_def by blast
  qed (auto intro: stepsD [OF m])
qed

lemma find_vm_steps:
  assumes P: "\<And>z. P z \<Longrightarrow> steps (same obs) (z_GetVM z name)"
  shows "list_all (\<lambda>(n, d). dispenses obs P d) ds \<Longrightarrow> steps (same obs) (find_vm name ds)"
proof (induction ds)
  case Nil
  then show ?case by (simp add: steps_throw)
next
  case (Cons x ds)
  obtain n d where x: "x = (n, d)" by fastforce
  from Cons.prems x have d: "dispenses obs P d" and IH: "steps (same obs) (find_vm name ds)"
    using Cons.IH by simp_all
  have "steps (same obs) (iotry (z_GetVM z name) (\<lambda>info. ret (z, info))
       (\<lambda>e. if \<not> is_err ErrNotFound e then throw e else find_vm name ds))" if "P z" for z
    by (intro steps_intros preorder_same P [OF that] IH)
  with d show ?case unfolding x find_vm.simps dispenses_def by (intro steps_bind_result preorder_same) blast+
qed

lemma find_vm_found:
  assumes P: "\<And>z. P z \<Longrightarrow> steps (same obs) (z_GetVM z name)"
  shows "list_all (\<lambda>(n, d). dispenses obs P d) ds \<Longrightarrow> find_vm name ds w = (Ok (z, info), w') \<Longrightarrow>
    P z \<and> obs w' = obs w \<and> (\<exists>w1. obs w1 = obs w \<and> z_GetVM z name w1 = (Ok info, w'))"
proof (induction ds arbitrary: w)
  case Nil
  then show ?case by (simp add: throw_def)
next
  case (Cons x ds)
  obtain n d where x: "x = (n, d)" by fastforce
  from Cons.prems x have d: "dispenses obs P d" and ds: "list_all (\<lambda>(n, d). dispenses obs P d) ds" by simp_all
  from Cons.prems(2) x obtain z1 w1 where disp: "d w = (Ok z1, w1)"
    and rest: "iotry (z_GetVM z1 name) (\<lambda>info. ret (z1, info))
       (\<lambda>e. if \<not> is_err ErrNotFound e then throw e else find_vm name ds) w1 = (Ok (z, info), w')"
    by (auto simp: iobind_Ok)
  from d disp have z1: "P z1" and w1: "obs w1 = obs w" unfolding dispenses_def steps_def same_def by blast+
  from rest show ?case
  proof (cases rule: iotry_cases)
    case (Ok i w2)
    with stepsD [OF P [OF z1] Ok(1)] z1 w1 show ?thesis by (auto simp: ret_def same_def)
  next
    case (Fail e w2)
    then have "find_vm name ds w2 = (Ok (z, info), w')" by (auto simp: throw_def split: if_splits)
    from Cons.IH [OF ds this] stepsD [OF P [OF z1] Fail(1)] w1 show ?thesis by (auto simp: same_def)
  qed simp
qed

lemma GetProviderForVM_gives:
  assumes ps: "provide obs P ps" and P: "\<And>z. P z \<Longrightarrow> steps (same obs) (z_GetVM z n)"
  shows "steps (same obs) (GetProviderForVM ps n)"
    "GetProviderForVM ps n w = (Ok z, w') \<Longrightarrow> P z \<and> obs w' = obs w
      \<and> (\<exists>w1 info. obs w1 = obs w \<and> z_GetVM z n w1 = (Ok info, w'))"
proof -
  have ds: "list_all (\<lambda>(n, d). dispenses obs P d) (ps_dispensers ps)" using ps by (simp add: provide_def)
  show "steps (same obs) (GetProviderForVM ps n)"
    unfolding GetProviderForVM_def split_beta by (intro steps_intros preorder_same find_vm_steps [OF P ds])
  show "P z \<and> obs w' = obs w \<and> (\<exists>w1 info. obs w1 = obs w \<and> z_GetVM z n w1 = (Ok info, w'))"
    if "GetProviderForVM ps n w = (Ok z, w')"
    using that find_vm_found [OF P ds, of w z _ w'] unfolding GetProviderForVM_def by (fastforce simp: iobind_Ok ret_def)
qed

lemma GetProviderForVM_result:
  assumes "providers_laws doms ps"
  shows "steps (same doms) (GetProviderForVM ps n)"
    "GetProviderForVM ps n w = (Ok z, w') \<Longrightarrow> machine_laws doms z \<and> doms w n \<noteq> None \<and> doms w' = doms w"
proof -
  note given = GetProviderForVM_gives [OF assms [unfolded providers_laws_provide]]
  show "steps (same doms) (GetProviderForVM ps n)" by (rule given(1) [OF quietD(1)])
  assume "GetProviderForVM ps n w = (Ok z, w')"
  then have "machine_laws doms z \<and> doms w' = doms w \<and> (\<exists>w1 info. doms w1 = doms w \<and> z_GetVM z n w1 = (Ok info, w'))"
    by (rule given(2) [OF quietD(1), rotated])
  with quietD(2) show "machine_laws doms z \<and> doms w n \<noteq> None \<and> doms w' = doms w" by metis
qed

section \<open>The store over time\<close>

text \<open>An id with a slash is not the name of a machine, so no deletion concerns it.\<close>

lemma join_no_sep: "c \<notin> set sep \<Longrightarrow> (\<And>p. p \<in> set ps \<Longrightarrow> c \<notin> set p) \<Longrightarrow> c \<notin> set (join sep ps)"
proof (induction ps)
  case (Cons p ps)
  then show ?case by (cases ps) auto
qed simp

lemma vmName_no_slash: "CHR ''/'' \<notin> set (vmNameFromTaskID i)"
  unfolding vmNameFromTaskID_def
proof (rule join_no_sep)
  fix p assume "p \<in> set (tl (split_on CHR ''/'' i))"
  then have "p \<in> set (split_on CHR ''/'' i)" by (meson list.set_sel(2) split_on_nonempty)
  then show "CHR ''/'' \<notin> set p" by (rule split_on_no_sep)
qed simp

text \<open>What an operation may do to the plugin.\<close>

definition adds_task :: "string \<Rightarrow> 'w plugin \<Rightarrow> 'w plugin \<Rightarrow> bool" where
  "adds_task i p p' \<longleftrightarrow> p' = p \<or> pl_tasks p i = None \<and> (\<exists>h. th_name h = vmNameFromTaskID i
     \<and> p' \<in> {put_handle i h p, cancel_handle (pl_next p) (put_handle i h p)})"

definition registers ::
  "'w env \<Rightarrow> TaskConfig \<Rightarrow> NomadHandle res \<Rightarrow> 'w plugin \<times> 'w \<Rightarrow> 'w plugin \<times> 'w \<Rightarrow> bool" where
  "registers env cfg r s s' \<longleftrightarrow> (case r of
     Ok nh \<Rightarrow> \<exists>h. fresh_handle cfg h \<and> fst s' = put_handle (tc_ID cfg) h (fst s) \<and> nh_Config nh = cfg
       \<and> e_encodeState env (driver_state h) = Ok (nh_State nh)
   | _ \<Rightarrow> fst s' = fst s \<or> (\<exists>h. fresh_handle cfg h
       \<and> fst s' \<in> {put_handle (tc_ID cfg) h (fst s), cancel_handle (pl_next (fst s)) (put_handle (tc_ID cfg) h (fst s))}))"

abbreviation nothing :: "'w \<Rightarrow> unit" where
  "nothing \<equiv> \<lambda>_. ()"

lemma settled_registers: "settled (quiet nothing) (registers env cfg)"
  by (auto simp: settled_def registers_def quiet_def failed_def split: res.splits)

lemma steps_nothing: "steps (same nothing) m"
  by (simp add: steps_def same_def)

lemma start_quiet_nothing: "start_quiet nothing env z"
  by (simp add: start_quiet_def host_steps_def iso_steps_def storage_frame_def pool_frame_def conn_steps_def look_steps_def
      write_steps_def steps_nothing) (simp add: same_def)

lemma start_vm_quiet: "steps (quiet nothing) (start_vm z cfg dc)"
  unfolding start_vm_def Let_def by (intro steps_intros preorder_quiet quiet_world quiet_wrap steps_nothing)

lemma register_registers: "outcomes (registers env cfg) (register_task env cfg resp)"
  unfolding outcomes_def
proof (intro allI impI)
  fix s r s' assume run: "register_task env cfg resp s = (r, s')"
  obtain p w where p: "s = (p, w)" by fastforce
  let ?h = "new_handle env cfg w (bs_TeardownSpec resp)"
  have "fresh_handle cfg ?h" by (simp add: fresh_handle_def new_handle_def)
  moreover have "driver_state ?h = \<lparr>dr_TaskConfig = Some cfg, dr_StartedAt = th_startedAt ?h, dr_NetTeardown = th_netTeardown ?h\<rparr>"
    by (simp add: driver_state_def new_handle_def)
  ultimately show "registers env cfg r s s'"
    using run unfolding p register_task_def Let_def prod.case
    by (auto simp: registers_def split: res.splits)
qed

lemma StartTask_adds:
  assumes run: "StartTask env cfg s = (r, s')"
  shows "adds_task (tc_ID cfg) (fst s) (fst s')" "failed r \<or> registers env cfg r s s'"
proof -
  have "registers env cfg r s s' \<and> (pl_tasks (fst s) (tc_ID cfg) \<noteq> None \<longrightarrow> failed r \<and> s' = s)"
    by (rule StartTask_by [OF settled_registers steps_nothing start_quiet_nothing _ run])
      (simp add: machine_outcomes_def outcomes_bind [OF settled_registers start_vm_quiet register_registers])
  then show "adds_task (tc_ID cfg) (fst s) (fst s')" "failed r \<or> registers env cfg r s s'"
    by (auto simp: adds_task_def registers_def fresh_handle_def split: res.splits)
qed

section \<open>Destroying a task\<close>

text \<open>The calls of a destruction that succeeds.\<close>

lemma DestroyTask_runs:
  assumes i: "pl_tasks (fst s) i = Some h" and run: "DestroyTask i force s = (Ok (), s')"
  shows "\<exists>z w1 net w2 w3. GetProviderForVM (pl_providers (fst s)) (vmNameFromTaskID i) (snd s) = (Ok z, w1)
    \<and> z_Networking z w1 = (Ok net, w2) \<and> z_DestroyVM z (vmNameFromTaskID i) w2 = (Ok (), w3)
    \<and> nt_VMTerminatedTeardown net (Some (th_netTeardown (pl_heap (fst s) h))) w3 = (Ok (), snd s')"
proof -
  let ?n = "vmNameFromTaskID i"
  from run i obtain z s1 net s2 s3 s4 where
    "on_world (GetProviderForVM (pl_providers (fst s)) ?n) (cancel_handle h (fst s), snd s) = (Ok z, s1)"
    and "on_world (z_Networking z) s1 = (Ok net, s2)" and "on_world (z_DestroyVM z ?n) s2 = (Ok (), s3)"
    and "on_world (nt_VMTerminatedTeardown net (Some (th_netTeardown (pl_heap (fst s) h)))) s3 = (Ok (), s4)"
    and "mod_plugin (\<lambda>p. p\<lparr>pl_tasks := ts_Delete ?n (pl_tasks p)\<rparr>) s4 = (Ok (), s')"
    unfolding DestroyTask_def get_run
    by (cases s) (auto simp: ts_Get_def iobind_Ok mod_plugin_def throw_def Let_def split: if_splits)
  then have "GetProviderForVM (pl_providers (fst s)) ?n (snd s) = (Ok z, snd s1)"
    "z_Networking z (snd s1) = (Ok net, snd s2)" "z_DestroyVM z ?n (snd s2) = (Ok (), snd s3)"
    "nt_VMTerminatedTeardown net (Some (th_netTeardown (pl_heap (fst s) h))) (snd s3) = (Ok (), snd s')"
    by (auto dest!: on_world_run simp: mod_plugin_def split: prod.splits)
  then show ?thesis by blast
qed

text \<open>How the calls on the provider end, and the deletion after them.\<close>

definition destroyed ::
  "('w \<Rightarrow> domains) \<Rightarrow> string \<Rightarrow> unit res \<Rightarrow> 'w plugin \<times> 'w \<Rightarrow> 'w plugin \<times> 'w \<Rightarrow> bool" where
  "destroyed doms n r s s' \<longleftrightarrow> (\<forall>m. m \<noteq> n \<longrightarrow> doms (snd s') m = doms (snd s) m)
     \<and> (if failed r then fst s' = fst s
        else doms (snd s) n \<noteq> None \<and> doms (snd s') n = None
          \<and> fst s' = (fst s)\<lparr>pl_tasks := ts_Delete n (pl_tasks (fst s))\<rparr>)"

lemma settled_destroyed: "settled (quiet doms) (destroyed doms n)"
  by (simp add: settled_def destroyed_def quiet_def)

lemma destroy_call:
  assumes z: "machine_laws doms z" and net: "\<And>q. steps (same doms) (nt_VMTerminatedTeardown network q)"
  shows "outcomes (destroyed doms n) (iobind (iowrap pre [] (on_world (z_DestroyVM z n))) (\<lambda>_.
     iobind (iowrap pre' [] (on_world (nt_VMTerminatedTeardown network req))) (\<lambda>_.
     mod_plugin (\<lambda>p. p\<lparr>pl_tasks := ts_Delete n (pl_tasks p)\<rparr>))))"
  unfolding outcomes_def
proof (intro allI impI)
  fix s r s' assume "iobind (iowrap pre [] (on_world (z_DestroyVM z n))) (\<lambda>_.
     iobind (iowrap pre' [] (on_world (nt_VMTerminatedTeardown network req))) (\<lambda>_.
     mod_plugin (\<lambda>p. p\<lparr>pl_tasks := ts_Delete n (pl_tasks p)\<rparr>))) s = (r, s')"
  then show "destroyed doms n r s s'"
  proof (cases rule: iobind_cases)
    case (Ok u s1)
    then have w: "z_DestroyVM z n (snd s) = (Ok u, snd s1)" and p: "fst s1 = fst s" by (auto dest: on_world_run)
    note s1 = destroyD [OF z w]
    have t: "steps (quiet doms) (iowrap pre' [] (on_world (nt_VMTerminatedTeardown network req)))"
      by (intro steps_wrap preorder_quiet quiet_world net)
    from Ok(2) show ?thesis
    proof (cases rule: iobind_cases)
      case (Ok v s2)
      with stepsD [OF t Ok(1)] s1 p show ?thesis
        by (auto simp: destroyed_def quiet_def mod_plugin_def split: prod.splits)
    qed (use stepsD [OF t] s1 p in \<open>auto simp: destroyed_def quiet_def\<close>)
  next
    case (Fail e)
    from Fail(1) obtain q where "on_world (z_DestroyVM z n) s = (q, s')" by (cases rule: iowrap_cases) auto
    with destroyD(1) [OF z] Fail(2) show ?thesis by (auto simp: destroyed_def dest!: on_world_run)
  next
    case (Panic x)
    from Panic(1) obtain q where "on_world (z_DestroyVM z n) s = (q, s')" by (cases rule: iowrap_cases) auto
    with destroyD(1) [OF z] Panic(2) show ?thesis by (auto simp: destroyed_def dest!: on_world_run)
  qed
qed

lemma provider_wrapped:
  assumes "providers_laws doms ps"
  shows "steps (quiet doms) (iowrap pre [] (on_world (GetProviderForVM ps n)))"
    and "iowrap pre [] (on_world (GetProviderForVM ps n)) s = (Ok z, s') \<Longrightarrow> machine_laws doms z"
  using GetProviderForVM_result [OF assms] by (auto intro!: steps_wrap quiet_world dest: on_world_run)

lemma DestroyTask_result:
  assumes ps: "providers_laws doms (pl_providers (fst s))" and run: "DestroyTask i force s = (r, s')"
  shows "case pl_tasks (fst s) i of None \<Rightarrow> r = Ok () \<and> s' = s
    | Some h \<Rightarrow> if IsRunning (pl_heap (fst s) h) \<and> \<not> force then failed r \<and> s' = s
        else destroyed doms (vmNameFromTaskID i) r (cancel_handle h (fst s), snd s) s'"
proof -
  let ?n = "vmNameFromTaskID i"
  note eq = run [unfolded DestroyTask_def get_run]
  show ?thesis
  proof (cases "pl_tasks (fst s) i")
    case None
    with eq show ?thesis by (simp add: ts_Get_def ret_def)
  next
    case (Some h)
    show ?thesis
    proof (cases "IsRunning (pl_heap (fst s) h) \<and> \<not> force")
      case True
      with eq Some show ?thesis by (auto simp: ts_Get_def throw_def)
    next
      case False
      let ?pre = "''virt: unable to destroy task '' @ i @ '': ''"
      have tail: "outcomes (destroyed doms ?n) (iobind (iowrap ?pre [] (on_world (GetProviderForVM (pl_providers (fst s)) ?n)))
        (\<lambda>z. iobind (iowrap ?pre [] (on_world (z_Networking z))) (\<lambda>network.
         iobind (iowrap ?pre [] (on_world (z_DestroyVM z ?n))) (\<lambda>_.
         iobind (iowrap ''virt: failed to destroy task network: '' []
           (on_world (nt_VMTerminatedTeardown network (Some (th_netTeardown (pl_heap (fst s) h)))))) (\<lambda>_.
         mod_plugin (\<lambda>p. p\<lparr>pl_tasks := ts_Delete ?n (pl_tasks p)\<rparr>))))))"
      proof (rule outcomes_bind [OF settled_destroyed provider_wrapped(1) [OF ps]])
        fix t z t1 assume "iowrap ?pre [] (on_world (GetProviderForVM (pl_providers (fst s)) ?n)) t = (Ok z, t1)"
        note z = provider_wrapped(2) [OF ps this]
        have net: "steps (quiet doms) (iowrap ?pre [] (on_world (z_Networking z)))"
          by (intro steps_wrap preorder_quiet quiet_world quietD(5) [OF z])
        show "outcomes (destroyed doms ?n) (iobind (iowrap ?pre [] (on_world (z_Networking z))) (\<lambda>network.
         iobind (iowrap ?pre [] (on_world (z_DestroyVM z ?n))) (\<lambda>_.
         iobind (iowrap ''virt: failed to destroy task network: '' []
           (on_world (nt_VMTerminatedTeardown network (Some (th_netTeardown (pl_heap (fst s) h)))))) (\<lambda>_.
         mod_plugin (\<lambda>p. p\<lparr>pl_tasks := ts_Delete ?n (pl_tasks p)\<rparr>)))))"
        proof (rule outcomes_bind [OF settled_destroyed net])
          fix t network t1 assume "iowrap ?pre [] (on_world (z_Networking z)) t = (Ok network, t1)"
          then have "z_Networking z (snd t) = (Ok network, snd t1)" by (auto dest: on_world_run)
          from destroy_call [OF z quietD(8) [OF z this]]
          show "outcomes (destroyed doms ?n) (iobind (iowrap ?pre [] (on_world (z_DestroyVM z ?n))) (\<lambda>_.
         iobind (iowrap ''virt: failed to destroy task network: '' []
           (on_world (nt_VMTerminatedTeardown network (Some (th_netTeardown (pl_heap (fst s) h)))))) (\<lambda>_.
         mod_plugin (\<lambda>p. p\<lparr>pl_tasks := ts_Delete ?n (pl_tasks p)\<rparr>))))" .
        qed
      qed
      have "mod_plugin (cancel_handle h) s = (Ok (), (cancel_handle h (fst s), snd s))"
        by (simp add: mod_plugin_def split: prod.split)
      with eq Some False have "destroyed doms ?n r (cancel_handle h (fst s), snd s) s'"
        by (intro outcomesD [OF tail]) (auto simp: ts_Get_def Let_def iobind_apply)
      then show ?thesis unfolding Some option.case if_not_P [OF False] .
    qed
  qed
qed

section \<open>The driver over time\<close>

text \<open>
  What Nomad and the goroutines make the driver do, each as one step, and any change of the world in
  between. The operations that only read (\<open>InspectTask\<close>, \<open>WaitTask\<close>, \<open>TaskStats\<close>, fingerprints) leave
  the plugin as it is, so they are among the changes of the world.
\<close>

inductive driver_step :: "'w env \<Rightarrow> 'w plugin \<times> 'w \<Rightarrow> 'w plugin \<times> 'w \<Rightarrow> bool" for env where
  configure: "SetConfig env c agent s = (r, s') \<Longrightarrow> driver_step env s s'"
| start: "StartTask env cfg s = (q, s') \<Longrightarrow> driver_step env s s'"
| recover: "RecoverTask env nh s = (r, s') \<Longrightarrow> driver_step env s s'"
| stop: "StopTask i s = (r, s') \<Longrightarrow> driver_step env s s'"
| destroy: "DestroyTask i force s = (r, s') \<Longrightarrow> driver_step env s s'"
| tick: "monitor_once env h s = (t, s') \<Longrightarrow> driver_step env s s'"
| shutdown: "Shutdown s = (r, s') \<Longrightarrow> driver_step env s s'"
| outside: "driver_step env (p, w) (p, w')"

inductive driver_run :: "'w env \<Rightarrow> 'w plugin \<times> 'w \<Rightarrow> 'w plugin \<times> 'w \<Rightarrow> bool" for env s where
  begin_run: "driver_run env s s"
| step_run: "driver_run env s s1 \<Longrightarrow> driver_step env s1 s2 \<Longrightarrow> driver_run env s s2"

text \<open>
  What a step does to the store: it adds a handle for one id, deletes the one of a name of a machine,
  or changes handles but not their names and what they tear down.
\<close>

definition keeps_handles :: "'w plugin \<Rightarrow> 'w plugin \<Rightarrow> bool" where
  "keeps_handles p p' \<longleftrightarrow> pl_next p' = pl_next p \<and> (\<forall>r. th_name (pl_heap p' r) = th_name (pl_heap p r)
     \<and> th_netTeardown (pl_heap p' r) = th_netTeardown (pl_heap p r))"

definition store_step :: "'w plugin \<Rightarrow> 'w plugin \<Rightarrow> bool" where
  "store_step p p' \<longleftrightarrow> (\<exists>i. adds_task i p p')
     \<or> keeps_handles p p' \<and> (pl_tasks p' = pl_tasks p \<or> (\<exists>i. pl_tasks p' = ts_Delete (vmNameFromTaskID i) (pl_tasks p)))"

lemma keeps_handles_simps [simp]: "keeps_handles p p" "keeps_handles p (cancel_handle r p)"
  "keeps_handles p (p\<lparr>pl_tasks := t\<rparr>)" "keeps_handles p (p\<lparr>pl_shutdown := b\<rparr>)" "keeps_handles p (p\<lparr>pl_config := c\<rparr>)"
  "keeps_handles p (p\<lparr>pl_nomadConfig := d\<rparr>)" "keeps_handles p (p\<lparr>pl_providers := ps, pl_ci := b\<rparr>)"
  by (simp_all add: keeps_handles_def cancel_handle_def)

lemma cancel_tasks [simp]: "pl_tasks (cancel_handle r p) = pl_tasks p"
  by (simp add: cancel_handle_def)

definition idle_store :: "'w plugin \<times> 'w \<Rightarrow> 'w plugin \<times> 'w \<Rightarrow> bool" where
  "idle_store s s' \<longleftrightarrow> keeps_handles (fst s) (fst s') \<and> pl_tasks (fst s') = pl_tasks (fst s)"

lemma preorder_idle [simp]: "preorder idle_store"
  by (simp add: preorder_def idle_store_def keeps_handles_def)

lemma idle_world: "steps idle_store (on_world m)" "steps idle_store get_plugin"
  by (auto simp: steps_def on_world_def get_plugin_def idle_store_def split: prod.splits)

lemma idle_mod: "(\<And>p. keeps_handles p (f p) \<and> pl_tasks (f p) = pl_tasks p) \<Longrightarrow> steps idle_store (mod_plugin f)"
  by (auto simp: steps_def mod_plugin_def idle_store_def)

lemma SetConfig_idle: "steps idle_store (SetConfig env c agent)"
  unfolding SetConfig_def split_beta
  by (auto split: option.split intro!: steps_intros idle_world idle_mod simp del: if_split)

lemma StopTask_idle: "steps idle_store (StopTask i)"
  unfolding StopTask_def Let_def by (auto split: option.split intro!: steps_intros idle_world idle_mod)

lemma DestroyTask_store:
  assumes "DestroyTask i force s = (r, s')"
  shows "store_step (fst s) (fst s')"
proof -
  let ?del = "\<lambda>p :: 'a plugin. p\<lparr>pl_tasks := ts_Delete (vmNameFromTaskID i) (pl_tasks p)\<rparr>"
  define Q :: "unit res \<Rightarrow> 'a plugin \<times> 'a \<Rightarrow> 'a plugin \<times> 'a \<Rightarrow> bool" where
    "Q r s s' \<longleftrightarrow> keeps_handles (fst s) (fst s') \<and> (pl_tasks (fst s') = pl_tasks (fst s)
       \<or> \<not> failed r \<and> pl_tasks (fst s') = ts_Delete (vmNameFromTaskID i) (pl_tasks (fst s)))" for r s s'
  have Q: "settled idle_store Q"
    by (auto simp: settled_def Q_def idle_store_def keeps_handles_def)
  have "outcomes Q (mod_plugin ?del)"
    by (auto simp: outcomes_def Q_def mod_plugin_def)
  moreover have "outcomes Q (ret ())" by (simp add: outcomes_def ret_def Q_def)
  ultimately have "outcomes Q (DestroyTask i force)"
    unfolding DestroyTask_def Let_def
    by (auto split: option.split intro!: outcomes_bind [OF Q] idle_world idle_mod steps_wrap preorder_idle
        outcomes_fails [OF Q preorder_idle])
  from outcomesD [OF this assms] show ?thesis by (auto simp: store_step_def Q_def)
qed

lemma monitor_once_idle:
  assumes "monitor_once env h s = (r, s')"
  shows "idle_store s s'"
proof -
  let ?tick = "on_world (monitor_tick (providers_GetVM (pl_providers (fst s))) (e_clock env) (pl_heap (fst s) h))"
  note assms [unfolded monitor_once_def get_run]
  then show ?thesis
  proof (cases rule: iobind_cases)
    case (Ok x s1)
    obtain h1 sent where x: "x = (h1, sent)" by fastforce
    from on_world_run [OF Ok(1)] x have "monitor_tick (providers_GetVM (pl_providers (fst s))) (e_clock env) (pl_heap (fst s) h) (snd s)
      = (Ok (h1, sent), snd s1)" and p: "fst s1 = fst s" by simp_all
    from monitor_tick_result [OF this(1)] have "th_name h1 = th_name (pl_heap (fst s) h) \<and> th_netTeardown h1 = th_netTeardown (pl_heap (fst s) h)"
      by (auto simp: exited_def split: option.splits)
    with Ok(2) x p show ?thesis
      by (auto simp: idle_store_def keeps_handles_def mod_plugin_def iobind_apply ret_def split: prod.splits)
  next
    case (Fail e)
    from stepsD [OF idle_world(1) Fail(1)] show ?thesis .
  next
    case (Panic x)
    from stepsD [OF idle_world(1) Panic(1)] show ?thesis .
  qed
qed

lemma RecoverTask_adds:
  assumes "RecoverTask env nh s = (r, s')"
  shows "\<exists>i. adds_task i (fst s) (fst s')"
proof (cases nh)
  case None
  with assms show ?thesis by (auto simp: RecoverTask_def throw_def adds_task_def)
next
  case (Some nh')
  note eq = assms [unfolded RecoverTask_def Some option.case Let_def get_run]
  show ?thesis
  proof (cases "pl_tasks (fst s) (tc_ID (nh_Config nh'))")
    case None
    have keep: "adds_task i p p" for i p by (simp add: adds_task_def)
    show ?thesis
    proof (cases "e_decodeState env (nh_State nh')")
      case (Ok st)
      with eq None have run: "iotry (on_world (providers_GetVM (pl_providers (fst s)) (vmNameFromTaskID (tc_ID (nh_Config nh')))))
             (\<lambda>vm. mod_plugin (put_handle (tc_ID (nh_Config nh')) (no_handle\<lparr>th_name := vmNameFromTaskID (tc_ID (nh_Config nh')),
                 th_taskConfig := dr_TaskConfig st, th_startedAt := dr_StartedAt st, th_netTeardown := dr_NetTeardown st,
                 th_procState := ToTaskState (inf_State vm)\<rparr>)))
             (\<lambda>e. if is_err ErrNotFound e then throw ErrTaskNotFound
               else throw (Errorf (''virt: failed to recover task '' @ tc_ID (nh_Config nh') @ '': '' @ err_text e) [])) s = (r, s')"
        by (simp add: ts_Get_def)
      then show ?thesis
      proof (cases rule: iotry_cases)
        case (Ok vm s1)
        with on_world_run [OF Ok(1)] None show ?thesis
          by (auto simp: mod_plugin_def adds_task_def intro!: exI [of _ "tc_ID (nh_Config nh')"] split: prod.splits)
            (rule exI, rule conjI [OF _ disjI1 [OF refl]], simp)
      next
        case (Fail e s1)
        with on_world_run [OF Fail(1)] keep show ?thesis by (auto simp: throw_def split: if_splits)
      next
        case (Panic x)
        with on_world_run [OF Panic(1)] keep show ?thesis by auto
      qed
    qed (use eq None keep in \<open>auto simp: ts_Get_def throw_def lift_def\<close>)
  next
    case (Some h)
    with eq show ?thesis by (auto simp: ts_Get_def ret_def adds_task_def)
  qed
qed

lemma driver_step_store: "driver_step env s s' \<Longrightarrow> store_step (fst s) (fst s')"
proof (induction rule: driver_step.induct)
  case (configure c agent s r s')
  from stepsD [OF SetConfig_idle this] show ?case by (simp add: store_step_def idle_store_def)
next
  case (start cfg s r s')
  from StartTask_adds(1) [OF this] show ?case by (auto simp: store_step_def)
next
  case (recover nh s r s')
  from RecoverTask_adds [OF this] show ?case by (simp add: store_step_def)
next
  case (stop i s r s')
  from stepsD [OF StopTask_idle this] show ?case by (simp add: store_step_def idle_store_def)
next
  case (destroy i force s r s')
  from DestroyTask_store [OF this] show ?case .
next
  case (tick h s t s')
  from monitor_once_idle [OF this] show ?case by (simp add: store_step_def idle_store_def)
next
  case (shutdown s r s')
  then show ?case by (auto simp: Shutdown_def mod_plugin_def store_step_def split: prod.splits)
qed (simp add: store_step_def)

text \<open>Every handle of the store is allocated, carries the name of its task's machine, and is of one task.\<close>

definition store_inv :: "'w plugin \<Rightarrow> bool" where
  "store_inv p \<longleftrightarrow> (\<forall>i h. pl_tasks p i = Some h \<longrightarrow> h < pl_next p \<and> th_name (pl_heap p h) = vmNameFromTaskID i
     \<and> (\<forall>j. pl_tasks p j = Some h \<longrightarrow> j = i))"

lemma store_inv_put:
  assumes "store_inv p" and "th_name h = vmNameFromTaskID i"
  shows "store_inv (put_handle i h p)"
proof -
  from assms(1) have old: "r < pl_next p" "th_name (pl_heap p r) = vmNameFromTaskID j" "pl_tasks p k = Some r \<Longrightarrow> k = j"
    if "pl_tasks p j = Some r" for j k r using that unfolding store_inv_def by blast+
  from old(1) have new: "pl_tasks p j \<noteq> Some (pl_next p)" for j by blast
  show ?thesis unfolding store_inv_def put_handle_def ts_Set_def
    using old new assms(2) by (auto simp: less_Suc_eq)
qed

lemma store_inv_cancel: "store_inv p \<Longrightarrow> store_inv (cancel_handle r p)"
  by (simp add: store_inv_def cancel_handle_def)

lemma store_inv_sub:
  assumes "store_inv p" and "keeps_handles p p'" and "\<And>i h. pl_tasks p' i = Some h \<Longrightarrow> pl_tasks p i = Some h"
  shows "store_inv p'"
  using assms unfolding store_inv_def keeps_handles_def by metis

lemma store_step_inv:
  assumes "store_inv p" and "store_step p p'"
  shows "store_inv p'"
  using assms(2) unfolding store_step_def
proof (elim disjE exE conjE)
  fix i assume "adds_task i p p'"
  with assms(1) show ?thesis by (auto simp: adds_task_def store_inv_put store_inv_cancel)
qed (auto intro!: store_inv_sub [OF assms(1)] simp: ts_Delete_def split: if_splits)

lemma store_step_keeps:
  assumes "store_step p p'" and "CHR ''/'' \<in> set i" and "pl_tasks p i = Some h"
  shows "pl_tasks p' i = Some h"
proof -
  have "i \<noteq> vmNameFromTaskID j" for j using assms(2) vmName_no_slash [of j] by auto
  with assms show ?thesis
    by (auto simp: store_step_def adds_task_def put_handle_def ts_Set_def ts_Delete_def)
qed

lemma store_step_teardown:
  assumes "store_inv p" and "store_step p p'" and "pl_tasks p i = Some h"
  shows "th_netTeardown (pl_heap p' h) = th_netTeardown (pl_heap p h)"
proof -
  have "h < pl_next p" using assms(1,3) by (auto simp: store_inv_def)
  with assms(2) show ?thesis
    by (auto simp: store_step_def keeps_handles_def adds_task_def put_handle_def cancel_handle_def)
qed

lemma driver_run_store:
  assumes "driver_run env s s'"
  shows "store_inv (fst s) \<Longrightarrow> store_inv (fst s')"
    "CHR ''/'' \<in> set i \<Longrightarrow> pl_tasks (fst s) i = Some h \<Longrightarrow> pl_tasks (fst s') i = Some h"
  using assms
  by (induction rule: driver_run.induct) (auto dest: driver_step_store intro: store_step_inv store_step_keeps)

lemma driver_run_teardown:
  assumes "driver_run env s s'" and "store_inv (fst s)" and "CHR ''/'' \<in> set i" and "pl_tasks (fst s) i = Some h"
  shows "th_netTeardown (pl_heap (fst s') h) = th_netTeardown (pl_heap (fst s) h)"
  using assms(1)
proof (induction rule: driver_run.induct)
  case (step_run s1 s2)
  note run = driver_run_store [OF step_run.hyps(1)]
  from store_step_teardown [OF run(1) [OF assms(2)] driver_step_store [OF step_run.hyps(2)] run(2) [OF assms(3,4)]]
  show ?case by (simp add: step_run.IH)
qed simp

lemma StartTask_known: "pl_tasks p (tc_ID cfg) = Some h \<Longrightarrow> \<exists>e. StartTask env cfg (p, w) = (Fail e, (p, w))"
  by (simp add: StartTask_def get_run ts_Get_def throw_def)

lemma RecoverTask_known: "pl_tasks p (tc_ID (nh_Config nh)) = Some h \<Longrightarrow> RecoverTask env (Some nh) (p, w) = (Ok (), (p, w))"
  by (simp add: RecoverTask_def Let_def get_run ts_Get_def ret_def)

lemma InspectTask_known: "pl_tasks p i = Some h \<Longrightarrow> InspectTask i (p, w) = (th_TaskStatus (pl_heap p h), (p, w))"
  by (simp add: InspectTask_def task_ref_def get_plugin_def iobind_apply ts_Get_def ret_def lift_def)

text \<open>The handle a recovery makes of the one of the start.\<close>

definition recovered :: "taskHandle \<Rightarrow> VMInfo \<Rightarrow> taskHandle" where
  "recovered h vm = h\<lparr>th_procState := ToTaskState (inf_State vm), th_netTeardown := map_option decoded_spec (th_netTeardown h)\<rparr>"

lemma RecoverTask_run:
  assumes "pl_tasks p (tc_ID (nh_Config nh)) = None" and "e_decodeState env (nh_State nh) = Ok (decoded_state (driver_state h))"
    and "fresh_handle (nh_Config nh) h"
  shows "RecoverTask env (Some nh) (p, w) = (case providers_GetVM (pl_providers p) (th_name h) w of
      (Ok vm, w') \<Rightarrow> (Ok (), (put_handle (tc_ID (nh_Config nh)) (recovered h vm) p, w'))
    | (Fail e, w') \<Rightarrow> (Fail (if is_err ErrNotFound e then ErrTaskNotFound
        else Errorf (''virt: failed to recover task '' @ tc_ID (nh_Config nh) @ '': '' @ err_text e) []), (p, w'))
    | (Panic x, w') \<Rightarrow> (Panic x, (p, w')))"
proof -
  have h: "th_name h = vmNameFromTaskID (tc_ID (nh_Config nh))" using assms(3) by (simp add: fresh_handle_def)
  have "no_handle\<lparr>th_name := vmNameFromTaskID (tc_ID (nh_Config nh)), th_taskConfig := th_taskConfig h,
      th_startedAt := th_startedAt h, th_netTeardown := map_option decoded_spec (th_netTeardown h),
      th_procState := ToTaskState (inf_State vm)\<rparr> = recovered h vm" for vm
    using assms(3) by (cases h) (simp add: no_handle_def recovered_def fresh_handle_def)
  with assms(1,2) h show ?thesis
    by (simp add: RecoverTask_def Let_def get_run ts_Get_def iotry_apply on_world_def mod_plugin_def throw_def
        decoded_state_def driver_state_def split: prod.split res.split)
qed

section \<open>Runs of the driver\<close>

text \<open>A start of the driver from nothing, and a recovery.\<close>

lemma toy_SetConfig:
  "\<exists>p. SetConfig toy_env ''config'' None (NewPlugin, w) = (Ok (), (p, w)) \<and> pl_tasks p = Map.empty
    \<and> pl_providers p = toy_providers False"
proof -
  have "default_provider toy_plugin_config = toy_plugin_config\<lparr>vc_Provider := Some \<lparr>prov_Default = [],
       prov_Libvirt = Some \<lparr>lv_URI = [], lv_User = [], lv_Password = [], lv_AllowInsecureMounts = False\<rparr>\<rparr>\<rparr>" (is "_ = ?c")
    by (simp add: default_provider_def toy_plugin_config_def)
  moreover have "StorageConfig_Validate (vc_StoragePools toy_plugin_config) = Ok None"
    by (simp add: toy_plugin_config_def StorageConfig_Validate_def Let_def)
  moreover have "Provider_Validate \<lparr>prov_Default = [], prov_Libvirt = Some \<lparr>lv_URI = [], lv_User = [], lv_Password = [],
      lv_AllowInsecureMounts = False\<rparr>\<rparr> = None"
    by (simp add: Provider_Validate_def LibvirtConfig_Validate_def Let_def)
  ultimately have "VirtConfig_Validate toy_plugin_config = (?c, Ok None)"
    by (simp add: VirtConfig_Validate_def Let_def)
  then show ?thesis
    by (simp add: SetConfig_def toy_env_def lift_def iobind_apply mod_plugin_def get_plugin_def ret_apply iowrap_def iotry_apply
        on_world_def Setup_def Let_def toy_providers_def NewPlugin_def newTaskStore_def providers_New_def of_err_def)
qed

lemma toy_driver_run:
  "\<exists>p' w' h. driver_run toy_env (NewPlugin, empty_memory) (p', w') \<and> pl_tasks p' ''a/vm'' = Some h"
proof -
  obtain p where conf: "SetConfig toy_env ''config'' None (NewPlugin, empty_memory) = (Ok (), (p, empty_memory))"
    and p: "pl_tasks p = Map.empty" "pl_providers p = toy_providers False"
    using toy_SetConfig by blast
  have w: "mem_doms empty_memory ''vm'' = None" "toy_volume \<notin> mem_vols empty_memory" by (simp_all add: empty_memory_def)
  have none: "pl_tasks p ''a/vm'' = None" by (simp add: p)
  obtain nh p' where start: "StartTask toy_env toy_task (p, empty_memory)
      = (Ok nh, (p', started (with_volume ''vm_vda.img'' empty_memory)))" (is "_ = (_, (_, ?w'))")
    unfolding toy_StartTask [OF none p(2)] using toy_start_disks(2) [OF w] toy_dc_simps(1) by fastforce
  from StartTask_adds(2) [OF start] obtain h where "p' = put_handle ''a/vm'' h p"
    by (auto simp: registers_def toy_task_def)
  then have "pl_tasks p' ''a/vm'' = Some (pl_next p)" by (simp add: put_handle_def ts_Set_def)
  moreover have "driver_run toy_env (NewPlugin, empty_memory) (p', ?w')"
    by (rule driver_run.step_run [OF driver_run.step_run [OF driver_run.begin_run driver_step.configure [OF conf]]
        driver_step.start [OF start]])
  ultimately show ?thesis by blast
qed

section \<open>Properties\<close>

text \<open>
  C17. How destroying a task ends, on any provider that keeps the contract of a virtualizer. An id that
  is not in the store is nothing to do. A task that counts as running is refused without \<open>force\<close>, and
  nothing changes. Otherwise the context of its handle is cancelled and no machine but the task's is
  concerned; on success that machine was there and is gone, and the store forgets the name of the
  machine, which is never an id with a slash, so the handle of such a task stays. A task whose machine
  is gone already cannot be destroyed: a call that removed the machine and failed to tear the network
  down is not completed by a later one (the witness is a success and the call after it).
\<close>

theorem DestroyTask_outcomes:
  assumes "providers_laws doms (pl_providers p)" and "DestroyTask i force (p, w) = (r, (p', w'))"
    and "n = vmNameFromTaskID i"
  shows "(\<forall>m. m \<noteq> n \<longrightarrow> doms w' m = doms w m)
    \<and> (CHR ''/'' \<in> set i \<longrightarrow> pl_tasks p' i = pl_tasks p i)
    \<and> (case pl_tasks p i of
        None \<Rightarrow> r = Ok () \<and> p' = p \<and> w' = w
      | Some h \<Rightarrow> if IsRunning (pl_heap p h) \<and> \<not> force then failed r \<and> p' = p \<and> w' = w
          else th_cancelled (pl_heap p' h) \<and> (doms w n = None \<longrightarrow> failed r)
            \<and> (if failed r then pl_tasks p' = pl_tasks p
               else doms w' n = None \<and> pl_tasks p' = (pl_tasks p)(n := None)))"
proof (intro conjI)
  note res = DestroyTask_result [of doms "(p, w)", OF _ assms(2), simplified, OF assms(1)]
  show "\<forall>m. m \<noteq> n \<longrightarrow> doms w' m = doms w m"
    using res assms(3) by (auto simp: destroyed_def split: option.splits if_splits)
  show "CHR ''/'' \<in> set i \<longrightarrow> pl_tasks p' i = pl_tasks p i"
  proof
    assume "CHR ''/'' \<in> set i"
    then have "i \<noteq> vmNameFromTaskID i" using vmName_no_slash [of i] by auto
    with res show "pl_tasks p' i = pl_tasks p i"
      by (auto simp: destroyed_def ts_Delete_def split: option.splits if_splits)
  qed
  show "case pl_tasks p i of
        None \<Rightarrow> r = Ok () \<and> p' = p \<and> w' = w
      | Some h \<Rightarrow> if IsRunning (pl_heap p h) \<and> \<not> force then failed r \<and> p' = p \<and> w' = w
          else th_cancelled (pl_heap p' h) \<and> (doms w n = None \<longrightarrow> failed r)
            \<and> (if failed r then pl_tasks p' = pl_tasks p
               else doms w' n = None \<and> pl_tasks p' = (pl_tasks p)(n := None))"
    using res assms(3)
    by (auto simp: destroyed_def ts_Delete_def cancel_handle_def split: option.splits if_splits)
qed

definition busy_plugin :: "memory plugin" where
  "busy_plugin = put_handle ''a/vm'' a_handle (toy_plugin False)"

definition busy_memory :: memory where
  "busy_memory = empty_memory\<lparr>mem_doms := [''vm'' \<mapsto> True]\<rparr>"

lemma busy_simps:
  "pl_tasks busy_plugin ''a/vm'' = Some 0" "pl_heap busy_plugin 0 = a_handle" "pl_providers busy_plugin = toy_providers False"
  "mem_doms busy_memory ''vm'' = Some True" "vmNameFromTaskID ''a/vm'' = ''vm''"
  by (simp_all add: busy_plugin_def put_handle_def ts_Set_def toy_plugin_def NewPlugin_def newTaskStore_def busy_memory_def
      vmNameFromTaskID_def)

lemma toy_find:
  "find_vm ''vm'' [(''libvirt'', ret (toy_z b))] w = (case mem_doms w ''vm'' of None \<Rightarrow> (Fail ErrNotFound, w)
     | Some x \<Rightarrow> (Ok (toy_z b, in_state (if x then VMStateRunning else VMStateShutdown)), w))"
  by (auto simp: toy_z_def iobind_apply iotry_apply ret_def throw_def ErrDomainNotFound_def ErrNotFound_def split: option.split)

lemma busy_calls:
  "GetProviderForVM (toy_providers False) ''vm'' busy_memory = (Ok (toy_z False), busy_memory)"
  "z_Networking (toy_z False) w = (Ok toy_net, w)" "nt_VMTerminatedTeardown toy_net q w = (Ok (), w)"
  "z_DestroyVM (toy_z False) ''vm'' busy_memory = (Ok (), busy_memory\<lparr>mem_doms := (mem_doms busy_memory)(''vm'' := None)\<rparr>)"
proof -
  show "GetProviderForVM (toy_providers False) ''vm'' busy_memory = (Ok (toy_z False), busy_memory)"
    using busy_simps(4) by (simp add: GetProviderForVM_def toy_providers_def toy_find iobind_apply ret_apply del: find_vm.simps)
qed (simp_all add: toy_sel toy_net_def ret_def, simp add: toy_z_def busy_simps)

lemma busy_destroy:
  "DestroyTask ''a/vm'' True (busy_plugin, busy_memory)
    = (Ok (), (cancel_handle 0 busy_plugin)\<lparr>pl_tasks := ts_Delete ''vm'' (pl_tasks busy_plugin)\<rparr>,
        busy_memory\<lparr>mem_doms := (mem_doms busy_memory)(''vm'' := None)\<rparr>)"
  by (simp add: DestroyTask_def get_plugin_def busy_simps ts_Get_def mod_plugin_def iobind_apply iotry_apply iowrap_def Let_def
      on_world_def busy_calls ret_apply)

theorem DestroyTask_outcomes_witness:
  "(\<exists>p' w'. DestroyTask ''a/vm'' True (busy_plugin, busy_memory) = (Ok (), (p', w')) \<and> mem_doms w' ''vm'' = None
    \<and> pl_tasks p' ''a/vm'' = Some 0 \<and> (\<exists>r. fst (DestroyTask ''a/vm'' True (p', w')) = r \<and> failed r))"
proof -
  have laws: "providers_laws mem_doms (pl_providers busy_plugin)" by (simp add: busy_simps toy_laws)
  obtain p' w' where run: "DestroyTask ''a/vm'' True (busy_plugin, busy_memory) = (Ok (), (p', w'))"
    and p': "pl_providers p' = pl_providers busy_plugin"
    unfolding busy_destroy by (simp add: cancel_handle_def)
  from DestroyTask_outcomes [OF laws run busy_simps(5) [symmetric]]
  have 1: "mem_doms w' ''vm'' = None" "pl_tasks p' ''a/vm'' = Some 0" by (simp_all add: busy_simps)
  obtain r p2 w2 where again: "DestroyTask ''a/vm'' True (p', w') = (r, (p2, w2))" by (metis surj_pair)
  from DestroyTask_outcomes [OF _ again busy_simps(5) [symmetric], of mem_doms] laws p' 1
  have "failed r" by simp
  with run 1 again show ?thesis by auto
qed

text \<open>
  C34. The store in every state the driver can reach from its start, whatever Nomad asks and the world
  does: a handle of the store is allocated, has the name of the machine of its task, and is the handle
  of no other task.
\<close>

theorem reachable_store:
  assumes "driver_run env (NewPlugin, w) (p, w')" and "pl_tasks p i = Some h"
  shows "h < pl_next p \<and> th_name (pl_heap p h) = vmNameFromTaskID i \<and> (\<forall>j. pl_tasks p j = Some h \<longrightarrow> j = i)"
proof -
  have "store_inv (fst (NewPlugin, w))" by (simp add: store_inv_def NewPlugin_def newTaskStore_def)
  from driver_run_store(1) [OF assms(1) this] assms(2) show ?thesis by (auto simp: store_inv_def)
qed

theorem reachable_store_witness:
  "\<exists>p w' h. driver_run toy_env (NewPlugin, empty_memory) (p, w') \<and> pl_tasks p ''a/vm'' = Some h
    \<and> th_name (pl_heap p h) = ''vm'' \<and> pl_tasks p ''b/vm'' \<noteq> Some h"
proof -
  obtain p w' h where run: "driver_run toy_env (NewPlugin, empty_memory) (p, w')" and h: "pl_tasks p ''a/vm'' = Some h"
    using toy_driver_run by blast
  from reachable_store [OF run h] have "th_name (pl_heap p h) = ''vm''" "\<forall>j. pl_tasks p j = Some h \<longrightarrow> j = ''a/vm''"
    by (simp_all add: busy_simps)
  moreover have "''b/vm'' \<noteq> ''a/vm''" by simp
  ultimately show ?thesis using run h by blast
qed

text \<open>
  C21. The store never forgets a task. Nomad's ids have the form \<open>allocID/taskName/unique\<close>; once a handle is
  stored for an id with a slash, it stays in the store under that id in every state reached from there,
  also after \<open>DestroyTask\<close> has succeeded: from then on \<open>StartTask\<close> for the id is refused and
  \<open>RecoverTask\<close> does nothing, \<open>InspectTask\<close> answers with the status of the old handle.
\<close>

theorem task_never_forgotten:
  assumes "driver_run env (p, w) (p', w')" and "pl_tasks p i = Some h" and "CHR ''/'' \<in> set i"
  shows "pl_tasks p' i = Some h
    \<and> (tc_ID cfg = i \<longrightarrow> (\<exists>e. StartTask env cfg (p', w') = (Fail e, (p', w')))
        \<and> RecoverTask env (Some (nh\<lparr>nh_Config := cfg\<rparr>)) (p', w') = (Ok (), (p', w')))
    \<and> InspectTask i (p', w') = (th_TaskStatus (pl_heap p' h), (p', w'))"
proof -
  from driver_run_store(2) [OF assms(1,3)] assms(2) have i: "pl_tasks p' i = Some h" by simp
  with StartTask_known [of p' cfg h env w'] RecoverTask_known [of p' "nh\<lparr>nh_Config := cfg\<rparr>" h env w']
  show ?thesis by (auto simp: InspectTask_known)
qed

theorem task_never_forgotten_witness:
  "\<exists>p' w'. DestroyTask ''a/vm'' True (busy_plugin, busy_memory) = (Ok (), (p', w')) \<and> mem_doms w' ''vm'' = None
    \<and> (\<exists>e. StartTask toy_env toy_task (p', w') = (Fail e, (p', w')))"
proof -
  obtain p' w' where run: "DestroyTask ''a/vm'' True (busy_plugin, busy_memory) = (Ok (), (p', w'))" "mem_doms w' ''vm'' = None"
    unfolding busy_destroy by simp
  have "driver_run toy_env (busy_plugin, busy_memory) (p', w')"
    by (intro driver_run.step_run [OF driver_run.begin_run] driver_step.destroy [OF run(1)])
  moreover have "tc_ID toy_task = ''a/vm''" by (simp add: toy_task_def)
  ultimately show ?thesis using task_never_forgotten [where i = "''a/vm''" and cfg = toy_task] busy_simps(1) run
    by fastforce
qed

text \<open>
  C19. Recovering a task from the handle that \<open>StartTask\<close> gave to Nomad, when the store does not have the
  task (the plugin was restarted). If the encoded state is decoded as an encoding without types does it,
  the handle that is stored is the one that was stored at the start, in the state its machine is in;
  a machine that is gone is reported as \<open>ErrTaskNotFound\<close> and nothing is stored. The rules of the
  packet filter do not survive: the recovered handle has them as a value the filter refuses, so that
  the network of a recovered task is never torn down.
\<close>

theorem RecoverTask_restores:
  assumes "StartTask env cfg (p, w) = (Ok nh, (p1, w1))" and "pl_tasks p2 (tc_ID cfg) = None"
    and "\<forall>st x. e_encodeState env st = Ok x \<longrightarrow> e_decodeState env x = Ok (decoded_state st)"
  shows "\<exists>h. p1 = put_handle (tc_ID cfg) h p
    \<and> (case providers_GetVM (pl_providers p2) (vmNameFromTaskID (tc_ID cfg)) w2 of
        (Ok vm, w3) \<Rightarrow> RecoverTask env (Some nh) (p2, w2) = (Ok (), (put_handle (tc_ID cfg) (recovered h vm) p2, w3))
      | (Fail e, w3) \<Rightarrow> \<exists>e'. RecoverTask env (Some nh) (p2, w2) = (Fail e', (p2, w3))
          \<and> (is_err ErrNotFound e \<longrightarrow> e' = ErrTaskNotFound)
      | (Panic x, w3) \<Rightarrow> RecoverTask env (Some nh) (p2, w2) = (Panic x, (p2, w3)))
    \<and> (\<forall>t rm rules tables w. th_netTeardown h = Some t \<longrightarrow> ts_FilterRemoval t = Some rm \<longrightarrow> fr_Data rm = RulesData rules
        \<longrightarrow> (\<exists>t' e. th_netTeardown (recovered h vm) = Some t'
          \<and> Teardown tables (ts_FilterRemoval t') w = (Fail e, w)))"
proof -
  from StartTask_adds(2) [OF assms(1)] obtain h where h: "fresh_handle cfg h" "p1 = put_handle (tc_ID cfg) h p"
    "nh_Config nh = cfg" "e_encodeState env (driver_state h) = Ok (nh_State nh)"
    by (auto simp: registers_def)
  with assms(3) have "e_decodeState env (nh_State nh) = Ok (decoded_state (driver_state h))" by blast
  from RecoverTask_run [OF _ this, of p2 w2, unfolded h(3)] assms(2) h(1)
  have "RecoverTask env (Some nh) (p2, w2) = (case providers_GetVM (pl_providers p2) (vmNameFromTaskID (tc_ID cfg)) w2 of
      (Ok vm, w') \<Rightarrow> (Ok (), (put_handle (tc_ID cfg) (recovered h vm) p2, w'))
    | (Fail e, w') \<Rightarrow> (Fail (if is_err ErrNotFound e then ErrTaskNotFound
        else Errorf (''virt: failed to recover task '' @ tc_ID cfg @ '': '' @ err_text e) []), (p2, w'))
    | (Panic x, w') \<Rightarrow> (Panic x, (p2, w')))"
    by (simp add: fresh_handle_def)
  then have "case providers_GetVM (pl_providers p2) (vmNameFromTaskID (tc_ID cfg)) w2 of
        (Ok vm, w3) \<Rightarrow> RecoverTask env (Some nh) (p2, w2) = (Ok (), (put_handle (tc_ID cfg) (recovered h vm) p2, w3))
      | (Fail e, w3) \<Rightarrow> \<exists>e'. RecoverTask env (Some nh) (p2, w2) = (Fail e', (p2, w3))
          \<and> (is_err ErrNotFound e \<longrightarrow> e' = ErrTaskNotFound)
      | (Panic x, w3) \<Rightarrow> RecoverTask env (Some nh) (p2, w2) = (Panic x, (p2, w3))"
    by (auto split: prod.splits res.splits)
  moreover have "\<forall>t rm rules tables w. th_netTeardown h = Some t \<longrightarrow> ts_FilterRemoval t = Some rm \<longrightarrow> fr_Data rm = RulesData rules
        \<longrightarrow> (\<exists>t' e. th_netTeardown (recovered h vm) = Some t' \<and> Teardown tables (ts_FilterRemoval t') w = (Fail e, w))"
    by (simp add: recovered_def decoded_spec_def decoded_removal_def Teardown_def throw_def)
  ultimately show ?thesis using h(2) by (intro exI [of _ h] conjI)
qed

theorem RecoverTask_restores_witness:
  "\<exists>nh p1 p2 w. StartTask toy_env toy_task (toy_plugin False, empty_memory) = (Ok nh, (p1, w))
    \<and> RecoverTask toy_env (Some nh) (toy_plugin False, w) = (Ok (), (p2, w))
    \<and> th_procState (pl_heap p2 0) = TaskStateRunning \<and> th_taskConfig (pl_heap p2 0) = Some toy_task
    \<and> th_taskConfig (pl_heap p1 0) = Some toy_task"
proof -
  have pl: "pl_tasks (toy_plugin b) i = None" "pl_providers (toy_plugin b) = toy_providers b" "pl_next (toy_plugin b) = 0" for b i
    by (simp_all add: toy_plugin_def NewPlugin_def newTaskStore_def)
  have w: "mem_doms empty_memory ''vm'' = None" "toy_volume \<notin> mem_vols empty_memory" by (simp_all add: empty_memory_def)
  let ?w = "started (with_volume ''vm_vda.img'' empty_memory)"
  obtain nh p1 where start: "StartTask toy_env toy_task (toy_plugin False, empty_memory) = (Ok nh, (p1, ?w))"
    unfolding toy_StartTask [OF pl(1,2)] using toy_start_disks(2) [OF w] toy_dc_simps(1) by fastforce
  have vm: "providers_GetVM (pl_providers (toy_plugin False)) ''vm'' ?w = (Ok (in_state VMStateRunning), ?w)"
    by (simp add: pl providers_GetVM_def toy_providers_def iobind_apply toy_find ret_apply started_def del: find_vm.simps)
  have codec: "\<forall>st x. e_encodeState toy_env st = Ok x \<longrightarrow> e_decodeState toy_env x = Ok (decoded_state st)"
    by (simp add: toy_env_def)
  from RecoverTask_restores [OF start pl(1) codec, of False ?w "in_state VMStateRunning"] obtain h where
    h: "p1 = put_handle (tc_ID toy_task) h (toy_plugin False)"
    "RecoverTask toy_env (Some nh) (toy_plugin False, ?w)
      = (Ok (), (put_handle (tc_ID toy_task) (recovered h (in_state VMStateRunning)) (toy_plugin False), ?w))"
    using vm by (auto simp: toy_name)
  have heap: "pl_heap (put_handle i k (toy_plugin False)) 0 = k" for i k by (simp add: put_handle_def pl)
  from StartTask_adds(2) [OF start] obtain k where "p1 = put_handle (tc_ID toy_task) k (toy_plugin False)"
    "th_taskConfig k = Some toy_task" by (auto simp: registers_def fresh_handle_def)
  with h(1) heap have "th_taskConfig h = Some toy_task" by metis
  with start h show ?thesis
    by (auto simp: put_handle_def recovered_def in_state_def ToTaskState_def pl intro!: exI [of _ nh] exI [of _ ?w])
qed

end
