(* ===== verification/Network.thy ===== *)
theory Network
  imports LibvirtNet
begin

text \<open>
  The network controller over the packet filter of iptables: what its calls leave alone, and that
  tearing down what was built for a machine leaves the reservations and the firewall as they were
  before. The filter and the controller are proved on their own in \<open>VirtTables\<close> and \<open>LibvirtNet\<close>.
\<close>

section \<open>What the controller leaves alone\<close>

definition netcall_steps :: "('w \<Rightarrow> 'w \<Rightarrow> bool) \<Rightarrow> 'w netcalls \<Rightarrow> bool" where
  "netcall_steps R n \<longleftrightarrow> (\<forall>i. steps R (nw_IsActive n i)) \<and> (\<forall>i. steps R (nw_GetBridgeName n i))
     \<and> (\<forall>i. steps R (nw_GetDHCPLeases n i)) \<and> (\<forall>i h. steps R (nw_AddHost n i h)) \<and> (\<forall>i h. steps R (nw_DeleteHost n i h))
     \<and> (\<forall>i. steps R (nw_Hosts n i)) \<and> (\<forall>b p. steps R (nw_SendRelease n b p))"

definition filter_steps :: "('w \<Rightarrow> 'w \<Rightarrow> bool) \<Rightarrow> 'w packet_filter \<Rightarrow> bool" where
  "filter_steps R f \<longleftrightarrow> (\<forall>r b ip. steps R (nf_Configure f r b ip)) \<and> (\<forall>rm. steps R (nf_Teardown f rm))"

text \<open>All calls but those of the filter, and all calls.\<close>

definition network_steps :: "('w \<Rightarrow> 'w \<Rightarrow> bool) \<Rightarrow> 'w controller \<Rightarrow> bool" where
  "network_steps R c \<longleftrightarrow> netcall_steps R (ct_calls c) \<and> steps R (nc_ListNetworks (ct_netConn c))
     \<and> (\<forall>n. steps R (nc_LookupNetworkByName (ct_netConn c) n))"

definition controller_steps :: "('w \<Rightarrow> 'w \<Rightarrow> bool) \<Rightarrow> 'w controller \<Rightarrow> bool" where
  "controller_steps R c \<longleftrightarrow> network_steps R c \<and> (\<forall>f. ct_filter c = Some f \<longrightarrow> filter_steps R f)"

lemma network_stepsD:
  assumes "network_steps R c"
  shows "steps R (nc_ListNetworks (ct_netConn c))" "steps R (nc_LookupNetworkByName (ct_netConn c) n)"
    "steps R (nw_IsActive (ct_calls c) i)" "steps R (nw_GetBridgeName (ct_calls c) i)" "steps R (nw_GetDHCPLeases (ct_calls c) i)"
    "steps R (nw_AddHost (ct_calls c) i h)" "steps R (nw_DeleteHost (ct_calls c) i h)" "steps R (nw_Hosts (ct_calls c) i)"
    "steps R (nw_SendRelease (ct_calls c) b q)"
  using assms unfolding network_steps_def netcall_steps_def by iprover+

lemma network_frame:
  assumes R: "preorder R" and c: "network_steps R c"
  shows "steps R (networkNameFromBridgeName c n)" "steps R (discoverDHCPLeaseIP c n h macs)"
    "steps R (reserveIP c n ip h mac)" "steps R (removeIPReservation c n r)" "steps R (releaseDHCPLease c n r)"
proof -
  note rules = steps_intros R network_stepsD [OF c]
  show "steps R (networkNameFromBridgeName c n)" for n
    unfolding networkNameFromBridgeName_def by (intro rules find_bridge_steps)
  show "steps R (discoverDHCPLeaseIP c n h macs)"
    unfolding discoverDHCPLeaseIP_def by (intro discover_loop_steps R rules)
  show "steps R (reserveIP c n ip h mac)" unfolding reserveIP_def by (intro rules)
  have "steps R (ipReservationExists c n r)" for n r unfolding ipReservationExists_def by (intro rules)
  then show "steps R (removeIPReservation c n r)" unfolding removeIPReservation_def by (intro rules)
  show "steps R (releaseDHCPLease c n r)"
    unfolding releaseDHCPLease_def by (intro rules) (use R in \<open>simp add: steps_def preorder_def\<close>)
qed

lemma attempted_steps: "preorder R \<Longrightarrow> steps R m \<Longrightarrow> steps R (attempt m)"
  unfolding attempt_def by (intro steps_intros)

lemma reservation_frame:
  assumes "preorder R" and "network_steps R c"
  shows "steps R (teardown_reservation c ts es)"
  unfolding teardown_reservation_def by (intro steps_intros attempted_steps network_frame assms)

lemma net_frame:
  assumes R: "preorder R" and c: "controller_steps R c"
  shows "steps R (VMStartedBuild c q)" "steps R (VMTerminatedTeardown c t)"
proof -
  have n: "network_steps R c" using c by (simp add: controller_steps_def)
  note rules = steps_intros R network_stepsD [OF n] network_frame [OF R n] reservation_frame [OF R n] attempted_steps
  have filt: "steps R (filter_Configure c r b ip)" "steps R (filter_Teardown c rm)" for r b ip rm
    using c R by (auto simp: filter_Configure_def filter_Teardown_def controller_steps_def filter_steps_def
        steps_lift split: option.split)
  have build: "steps R (build_interface c req ni)" for req ni
    unfolding build_interface_def by (auto split: option.split simp del: if_split intro!: rules filt)
  show "steps R (VMStartedBuild c q)"
    unfolding VMStartedBuild_def by (auto split: option.split list.split intro!: rules build)
  have "steps R (teardown_filter c ts)" for ts
    unfolding teardown_filter_def by (auto split: option.split intro!: rules filt)
  then show "steps R (VMTerminatedTeardown c t)"
    unfolding VMTerminatedTeardown_def by (auto split: option.split intro!: rules)
qed

text \<open>The filter of iptables leaves alone what the calls of the package leave alone.\<close>

definition ipt_steps :: "('w \<Rightarrow> 'w \<Rightarrow> bool) \<Rightarrow> 'w IPTables \<Rightarrow> bool" where
  "ipt_steps R i \<longleftrightarrow> (\<forall>t c s. steps R (ipt_AppendUnique i t c s)) \<and> (\<forall>t c. steps R (ipt_ChainExists i t c))
     \<and> (\<forall>t c. steps R (ipt_ClearAndDeleteChain i t c)) \<and> (\<forall>t c s. steps R (ipt_DeleteIfExists i t c s))
     \<and> (\<forall>t c n s. steps R (ipt_InsertUnique i t c n s)) \<and> (\<forall>t c. steps R (ipt_NewChain i t c))"

lemma ipt_stepsD:
  assumes "ipt_steps R i"
  shows "steps R (ipt_AppendUnique i t c s)" "steps R (ipt_ChainExists i t c)" "steps R (ipt_ClearAndDeleteChain i t c)"
    "steps R (ipt_DeleteIfExists i t c s)" "steps R (ipt_InsertUnique i t c n s)" "steps R (ipt_NewChain i t c)"
  using assms unfolding ipt_steps_def by iprover+

lemma filter_frame:
  assumes R: "preorder R" and i: "ipt_steps R (vt_ipt n)"
  shows "filter_steps R (iptables_filter n)"
proof -
  note rules = steps_intros R ipt_stepsD [OF i]
  have each: "steps R (iofor xs f)" if "\<And>x. steps R (f x)" for xs and f :: "'x \<Rightarrow> ('a, unit) io"
    by (induction xs) (auto intro!: rules that)
  have add: "steps R (vt_add n req)" for req
    unfolding vt_add_def add_chain_def add_rule_def by (intro rules each)
  have "steps R (remove_rules (vt_ipt n) rs es)" for rs es
    by (induction rs arbitrary: es) (auto simp del: if_split intro!: rules)
  moreover have "steps R (remove_chains (vt_ipt n) cs es)" for cs es
    by (induction cs arbitrary: es) (auto intro!: rules)
  ultimately have remove: "steps R (vt_remove n req)" for req unfolding vt_remove_def Let_def by (intro rules)
  have "steps R (Configure n res cfg ip)" for res cfg ip
    using R stepsD [OF add] unfolding steps_def Configure_def
    by (auto simp: iobind_apply lift_def ret_def throw_def preorder_def split: option.splits res.splits prod.splits)
  moreover have "steps R (Teardown n rm)" for rm
    unfolding Teardown_def by (auto split: option.split removal_data.split intro!: rules remove)
  ultimately show ?thesis by (simp add: filter_steps_def iptables_filter_def)
qed

section \<open>What a build leaves behind\<close>

text \<open>
  The host as the network of a machine sees it: its DHCP reservations, its firewall, the filter and
  the calls on networks. A controller on it has that filter and those calls, which behave as documented;
  the calls on networks leave the firewall alone, the filter the reservations, and networks have names.
\<close>

record 'w host_net =
  hn_hosts :: "'w \<Rightarrow> string \<Rightarrow> dhcphost list"
  hn_view :: "'w \<Rightarrow> fw"
  hn_tables :: "'w virtTables"
  hn_calls :: "'w netcalls"

definition observed :: "'w host_net \<Rightarrow> 'w \<Rightarrow> (string \<Rightarrow> dhcphost list) \<times> fw" where
  "observed N w = (hn_hosts N w, hn_view N w)"

definition network_laws :: "'w host_net \<Rightarrow> 'w controller \<Rightarrow> bool" where
  "network_laws N c \<longleftrightarrow> ct_calls c = hn_calls N \<and> ct_filter c = Some (iptables_filter (hn_tables N))
     \<and> net_laws (hn_hosts N) c \<and> update_laws (hn_hosts N) c \<and> ipt_laws (hn_view N) (vt_ipt (hn_tables N))
     \<and> network_steps (same (hn_view N)) c \<and> (\<forall>w ns w'. nc_ListNetworks (ct_netConn c) w = (Ok ns, w') \<longrightarrow> [] \<notin> set ns)"

lemma network_lawsD:
  assumes "network_laws N c"
  shows "ct_calls c = hn_calls N" "ct_filter c = Some (iptables_filter (hn_tables N))" "net_laws (hn_hosts N) c"
    "update_laws (hn_hosts N) c" "ipt_laws (hn_view N) (vt_ipt (hn_tables N))" "network_steps (same (hn_view N)) c"
    "nc_ListNetworks (ct_netConn c) w = (Ok ns, w') \<Longrightarrow> [] \<notin> set ns"
  using assms unfolding network_laws_def by blast+

text \<open>
  What a build asks for is not there yet: no reservation has its host name, its ports are routed, and
  no rule of a forward of them is in the firewall, whatever address the machine gets.
\<close>

definition unused :: "'w host_net \<Rightarrow> VMStartedBuildRequest \<Rightarrow> 'w \<Rightarrow> bool" where
  "unused N req w \<longleftrightarrow> (\<forall>n h. h \<in> set (hn_hosts N w n) \<longrightarrow> dh_Name h \<noteq> br_Hostname req)
     \<and> (\<forall>ni bridge res ports. ni \<in> set (nics (br_NetConfig req)) \<longrightarrow> ni_Bridge ni = Some bridge \<longrightarrow>
          br_Resources req = Some res \<longrightarrow> res_Ports res = Some ports \<longrightarrow> list_all (routed_port ports) (br_Ports bridge)
          \<and> (\<forall>ip w' im rq r. configure_ports (hn_tables N) ports ip w' (br_Ports bridge) (Map.empty, newRequest) = Ok (im, rq)
              \<longrightarrow> r \<in> set (rq_rules rq) \<longrightarrow> absent r (hn_view N w)))"

lemma find_bridge_listed: "find_bridge c name ns w = (Ok n, w') \<Longrightarrow> n \<in> set ns"
  by (induction ns arbitrary: w) (auto simp: throw_def iobind_Ok ret_def split: if_splits)

lemma Teardown_plain:
  assumes "ipt_laws view (vt_ipt n)"
  shows "Teardown n rm w \<noteq> (Fail (MultiErr []), w')"
proof
  assume run: "Teardown n rm w = (Fail (MultiErr []), w')"
  then obtain req where "vt_remove n req w = (Fail (MultiErr []), w')"
    by (auto simp: Teardown_def ret_def throw_def split: option.splits removal_data.splits)
  from vt_remove_fw [OF assms this] show False by (auto simp: of_err_def err_or_nil_def split: if_splits)
qed

text \<open>The view of the filter's calls on the firewall, for a forward that was configured.\<close>

lemma forward_undone:
  assumes laws: "ipt_laws view (vt_ipt n)" and conf: "Configure n (Some res) (Some bridge) ip w = (Ok rm, w1)"
    and fresh: "\<And>ports. res_Ports res = Some ports \<Longrightarrow> list_all (routed_port ports) (br_Ports bridge)
      \<and> (\<forall>im rq r. configure_ports n ports ip w (br_Ports bridge) (Map.empty, newRequest) = Ok (im, rq) \<longrightarrow>
          r \<in> set (rq_rules rq) \<longrightarrow> absent r (view w))"
    and down: "Teardown n (Some rm) w2 = (Ok (), w3)" and same: "view w2 = view w1"
  shows "view w3 = view w"
proof (cases "res_Ports res")
  case None
  with conf have "rm = \<lparr>fr_Name = removalName, fr_Data = NilData\<rparr> \<and> w1 = w" by (auto simp: Configure_def ret_def)
  with down same show ?thesis by (simp add: Teardown_def ret_def)
next
  case (Some ports)
  then have res: "res = \<lparr>res_Ports = Some ports\<rparr>" by (cases res) simp
  have routed: "routed_only rq" if "configure_ports n ports ip w (br_Ports bridge) (Map.empty, newRequest) = Ok (im, rq)" for im rq
    using configure_ports_built [OF _ that] fresh [OF Some] by simp
  have "\<exists>im rq. configure_ports n ports ip w (br_Ports bridge) (Map.empty, newRequest) = Ok (im, rq)
      \<and> view w3 = fw_add (rq_chains rq) (filter (\<lambda>r. \<not> r_removable r) (rq_rules rq)) (view w)"
  proof (rule configured_undone [OF laws conf [unfolded res] _ down same])
    fix im rq r assume rq: "configure_ports n ports ip w (br_Ports bridge) (Map.empty, newRequest) = Ok (im, rq)"
      and r: "r \<in> set (rq_rules rq)"
    from fresh [OF Some] rq r routed [OF rq] show "absent r (fold fw_chain (rq_chains rq) (view w))"
      by (simp add: routed_only_def)
  qed
  then obtain im rq where rq: "configure_ports n ports ip w (br_Ports bridge) (Map.empty, newRequest) = Ok (im, rq)"
    and v: "view w3 = fw_add (rq_chains rq) (filter (\<lambda>r. \<not> r_removable r) (rq_rules rq)) (view w)" by blast
  from routed [OF rq] v show ?thesis by (simp add: routed_only_def fw_add_def)
qed

lemma teardown_forward:
  assumes laws: "network_laws N c" and rm: "ts_FilterRemoval ts = Some rm"
    and run: "VMTerminatedTeardown c (Some (Some ts)) w = (Ok (), w')"
  shows "\<exists>w1. Teardown (hn_tables N) (Some rm) w = (Ok (), w1) \<and> hn_view N w' = hn_view N w1"
proof -
  note law = network_lawsD [OF laws]
  from run rm obtain e w1 es where f: "attempt (filter_Teardown c (Some rm)) w = (Ok e, w1)"
    and r: "teardown_reservation c ts (mappend [] e) w1 = (Ok es, w')" and none: "err_or_nil es = None"
    by (auto simp: VMTerminatedTeardown_def teardown_filter_def iobind_Ok ret_def lift_def of_err_def split: option.splits)
  from stepsD [OF reservation_frame [OF preorder_same law(6)] r] have view: "hn_view N w' = hn_view N w1"
    by (simp add: same_def)
  from r none have none: "mappend [] e = []"
    by (auto simp: teardown_reservation_def ret_def iobind_Ok split: if_splits)
  have flt: "filter_Teardown c (Some rm) = Teardown (hn_tables N) (Some rm)"
    by (simp add: filter_Teardown_def law(2) iptables_filter_def)
  from f show ?thesis
  proof (cases rule: attempt_cases)
    case Ok
    with flt view show ?thesis by auto
  next
    case (Fail x)
    with none flt Teardown_plain [OF law(5)] show ?thesis by auto
  qed simp
qed

text \<open>
  The forwards and the reservation of one build, removed by a controller on the same host, whatever
  happened in between that left them as they were.
\<close>

lemma forwards_undone:
  assumes laws: "network_laws N c" "network_laws N c'" and new: "unused N req w"
    and ni: "ni \<in> set (nics (br_NetConfig req))" "br_Resources req = Some res"
    and build: "build_interface c req ni w = (Ok resp, w1)" and spec: "bs_TeardownSpec resp = Some ts"
    and same: "hn_view N w2 = hn_view N w1" and down: "VMTerminatedTeardown c' (Some (Some ts)) w2 = (Ok (), w3)"
  shows "hn_view N w3 = hn_view N w"
proof -
  note law = network_lawsD [OF laws(1)]
  note frame = network_frame [OF preorder_same law(6)]
  from build_interface_parts [OF build] obtain b n v1 m v2 ip mac v3 entry v4 rm where b: "ni_Bridge ni = Some b"
    and parts: "networkNameFromBridgeName c (br_Name b) w = (Ok n, v1)"
      "nc_LookupNetworkByName (ct_netConn c) n v1 = (Ok m, v2)"
      "discoverDHCPLeaseIP c m (br_Hostname req) (br_Hwaddrs req) v2 = (Ok (ip, mac), v3)"
      "iotry (reserveIP c m ip (br_Hostname req) mac) ret (\<lambda>e. ret []) v3 = (Ok entry, v4)"
    and conf: "filter_Configure c (br_Resources req) (ni_Bridge ni) ip v4 = (Ok rm, w1)"
    and resp: "resp = \<lparr>bs_DriverNetwork_IP = Some ip, bs_TeardownSpec =
      Some \<lparr>ts_FilterRemoval = Some rm, ts_DHCPReservation = entry, ts_Network = n\<rparr>\<rparr>" by blast
  have "steps (same (hn_view N)) (iotry (reserveIP c m ip (br_Hostname req) mac) ret (\<lambda>e. ret []))"
    by (intro steps_intros preorder_same frame)
  from stepsD [OF this parts(4)] stepsD [OF frame(1) parts(1)] stepsD [OF network_stepsD(2) [OF law(6)] parts(2)]
    stepsD [OF frame(2) parts(3)] have v4: "hn_view N v4 = hn_view N w" by (simp add: same_def)
  have conf: "Configure (hn_tables N) (Some res) (Some b) ip v4 = (Ok rm, w1)"
    using conf ni(2) b by (simp add: filter_Configure_def law(2) iptables_filter_def)
  obtain w4 where t: "Teardown (hn_tables N) (Some rm) w2 = (Ok (), w4)" "hn_view N w3 = hn_view N w4"
    using teardown_forward [OF laws(2) _ down] resp spec by auto
  have "hn_view N w4 = hn_view N v4"
  proof (rule forward_undone [OF law(5) conf _ t(1) same])
    fix ports assume "res_Ports res = Some ports"
    with new ni b show "list_all (routed_port ports) (br_Ports b)
      \<and> (\<forall>im rq r. configure_ports (hn_tables N) ports ip v4 (br_Ports b) (Map.empty, newRequest) = Ok (im, rq) \<longrightarrow>
        r \<in> set (rq_rules rq) \<longrightarrow> absent r (hn_view N v4))"
      unfolding unused_def v4 by blast
  qed
  with t(2) v4 show ?thesis by simp
qed

lemma reservation_undone:
  assumes laws: "network_laws N c" "network_laws N c'" and new: "unused N req w"
    and build: "build_interface c req ni w = (Ok resp, w1)" and spec: "bs_TeardownSpec resp = Some ts"
    and same: "hn_hosts N w2 = hn_hosts N w1" and down: "VMTerminatedTeardown c' (Some (Some ts)) w2 = (Ok (), w3)"
  shows "hn_hosts N w3 = hn_hosts N w"
proof -
  note law = network_lawsD [OF laws(1)] and law' = network_lawsD [OF laws(2)]
  from build have named: "ts_Network ts \<noteq> []"
    by (rule build_interface_parts)
      (use spec law(7) in \<open>auto simp: networkNameFromBridgeName_def iobind_Ok dest!: find_bridge_listed\<close>)
  note gone = VMTerminatedTeardown_result [OF law'(3,4) named down]
  from build_interface_result [OF law(3,4) build] spec obtain mac ip where
    "ts_DHCPReservation ts = [] \<and> hn_hosts N w1 = hn_hosts N w
     \<or> ts_DHCPReservation ts \<noteq> [] \<and> (let h = \<lparr>dh_IP = ip, dh_MAC = mac, dh_Name = br_Hostname req\<rparr> in
      nw_Unmarshal (ct_calls c) (ts_DHCPReservation ts) = Ok h
      \<and> hn_hosts N w1 = (hn_hosts N w)(ts_Network ts := hn_hosts N w (ts_Network ts) @ [h]))"
    by auto
  then show ?thesis
  proof (elim disjE conjE)
    assume "ts_DHCPReservation ts = []" "hn_hosts N w1 = hn_hosts N w"
    with gone(1) same show ?thesis by simp
  next
    let ?h = "\<lparr>dh_IP = ip, dh_MAC = mac, dh_Name = br_Hostname req\<rparr>" and ?n = "ts_Network ts"
    assume e: "ts_DHCPReservation ts \<noteq> []" "let h = ?h in nw_Unmarshal (ct_calls c) (ts_DHCPReservation ts) = Ok h
      \<and> hn_hosts N w1 = (hn_hosts N w)(?n := hn_hosts N w ?n @ [h])"
    have "?h \<notin> set (hn_hosts N w ?n)" using new unfolding unused_def by fastforce
    then have "filter (\<lambda>x. x \<noteq> ?h) (hn_hosts N w ?n) = hn_hosts N w ?n" by (auto intro: filter_True)
    with gone(2) [of ?h] e same law(1) law'(1) show ?thesis by (simp add: Let_def)
  qed
qed

lemma build_undone:
  assumes laws: "network_laws N c" "network_laws N c'" and new: "unused N req w"
    and build: "VMStartedBuild c (Some req) w = (Ok resp, w1)" and same: "observed N w2 = observed N w1"
    and down: "VMTerminatedTeardown c' (Some (bs_TeardownSpec resp)) w2 = (Ok (), w3)"
  shows "observed N w3 = observed N w"
  using build
proof (cases rule: VMStartedBuild_parts)
  case 1
  with down same show ?thesis by (simp add: empty_response_def VMTerminatedTeardown_def ret_def)
next
  case (2 ni res)
  from 2(3) obtain ts where ts: "bs_TeardownSpec resp = Some ts" by (rule build_interface_parts) simp
  have "hn_view N w2 = hn_view N w1" "hn_hosts N w2 = hn_hosts N w1" using same by (simp_all add: observed_def)
  from forwards_undone [OF laws new 2(2,1,3) ts this(1)] reservation_undone [OF laws new 2(3) ts this(2)] down ts
  show ?thesis by (simp add: observed_def)
qed

end
