(* ===== verification/TaskNetwork.thy ===== *)
theory TaskNetwork
  imports DriverTasks Network
begin

text \<open>
  The whole life of a task: what the driver builds on the host when a task is started (the machine, the
  reservation of its address, the forwards of its ports) is taken away again when it is destroyed, over
  any virtualizer whose network controller has the packet filter of iptables.
\<close>

section \<open>The contract of the network\<close>

text \<open>
  Machines, volumes and queries leave the reservations and the firewall alone; the network of the
  virtualizer is a controller on the host.
\<close>

definition tidy_laws :: "'w host_net \<Rightarrow> 'w virtualizer \<Rightarrow> bool" where
  "tidy_laws N z \<longleftrightarrow> (\<forall>c. steps (same (observed N)) (z_CreateVM z c)) \<and> (\<forall>n. steps (same (observed N)) (z_DestroyVM z n))
     \<and> (\<forall>n. steps (same (observed N)) (z_GetVM z n)) \<and> (\<forall>n. steps (same (observed N)) (z_GetNetworkInterfaces z n))
     \<and> (\<forall>c m. steps (same (observed N)) (z_GenerateMountCommands z c m)) \<and> storage_frame (same (observed N)) (z_Storage z)
     \<and> steps (same (observed N)) (z_Networking z)
     \<and> (\<forall>w net w'. z_Networking z w = (Ok net, w') \<longrightarrow> (\<exists>c. net = controller_net c \<and> network_laws N c))"

lemma tidyD:
  assumes "tidy_laws N z"
  shows "steps (same (observed N)) (z_CreateVM z c)" "steps (same (observed N)) (z_DestroyVM z n)"
    "steps (same (observed N)) (z_GetVM z n)" "steps (same (observed N)) (z_GetNetworkInterfaces z n)"
    "steps (same (observed N)) (z_GenerateMountCommands z c' m)" "storage_frame (same (observed N)) (z_Storage z)"
    "steps (same (observed N)) (z_Networking z)"
    "z_Networking z w = (Ok net, w') \<Longrightarrow> \<exists>c. net = controller_net c \<and> network_laws N c"
  using assms unfolding tidy_laws_def by (iprover | blast)+

text \<open>The request for the network of a task, of whatever interfaces its machine has got.\<close>

definition task_request :: "'w env \<Rightarrow> TaskConfig \<Rightarrow> VMStartedBuildRequest \<Rightarrow> bool" where
  "task_request env cfg q \<longleftrightarrow> (\<exists>dcfg. e_decode env cfg = Ok dcfg
     \<and> br_Hostname q = task_hostname dcfg (vmNameFromTaskID (tc_ID cfg)) \<and> br_Resources q = tc_Resources cfg
     \<and> br_NetConfig q = bridge_only (fst (Interfaces_Validate (vt_NetworkInterfacesConfig dcfg))))"

section \<open>What a start builds\<close>

text \<open>A start that succeeds has built one network, and its handle has what tears it down.\<close>

definition net_started ::
  "'w host_net \<Rightarrow> 'w env \<Rightarrow> TaskConfig \<Rightarrow> NomadHandle res \<Rightarrow> 'w plugin \<times> 'w \<Rightarrow> 'w plugin \<times> 'w \<Rightarrow> bool" where
  "net_started N env cfg r s s' \<longleftrightarrow> (case r of
     Ok nh \<Rightarrow> \<exists>c q w resp w' h. network_laws N c \<and> task_request env cfg q \<and> VMStartedBuild c (Some q) w = (Ok resp, w')
       \<and> observed N w = observed N (snd s) \<and> observed N w' = observed N (snd s')
       \<and> th_name h = vmNameFromTaskID (tc_ID cfg) \<and> th_netTeardown h = bs_TeardownSpec resp
       \<and> fst s' = put_handle (tc_ID cfg) h (fst s)
   | _ \<Rightarrow> True)"

lemma settled_net_started: "settled (quiet (observed N)) (net_started N env cfg)"
  by (auto simp: settled_def net_started_def quiet_def failed_def split: res.splits)

lemma build_registered:
  assumes laws: "network_laws N c" and q: "task_request env cfg q"
  shows "outcomes (net_started N env cfg)
    (iobind (iotry (on_world (VMStartedBuild c (Some q))) ret (\<lambda>e. iotry m (\<lambda>_. throw (f e)) (\<lambda>_. throw (f e))))
      (register_task env cfg))"
  unfolding outcomes_def
proof (intro allI impI)
  fix s r s' assume run: "iobind (iotry (on_world (VMStartedBuild c (Some q))) ret
      (\<lambda>e. iotry m (\<lambda>_. throw (f e)) (\<lambda>_. throw (f e)))) (register_task env cfg) s = (r, s')"
  show "net_started N env cfg r s s'"
  proof (cases r)
    case (Ok nh)
    with run obtain resp s1 where 1: "iotry (on_world (VMStartedBuild c (Some q))) ret
        (\<lambda>e. iotry m (\<lambda>_. throw (f e)) (\<lambda>_. throw (f e))) s = (Ok resp, s1)"
      and 2: "register_task env cfg resp s1 = (Ok nh, s')" by (auto simp: iobind_Ok)
    from iotry_rethrow [OF 1] have "on_world (VMStartedBuild c (Some q)) s = (Ok resp, s1)" .
    note build = on_world_run [OF this]
    from 2 build have "snd s' = snd s1 \<and> fst s' = put_handle (tc_ID cfg) (new_handle env cfg (snd s1) (bs_TeardownSpec resp)) (fst s)"
      by (cases s1) (auto simp: register_task_def Let_def split: res.splits)
    moreover have "th_name (new_handle env cfg w td) = vmNameFromTaskID (tc_ID cfg)"
      "th_netTeardown (new_handle env cfg w td) = td" for w td by (simp_all add: new_handle_def)
    ultimately show ?thesis using laws q build unfolding net_started_def Ok by (simp only: res.case) metis
  qed (simp_all add: net_started_def)
qed

lemma start_vm_net:
  assumes z: "tidy_laws N z" and cfg: "e_decode env cfg = Ok dcfg" and dc: "task_vm cfg dcfg dc"
  shows "outcomes (net_started N env cfg) (iobind (start_vm z cfg dc) (register_task env cfg))"
proof -
  note Q = settled_net_started [of N env cfg] and quiet = quiet_wrap [where obs = "observed N"]
  have built: "outcomes (net_started N env cfg)
    (iobind (iotry (on_world (nt_VMStartedBuild net (Some \<lparr>br_VMName = vm_Name dc, br_Hostname = vm_HostName dc,
         br_NetConfig = bridge_only (vm_NetworkInterfaces dc), br_Resources = tc_Resources cfg,
         br_Hwaddrs = map nic_MAC ifaces\<rparr>))) ret
       (\<lambda>e. iotry m (\<lambda>_. throw (f e)) (\<lambda>_. throw (f e)))) (register_task env cfg))"
    if net: "\<exists>c. net = controller_net c \<and> network_laws N c" for net ifaces m f
  proof -
    from net obtain c where "net = controller_net c" "network_laws N c" by blast
    then show ?thesis using dc cfg
      by (simp add: controller_net_def build_registered task_request_def task_vm_def)
  qed
  show ?thesis unfolding start_vm_def iobind_assoc Let_def
    by (rule outcomes_bind [OF Q quiet [OF tidyD(7) [OF z]]], rule outcomes_bind [OF Q quiet [OF tidyD(1) [OF z]]],
        rule outcomes_bind [OF Q quiet [OF tidyD(4) [OF z]]], rule built)
      (auto dest!: start_wrap_Ok intro: tidyD(8) [OF z])
qed

lemma StartTask_net:
  assumes ps: "provide (observed N) (tidy_laws N) (pl_providers (fst s))"
    and h: "host_steps (same (observed N)) (e_host env)" and c: "iso_steps (same (observed N)) (e_ci env)"
    and run: "StartTask env cfg s = (r, s')"
  shows "net_started N env cfg r s s'"
proof -
  note d = provide_default [OF ps]
  have "net_started N env cfg r s s' \<and> (pl_tasks (fst s) (tc_ID cfg) \<noteq> None \<longrightarrow> failed r \<and> s' = s)"
  proof (rule StartTask_by [OF settled_net_started d(1) _ _ run])
    fix w z w' assume "providers_Default (pl_providers (fst s)) w = (Ok z, w')"
    then have z: "tidy_laws N z" by (rule d(2))
    then show "start_quiet (observed N) env z" by (simp add: start_quiet_def h c tidyD)
    fix dcfg assume "e_decode env cfg = Ok dcfg"
    then show "machine_outcomes (net_started N env cfg) env cfg dcfg z"
      unfolding machine_outcomes_def by (intro allI impI start_vm_net [OF z])
  qed
  then show ?thesis ..
qed

section \<open>What a destruction tears down\<close>

lemma DestroyTask_net:
  assumes ps: "provide (observed N) (tidy_laws N) (pl_providers (fst s))" and i: "pl_tasks (fst s) i = Some h"
    and run: "DestroyTask i force s = (Ok (), s')"
  shows "\<exists>c w. network_laws N c \<and> observed N w = observed N (snd s)
    \<and> VMTerminatedTeardown c (Some (th_netTeardown (pl_heap (fst s) h))) w = (Ok (), snd s')"
proof -
  from DestroyTask_runs [OF i run] obtain z w1 net w2 w3 where
    runs: "GetProviderForVM (pl_providers (fst s)) (vmNameFromTaskID i) (snd s) = (Ok z, w1)" "z_Networking z w1 = (Ok net, w2)"
      "z_DestroyVM z (vmNameFromTaskID i) w2 = (Ok (), w3)"
      "nt_VMTerminatedTeardown net (Some (th_netTeardown (pl_heap (fst s) h))) w3 = (Ok (), snd s')" by blast
  from GetProviderForVM_gives(2) [OF ps tidyD(3) runs(1)] have z: "tidy_laws N z" "observed N w1 = observed N (snd s)"
    by blast+
  from tidyD(8) [OF z(1) runs(2)] obtain c where c: "net = controller_net c" "network_laws N c" by blast
  moreover from stepsD [OF tidyD(7) [OF z(1)] runs(2)] stepsD [OF tidyD(2) [OF z(1)] runs(3)] z(2)
  have "observed N w3 = observed N (snd s)" by (simp add: same_def)
  ultimately show ?thesis using runs(4) by (auto simp: controller_net_def)
qed

lemma unused_observed: "observed N w' = observed N w \<Longrightarrow> unused N q w \<Longrightarrow> unused N q w'"
  unfolding unused_def observed_def by (elim conjE, intro conjI) simp_all

end
