(* ===== verification/TaskVolumes.thy ===== *)
theory TaskVolumes
  imports DriverTasks
begin

text \<open>
  The volumes of a task from its start to its destruction, over any virtualizer that remembers which
  volumes a machine was created with: the volumes that were generated for the disks of the task are the
  ones that destroying it deletes.
\<close>

section \<open>The contract of the volumes\<close>

text \<open>
  \<open>att w n\<close> are the volumes the machine \<open>n\<close> is known to have. A created machine has those of its
  configuration, and destroying a machine deletes the volumes it has. Queries and the network leave
  volumes and machines alone, and the storage leaves machines alone.
\<close>

type_synonym 'w attachments = "'w \<Rightarrow> string \<Rightarrow> volh set option"

definition volumes_seen :: "('w \<Rightarrow> volh set) \<Rightarrow> 'w attachments \<Rightarrow> 'w \<Rightarrow> volh set \<times> (string \<Rightarrow> volh set option)" where
  "volumes_seen vols att w = (vols w, att w)"

definition volume_laws :: "('w \<Rightarrow> volh set) \<Rightarrow> 'w attachments \<Rightarrow> 'w virtualizer \<Rightarrow> bool" where
  "volume_laws vols att z \<longleftrightarrow> pools_ok vols (z_Storage z) \<and> storage_frame (same att) (z_Storage z)
     \<and> (\<forall>c w w'. z_CreateVM z c w = (Ok (), w') \<longrightarrow> vm_XMLConfig c = [] \<longrightarrow>
          att w' = (att w)(vm_Name c \<mapsto> attached (vm_Volumes c)))
     \<and> (\<forall>n w w' S. z_DestroyVM z n w = (Ok (), w') \<longrightarrow> att w n = Some S \<longrightarrow> vols w' = vols w - S)
     \<and> (\<forall>n. steps (same (volumes_seen vols att)) (z_GetVM z n)) \<and> (\<forall>n. steps (same att) (z_GetNetworkInterfaces z n))
     \<and> (\<forall>c m. steps (same att) (z_GenerateMountCommands z c m)) \<and> steps (same (volumes_seen vols att)) (z_Networking z)
     \<and> (\<forall>w net w'. z_Networking z w = (Ok net, w') \<longrightarrow> (\<forall>q. steps (same (volumes_seen vols att)) (nt_VMStartedBuild net q))
          \<and> (\<forall>q. steps (same (volumes_seen vols att)) (nt_VMTerminatedTeardown net q)))"

lemma volume_lawsD:
  assumes "volume_laws vols att z"
  shows "pools_ok vols (z_Storage z)" "storage_frame (same att) (z_Storage z)"
    "z_CreateVM z c w = (Ok (), w') \<Longrightarrow> vm_XMLConfig c = [] \<Longrightarrow> att w' = (att w)(vm_Name c \<mapsto> attached (vm_Volumes c))"
    "z_DestroyVM z n w = (Ok (), w') \<Longrightarrow> att w n = Some S \<Longrightarrow> vols w' = vols w - S"
    "steps (same (volumes_seen vols att)) (z_GetVM z n)" "steps (same att) (z_GetNetworkInterfaces z n)"
    "steps (same att) (z_GenerateMountCommands z c' m)" "steps (same (volumes_seen vols att)) (z_Networking z)"
    "z_Networking z w = (Ok net, w') \<Longrightarrow> steps (same (volumes_seen vols att)) (nt_VMStartedBuild net q)"
    "z_Networking z w = (Ok net, w') \<Longrightarrow> steps (same (volumes_seen vols att)) (nt_VMTerminatedTeardown net q')"
  using assms unfolding volume_laws_def by (iprover | blast)+

lemma seen_att: "steps (same (volumes_seen vols att)) m \<Longrightarrow> steps (same att) m"
  by (auto simp: steps_def same_def volumes_seen_def)

section \<open>What a start attaches\<close>

definition volumes_started ::
  "('w \<Rightarrow> volh set) \<Rightarrow> 'w attachments \<Rightarrow> 'w env \<Rightarrow> TaskConfig \<Rightarrow> NomadHandle res \<Rightarrow> 'w plugin \<times> 'w \<Rightarrow> 'w plugin \<times> 'w \<Rightarrow> bool" where
  "volumes_started vols att env cfg r s s' \<longleftrightarrow> failed r \<or> (\<exists>(z :: 'w virtualizer) ds'. pools_ok vols (z_Storage z)
     \<and> made_volumes env (z_Storage z) (vmNameFromTaskID (tc_ID cfg)) ds'
     \<and> att (snd s') = (att (snd s))(vmNameFromTaskID (tc_ID cfg) \<mapsto> attached (Volumes ds')))"

lemma settled_volumes: "settled (quiet att) (volumes_started vols att env cfg)"
  by (auto simp: settled_def volumes_started_def quiet_def)

lemma register_quiet: "steps (\<lambda>s s'. snd s' = snd s) (register_task env cfg resp)"
  by (auto simp: steps_def register_task_def Let_def split: res.splits)

lemma start_vm_attaches:
  assumes z: "volume_laws vols att z" and dc: "task_vm cfg dcfg dc" "vm_Volumes dc = Volumes ds'"
    and made: "made_volumes env (z_Storage z) (vm_Name dc) ds'"
  shows "outcomes (volumes_started vols att env cfg) (iobind (start_vm z cfg dc) (register_task env cfg))"
  unfolding outcomes_def
proof (intro allI impI)
  fix s r s' assume run: "iobind (start_vm z cfg dc) (register_task env cfg) s = (r, s')"
  show "volumes_started vols att env cfg r s s'"
  proof (cases r)
    case (Ok nh)
    with run obtain resp s5 where 0: "start_vm z cfg dc s = (Ok resp, s5)" and reg: "register_task env cfg resp s5 = (Ok nh, s')"
      by (auto simp: iobind_Ok)
    from 0 obtain net s1 u s2 ifaces s3 q where 1: "start_wrap ''failed to start task'' cfg (z_Networking z) s = (Ok net, s1)"
      and 2: "start_wrap ''failed to start task'' cfg (z_CreateVM z dc) s1 = (Ok u, s2)"
      and 3: "start_wrap ''failed to retrieve guest interfaces'' cfg (z_GetNetworkInterfaces z (vm_Name dc)) s2 = (Ok ifaces, s3)"
      and 4: "on_world (nt_VMStartedBuild net q) s3 = (Ok resp, s5)"
      unfolding start_vm_def iobind_Ok Let_def
      by - (elim exE conjE, drule iotry_rethrow, blast)
    note runs = start_wrap_Ok [OF 1] start_wrap_Ok [OF 2] start_wrap_Ok [OF 3] on_world_run [OF 4]
    have "att (snd s1) = att (snd s)" using stepsD [OF seen_att [OF volume_lawsD(8) [OF z]]] runs(1) by (auto simp: same_def)
    moreover have "att (snd s2) = (att (snd s1))(vm_Name dc \<mapsto> attached (vm_Volumes dc))"
      using volume_lawsD(3) [OF z] runs(2) dc(1) by (auto simp: task_vm_def)
    moreover have "att (snd s3) = att (snd s2)" using stepsD [OF volume_lawsD(6) [OF z]] runs(3) by (auto simp: same_def)
    moreover have "att (snd s5) = att (snd s3)"
      using stepsD [OF seen_att [OF volume_lawsD(9) [OF z conjunct1 [OF runs(1)]]]] runs(4) by (auto simp: same_def)
    moreover have "snd s' = snd s5" using stepsD [OF register_quiet reg] .
    ultimately show ?thesis using volume_lawsD(1) [OF z] made dc unfolding volumes_started_def task_vm_def by auto
  qed (simp_all add: volumes_started_def)
qed

lemma StartTask_volumes:
  assumes ps: "provide (volumes_seen vols att) (volume_laws vols att) (pl_providers (fst s))"
    and h: "host_steps (same att) (e_host env)" and c: "iso_steps (same att) (e_ci env)"
    and run: "StartTask env cfg s = (r, s')"
  shows "volumes_started vols att env cfg r s s'"
proof -
  note d = provide_default [OF ps]
  have "volumes_started vols att env cfg r s s' \<and> (pl_tasks (fst s) (tc_ID cfg) \<noteq> None \<longrightarrow> failed r \<and> s' = s)"
  proof (rule StartTask_by [OF settled_volumes seen_att [OF d(1)] _ _ run])
    fix w z w' assume "providers_Default (pl_providers (fst s)) w = (Ok z, w')"
    then have z: "volume_laws vols att z" by (rule d(2))
    then show "start_quiet att env z" by (simp add: start_quiet_def h c volume_lawsD)
    show "machine_outcomes (volumes_started vols att env cfg) env cfg dcfg z" for dcfg
      unfolding machine_outcomes_def by (intro allI impI start_vm_attaches [OF z])
  qed
  then show ?thesis ..
qed

section \<open>What a destruction deletes\<close>

lemma DestroyTask_volumes:
  assumes ps: "provide (volumes_seen vols att) (volume_laws vols att) (pl_providers (fst s))"
    and i: "pl_tasks (fst s) i \<noteq> None" and S: "att (snd s) (vmNameFromTaskID i) = Some S"
    and run: "DestroyTask i force s = (Ok (), s')"
  shows "vols (snd s') = vols (snd s) - S"
proof -
  from i obtain h where "pl_tasks (fst s) i = Some h" by blast
  from DestroyTask_runs [OF this run] obtain z w1 net w2 w3 q where
    runs: "GetProviderForVM (pl_providers (fst s)) (vmNameFromTaskID i) (snd s) = (Ok z, w1)" "z_Networking z w1 = (Ok net, w2)"
      "z_DestroyVM z (vmNameFromTaskID i) w2 = (Ok (), w3)" "nt_VMTerminatedTeardown net q w3 = (Ok (), snd s')" by blast
  from GetProviderForVM_gives(2) [OF ps volume_lawsD(5) runs(1)]
  have z: "volume_laws vols att z" "volumes_seen vols att w1 = volumes_seen vols att (snd s)" by blast+
  from stepsD [OF volume_lawsD(8) [OF z(1)] runs(2)] z(2) have w2: "vols w2 = vols (snd s)" "att w2 = att (snd s)"
    by (simp_all add: same_def volumes_seen_def)
  with volume_lawsD(4) [OF z(1) runs(3)] S have "vols w3 = vols (snd s) - S" by simp
  with stepsD [OF volume_lawsD(10) [OF z(1) runs(2)] runs(4)] show ?thesis by (simp add: same_def volumes_seen_def)
qed

end
