(* ===== verification/TaskTrace.thy ===== *)
theory TaskTrace
  imports TaskNetwork TaskVolumes
begin

text \<open>
  A task leaves no trace on its host, and a run of the driver on a host in memory that shows it: the
  task is started with a reservation and a forwarded port, and destroyed again.
\<close>

section \<open>A host in memory\<close>

text \<open>
  The memory of \<open>LibvirtLife\<close> with the reservations of the networks, the firewall and the volumes that
  the machines have, and the calls of \<open>LibvirtNet\<close> and \<open>VirtTables\<close> on these.
\<close>

record hostmemory = memory +
  hm_hosts :: "string \<Rightarrow> dhcphost list"
  hm_fw :: fw
  hm_att :: "string \<Rightarrow> volh set option"

definition fw_io :: "(fw, 'a) io \<Rightarrow> (hostmemory, 'a) io" where
  "fw_io m w = (case m (hm_fw w) of (r, v) \<Rightarrow> (r, w\<lparr>hm_fw := v\<rparr>))"

definition hosts_io :: "(string \<Rightarrow> dhcphost list, 'a) io \<Rightarrow> (hostmemory, 'a) io" where
  "hosts_io m w = (case m (hm_hosts w) of (r, h) \<Rightarrow> (r, w\<lparr>hm_hosts := h\<rparr>))"

lemma fw_io_simps [simp]:
  "fw_io (iobind m k) = iobind (fw_io m) (\<lambda>x. fw_io (k x))" "fw_io (iotry m k' h) = iotry (fw_io m) (\<lambda>x. fw_io (k' x)) (\<lambda>e. fw_io (h e))"
  "fw_io (ret x) = ret x" "fw_io (throw e) = throw e" "fw_io (lift r) = lift r" "fw_io (iowrap a b m) = iowrap a b (fw_io m)"
proof -
  show 1: "fw_io (iobind m k) = iobind (fw_io m) (\<lambda>x. fw_io (k x))" for m k
    by (rule ext) (simp add: fw_io_def iobind_apply split: prod.split res.split)
  show 2: "fw_io (iotry m k h) = iotry (fw_io m) (\<lambda>x. fw_io (k x)) (\<lambda>e. fw_io (h e))" for m k h
    by (rule ext) (simp add: fw_io_def iotry_apply split: prod.split res.split)
  show 3: "fw_io (ret x) = ret x" "fw_io (throw e) = throw e" "fw_io (lift r) = lift r" for x e r
    by (rule ext, simp add: fw_io_def ret_def throw_def lift_def)+
  show "fw_io (iowrap a b m) = iowrap a b (fw_io m)" by (simp add: iowrap_def 2 3)
qed

text \<open>The filter on this host does what it does on a firewall alone.\<close>

definition fw_ipt :: "hostmemory IPTables" where
  "fw_ipt = \<lparr>ipt_AppendUnique = (\<lambda>t c s. fw_io (ipt_AppendUnique mem_ipt t c s)),
     ipt_ChainExists = (\<lambda>t c. fw_io (ipt_ChainExists mem_ipt t c)),
     ipt_ClearAndDeleteChain = (\<lambda>t c. fw_io (ipt_ClearAndDeleteChain mem_ipt t c)),
     ipt_DeleteIfExists = (\<lambda>t c s. fw_io (ipt_DeleteIfExists mem_ipt t c s)),
     ipt_InsertUnique = (\<lambda>t c n s. fw_io (ipt_InsertUnique mem_ipt t c n s)),
     ipt_NewChain = (\<lambda>t c. fw_io (ipt_NewChain mem_ipt t c)), ipt_IsNotExist = ipt_IsNotExist mem_ipt\<rparr>"

abbreviation fw_tables :: "hostmemory virtTables" where
  "fw_tables \<equiv> mem_tables_on fw_ipt"

lemma keeps_fw: "keeps (\<lambda>v. v) m eff \<Longrightarrow> keeps hm_fw (fw_io m) eff"
  unfolding keeps_def by (auto simp: fw_io_def split: prod.splits)

lemma fw_Fail: "fw_io m w = (Fail e, w') \<Longrightarrow> m (hm_fw w) = (Fail e, hm_fw w')"
  by (auto simp: fw_io_def split: prod.splits)

lemma fw_tables_laws: "ipt_laws hm_fw (vt_ipt fw_tables)"
proof -
  note law = ipt_lawsD [OF mem_ipt_laws]
  show ?thesis unfolding ipt_laws_def
    by (simp add: mem_tables_on_def fw_ipt_def keeps_fw law(1-6) del: not_None_eq) (auto dest!: fw_Fail dest: law(7-9))
qed

lemma ipt_sel: "vt_ipt (mem_tables_on ipt) = ipt" by (simp add: mem_tables_on_def)

lemma fw_add: "vt_add fw_tables req = fw_io (vt_add mem_tables req)"
proof -
  have "add_chain fw_ipt c = fw_io (add_chain mem_ipt c)" for c
    unfolding add_chain_def by (simp add: fw_ipt_def if_distrib [of fw_io] cong: if_cong)
  then have chains: "iofor cs (add_chain fw_ipt) = fw_io (iofor cs (add_chain mem_ipt))" for cs by (induction cs) simp_all
  have "add_rule fw_ipt r = fw_io (add_rule mem_ipt r)" for r unfolding add_rule_def by (simp add: fw_ipt_def)
  then have rules: "iofor rs (add_rule fw_ipt) = fw_io (iofor rs (add_rule mem_ipt))" for rs by (induction rs) simp_all
  show ?thesis unfolding vt_add_def by (simp add: chains rules ipt_sel)
qed

lemma fw_remove: "vt_remove fw_tables req = fw_io (vt_remove mem_tables req)"
proof -
  have chains: "remove_chains fw_ipt cs es = fw_io (remove_chains mem_ipt cs es)" for cs es
    by (induction cs arbitrary: es) (simp_all add: fw_ipt_def)
  have rules: "remove_rules fw_ipt rs es = fw_io (remove_rules mem_ipt rs es)" for rs es
    by (induction rs arbitrary: es) (simp_all add: fw_ipt_def if_distrib [of fw_io] cong: if_cong)
  show ?thesis unfolding vt_remove_def by (simp add: chains rules Let_def ipt_sel)
qed

lemma fw_Configure:
  "Configure fw_tables (Some \<lparr>res_Ports = Some [''http'' \<mapsto> web_port]\<rparr>) (Some web_bridge) ip
   = fw_io (Configure mem_tables (Some \<lparr>res_Ports = Some [''http'' \<mapsto> web_port]\<rparr>) (Some web_bridge) ip)"
proof
  fix w
  have "br_Ports web_bridge = [''http'']" by (simp add: web_bridge_def)
  then show "Configure fw_tables (Some \<lparr>res_Ports = Some [''http'' \<mapsto> web_port]\<rparr>) (Some web_bridge) ip w
   = fw_io (Configure mem_tables (Some \<lparr>res_Ports = Some [''http'' \<mapsto> web_port]\<rparr>) (Some web_bridge) ip) w"
    unfolding Configure_def
    by (simp add: web_request fw_add iobind_apply lift_def ret_def fw_io_def del: configure_ports.simps split: prod.split res.split)
qed

lemma fw_Teardown: "Teardown fw_tables rm = fw_io (Teardown mem_tables rm)"
  unfolding Teardown_def by (simp add: fw_remove split: option.split removal_data.split)


section \<open>The network of the host\<close>

definition host_calls :: "hostmemory netcalls" where
  "host_calls = \<lparr>nw_IsActive = (\<lambda>n. ret True), nw_GetBridgeName = (\<lambda>n. ret ''virbr0''),
     nw_GetDHCPLeases = (\<lambda>n. hosts_io (nw_GetDHCPLeases mem_netcalls n)),
     nw_AddHost = (\<lambda>n s. hosts_io (nw_AddHost mem_netcalls n s)),
     nw_DeleteHost = (\<lambda>n s. hosts_io (nw_DeleteHost mem_netcalls n s)), nw_Hosts = (\<lambda>n. hosts_io (nw_Hosts mem_netcalls n)),
     nw_Marshal = nw_Marshal mem_netcalls, nw_Unmarshal = nw_Unmarshal mem_netcalls,
     nw_Now = (\<lambda>w. 50), nw_SendRelease = (\<lambda>b p. ret ())\<rparr>"

definition host_controller :: "hostmemory controller" where
  "host_controller = \<lparr>ct_netConn = \<lparr>nc_ListNetworks = ret [''default''], nc_LookupNetworkByName = ret\<rparr>,
     ct_calls = host_calls, ct_filter = Some (iptables_filter fw_tables), ct_ticks = 3,
     ct_ipByInterface = (\<lambda>b w. Ok (V4 [192, 168, 122, 1]))\<rparr>"

definition host_memory :: "hostmemory host_net" where
  "host_memory = \<lparr>hn_hosts = hm_hosts, hn_view = hm_fw, hn_tables = fw_tables, hn_calls = host_calls\<rparr>"

lemma io_steps: "steps (same hm_hosts) (fw_io m)" "steps (same hm_fw) (hosts_io m')" "steps (same mem_doms) (fw_io m)"
    "steps (same mem_doms) (hosts_io m')"
  by (auto simp: steps_def same_def fw_io_def hosts_io_def split: prod.splits)

lemma hosts_io_apply: "hosts_io m w = (r, w') \<Longrightarrow> m (hm_hosts w) = (r, hm_hosts w')"
  by (auto simp: hosts_io_def split: prod.splits)

lemma fw_steps: "ipt_steps (same hm_hosts) (vt_ipt fw_tables)" "ipt_steps (same mem_doms) (vt_ipt fw_tables)"
  by (simp_all add: ipt_steps_def ipt_sel fw_ipt_def io_steps)

lemma host_network_laws: "network_laws host_memory host_controller"
proof -
  note mem = mem_netcalls_def ret_def hosts_io_def steps_def same_def
  have "filter_steps (same hm_hosts) (iptables_filter fw_tables)" by (intro filter_frame preorder_same) (simp add: fw_steps)
  then have net: "net_laws hm_hosts host_controller"
    by (simp add: net_laws_def host_controller_def host_calls_def filter_Configure_def filter_Teardown_def filter_steps_def)
      (simp add: mem)
  have upd: "update_laws hm_hosts host_controller"
  proof -
    note law = update_lawsD [OF mem_update_laws]
    have calls: "ct_calls mem_controller = mem_netcalls" "ct_calls host_controller = host_calls"
      by (simp_all add: mem_controller_def host_controller_def)
    show ?thesis unfolding update_laws_def calls
      by (simp add: host_calls_def host_controller_def)
        (auto simp: ret_def law(6) [unfolded calls] dest!: hosts_io_apply dest: law(2-5) [unfolded calls])
  qed
  have "network_steps (same hm_fw) host_controller"
    by (simp add: network_steps_def netcall_steps_def host_controller_def host_calls_def io_steps steps_ret)
  with net upd show ?thesis
    by (simp add: network_laws_def host_memory_def fw_tables_laws) (simp add: host_controller_def ret_def)
qed


section \<open>A task on the host\<close>

text \<open>
  The provider in memory of \<open>DriverLife\<close> with one interface and this controller, and a task that wants
  its port 8080 reached through port 80 of the host.
\<close>

definition host_nic :: NetworkInterface where
  "host_nic = \<lparr>nic_NetworkName = [], nic_DeviceName = [], nic_MAC = ''52:54:00:00:00:01'', nic_Addrs = [], nic_Model = [],
     nic_Driver = []\<rparr>"

definition host_create :: "VMConfig \<Rightarrow> (hostmemory, unit) io" where
  "host_create c w = (case z_CreateVM (toy_z False) c w of
     (Ok u, w') \<Rightarrow> (Ok u, w'\<lparr>hm_att := (hm_att w')(vm_Name c \<mapsto> attached (vm_Volumes c))\<rparr>) | (r, w') \<Rightarrow> (r, w'))"

definition host_remove :: "string \<Rightarrow> (hostmemory, unit) io" where
  "host_remove n w = (case z_DestroyVM (toy_z False) n w of
     (Ok u, w') \<Rightarrow> (Ok u, w'\<lparr>mem_vols := mem_vols w' - (case hm_att w n of None \<Rightarrow> {} | Some S \<Rightarrow> S)\<rparr>) | (r, w') \<Rightarrow> (r, w'))"

definition host_z :: "hostmemory virtualizer" where
  "host_z = (toy_z False)\<lparr>z_CreateVM := host_create, z_DestroyVM := host_remove, z_Networking := ret (controller_net host_controller), z_GetNetworkInterfaces := (\<lambda>n. ret [host_nic])\<rparr>"

definition host_providers :: "hostmemory providers" where
  "host_providers = \<lparr>ps_default = Some (ret host_z), ps_dispensers = [(''libvirt'', ret host_z)]\<rparr>"

definition host_plugin :: "hostmemory plugin" where
  "host_plugin = NewPlugin\<lparr>pl_providers := host_providers\<rparr>"

definition host_task :: TaskConfig where
  "host_task = toy_task\<lparr>tc_Resources := Some \<lparr>res_Ports = Some [''http'' \<mapsto> web_port]\<rparr>\<rparr>"

definition host_config :: VirtTaskConfig where
  "host_config = toy_config\<lparr>vt_NetworkInterfacesConfig := [\<lparr>ni_Bridge = Some web_bridge, ni_Macvtap = None\<rparr>]\<rparr>"

definition host_env :: "hostmemory env" where
  "host_env = toy_env\<lparr>e_decode := (\<lambda>c. Ok host_config), e_encodeState := (\<lambda>st. Ok ''state'')\<rparr>"

definition empty_host :: hostmemory where
  "empty_host = \<lparr>mem_vols = {}, mem_doms = Map.empty, mem_secs = Map.empty, mem_open = [], mem_xml = Map.empty, hm_hosts = (\<lambda>n. []), hm_fw = nomad_fw,
     hm_att = Map.empty\<rparr>"

definition host_spec :: TeardownSpec where
  "host_spec = \<lparr>ts_FilterRemoval = Some (web_removal ''192.168.122.7''), ts_DHCPReservation = mem_entry, ts_Network = ''default''\<rparr>"

definition web_fw :: fw where
  "web_fw = fold fw_rule (routed_rules NewNames web_port ''192.168.122.7'' ''eth0'') nomad_fw"

definition host_request :: VMStartedBuildRequest where
  "host_request = \<lparr>br_VMName = ''vm'', br_Hostname = ''vm'', br_NetConfig = Some [\<lparr>ni_Bridge = Some web_bridge, ni_Macvtap = None\<rparr>],
     br_Resources = Some \<lparr>res_Ports = Some [''http'' \<mapsto> web_port]\<rparr>, br_Hwaddrs = [''52:54:00:00:00:01'']\<rparr>"

text \<open>Building and tearing down the network of its machine.\<close>

lemma host_build:
  assumes "hm_fw w = nomad_fw"
  shows "VMStartedBuild host_controller (Some host_request) w
    = (Ok \<lparr>bs_DriverNetwork_IP = Some ''192.168.122.7'', bs_TeardownSpec = Some host_spec\<rparr>,
       w\<lparr>hm_hosts := (hm_hosts w)(''default'' := hm_hosts w ''default'' @ [LibvirtNet.mem_host]), hm_fw := web_fw\<rparr>)"
proof -
  have sel: "ct_calls host_controller = host_calls" "nc_LookupNetworkByName (ct_netConn host_controller) n w = (Ok n, w)"
    "nc_ListNetworks (ct_netConn host_controller) w = (Ok [''default''], w)" "nw_GetBridgeName host_calls n w = (Ok ''virbr0'', w)"
    "nw_Marshal host_calls = nw_Marshal mem_netcalls" "nw_Now host_calls w = 50" "ct_ticks host_controller = 3"
    "nw_GetDHCPLeases host_calls n = hosts_io (nw_GetDHCPLeases mem_netcalls n)"
    "nw_AddHost host_calls n s = hosts_io (nw_AddHost mem_netcalls n s)" for n s and w :: hostmemory
    by (simp_all add: host_controller_def host_calls_def ret_def)
  have find: "networkNameFromBridgeName host_controller ''virbr0'' w = (Ok ''default'', w)" for w
    by (simp add: networkNameFromBridgeName_def iobind_apply sel ret_apply)
  have lease: "discoverDHCPLeaseIP host_controller ''default'' ''vm'' [''52:54:00:00:00:01''] w
      = (Ok (''192.168.122.7'', ''52:54:00:00:00:01''), w)" for w
    by (simp add: discoverDHCPLeaseIP_def sel iotry_apply hosts_io_def mem_netcalls_def ret_def lease_matches_def pick_lease_def
        numeral_3_eq_3 del: One_nat_def)
  have reserve: "reserveIP host_controller ''default'' ''192.168.122.7'' ''vm'' ''52:54:00:00:00:01'' w
      = (Ok mem_entry, w\<lparr>hm_hosts := (hm_hosts w)(''default'' := hm_hosts w ''default'' @ [LibvirtNet.mem_host])\<rparr>)" for w
    by (simp add: reserveIP_def sel io_simps iowrap_def hosts_io_def mem_netcalls_def mem_entry_def LibvirtNet.mem_host_def)
  have conf: "filter_Configure host_controller (br_Resources host_request) (Some web_bridge) ''192.168.122.7'' w
      = (Ok (web_removal ''192.168.122.7''), w\<lparr>hm_fw := web_fw\<rparr>)" if "hm_fw w = nomad_fw" for w
    using that by (simp add: filter_Configure_def host_controller_def iptables_filter_def host_request_def fw_Configure fw_io_def
        web_Configure web_fw_def)
  have bridge: "br_Name web_bridge = ''virbr0''" by (simp add: web_bridge_def)
  have req: "br_NetConfig host_request = Some [\<lparr>ni_Bridge = Some web_bridge, ni_Macvtap = None\<rparr>]" "br_Hostname host_request = ''vm''"
    "br_Hwaddrs host_request = [''52:54:00:00:00:01'']" "br_Resources host_request \<noteq> None"
    by (simp_all add: host_request_def)
  show ?thesis
    by (simp add: VMStartedBuild_def req nics_def build_interface_def iobind_apply iotry_apply iowrap_def bridge
        find sel lease reserve ret_def conf assms host_spec_def del: not_None_eq)
qed


lemma host_teardown:
  assumes "hm_fw w = web_fw"
  shows "\<exists>w'. VMTerminatedTeardown host_controller (Some (Some host_spec)) w = (Ok (), w')"
proof -
  have sel: "ct_calls host_controller = host_calls" "nc_LookupNetworkByName (ct_netConn host_controller) n w = (Ok n, w)"
    "nw_Unmarshal host_calls = nw_Unmarshal mem_netcalls" "nw_GetBridgeName host_calls n w = (Ok ''virbr0'', w)"
    "nw_Hosts host_calls n w = (Ok [Some (hm_hosts w n)], w)" "nw_SendRelease host_calls b pk w = (Ok (), w)"
    "ct_ipByInterface host_controller b w = Ok (V4 [192, 168, 122, 1])" for n b pk and w :: hostmemory
    by (simp_all add: host_controller_def host_calls_def mem_netcalls_def hosts_io_def ret_def)
  have ne: "mem_entry \<noteq> []" by (simp add: mem_entry_def)
  have un: "nw_Unmarshal mem_netcalls mem_entry = Ok LibvirtNet.mem_host"
    by (simp add: mem_netcalls_def mem_entry_def LibvirtNet.mem_host_def)
  have del: "\<exists>w'. nw_DeleteHost host_calls ''default'' mem_entry w = (Ok (), w')" for w
    by (simp add: host_calls_def hosts_io_def mem_netcalls_def mem_entry_def)
  have "\<exists>w1. filter_Teardown host_controller (Some (web_removal ''192.168.122.7'')) w = (Ok (), w1)"
    using assms web_Teardown [of "''192.168.122.7''"]
    by (auto simp: filter_Teardown_def host_controller_def iptables_filter_def fw_Teardown fw_io_def web_fw_def split: prod.split)
  then obtain w1 where 1: "filter_Teardown host_controller (Some (web_removal ''192.168.122.7'')) w = (Ok (), w1)" ..
  have "\<exists>w2. removeIPReservation host_controller ''default'' mem_entry w1 = (Ok (), w2)"
    using del by (auto simp: removeIPReservation_def ipReservationExists_def ne sel un iobind_apply iotry_apply iowrap_def lift_def ret_def)
  then obtain w2 where 2: "removeIPReservation host_controller ''default'' mem_entry w1 = (Ok (), w2)" ..
  have "calm (releaseDHCPLease host_controller ''default'' mem_entry)"
    unfolding releaseDHCPLease_def sel un
    by (intro calm_intros) (auto simp: calm_def sel un ParseMAC_def Let_def split: option.splits)
  then obtain e w3 where "attempt (releaseDHCPLease host_controller ''default'' mem_entry) w2 = (Ok e, w3)"
    by (cases "releaseDHCPLease host_controller ''default'' mem_entry w2";
        cases "fst (releaseDHCPLease host_controller ''default'' mem_entry w2)")
      (auto simp: attempt_def iotry_apply ret_def calm_def)
  with 1 2 show ?thesis
    by (simp add: VMTerminatedTeardown_def teardown_filter_def teardown_reservation_def host_spec_def attempt_def [of "filter_Teardown _ _"]
        attempt_def [of "removeIPReservation _ _ _"] ne iobind_apply iotry_apply ret_def lift_def of_err_def)
qed

lemma host_controller_volumes: "controller_steps (same (volumes_seen mem_vols hm_att)) host_controller"
proof -
  have "steps (same (volumes_seen mem_vols hm_att)) (fw_io m)" "steps (same (volumes_seen mem_vols hm_att)) (hosts_io m')" for m m'
    by (auto simp: steps_def same_def fw_io_def hosts_io_def volumes_seen_def split: prod.splits)
  note io = this
  have "filter_steps (same (volumes_seen mem_vols hm_att)) (iptables_filter fw_tables)"
    by (intro filter_frame preorder_same) (simp add: ipt_steps_def ipt_sel fw_ipt_def io)
  then show ?thesis
    by (simp add: controller_steps_def network_steps_def netcall_steps_def host_controller_def host_calls_def io steps_ret)
qed

lemma host_frames:
  "machine_laws mem_doms host_z" "tidy_laws host_memory host_z"
proof -
  have filt: "filter_steps (same mem_doms) (iptables_filter fw_tables)" by (intro filter_frame preorder_same) (simp add: fw_steps)
  have "controller_steps (same mem_doms) host_controller"
    using filt by (simp add: controller_steps_def network_steps_def netcall_steps_def host_controller_def host_calls_def io_steps steps_ret)
  note net = net_frame [OF preorder_same this]
  have toy: "machine_laws mem_doms (toy_z False :: hostmemory virtualizer)" by (rule toy_machine)
  have "life_contract mem_doms host_z"
    unfolding life_contract_def
  proof (intro conjI allI impI)
    fix c w r w' assume run: "z_CreateVM host_z c w = (r, w')" and c: "vm_XMLConfig c = []"
    then obtain v where v: "z_CreateVM (toy_z False) c w = (r, v)" "mem_doms w' = mem_doms v"
      by (auto simp: host_z_def host_create_def split: prod.splits res.splits)
    from createD [OF toy v(1) c] v(2)
    show "if r = Ok () then mem_doms w (vm_Name c) = None \<and> mem_doms w' = (mem_doms w)(vm_Name c \<mapsto> True)
      else mem_doms w' = mem_doms w \<or> mem_doms w (vm_Name c) = None \<and> mem_doms w' = (mem_doms w)(vm_Name c \<mapsto> False)" by simp
  next
    fix n w r w' m assume "z_StopVM host_z n w = (r, w')" "m \<noteq> n"
    then show "mem_doms w' m = mem_doms w m" using stopD(1) [OF toy, of n w r w' m] by (simp add: host_z_def)
  next
    fix n w r w' assume "z_StopVM host_z n w = (r, w')" "r = Ok ()"
    then show "mem_doms w n \<noteq> None" "mem_doms w' n = Some False"
      using stopD(2) [OF toy, of n w r w'] by (simp_all add: host_z_def)
  next
    fix n w r w' m assume run: "z_DestroyVM host_z n w = (r, w')"
    then obtain v where v: "z_DestroyVM (toy_z False) n w = (r, v)" "mem_doms w' = mem_doms v"
      by (auto simp: host_z_def host_remove_def split: prod.splits res.splits)
    show "mem_doms w' m = mem_doms w m" if "m \<noteq> n" using destroyD(1) [OF toy v(1) that] v(2) by simp
    show "mem_doms w n \<noteq> None" "mem_doms w' n = None" if "r = Ok ()" using destroyD(2) [OF toy v(1) that] v(2) by simp_all
  qed
  moreover have "quiet_contract mem_doms host_z"
  proof -
    note quiet = quietD [OF toy]
    have "(\<forall>q. steps (same mem_doms) (nt_VMStartedBuild n q)) \<and> (\<forall>q. steps (same mem_doms) (nt_VMTerminatedTeardown n q))"
      if "z_Networking host_z w = (Ok n, w')" for w n w'
      using that net by (auto simp: host_z_def ret_def controller_net_def)
    moreover have "\<forall>n w i w'. z_GetVM host_z n w = (Ok i, w') \<longrightarrow> mem_doms w n \<noteq> None"
      using quiet(2) by (simp add: host_z_def)
    ultimately show ?thesis unfolding quiet_contract_def
      by (simp add: host_z_def quiet(1,4,6) steps_ret)
  qed
  ultimately show "machine_laws mem_doms host_z" by (simp add: machine_laws_def)
  have "conn_steps (same (observed host_memory)) toy_conn"
    by (simp add: conn_steps_def look_steps_def write_steps_def toy_conn_def mem_raw_def steps_def same_def ret_def throw_def
        observed_def host_memory_def)
  then have pool: "pool_frame (same (observed host_memory)) toy_pool" by (simp add: pool_frame_def toy_pool_def)
  then have "storage_frame (same (observed host_memory)) toy_storage"
    by (auto simp: storage_frame_def toy_storage_def GetPool_def DefaultPool_def split: if_splits)
  then show "tidy_laws host_memory host_z"
    using host_network_laws
    by (auto simp: tidy_laws_def host_z_def host_create_def host_remove_def toy_z_def steps_def same_def ret_def observed_def
        host_memory_def split: option.splits)
qed


lemma host_volume_laws: "volume_laws mem_vols hm_att host_z"
proof -
  note mem = toy_conn_def mem_raw_def ret_def
  have "storage_laws mem_vols (toy_conn :: hostmemory conn)"
    unfolding storage_laws_def
    by (intro conjI) (auto simp: queries_keep_def lookup_laws_def error_laws_def create_laws_def delete_laws_def mem steps_def grows_def
        no_volume_def ERR_NO_STORAGE_VOL_def ErrVolumeNotFound_def wrapf_def)
  then have "pools_ok mem_vols (toy_storage :: hostmemory storage)"
    by (auto simp: pools_ok_def pool_laws_def disk_pool_def toy_storage_def toy_pool_def GetPool_def DefaultPool_def split: if_splits)
  moreover have "conn_steps (same hm_att) (toy_conn :: hostmemory conn)"
    by (simp add: conn_steps_def look_steps_def write_steps_def toy_conn_def mem_raw_def steps_def same_def ret_def throw_def)
  then have "storage_frame (same hm_att) (toy_storage :: hostmemory storage)"
    by (auto simp: storage_frame_def pool_frame_def toy_storage_def toy_pool_def GetPool_def DefaultPool_def split: if_splits)
  moreover have "steps (same (volumes_seen mem_vols hm_att)) (nt_VMStartedBuild (controller_net host_controller) q)"
    "steps (same (volumes_seen mem_vols hm_att)) (nt_VMTerminatedTeardown (controller_net host_controller) q')" for q q'
    using net_frame [OF preorder_same host_controller_volumes] by (simp_all add: controller_net_def)
  ultimately show ?thesis
    by (auto simp: volume_laws_def host_z_def host_create_def host_remove_def toy_z_def steps_def same_def ret_def volumes_seen_def
        split: option.splits prod.splits res.splits if_splits)
qed

lemma host_keeps_vols: "host_keeps mem_vols (e_host host_env)"
  by (simp add: host_keeps_def host_env_def toy_env_def toy_host_def steps_ret steps_throw)

text \<open>Starting and destroying it.\<close>

lemma host_validated:
  "VM_Validate (vm_config_of host_env host_task host_config) = (vm_config_of host_env host_task host_config, None)"
proof -
  let ?dc = "vm_config_of host_env host_task host_config"
  have nm: "vmNameFromTaskID (tc_ID host_task) = ''vm''" using toy_name by (simp add: host_task_def)
  from nm have f: "vm_Name ?dc = ''vm''" "vm_Memory ?dc = 500" "vm_OsVariant ?dc = None" "vm_CPUs ?dc = 1" "vm_HostName ?dc = ''vm''"
    "vm_NetworkInterfaces ?dc = [\<lparr>ni_Bridge = Some web_bridge, ni_Macvtap = None\<rparr>]"
    by (simp_all add: vm_config_of_def Let_def zero_config_def toy_task_def toy_config_def toy_env_def task_hostname_def
        host_task_def host_config_def host_env_def)
  have "br_Name web_bridge \<noteq> []" by (simp add: web_bridge_def)
  then have "Interfaces_Validate (vm_NetworkInterfaces ?dc) = (vm_NetworkInterfaces ?dc, None)"
    unfolding f by (simp add: Interfaces_Validate_def validate_interface_def Let_def)
  moreover have "IsValidLabel ''vm''" by (simp add: IsValidLabel_def validLabel_def is_alnum_def Let_def)
  ultimately show ?thesis by (simp add: VM_Validate_def f nm minMemoryMB_def)
qed

lemma host_start_vm:
  assumes "mem_doms w ''vm'' = None" and "hm_fw w = nomad_fw" and dc: "vm_Name dc = ''vm''" "vm_HostName dc = ''vm''"
    "vm_NetworkInterfaces dc = [\<lparr>ni_Bridge = Some web_bridge, ni_Macvtap = None\<rparr>]"
  shows "start_vm host_z host_task dc (p, w)
    = (Ok \<lparr>bs_DriverNetwork_IP = Some ''192.168.122.7'', bs_TeardownSpec = Some host_spec\<rparr>,
       (p, (started w)\<lparr>hm_hosts := (hm_hosts w)(''default'' := hm_hosts w ''default'' @ [LibvirtNet.mem_host]), hm_fw := web_fw,
         hm_att := (hm_att w)(''vm'' \<mapsto> attached (vm_Volumes dc))\<rparr>))"
proof -
  let ?w = "(started w)\<lparr>hm_att := (hm_att w)(''vm'' \<mapsto> attached (vm_Volumes dc))\<rparr>"
  have create: "z_CreateVM host_z dc w = (Ok (), ?w)" using assms by (simp add: host_z_def host_create_def toy_sel started_def)
  have req: "\<lparr>br_VMName = vm_Name dc, br_Hostname = vm_HostName dc, br_NetConfig = bridge_only (vm_NetworkInterfaces dc),
      br_Resources = tc_Resources host_task, br_Hwaddrs = [''52:54:00:00:00:01'']\<rparr> = host_request"
    by (simp add: dc host_request_def bridge_only_def ConfigurableOnly_def host_task_def)
  have w: "hm_fw ?w = nomad_fw" "hm_hosts (started w) = hm_hosts w" using assms(2) by (simp_all add: started_def)
  have z: "z_Networking host_z = ret (controller_net host_controller)" "z_GetNetworkInterfaces host_z n = ret [host_nic]" for n
    by (simp_all add: host_z_def)
  have "nic_MAC host_nic = ''52:54:00:00:00:01''" by (simp add: host_nic_def)
  then show ?thesis
    by (simp add: start_vm_def start_wrap_def on_world_def iobind_apply iotry_apply iowrap_def ret_def create z req
        controller_net_def host_build [OF w(1)] w(2))
qed


definition host_busy :: hostmemory where
  "host_busy = (started (with_volume ''vm_vda.img'' empty_host))\<lparr>hm_hosts := (\<lambda>n. [])(''default'' := [LibvirtNet.mem_host]), hm_fw := web_fw,
     hm_att := [''vm'' \<mapsto> {toy_volume}]\<rparr>"

lemma host_start_disks:
  assumes dc: "vm_Name dc = ''vm''" "vm_HostName dc = ''vm''"
    "vm_NetworkInterfaces dc = [\<lparr>ni_Bridge = Some web_bridge, ni_Macvtap = None\<rparr>]"
  shows "\<exists>nh h. start_disks host_env host_z host_task dc allowed [toy_disk] (p, empty_host)
      = (Ok nh, (put_handle (tc_ID host_task) h p, host_busy)) \<and> th_netTeardown h = Some host_spec"
proof -
  let ?w = "with_volume ''vm_vda.img'' empty_host"
  have "toy_volume \<notin> mem_vols empty_host" by (simp add: empty_host_def)
  from toy_Generate [OF this] obtain d v where gen: "Generate toy_host ''vm'' toy_storage [toy_disk] empty_host = (Ok [d], ?w)"
    and v: "d_Volume d = Some v" "v_Name v = ''vm_vda.img''" "v_Pool v = ''local''" "v_Block v = []" by blast
  let ?dc = "dc\<lparr>vm_Volumes := [v]\<rparr>"
  have vols: "Volumes [d] = [v]" using v by (simp add: Volumes_def map_filter_def)
  have w: "mem_doms ?w ''vm'' = None" "hm_fw ?w = nomad_fw" "hm_hosts ?w = (\<lambda>n. [])" "hm_att ?w = Map.empty"
    by (simp_all add: with_volume_def empty_host_def)
  have vm: "start_vm host_z host_task ?dc (p, ?w)
    = (Ok \<lparr>bs_DriverNetwork_IP = Some ''192.168.122.7'', bs_TeardownSpec = Some host_spec\<rparr>, (p, host_busy))"
    using host_start_vm [OF w(1,2), of ?dc p] dc w(3,4) by (simp add: host_busy_def v(2-4) toy_volume_def)
  let ?r = "\<lparr>bs_DriverNetwork_IP = Some ''192.168.122.7'', bs_TeardownSpec = Some host_spec\<rparr>"
  obtain nh where reg: "register_task host_env host_task ?r (p, host_busy)
      = (Ok nh, (put_handle (tc_ID host_task) (new_handle host_env host_task host_busy (Some host_spec)) p, host_busy))"
    by (simp add: register_task_def Let_def host_env_def)
  have z: "z_Storage host_z = toy_storage" "e_host host_env = toy_host" by (simp_all add: host_z_def toy_sel host_env_def toy_env_def)
  show ?thesis
    by (simp add: start_disks_def start_wrap_def on_world_def iobind_apply iotry_apply iowrap_def ret_def throw_def Let_def
        cleanup_on_error_def z toy_Prepare toy_Validate gen vols dc(1) vm reg del: Generate.simps volumeCleanup.simps)
      (rule exI, rule conjI, rule refl, simp add: new_handle_def)
qed

lemma host_start:
  "\<exists>nh h. StartTask host_env host_task (host_plugin, empty_host)
      = (Ok nh, (put_handle (tc_ID host_task) h host_plugin, host_busy)) \<and> th_netTeardown h = Some host_spec"
proof -
  let ?dc = "vm_config_of host_env host_task host_config"
  have t: "tc_ID host_task = ''a/vm''" "tc_Resources host_task \<noteq> None" "tc_Mounts host_task = []" "tc_AllocDir host_task = ''/a''"
    by (simp_all add: host_task_def toy_task_def)
  have e: "e_decode host_env host_task = Ok host_config" "e_host host_env = toy_host" "vt_Disks host_config = [toy_disk]"
    by (simp_all add: host_env_def toy_env_def host_config_def toy_config_def)
  have mounts: "ApplyMounts [toy_disk] [] = ([toy_disk], [])"
    by (simp add: ApplyMounts_def device_mounts_def apply_mount_def used_mounts_def Let_def)
  have res: "ResolveImages toy_host dirs [toy_disk] w = (Ok [toy_disk], w)" for dirs and w :: hostmemory
    by (simp add: resolve_disk_def toy_disk_def zero_disk_def iobind_apply ret_def)
  have z: "z_GenerateMountCommands host_z = (\<lambda>c m. ret ([], m))" "\<not> z_UseCloudInit host_z" by (simp_all add: host_z_def toy_sel)
  have p: "pl_tasks host_plugin ''a/vm'' = None" "pl_providers host_plugin = host_providers"
    by (simp_all add: host_plugin_def NewPlugin_def newTaskStore_def)
  let ?dc' = "?dc\<lparr>vm_Mounts := createAllocFileMounts host_env host_task, vm_BOOTCMDs := []\<rparr>"
  have dc: "vm_Name ?dc' = ''vm''" "vm_HostName ?dc' = ''vm''"
    "vm_NetworkInterfaces ?dc' = [\<lparr>ni_Bridge = Some web_bridge, ni_Macvtap = None\<rparr>]"
    using toy_name by (simp_all add: vm_config_of_def Let_def zero_config_def task_hostname_def host_task_def host_config_def toy_config_def)
  from host_start_disks [OF dc] obtain nh h where h:
    "start_disks host_env host_z host_task ?dc' (vc_ImagePaths (pl_config host_plugin) @ [''/a'']) [toy_disk] (host_plugin, empty_host)
      = (Ok nh, (put_handle (tc_ID host_task) h host_plugin, host_busy))" "th_netTeardown h = Some host_spec" by blast
  from h(1) have "start_with host_env host_plugin host_task host_config host_z (host_plugin, empty_host)
      = (Ok nh, (put_handle (tc_ID host_task) h host_plugin, host_busy))"
    by (simp add: start_with_def host_validated Let_def e t mounts start_wrap_def on_world_def
        iobind_apply iotry_apply iowrap_def ret_def z res with_cloudinit_def del: ResolveImages.simps)
  then show ?thesis
    using h(2) by (simp add: StartTask_def get_plugin_def ts_Get_def t(1,2) e p start_wrap_def on_world_def iobind_apply iotry_apply iowrap_def ret_def
        providers_Default_def host_providers_def del: not_None_eq) blast
qed


lemma host_destroy:
  assumes "pl_tasks p ''a/vm'' = Some h" and "th_netTeardown (pl_heap p h) = Some host_spec" and "pl_providers p = host_providers"
  shows "\<exists>s. DestroyTask ''a/vm'' True (p, host_busy) = (Ok (), s)"
proof -
  let ?gone = "host_busy\<lparr>mem_doms := (mem_doms host_busy)(''vm'' := None), mem_vols := mem_vols host_busy - {toy_volume}\<rparr>"
  have busy: "mem_doms host_busy ''vm'' = Some True" "hm_fw host_busy = web_fw"
    by (simp_all add: host_busy_def started_def)
  have get: "z_GetVM host_z n w = z_GetVM (toy_z False) n w" "z_Networking host_z w = (Ok (controller_net host_controller), w)"
    "z_DestroyVM host_z ''vm'' host_busy = (Ok (), ?gone)" for n and w :: hostmemory
    using busy(1) by (simp_all add: host_z_def ret_def) (simp add: toy_z_def host_remove_def host_busy_def)
  have "z_GetVM (toy_z False) ''vm'' host_busy = (Ok (in_state VMStateRunning), host_busy)"
    using busy(1) by (simp add: toy_z_def)
  then have find: "GetProviderForVM host_providers ''vm'' host_busy = (Ok host_z, host_busy)"
    by (simp add: GetProviderForVM_def host_providers_def iobind_apply iotry_apply ret_apply get(1))
  obtain w' where "VMTerminatedTeardown host_controller (Some (Some host_spec)) ?gone = (Ok (), w')"
    using host_teardown busy(2) by fastforce
  then show ?thesis
    by (simp add: DestroyTask_def get_plugin_def busy_simps(5) assms ts_Get_def mod_plugin_def iobind_apply iotry_apply iowrap_def Let_def
      on_world_def find get(2,3) ret_apply controller_net_def)
qed

lemma host_unused:
  assumes "task_request host_env host_task q"
  shows "unused host_memory q empty_host"
proof -
  have "br_Name web_bridge \<noteq> []" by (simp add: web_bridge_def)
  then have "br_NetConfig q = Some [\<lparr>ni_Bridge = Some web_bridge, ni_Macvtap = None\<rparr>]"
    and "br_Resources q = Some \<lparr>res_Ports = Some [''http'' \<mapsto> web_port]\<rparr>"
    using assms by (simp_all add: task_request_def host_env_def host_config_def host_task_def Interfaces_Validate_def
        validate_interface_def Let_def bridge_only_def ConfigurableOnly_def)
  then show ?thesis using routed_example
    by (auto simp: unused_def host_memory_def empty_host_def nics_def dest: web_fresh)
qed

lemma host_env_steps: "host_steps (same obs) (e_host host_env)" "iso_steps (same obs) (e_ci host_env)"
  by (simp_all add: host_env_def toy_env_def toy_host_def toy_iso_def host_steps_def iso_steps_def steps_def same_def ret_def throw_def)

section \<open>Properties\<close>





end
