(* ===== verification/VolumeLife.thy ===== *)
theory VolumeLife
  imports LibvirtLife
begin

text \<open>
  The volumes of a virtual machine from its creation to its destruction: the volumes it is created with
  become disks of the domain, libvirt keeps the definition of the domain, and destroying the machine
  discovers the same volumes from that definition and deletes exactly them.
\<close>

section \<open>The volumes a definition refers to\<close>

text \<open>
  A network disk of ceph names the pool of the cluster, so the pools of the storage that are backed by
  ceph (\<open>C\<close>) and their sources (\<open>src\<close>) say which pool here that is.
\<close>

definition source_refs :: "(string \<Rightarrow> poolsource) \<Rightarrow> string set \<Rightarrow> disksource option \<Rightarrow> volh set" where
  "source_refs src C d = (case d of
     Some (SourceVolume p n) \<Rightarrow> {(p, n)}
   | Some (SourceNetwork proto nm hosts auth) \<Rightarrow>
       {(p, n). proto = ''rbd'' \<and> p \<in> C \<and> nm = ps_Name (src p) @ CHR ''/'' # n}
   | _ \<Rightarrow> {})"

definition def_refs :: "(string \<Rightarrow> poolsource) \<Rightarrow> string set \<Rightarrow> domdesc \<Rightarrow> volh set" where
  "def_refs src C g = \<Union> (source_refs src C ` (\<lambda>d. dd_Source (fst d)) ` set (dm_Disks g))"

definition ceph_names :: "'w storage \<Rightarrow> string set" where
  "ceph_names s = {n. \<exists>p. (n, p) \<in> set (s_pools s) \<and> p_kind p = CephPool}"

text \<open>The pools of the cluster behind the pools here are different, and their names have no slash.\<close>

definition clear_sources :: "(string \<Rightarrow> poolsource) \<Rightarrow> string set \<Rightarrow> bool" where
  "clear_sources src C \<longleftrightarrow> inj_on (\<lambda>n. ps_Name (src n)) C \<and> (\<forall>n \<in> C. CHR ''/'' \<notin> set (ps_Name (src n)))"

lemma split_at_slash:
  "a @ CHR ''/'' # x = b @ CHR ''/'' # y \<Longrightarrow> CHR ''/'' \<notin> set a \<Longrightarrow> CHR ''/'' \<notin> set b \<Longrightarrow> a = b \<and> x = y"
proof (induction a arbitrary: b)
  case Nil
  then show ?case by (cases b) auto
next
  case (Cons c a)
  then show ?case by (cases b) auto
qed

lemma source_refs_ceph:
  assumes C: "clear_sources src C" and p: "p \<in> C"
  shows "source_refs src C (Some (SourceNetwork ''rbd'' (ps_Name (src p) @ CHR ''/'' # n) hosts auth)) = {(p, n)}"
proof -
  have "q = p \<and> k = n" if "q \<in> C" "ps_Name (src p) @ CHR ''/'' # n = ps_Name (src q) @ CHR ''/'' # k" for q k
    using split_at_slash [OF that(2)] C p that(1) by (auto simp: clear_sources_def inj_on_def)
  with p show ?thesis by (auto simp: source_refs_def)
qed

text \<open>What libvirt documents of a pool that is backed by ceph: its definition names its source.\<close>

definition sources :: "'w conn \<Rightarrow> (string \<Rightarrow> poolsource) \<Rightarrow> string set \<Rightarrow> bool" where
  "sources l src C \<longleftrightarrow> (\<forall>n \<in> C. \<forall>w info w'. l_PoolXML l n w = (Ok info, w') \<longrightarrow> px_Source info = Some (src n))
     \<and> (\<forall>n w p w'. l_FindStoragePool l n w = (Ok p, w') \<longrightarrow> p = n)"

lemma sourcesD:
  assumes "sources l src C"
  shows "n \<in> C \<Longrightarrow> l_PoolXML l n w = (Ok info, w') \<Longrightarrow> px_Source info = Some (src n)"
    "l_FindStoragePool l n w = (Ok p, w') \<Longrightarrow> p = n"
  using assms unfolding sources_def by blast+

section \<open>From volumes to disks\<close>

lemma VolumeToDisk_refs:
  assumes l: "sources (s_l s) src C" and C: "ceph_names s \<subseteq> C" "clear_sources src C"
    and run: "VolumeToDisk s vol w = (Ok disk, w')"
  shows "source_refs src C (dd_Source disk) = attached [vol]"
proof (cases "v_Block vol = []")
  case False
  with run show ?thesis by (auto simp: VolumeToDisk_def ret_def disk_of_def source_refs_def)
next
  case True
  with run obtain pool where pool: "GetPool s (v_Pool vol) = Ok pool" by (auto simp: VolumeToDisk_def iobind_Ok lift_def)
  show ?thesis
  proof (cases "p_kind pool")
    case DirectoryPool
    with run True pool show ?thesis
      by (auto simp: VolumeToDisk_def iobind_Ok lift_def ret_def disk_of_def source_refs_def)
  next
    case CephPool
    have n: "v_Pool vol \<in> C" using pool CephPool C(1)
      by (auto simp: GetPool_def ceph_names_def dest!: map_of_SomeD split: option.splits)
    from run True pool CephPool obtain p w1 info w2 sec w3 sr ds where
      1: "l_FindStoragePool (s_l s) (v_Pool vol) w = (Ok p, w1)" and 2: "l_PoolXML (s_l s) p w1 = (Ok info, w2)"
      and 3: "px_Source info = Some sr" "ceph_source sr (v_Name vol) sec = Ok ds" and disk: "disk = disk_of vol (Some ds)"
      by (auto simp: VolumeToDisk_def iobind_Ok lift_def ret_def split: option.splits)
    from sourcesD(1) [OF l n] sourcesD(2) [OF l 1] 2 3(1) have "sr = src (v_Pool vol)" by simp
    with 3(2) obtain hosts auth where "ds = SourceNetwork ''rbd'' (ps_Name (src (v_Pool vol)) @ CHR ''/'' # v_Name vol) hosts auth"
      by (auto simp: ceph_source_def split: option.splits)
    with source_refs_ceph [OF C(2) n] True show ?thesis by (simp add: disk disk_of_def)
  qed
qed

lemma volume_disks_refs:
  assumes "sources (s_l s) src C" and "ceph_names s \<subseteq> C" "clear_sources src C"
  shows "volume_disks (Some s) vols w = (Ok ds, w') \<Longrightarrow>
    \<Union> (source_refs src C ` (\<lambda>d. dd_Source (fst d)) ` set ds) = attached vols"
proof (induction vols arbitrary: w ds)
  case (Cons vol vols)
  from Cons.prems obtain disk w1 b w2 ds' where
    d: "VolumeToDisk s vol w = (Ok disk, w1)" and rest: "volume_disks (Some s) vols w2 = (Ok ds', w')" "ds = (disk, b) # ds'"
    by (auto simp: volume_disk_def iobind_Ok ret_def)
  from VolumeToDisk_refs [OF assms d] Cons.IH [OF rest(1)] rest(2) show ?case by auto
qed (simp add: ret_def)

section \<open>From disks to volumes\<close>

lemma ceph_pools_map:
  assumes l: "sources l src C"
  shows "(\<And>n p. (n, p) \<in> set ps \<Longrightarrow> p_kind p = CephPool \<Longrightarrow> n \<in> C) \<Longrightarrow> ceph_pools l ps m w = (Ok m', w') \<Longrightarrow>
    m' = ceph_map src ps m"
proof (induction ps arbitrary: m w)
  case (Cons x ps)
  obtain n p where x: "x = (n, p)" by fastforce
  have IH: "ceph_pools l ps m w = (Ok m', w') \<Longrightarrow> m' = ceph_map src ps m" for m w
    using Cons.IH Cons.prems(1) by (meson list.set_intros(2))
  show ?case
  proof (cases "p_kind p = CephPool")
    case True
    then have n: "n \<in> C" using Cons.prems(1) [of n p] x by simp
    from Cons.prems(2) True x obtain q w1 info w2 sr where 1: "l_FindStoragePool l n w = (Ok q, w1)"
      and 2: "l_PoolXML l q w1 = (Ok info, w2)" "px_Source info = Some sr"
      and rest: "ceph_pools l ps (m(ps_Name sr \<mapsto> n)) w2 = (Ok m', w')"
      by (auto simp: iobind_Ok lift_def split: option.splits)
    from sourcesD(1) [OF l n] sourcesD(2) [OF l 1] 2 have "sr = src n" by simp
    with IH [OF rest] True x show ?thesis by simp
  qed (use IH Cons.prems(2) x in simp)
qed (simp add: ret_def)

lemma ceph_map_sound:
  "ceph_map src ps m k = Some n \<Longrightarrow> m k = Some n \<or> (ps_Name (src n) = k \<and> (\<exists>p. (n, p) \<in> set ps \<and> p_kind p = CephPool))"
proof (induction src ps m rule: ceph_map.induct)
  case (2 src q p ps m)
  have "(if p_kind p = CephPool then m(ps_Name (src q) \<mapsto> q) else m) k = Some n
      \<or> (ps_Name (src n) = k \<and> (\<exists>p. (n, p) \<in> set ps \<and> p_kind p = CephPool))"
    by (rule "2.IH") (use "2.prems" in simp)
  then show ?case by (auto split: if_splits)
qed simp

lemma discover_refs:
  assumes m: "\<And>k n. m k = Some n \<Longrightarrow> n \<in> C \<and> ps_Name (src n) = k" and C: "clear_sources src C"
  shows "discover m ds vs = Ok vs' \<Longrightarrow> refs vs' = refs vs \<union> \<Union> (source_refs src C ` dd_Source ` set ds)"
proof (induction ds arbitrary: vs)
  case (Cons disk ds)
  have more: ?case if "discover m ds (vs @ new) = Ok vs'" "refs new = source_refs src C (dd_Source disk)" for new
    using Cons.IH [OF that(1)] that(2) by auto
  have skip: ?case if "discover m ds vs = Ok vs'" "source_refs src C (dd_Source disk) = {}"
    using more [of "[]"] that by simp
  show ?case
  proof (cases "dd_Source disk")
    case None
    with Cons.prems skip show ?thesis by (simp add: source_refs_def)
  next
    case (Some sr)
    show ?thesis
    proof (cases sr)
      case (SourceVolume p n)
      with Some Cons.prems more [of "[volume_ref p n]"] show ?thesis by (simp add: source_refs_def)
    next
      case (SourceNetwork proto nm hosts auth)
      show ?thesis
      proof (cases "proto = ''rbd''")
        case False
        with Some SourceNetwork Cons.prems skip show ?thesis by (simp add: source_refs_def)
      next
        case True
        with Some SourceNetwork Cons.prems obtain k part parts n where nm: "split_on CHR ''/'' nm = k # part # parts"
          and n: "m k = Some n" and rest: "discover m ds (vs @ [volume_ref n (join ''/'' (part # parts))]) = Ok vs'"
          by (auto split: list.splits option.splits)
        have "nm = join ''/'' (k # part # parts)" using join_split_on [of "CHR ''/''" nm] nm by simp
        then have "nm = ps_Name (src n) @ CHR ''/'' # join ''/'' (part # parts)" using m [OF n] by (simp add: join_Cons)
        with source_refs_ceph [OF C conjunct1 [OF m [OF n]]] Some SourceNetwork True more [OF rest] show ?thesis by simp
      qed
    qed (use Some Cons.prems skip in \<open>simp_all add: source_refs_def\<close>)
  qed
qed simp

lemma DiscoverVolumes_refs:
  assumes l: "sources (s_l s) src C" and C: "ceph_names s \<subseteq> C" "clear_sources src C"
    and run: "DiscoverVolumes s ds w = (Ok vs, w')"
  shows "refs vs = \<Union> (source_refs src C ` dd_Source ` set ds)"
proof -
  from run obtain m w1 where m: "ceph_pools (s_l s) (s_pools s) Map.empty w = (Ok m, w1)" and d: "discover m ds [] = Ok vs"
    by (auto simp: DiscoverVolumes_def iobind_Ok lift_def)
  have ceph: "n \<in> C" if "(n, p) \<in> set (s_pools s)" "p_kind p = CephPool" for n p
    using C(1) that by (auto simp: ceph_names_def)
  have map: "m = ceph_map src (s_pools s) Map.empty" by (rule ceph_pools_map [OF l ceph m])
  have "n \<in> C \<and> ps_Name (src n) = k" if "m k = Some n" for k n
    using ceph_map_sound [OF that [unfolded map]] ceph by auto
  from discover_refs [OF this C(2) d] show ?thesis by simp
qed

section \<open>The contract\<close>

text \<open>The calls on domains, for what none of them concerns.\<close>

definition domain_steps :: "('w \<Rightarrow> 'w \<Rightarrow> bool) \<Rightarrow> 'w virt \<Rightarrow> bool" where
  "domain_steps R v \<longleftrightarrow> (\<forall>c n. steps R (c_LookupDomain v c n)) \<and> (\<forall>c x. steps R (c_DefineDomain v c x))
     \<and> (\<forall>d. steps R (c_Create v d)) \<and> (\<forall>d g. steps R (c_Stop v d g)) \<and> (\<forall>d. steps R (c_Undefine v d))"

lemma domain_stepsD:
  assumes "domain_steps R v"
  shows "steps R (c_LookupDomain v c n)" "steps R (c_DefineDomain v c x)" "steps R (c_Create v d)"
    "steps R (c_Stop v d g)" "steps R (c_Undefine v d)"
  using assms unfolding domain_steps_def by iprover+

text \<open>
  \<open>xml w\<close> are the definitions of the domains. What libvirt documents: defining a domain replaces its
  definition, starting it does not change it, and the disks read back have the sources of the definition.
\<close>

definition def_laws :: "('w \<Rightarrow> string \<rightharpoonup> domxml) \<Rightarrow> 'w virt \<Rightarrow> bool" where
  "def_laws xml v \<longleftrightarrow> calls_keep (same xml) v \<and> (\<forall>c n. steps (same xml) (c_LookupDomain v c n)) \<and> (\<forall>d. steps (same xml) (c_Create v d))
     \<and> (\<forall>c x w d w'. c_DefineDomain v c x w = (Ok d, w') \<longrightarrow> xml w' = (xml w)(d \<mapsto> x))
     \<and> (\<forall>d w ds w' g. c_DomDisks v d w = (Ok ds, w') \<longrightarrow> xml w d = Some (DomainXML g) \<longrightarrow>
         dd_Source ` set (case ds of None \<Rightarrow> [] | Some l \<Rightarrow> l) = (\<lambda>d. dd_Source (fst d)) ` set (dm_Disks g))"

lemma def_lawsD:
  assumes "def_laws xml v"
  shows "calls_keep (same xml) v" "steps (same xml) (c_LookupDomain v c n)" "steps (same xml) (c_Create v d)"
    "c_DefineDomain v c x w = (Ok d, w') \<Longrightarrow> xml w' = (xml w)(d \<mapsto> x)"
    "c_DomDisks v d w = (Ok ds, w') \<Longrightarrow> xml w d = Some (DomainXML g) \<Longrightarrow>
      dd_Source ` set (case ds of None \<Rightarrow> [] | Some l \<Rightarrow> l) = (\<lambda>d. dd_Source (fst d)) ` set (dm_Disks g)"
  using assms unfolding def_laws_def by (iprover | blast)+

text \<open>The pools of \<open>C\<close> have the sources \<open>src\<close>; every pool of the storage that ceph backs is one of them.\<close>

definition ceph_laws :: "'w virt \<Rightarrow> (string \<Rightarrow> poolsource) \<Rightarrow> string set \<Rightarrow> bool" where
  "ceph_laws v src C \<longleftrightarrow> clear_sources src C
     \<and> (\<forall>n \<in> C. \<forall>w info w'. l_PoolXML (c_raw v) n w = (Ok info, w') \<longrightarrow> px_Source info = Some (src n))"

lemma provider_sources:
  assumes "lib_laws vols v" and "ceph_laws v src C"
  shows "sources (provider_conn v) src C"
proof -
  have sel: "l_PoolXML (provider_conn v) = (\<lambda>p. world (l_PoolXML (c_raw v) p))" by (simp add: provider_conn_def Let_def)
  have "FindStoragePool v n s = (Ok p, s') \<Longrightarrow> p = n" for n s p s'
    by (rule FindStoragePool_name) (use assms(1) in \<open>simp_all add: lib_laws_def\<close>)
  then show ?thesis using assms(2) unfolding sources_def sel provider_conn_sel ceph_laws_def by (blast dest: worldD)
qed

text \<open>Calls that leave the volumes alone.\<close>

definition leave_volumes :: "('w \<Rightarrow> volh set) \<Rightarrow> 'w virt \<Rightarrow> bool" where
  "leave_volumes vols v \<longleftrightarrow> looks_keep (same vols) v \<and> domain_steps (same vols) v"

section \<open>Creating and destroying\<close>

lemma CreateVM_defines:
  assumes laws: "dom_laws doms xname v" and defs: "def_laws xml v" and lib: "lib_laws vols v" and ceph: "ceph_laws v src C"
    and st: "storage_on v (Some s)" "ceph_names s \<subseteq> C" and cfg: "vm_XMLConfig config = []"
    and run: "CreateVM v (Some s) config t = (Ok (), t')"
  shows "\<exists>g. xml (snd t') = (xml (snd t))(vm_Name config \<mapsto> DomainXML g) \<and> def_refs src C g = attached (vm_Volumes config)"
proof -
  note keep = calls_keepD(1,2) [OF def_lawsD(1) [OF defs]] and R = preorder_same [of xml]
  have look: "steps (lift_rel (same xml)) (getDomain v n)" for n
    unfolding getDomain_def by (intro steps_intros preorder_lift R steps_world def_lawsD(2) [OF defs] connection_steps [OF R keep(1)])
  from run obtain conn t1 e t2 x t3 d t4 where 1: "connection v t = (Ok conn, t1)"
    and 2: "getDomain v (vm_Name config) t1 = (Fail e, t2)" and 3: "domain_xml (Some s) config t2 = (Ok x, t3)"
    and 4: "world (c_DefineDomain v conn x) t3 = (Ok d, t4)" and 5: "world (c_Create v d) t4 = (Ok (), t')"
    unfolding CreateVM_def iobind_Ok by (auto elim!: iotry_cases simp: throw_def iobind_Ok split: if_splits)
  from stepsD [OF connection_steps [OF R keep(1)] 1] stepsD [OF look 2] stepsD [OF domain_xml_steps [OF R keep(2) st(1)] 3]
  have same: "xml (snd t3) = xml (snd t)" by (simp add: lift_rel_def same_def)
  from 3 cfg obtain g u u' and p :: prov where x: "x = DomainXML g"
    and gen: "generateDomain \<lparr>g_caps = pv_caps p, g_insecure = pv_insecure p, g_storage = Some s\<rparr> config u = (Ok g, u')"
    by (auto simp: domain_xml_def iobind_Ok ret_def)
  from generateDomain_disks [OF gen] obtain u0 where "volume_disks (Some s) (vm_Volumes config) u0 = (Ok (dm_Disks g), u')" by auto
  from volume_disks_refs [OF _ st(2) _ this, of src] provider_sources [OF lib ceph] storage_onD(1) [OF st(1)] ceph
  have "def_refs src C g = attached (vm_Volumes config)" by (simp add: def_refs_def ceph_laws_def)
  moreover have "d = vm_Name config"
    using life_lawsD(1) [OF dom_lawsD(3) [OF laws] worldD [OF 4]] dom_lawsD(4) [OF laws] generateDomain_name [OF gen] x by simp
  moreover have "xml (snd t') = xml (snd t4)" using stepsD [OF def_lawsD(3) [OF defs] worldD [OF 5]] by (simp add: same_def)
  ultimately show ?thesis using def_lawsD(4) [OF defs worldD [OF 4]] same x by auto
qed


lemma delete_volumes_effect:
  assumes lib: "lib_laws vols v" and st: "storage_on v st"
  shows "delete_volumes st vs s = (Ok (), s') \<Longrightarrow> vols (snd s') = vols (snd s) - refs vs"
proof (induction vs arbitrary: s)
  case (Cons vol vs)
  from Cons.prems obtain sg pool s1 where sg: "st = Some sg" and pool: "GetPool sg (v_Pool vol) = Ok pool"
    and del: "DeleteVolume pool (v_Name vol) s = (Ok (), s1)" and rest: "delete_volumes st vs s1 = (Ok (), s')"
    by (cases st) (auto simp: iobind_Ok lift_def)
  have on: "pool_on v (v_Pool vol) pool" using st sg pool by (auto dest: storage_onD(2))
  have "vols (snd s1) = vols (snd s) - {(v_Pool vol, v_Name vol)}"
    using DeleteVolume_result [OF pool_on_laws [OF lib on] del] on by (simp add: pool_on_def)
  with Cons.IH [OF rest] show ?case by auto
qed (simp add: ret_def)

lemma stop_undefine_steps:
  assumes R: "preorder R" and d: "domain_steps R v"
  shows "steps (lift_rel R) (stop_undefine v n d)"
  unfolding stop_undefine_def by (intro steps_intros preorder_lift [OF R] steps_world domain_stepsD [OF d])

lemma getDomain_steps:
  assumes R: "preorder R" and keep: "conn_keeps R v" and look: "\<And>c n. steps R (c_LookupDomain v c n)"
  shows "steps (lift_rel R) (getDomain v n)"
  unfolding getDomain_def by (intro steps_intros preorder_lift R steps_world look connection_steps [OF R keep])

lemma getDomainVolumes_refs:
  assumes defs: "def_laws xml v" and src: "sources (s_l s) src C" "ceph_names s \<subseteq> C" "clear_sources src C"
    and run: "getDomainVolumes v (Some s) d t = (Ok vs, t')" and g: "xml (snd t) d = Some (DomainXML g)"
  shows "refs vs = def_refs src C g"
proof -
  from run obtain ds t1 where ds: "world (c_DomDisks v d) t = (Ok ds, t1)"
    and rest: "(case ds of None \<Rightarrow> ret [] | Some l \<Rightarrow> if l = [] then ret [] else DiscoverVolumes s l) t1 = (Ok vs, t')"
    unfolding getDomainVolumes_def option.case by (auto simp: iobind_Ok)
  note same = def_lawsD(5) [OF defs worldD [OF ds] g]
  show ?thesis
  proof (cases "ds = None \<or> ds = Some []")
    case True
    with rest same show ?thesis by (auto simp: ret_def def_refs_def)
  next
    case False
    with rest obtain l where l: "ds = Some l" "DiscoverVolumes s l t1 = (Ok vs, t')" by (auto split: option.splits)
    from same l(1) have "dd_Source ` set l = (\<lambda>d. dd_Source (fst d)) ` set (dm_Disks g)" by simp
    with DiscoverVolumes_refs [OF src l(2)] show ?thesis by (simp only: def_refs_def)
  qed
qed

lemma DestroyVM_deletes:
  assumes laws: "dom_laws doms xname v" and defs: "def_laws xml v" and lib: "lib_laws vols v" and ceph: "ceph_laws v src C"
    and leave: "leave_volumes vols v" and st: "storage_on v (Some s)" "ceph_names s \<subseteq> C"
    and run: "DestroyVM v (Some s) n t = (Ok (), t')" and g: "xml (snd t) n = Some (DomainXML g)"
  shows "vols (snd t') = vols (snd t) - def_refs src C g"
proof -
  have keep: "looks_keep (same vols) v" "domain_steps (same vols) v" using leave by (simp_all add: leave_volumes_def)
  note R = preorder_same
  from run obtain d t1 vs t2 t3 where 1: "getDomain v n t = (Ok d, t1)" and 2: "getDomainVolumes v (Some s) d t1 = (Ok vs, t2)"
    and 3: "stop_undefine v n d t2 = (Ok (), t3)" and 4: "delete_volumes (Some s) vs t3 = (Ok (), t')"
    unfolding DestroyVM_parts by (auto simp: iobind_Ok)
  have d: "d = n" using getDomain_result(2) [OF laws 1 refl] by simp
  have "xml (snd t1) = xml (snd t)"
    using stepsD [OF getDomain_steps [OF R calls_keepD(1) [OF def_lawsD(1) [OF defs]] def_lawsD(2) [OF defs]] 1]
    by (simp add: lift_rel_def same_def)
  with getDomainVolumes_refs [OF defs _ st(2) _ 2, of src g] provider_sources [OF lib ceph] storage_onD(1) [OF st(1)] ceph g d
  have "refs vs = def_refs src C g" by (simp add: ceph_laws_def)
  moreover from stepsD [OF getDomain_steps [OF R looks_keepD(1) [OF keep(1)] domain_stepsD(1) [OF keep(2)]] 1]
    stepsD [OF getDomainVolumes_steps [OF R keep(1) st(1)] 2] stepsD [OF stop_undefine_steps [OF R keep(2)] 3]
  have "vols (snd t3) = vols (snd t)" by (simp add: lift_rel_def same_def)
  ultimately show ?thesis using delete_volumes_effect [OF lib st(1) 4] by simp
qed

end
