(* ===== verification/LibvirtDriver.thy ===== *)
theory LibvirtDriver
  imports TaskTrace VolumeLife
begin

text \<open>
  The libvirt provider under the driver: what it does to the machines, from its setup on, is what the
  driver relies on of a virtualizer (\<open>machine_laws\<close>, \<open>tidy_laws\<close> for the network, and \<open>volume_laws\<close> for the
  volumes, which rests on \<open>VolumeLife\<close>). The network controller, the storage and the provider's queries are framed call by call; creating, stopping and
  destroying come from \<open>LibvirtLife\<close>.
\<close>

section \<open>The connection and the storage\<close>

text \<open>The calls of the library that the operations on a task make beside those on domains.\<close>

definition query_steps :: "('w \<Rightarrow> 'w \<Rightarrow> bool) \<Rightarrow> 'w virt \<Rightarrow> bool" where
  "query_steps R v \<longleftrightarrow> (\<forall>d. steps R (c_DomInfo v d)) \<and> (\<forall>d. steps R (c_DomNics v d))
     \<and> (\<forall>c. steps R (c_ListNetworks v c)) \<and> (\<forall>c n. steps R (c_LookupNetwork v c n)) \<and> (\<forall>n. steps R (c_NetName v n))
     \<and> (\<forall>n. steps R (c_NetBridge v n))"

definition lib_steps :: "('w \<Rightarrow> 'w \<Rightarrow> bool) \<Rightarrow> 'w virt \<Rightarrow> bool" where
  "lib_steps R v \<longleftrightarrow> conn_steps R (c_raw v) \<and> query_steps R v \<and> (\<forall>c. steps R (c_NewStream v c)) \<and> (\<forall>n. steps R (c_SecretValue v n))"

lemma query_stepsD:
  assumes "query_steps R v"
  shows "steps R (c_DomInfo v d)" "steps R (c_DomNics v d)" "steps R (c_ListNetworks v c)"
    "steps R (c_LookupNetwork v c n)" "steps R (c_NetName v n)" "steps R (c_NetBridge v n)"
  using assms unfolding query_steps_def by iprover+

lemma lib_stepsD:
  assumes "lib_steps R v"
  shows "conn_steps R (c_raw v)" "query_steps R v" "steps R (c_NewStream v c)" "steps R (c_SecretValue v n)"
  using assms unfolding lib_steps_def by iprover+

lemma provider_conn_frame:
  assumes R: "preorder R" and keep: "calls_keep R v" and lib: "lib_steps R v"
  shows "conn_steps (lift_rel R) (provider_conn v)"
proof -
  note raw = conn_stepsD [OF lib_stepsD(1) [OF lib]]
  note rules = steps_intros preorder_lift [OF R] steps_world steps_prov [OF R] connection_steps [OF R] calls_keepD(1) [OF keep] looks_keepD [OF calls_keepD(2) [OF keep]] lib_stepsD(3,4) [OF lib]
  have "steps (lift_rel R) (NewStream v)" unfolding NewStream_def by (intro rules)
  moreover have "steps (lift_rel R) (GetCephSecret v n)" for n unfolding GetCephSecret_def by (intro rules)
  moreover have "lift_rel R w (snd (l_ctxDone (provider_conn v) k w))" for w k
    using raw(12) [of "snd w" k] by (auto simp: provider_conn_def Let_def lift_rel_def split: prod.split)
  ultimately show ?thesis unfolding conn_steps_def look_steps_def write_steps_def
    by (intro conjI allI) (simp_all add: provider_conn_def Let_def steps_world raw lookup_steps [OF R calls_keepD(2) [OF keep]])
qed

text \<open>The pools that a storage makes have its connection, and so have those of its copies.\<close>

definition owned :: "'w conn \<Rightarrow> string \<Rightarrow> 'w pool \<Rightarrow> bool" where
  "owned l n p \<longleftrightarrow> p_l p = l \<and> p_name p = n \<and> (\<forall>c. p_custom p = Some c \<longrightarrow> c = l)"

definition all_owned :: "'w conn \<Rightarrow> 'w storage \<Rightarrow> bool" where
  "all_owned l s \<longleftrightarrow> s_l s = l \<and> (\<forall>(n, p) \<in> set (s_pools s). owned l n p)
     \<and> (\<forall>p. s_defaultPool s = Some p \<longrightarrow> (\<exists>n. owned l n p))"

lemma new_pool_owned:
  "newDirectoryPool l n c s = (Ok p, s') \<Longrightarrow> owned l n p" "newCephPool loaded split_host l n k s = (Ok p, s') \<Longrightarrow> owned l n p"
  by (auto simp: newDirectoryPool_def newCephPool_def iobind_Ok ret_def throw_def owned_def split: option.splits)

lemma add_pools_all:
  assumes mk: "\<And>n c s p s'. (n, c) \<in> set cs \<Longrightarrow> mk n c s = (Ok p, s') \<Longrightarrow> Q n p"
  shows "add_pools mk cs ps s = (Ok ps', s') \<Longrightarrow> (\<forall>(n, p) \<in> set ps. Q n p) \<Longrightarrow> \<forall>(n, p) \<in> set ps'. Q n p"
  unfolding add_pools_def using mk
proof (induction cs arbitrary: ps s)
  case Nil
  then show ?case by (simp add: ret_def)
next
  case (Cons x cs)
  obtain n c where x: "x = (n, c)" by fastforce
  from Cons.prems(1) x obtain p s1 where p: "mk n c s = (Ok p, s1)"
    and rest: "iofold (\<lambda>(name, c) ps. iobind (mk name c) (\<lambda>pool. ret (put_pool name pool ps))) cs (put_pool n p ps) s1 = (Ok ps', s')"
    by (auto simp: iobind_Ok ret_def)
  have "Q n p" using Cons.prems(3) [OF _ p] x by simp
  then have "\<forall>(n, p) \<in> set (put_pool n p ps). Q n p" using Cons.prems(2) by (auto simp: put_pool_def)
  moreover have "mk n c s = (Ok p, s') \<Longrightarrow> (n, c) \<in> set cs \<Longrightarrow> Q n p" for n c s p s'
    using Cons.prems(3) by (meson list.set_intros(2))
  ultimately show ?case by (intro Cons.IH [OF rest])
qed

lemma storage_New_owned:
  assumes "storage_New loaded split_host l config s = (Ok st, s')"
  shows "all_owned l st"
proof -
  from assms obtain ps s1 qs s2 where
    1: "add_pools (newDirectoryPool l) (sorted_entries (sc_Directory config)) [] s = (Ok ps, s1)"
    and 2: "add_pools (newCephPool loaded split_host l) (sorted_entries (sc_Ceph config)) ps s1 = (Ok qs, s2)"
    and st: "pick_default (sc_Default config) \<lparr>s_pools = qs, s_defaultPool = None, s_l = l\<rparr> = Ok st"
    by (auto simp: storage_New_def iobind_Ok lift_def)
  from add_pools_all [OF new_pool_owned(2) 2 add_pools_all [OF new_pool_owned(1) 1]]
  have qs: "\<forall>(n, p) \<in> set qs. owned l n p" by simp
  with st show ?thesis
    by (fastforce simp: pick_default_def all_owned_def GetPool_def dest: map_of_SomeD split: if_splits list.splits option.splits)
qed

text \<open>The pools that ceph backs are those of its configuration.\<close>

lemma storage_New_ceph:
  assumes "storage_New loaded split_host l config s = (Ok st, s')"
  shows "ceph_names st \<subseteq> fst ` set (sc_Ceph config)"
proof -
  let ?Q = "\<lambda>n p. p_kind p = CephPool \<longrightarrow> n \<in> fst ` set (sc_Ceph config)"
  from assms obtain ps s1 qs s2 where
    1: "add_pools (newDirectoryPool l) (sorted_entries (sc_Directory config)) [] s = (Ok ps, s1)"
    and 2: "add_pools (newCephPool loaded split_host l) (sorted_entries (sc_Ceph config)) ps s1 = (Ok qs, s2)"
    and st: "pick_default (sc_Default config) \<lparr>s_pools = qs, s_defaultPool = None, s_l = l\<rparr> = Ok st"
    by (auto simp: storage_New_def iobind_Ok lift_def)
  have "\<forall>(n, p) \<in> set ps. ?Q n p"
    by (rule add_pools_all [OF _ 1]) (auto simp: newDirectoryPool_def iobind_Ok ret_def split: option.splits)
  then have "\<forall>(n, p) \<in> set qs. ?Q n p"
    by (rule add_pools_all [OF _ 2, rotated]) (force simp: sorted_entries_def)
  moreover have "s_pools st = qs" using st by (auto simp: pick_default_def split: if_splits list.splits res.splits)
  ultimately show ?thesis by (auto simp: ceph_names_def)
qed

lemma storage_Copy_ceph: "storage_Copy l st = Ok st' \<Longrightarrow> ceph_names st' = ceph_names st"
  by (auto simp: storage_Copy_def ceph_names_def pool_copy_def image_iff split: list.splits option.splits) force+

lemma storage_Copy_owned:
  assumes "all_owned l st" and "storage_Copy l st = Ok st'"
  shows "all_owned l st'"
proof -
  have copy: "owned l n (pool_copy l p)" if "owned l n p" for n p using that by (auto simp: owned_def pool_copy_def)
  from assms have "st' = \<lparr>s_pools = map (\<lambda>(n, p). (n, pool_copy l p)) (s_pools st),
     s_defaultPool = (case s_defaultPool st of None \<Rightarrow> None | Some dp \<Rightarrow>
       map_option (\<lambda>(n, p). pool_copy l p) (find (\<lambda>(n, p). p_name dp = p_name p) (s_pools st))), s_l = l\<rparr>"
    by (auto simp: storage_Copy_def split: list.splits option.splits)
  moreover have "\<forall>(n, p) \<in> set (map (\<lambda>(n, p). (n, pool_copy l p)) (s_pools st)). owned l n p"
    using assms(1) copy by (auto simp: all_owned_def)
  moreover have "\<exists>n. owned l n (pool_copy l p)" if "find f (s_pools st) = Some (n, p)" for f n p
  proof -
    from that have "(n, p) \<in> set (s_pools st)" by (auto simp: find_Some_iff in_set_conv_nth)
    with assms(1) have "owned l n p" by (auto simp: all_owned_def)
    from copy [OF this] show ?thesis ..
  qed
  ultimately show ?thesis by (auto simp: all_owned_def split: option.splits)
qed

lemma all_owned_frame:
  assumes "all_owned (provider_conn v) st" and "conn_steps (lift_rel R) (provider_conn v)"
  shows "storage_on v (Some st)" "storage_frame (lift_rel R) st"
proof -
  have pool: "owned (provider_conn v) x p" if "GetPool st x = Ok p" for x p
    using assms(1) that by (auto simp: all_owned_def GetPool_def dest!: map_of_SomeD split: option.splits)
  then show "storage_on v (Some st)" using assms(1) by (auto simp: storage_on_def pool_on_def owned_def all_owned_def)
  have frame: "pool_frame (lift_rel R) p" if "owned (provider_conn v) x p" for x p
    using that assms(2) unfolding owned_def pool_frame_def by metis
  have "\<exists>x. owned (provider_conn v) x p" if "DefaultPool st = Ok p" for p
    using assms(1) that by (auto simp: DefaultPool_def all_owned_def split: option.splits)
  with pool frame show "storage_frame (lift_rel R) st" unfolding storage_frame_def by blast
qed

section \<open>The virtualizer\<close>

definition vms :: "('w \<Rightarrow> domains) \<Rightarrow> prov \<times> 'w \<Rightarrow> domains" where
  "vms doms s = doms (snd s)"

lemma same_vms: "same (vms doms) = lift_rel (same doms)"
  by (auto simp: fun_eq_iff same_def lift_rel_def vms_def)

lemma StopVM_effect:
  assumes laws: "dom_laws doms xname v" and run: "StopVM v n s = (r, s')"
  shows "(\<forall>m. m \<noteq> n \<longrightarrow> doms (snd s') m = doms (snd s) m)
    \<and> (r = Ok () \<longrightarrow> doms (snd s) n \<noteq> None \<and> doms (snd s') n = Some False)"
  using run unfolding StopVM_def
proof (cases rule: iobind_cases)
  case (Ok d s1)
  note life = life_lawsD [OF dom_lawsD(3) [OF laws]]
  have d: "d = n" "doms (snd s) n \<noteq> None" "doms (snd s1) = doms (snd s)"
    using getDomain_result(1,2) [OF laws Ok(1)] by simp_all
  from Ok(2) show ?thesis
  proof (cases rule: iotry_cases)
    case (Ok u s2)
    with life(4) [OF worldD [OF Ok(1)]] d show ?thesis by (simp add: ret_def)
  next
    case (Fail e s2)
    with life(4) [OF worldD [OF Fail(1)]] d have s2: "doms (snd s2) = doms (snd s)" by simp
    from Fail(2) obtain q where "world (c_Stop v d False) s2 = (q, s')" "r = Ok () \<longleftrightarrow> q = Ok ()"
      by (cases rule: iowrap_cases) auto
    with life(4) [OF worldD [OF this(1)]] s2 d show ?thesis by simp
  next
    case (Panic x)
    with life(4) [OF worldD [OF Panic(1)]] d show ?thesis by simp
  qed
next
  case (Fail e)
  with getDomain_result(1) [OF laws Fail(1)] show ?thesis by simp
next
  case (Panic x)
  with getDomain_result(1) [OF laws Panic(1)] show ?thesis by simp
qed

lemma libvirt_life:
  assumes laws: "dom_laws doms xname v" and st: "storage_on v (Some st)"
  shows "life_contract (vms doms) (libvirt_virtualizer v st c)"
  unfolding life_contract_def vms_def
proof (intro conjI allI impI)
  fix k s r s' assume "z_CreateVM (libvirt_virtualizer v st c) k s = (r, s')" "vm_XMLConfig k = []"
  with CreateVM_effect [OF laws st, of k s r s']
  show "if r = Ok () then doms (snd s) (vm_Name k) = None \<and> doms (snd s') = (doms (snd s))(vm_Name k \<mapsto> True)
      else doms (snd s') = doms (snd s)
        \<or> doms (snd s) (vm_Name k) = None \<and> doms (snd s') = (doms (snd s))(vm_Name k \<mapsto> False)"
    by (simp add: libvirt_virtualizer_def)
next
  fix n s r s' m assume "z_StopVM (libvirt_virtualizer v st c) n s = (r, s')" "m \<noteq> n"
  with StopVM_effect [OF laws, of n s r s'] show "doms (snd s') m = doms (snd s) m" by (simp add: libvirt_virtualizer_def)
next
  fix n s r s' assume "z_StopVM (libvirt_virtualizer v st c) n s = (r, s')" "r = Ok ()"
  with StopVM_effect [OF laws, of n s r s'] show "doms (snd s) n \<noteq> None" "doms (snd s') n = Some False"
    by (simp_all add: libvirt_virtualizer_def)
next
  fix n s r s' m assume "z_DestroyVM (libvirt_virtualizer v st c) n s = (r, s')" "m \<noteq> n"
  then have "DestroyVM v (Some st) n s = (r, s')" by (simp add: libvirt_virtualizer_def)
  from DestroyVM_effect [OF laws st this] \<open>m \<noteq> n\<close> show "doms (snd s') m = doms (snd s) m" by blast
next
  fix n s r s' assume "z_DestroyVM (libvirt_virtualizer v st c) n s = (r, s')" and ok: "r = Ok ()"
  then have "DestroyVM v (Some st) n s = (r, s')" by (simp add: libvirt_virtualizer_def)
  from DestroyVM_effect [OF laws st this] ok show "doms (snd s) n \<noteq> None" "doms (snd s') n = None" by simp_all
qed

lemma libvirt_queries:
  assumes R: "preorder R" and keep: "conn_keeps R v" and lib: "query_steps R v" and look: "\<And>c n. steps R (c_LookupDomain v c n)"
  shows "steps (lift_rel R) (getDomain v n)" "steps (lift_rel R) (GetVM v n)" "steps (lift_rel R) (GetNetworkInterfaces v n)"
    "steps (lift_rel R) (ListNetworks v)" "steps (lift_rel R) (LookupNetworkByName v n)"
proof -
  note rules = steps_intros preorder_lift [OF R] steps_world steps_prov [OF R] connection_steps [OF R keep]
    query_stepsD [OF lib] look
  show dom: "steps (lift_rel R) (getDomain v n)" for n unfolding getDomain_def by (intro rules)
  show "steps (lift_rel R) (GetVM v n)" unfolding GetVM_def by (intro rules dom)
  have "steps (lift_rel R) (bridge_networks v ns m)" for ns m
    by (induction ns arbitrary: m) (auto intro!: rules)
  then show "steps (lift_rel R) (GetNetworkInterfaces v n)"
    unfolding GetNetworkInterfaces_def by (auto split: option.split intro!: rules dom)
  show "steps (lift_rel R) (ListNetworks v)" unfolding ListNetworks_def by (intro rules)
  show "steps (lift_rel R) (LookupNetworkByName v n)" unfolding LookupNetworkByName_def by (intro rules)
qed

lemma libvirt_machines:
  assumes R: "preorder R" and keep: "calls_keep R v" and lib: "lib_steps R v" and d: "domain_steps R v"
    and st: "storage_on v (Some st)"
  shows "steps (lift_rel R) (CreateVM v (Some st) k)" "steps (lift_rel R) (DestroyVM v (Some st) n)"
proof -
  note rules = steps_intros preorder_lift [OF R] steps_world connection_steps [OF R calls_keepD(1) [OF keep]] domain_stepsD [OF d]
    libvirt_queries(1) [OF R calls_keepD(1) [OF keep] lib_stepsD(2) [OF lib] domain_stepsD(1) [OF d]] domain_xml_steps [OF R calls_keepD(2) [OF keep] st]
    getDomainVolumes_steps [OF R calls_keepD(2) [OF keep] st] delete_volumes_steps [OF R keep st]
  show "steps (lift_rel R) (CreateVM v (Some st) k)" unfolding CreateVM_def by (intro rules)
  show "steps (lift_rel R) (DestroyVM v (Some st) n)" unfolding DestroyVM_def by (intro rules)
qed

lemma steps_read: "preorder R \<Longrightarrow> steps (lift_rel R) (iobind get_prov (\<lambda>p. lift (f p)))"
  by (intro steps_intros preorder_lift steps_prov)

lemma GetVM_there: "dom_laws doms xname v \<Longrightarrow> GetVM v n s = (Ok i, s') \<Longrightarrow> doms (snd s) n \<noteq> None"
  using getDomain_result(2) unfolding GetVM_def by (fastforce simp: iobind_Ok)

lemma libvirt_machine:
  assumes laws: "dom_laws doms xname v" and lib: "lib_steps (same doms) v" and st: "all_owned (provider_conn v) st"
    and c: "controller_steps (lift_rel (same doms)) c"
  shows "machine_laws (vms doms) (libvirt_virtualizer v st c)"
proof -
  note R = preorder_lift [OF preorder_same [of doms]]
  note own = all_owned_frame [OF st provider_conn_frame [OF preorder_same dom_lawsD(1) [OF laws] lib]]
  note queries = libvirt_queries [OF preorder_same calls_keepD(1) [OF dom_lawsD(1) [OF laws]] lib_stepsD(2) [OF lib] look_lawsD(1) [OF dom_lawsD(2) [OF laws]]]
  have "quiet_contract (vms doms) (libvirt_virtualizer v st c)"
    unfolding quiet_contract_def same_vms
    by (auto simp: libvirt_virtualizer_def queries own(2) Networking_def ret_def controller_net_def steps_read
        net_frame [OF R c] vms_def steps_ret [OF R, unfolded ret_def] dest: GetVM_there [OF laws])
  with libvirt_life [OF laws own(1)] show ?thesis by (simp add: machine_laws_def)
qed

text \<open>
  A controller that is used on libvirt with the filter of iptables, and the host it is on: the calls of
  libvirt but those on networks leave the host as it is.
\<close>

definition on_libvirt :: "'w virt \<Rightarrow> (prov \<times> 'w) controller \<Rightarrow> (prov \<times> 'w) packet_filter \<Rightarrow> (prov \<times> 'w) controller" where
  "on_libvirt v c f = c\<lparr>ct_netConn := provider_netconn v, ct_filter := Some f\<rparr>"

lemma libvirt_tidy:
  assumes R: "preorder R" and keep: "calls_keep R v" and lib: "lib_steps R v" and d: "domain_steps R v"
    and st: "all_owned (provider_conn v) st" and N: "same (observed N) = lift_rel R"
    and net: "network_laws N c"
  shows "tidy_laws N (libvirt_virtualizer v st c)"
proof -
  note own = all_owned_frame [OF st provider_conn_frame [OF R keep lib]]
  note queries = libvirt_queries [OF R calls_keepD(1) [OF keep] lib_stepsD(2) [OF lib] domain_stepsD(1) [OF d]]
  show ?thesis unfolding tidy_laws_def N
    by (auto simp: libvirt_virtualizer_def queries libvirt_machines [OF R keep lib d own(1)] own(2) steps_read [OF R]
        Networking_def steps_ret [OF preorder_lift [OF R]])
      (auto simp: ret_def net)
qed

text \<open>
  The volumes a machine has are those the definition of its domain refers to. Libvirt keeps the contract
  of the volumes when it behaves as documented of definitions, volumes and pools that are backed by ceph.
\<close>

definition domain_refs :: "(string \<Rightarrow> poolsource) \<Rightarrow> string set \<Rightarrow> ('w \<Rightarrow> string \<rightharpoonup> domxml) \<Rightarrow> (prov \<times> 'w) attachments" where
  "domain_refs src C xml s n = (case xml (snd s) n of Some (DomainXML g) \<Rightarrow> Some (def_refs src C g) | _ \<Rightarrow> None)"

definition volumes_lib ::
  "('w \<Rightarrow> volh set) \<Rightarrow> ('w \<Rightarrow> string \<rightharpoonup> domxml) \<Rightarrow> (string \<Rightarrow> poolsource) \<Rightarrow> string set \<Rightarrow> 'w virt \<Rightarrow> bool" where
  "volumes_lib vols xml src C v \<longleftrightarrow> lib_laws vols v \<and> def_laws xml v \<and> ceph_laws v src C \<and> leave_volumes vols v
     \<and> query_steps (same vols) v \<and> lib_steps (same xml) v"

definition lib_volumes :: "('w \<Rightarrow> volh set) \<Rightarrow> prov \<times> 'w \<Rightarrow> volh set" where
  "lib_volumes vols s = vols (snd s)"

lemma lift_refs: "lift_rel (same xml) \<le> same (domain_refs src C xml)"
  by (auto simp: le_fun_def lift_rel_def same_def domain_refs_def fun_eq_iff)

lemma seen_both:
  "steps (lift_rel (same vols)) m \<Longrightarrow> steps (lift_rel (same xml)) m \<Longrightarrow>
    steps (same (volumes_seen (lib_volumes vols) (domain_refs src C xml))) m"
  by (simp add: steps_def lift_rel_def same_def volumes_seen_def lib_volumes_def domain_refs_def fun_eq_iff)

lemma steps_le: "steps R m \<Longrightarrow> R \<le> Q \<Longrightarrow> steps Q m"
  by (auto simp: steps_def le_fun_def)

lemma storage_frame_le:
  assumes "storage_frame R s" and "R \<le> Q"
  shows "storage_frame Q s"
proof -
  have "conn_steps Q l" if "conn_steps R l" for l
    using that assms(2) unfolding conn_steps_def look_steps_def write_steps_def by (auto intro: steps_le [OF _ assms(2)] predicate2D [OF assms(2)])
  with assms(1) show ?thesis unfolding storage_frame_def pool_frame_def by blast
qed

lemma owned_pools:
  assumes lib: "lib_laws vols v" and st: "all_owned (provider_conn v) st"
  shows "pools_ok (lib_volumes vols) st"
proof -
  have "pool_laws (lib_volumes vols) p" if "owned (provider_conn v) n p" for n p
    using pool_on_laws [OF lib, of n p] that by (simp add: pool_on_def owned_def lib_volumes_def [abs_def])
  with st show ?thesis
    by (auto simp: pools_ok_def disk_pool_def GetPool_def DefaultPool_def all_owned_def
        split: if_splits option.splits dest!: map_of_SomeD)
qed

lemma libvirt_volumes:
  assumes laws: "dom_laws doms xname v" and V: "volumes_lib vols xml src C v"
    and st: "all_owned (provider_conn v) st" "ceph_names st \<subseteq> C"
    and c: "controller_steps (lift_rel (same vols)) c" "controller_steps (lift_rel (same xml)) c"
  shows "volume_laws (lib_volumes vols) (domain_refs src C xml) (libvirt_virtualizer v st c)"
proof -
  have lib: "lib_laws vols v" and defs: "def_laws xml v" and ceph: "ceph_laws v src C" and leave: "leave_volumes vols v"
    and looks: "query_steps (same vols) v" "lib_steps (same xml) v"
    using V by (simp_all add: volumes_lib_def)
  have vkeep: "looks_keep (same vols) v" "domain_steps (same vols) v" using leave by (simp_all add: leave_volumes_def)
  note xkeep = def_lawsD(1) [OF defs]
  note own = all_owned_frame [OF st(1) provider_conn_frame [OF preorder_same xkeep looks(2)]]
  note vq = libvirt_queries [OF preorder_same looks_keepD(1) [OF vkeep(1)] looks(1) domain_stepsD(1) [OF vkeep(2)]]
  note xq = libvirt_queries [OF preorder_same calls_keepD(1) [OF xkeep] lib_stepsD(2) [OF looks(2)] def_lawsD(2) [OF defs]]
  note P = preorder_lift [OF preorder_same]
  have made: "domain_refs src C xml s' = (domain_refs src C xml s)(vm_Name k \<mapsto> attached (vm_Volumes k))"
    if "CreateVM v (Some st) k s = (Ok (), s')" "vm_XMLConfig k = []" for k s s'
    using CreateVM_defines [OF laws defs lib ceph own(1) st(2) that(2,1)] by (auto simp: domain_refs_def fun_eq_iff)
  have gone: "lib_volumes vols s' = lib_volumes vols s - S"
    if "DestroyVM v (Some st) n s = (Ok (), s')" "domain_refs src C xml s n = Some S" for n s s' S
    using DestroyVM_deletes [OF laws defs lib ceph leave own(1) st(2) that(1)] that(2)
    by (auto simp: domain_refs_def lib_volumes_def split: option.splits domxml.splits)
  show ?thesis unfolding volume_laws_def
    by (auto simp: libvirt_virtualizer_def made gone owned_pools [OF lib st(1)] storage_frame_le [OF own(2) lift_refs]
        seen_both vq xq steps_le [OF xq(3) lift_refs] steps_le [OF steps_read [OF preorder_same] lift_refs] Networking_def ret_def controller_net_def
        net_frame [OF P c(1)] net_frame [OF P c(2)] steps_ret [OF preorder_same, unfolded ret_def])
qed

text \<open>From the setup of the providers on: what it makes gives, for every call, a virtualizer on its controller.\<close>

definition configured :: "'w virt \<Rightarrow> StorageConfig option \<Rightarrow> 'w pstorage \<Rightarrow> bool" where
  "configured v pools st \<longleftrightarrow> all_owned (provider_conn v) st \<and> (\<exists>sc. pools = Some sc \<and> ceph_names st \<subseteq> fst ` set (sc_Ceph sc))"

lemma setup_libvirt_gives:
  assumes P: "\<And>st c' s1 s2. configured v pools st \<Longrightarrow> ct_Init iptables_New c s1 = (Ok c', s2) \<Longrightarrow>
      P (libvirt_virtualizer v st (ct_Copy c' (provider_netconn v)))" and obs: "\<And>p q w. obs (p, w) = obs (q, w)"
    and run: "setup_libvirt v opts c iptables_New loaded split_host cfg pools s = (Ok d, s')"
  shows "dispenses obs P d"
proof -
  from run obtain c' s1 s2 st s3 lv where init: "ct_Init iptables_New c s1 = (Ok c', s2)"
    and st: "SetupStorage v loaded split_host pools s2 = (Ok st, s3)" and d: "d = dispense_libvirt v lv st c'"
    by (auto simp: setup_libvirt_def iobind_Ok ret_def)
  from st obtain sc where sc: "pools = Some sc" "storage_New loaded split_host (provider_conn v) sc s2 = (Ok st, s3)"
    by (auto simp: SetupStorage_def throw_def split: option.splits)
  have "steps (same obs) d"
    using obs unfolding d by (auto simp: steps_def dispense_libvirt_def same_def)
  moreover have "P z" if disp: "d w = (Ok z, w')" for w z w'
  proof -
    from disp obtain st' where copy: "storage_Copy (provider_conn v) st = Ok st'"
      and z: "z = libvirt_virtualizer v st' (ct_Copy c' (provider_netconn v))"
      unfolding d by (cases "storage_Copy (provider_conn v) st") (auto simp: dispense_libvirt_def split: prod.splits)
    from storage_Copy_owned [OF storage_New_owned [OF sc(2)] copy] storage_New_ceph [OF sc(2)] storage_Copy_ceph [OF copy] sc(1)
    have "configured v pools st'" by (simp add: configured_def)
    from P [OF this init] z show ?thesis by simp
  qed
  ultimately show ?thesis by (simp add: dispenses_def)
qed

lemma Setup_gives:
  assumes P: "\<And>cfg st c' s1 s2. config = Some cfg \<Longrightarrow> configured v (vc_StoragePools cfg) st \<Longrightarrow>
      ct_Init iptables_New c s1 = (Ok c', s2) \<Longrightarrow> P (libvirt_virtualizer v st (ct_Copy c' (provider_netconn v)))"
    and obs: "\<And>p q w. obs (p, w) = obs (q, w)"
    and run: "Setup (setup_libvirt v opts c iptables_New loaded split_host) config providers_New s = (Ok ps, s')"
  shows "provide obs P ps"
proof -
  from run obtain cfg provider lc d s1 where config: "config = Some cfg" and
    made: "setup_libvirt v opts c iptables_New loaded split_host lc (vc_StoragePools cfg) s = (Ok d, s1)"
    and ps: "ps_dispensers ps = [(''libvirt'', d)]" "ps_default ps = Some d"
    by (auto simp: Setup_def throw_def ret_def Let_def iobind_Ok providers_New_def split: option.splits if_splits)
  have "dispenses obs P d" by (rule setup_libvirt_gives [OF _ _ made]) (iprover intro: P config obs)+
  with ps show ?thesis by (simp add: provide_def)
qed

definition given_steps ::
  "('w \<Rightarrow> 'w \<Rightarrow> bool) \<Rightarrow> ('w, 'w packet_filter) io \<Rightarrow> 'w controller \<Rightarrow> bool" where
  "given_steps R mk c \<longleftrightarrow> netcall_steps R (ct_calls c) \<and> (\<forall>f. ct_filter c = Some f \<longrightarrow> filter_steps R f)
     \<and> (\<forall>w f w'. mk w = (Ok f, w') \<longrightarrow> filter_steps R f)"

lemma ct_Init_steps:
  assumes "given_steps R mk c" and "ct_Init mk c s = (Ok c', s')"
  shows "netcall_steps R (ct_calls c') \<and> (\<forall>f. ct_filter c' = Some f \<longrightarrow> filter_steps R f)"
  using assms by (auto simp: given_steps_def ct_Init_def iobind_Ok ret_def split: option.splits) blast

lemma Setup_machines:
  assumes laws: "dom_laws doms xname v" and lib: "lib_steps (same doms) v"
    and net: "given_steps (lift_rel (same doms)) iptables_New c"
    and run: "Setup (setup_libvirt v opts c iptables_New loaded split_host) config providers_New s0 = (Ok ps, s1)"
  shows "providers_laws (vms doms) ps"
  unfolding providers_laws_provide
proof (rule Setup_gives [OF _ _ run])
  show "vms doms (p, w) = vms doms (q, w)" for p q w by (simp add: vms_def)
  fix cfg st c' s1 s2 assume "configured v (vc_StoragePools cfg) st" and init: "ct_Init iptables_New c s1 = (Ok c', s2)"
  then have own: "all_owned (provider_conn v) st" by (simp add: configured_def)
  note queries = libvirt_queries [OF preorder_same calls_keepD(1) [OF dom_lawsD(1) [OF laws]] lib_stepsD(2) [OF lib] look_lawsD(1) [OF dom_lawsD(2) [OF laws]]]
  have "controller_steps (lift_rel (same doms)) (ct_Copy c' (provider_netconn v))"
    using ct_Init_steps [OF net init] queries
    by (simp add: controller_steps_def network_steps_def ct_Copy_def provider_netconn_def)
  then show "machine_laws (vms doms) (libvirt_virtualizer v st (ct_Copy c' (provider_netconn v)))"
    by (rule libvirt_machine [OF laws lib own])
qed

lemma Setup_tidy:
  assumes R: "preorder R" and keep: "calls_keep R v" and lib: "lib_steps R v" and d: "domain_steps R v"
    and N: "same (observed N) = lift_rel R" and unset: "ct_filter c = None"
    and mk: "\<And>s f s'. iptables_New s = (Ok f, s') \<Longrightarrow> network_laws N (on_libvirt v c f)"
    and run: "Setup (setup_libvirt v opts c iptables_New loaded split_host) config providers_New s0 = (Ok ps, s1)"
  shows "provide (observed N) (tidy_laws N) ps"
proof (rule Setup_gives [OF _ _ run])
  show "observed N (p, w) = observed N (q, w)" for p q w
    using fun_cong [OF fun_cong [OF N, of "(q, w)"], of "(p, w)"] R by (simp add: same_def lift_rel_def preorder_def)
  fix cfg st c' s1 s2 assume "configured v (vc_StoragePools cfg) st" and init: "ct_Init iptables_New c s1 = (Ok c', s2)"
  then have own: "all_owned (provider_conn v) st" by (simp add: configured_def)
  from init unset obtain f where "iptables_New s1 = (Ok f, s2)" "ct_Copy c' (provider_netconn v) = on_libvirt v c f"
    by (auto simp: ct_Init_def iobind_Ok ret_def ct_Copy_def on_libvirt_def)
  with mk show "tidy_laws N (libvirt_virtualizer v st (ct_Copy c' (provider_netconn v)))"
    by (simp add: libvirt_tidy [OF R keep lib d own N])
qed

lemma Setup_volumes:
  assumes laws: "dom_laws doms xname v" and V: "volumes_lib vols xml src C v"
    and net: "given_steps (lift_rel (same vols)) iptables_New c" "given_steps (lift_rel (same xml)) iptables_New c"
    and ceph: "\<And>cfg sc. config = Some cfg \<Longrightarrow> vc_StoragePools cfg = Some sc \<Longrightarrow> fst ` set (sc_Ceph sc) \<subseteq> C"
    and run: "Setup (setup_libvirt v opts c iptables_New loaded split_host) config providers_New s0 = (Ok ps, s1)"
  shows "provide (volumes_seen (lib_volumes vols) (domain_refs src C xml)) (volume_laws (lib_volumes vols) (domain_refs src C xml)) ps"
proof (rule Setup_gives [OF _ _ run])
  let ?seen = "volumes_seen (lib_volumes vols) (domain_refs src C xml)"
  show "?seen (p, w) = ?seen (q, w)" for p q w by (simp add: volumes_seen_def lib_volumes_def domain_refs_def fun_eq_iff)
  fix cfg st c' s1 s2 assume cfg: "config = Some cfg" "configured v (vc_StoragePools cfg) st"
    and init: "ct_Init iptables_New c s1 = (Ok c', s2)"
  from cfg obtain sc where "vc_StoragePools cfg = Some sc" "ceph_names st \<subseteq> fst ` set (sc_Ceph sc)" "all_owned (provider_conn v) st"
    by (auto simp: configured_def)
  with ceph cfg(1) have st: "all_owned (provider_conn v) st" "ceph_names st \<subseteq> C" by blast+
  have "query_steps (same vols) v" "query_steps (same xml) v" "conn_keeps (same vols) v" "conn_keeps (same xml) v"
    using V unfolding volumes_lib_def leave_volumes_def
    by (iprover dest: lib_stepsD(2) looks_keepD(1) def_lawsD(1) calls_keepD(1))+
  note queries = libvirt_queries(4,5) [OF preorder_same this(3,1)] libvirt_queries(4,5) [OF preorder_same this(4,2)]
  have "steps (same vols) (c_LookupDomain v k n)" "steps (same xml) (c_LookupDomain v k n)" for k n
    using V unfolding volumes_lib_def leave_volumes_def by (iprover dest: domain_stepsD(1) def_lawsD(2))+
  with queries ct_Init_steps [OF net(1) init] ct_Init_steps [OF net(2) init]
  have "controller_steps (lift_rel (same vols)) (ct_Copy c' (provider_netconn v))"
    "controller_steps (lift_rel (same xml)) (ct_Copy c' (provider_netconn v))"
    by (simp_all add: controller_steps_def network_steps_def ct_Copy_def provider_netconn_def)
  then show "volume_laws (lib_volumes vols) (domain_refs src C xml) (libvirt_virtualizer v st (ct_Copy c' (provider_netconn v)))"
    by (rule libvirt_volumes [OF laws V st])
qed

section \<open>A setup in memory\<close>

text \<open>The host in memory of \<open>TaskTrace\<close>, whose machines are those of the libvirt in memory.\<close>

definition world_calls :: "'w netcalls \<Rightarrow> (prov \<times> 'w) netcalls" where
  "world_calls n = \<lparr>nw_IsActive = (\<lambda>i. world (nw_IsActive n i)), nw_GetBridgeName = (\<lambda>i. world (nw_GetBridgeName n i)),
     nw_GetDHCPLeases = (\<lambda>i. world (nw_GetDHCPLeases n i)), nw_AddHost = (\<lambda>i h. world (nw_AddHost n i h)),
     nw_DeleteHost = (\<lambda>i h. world (nw_DeleteHost n i h)), nw_Hosts = (\<lambda>i. world (nw_Hosts n i)),
     nw_Marshal = nw_Marshal n, nw_Unmarshal = nw_Unmarshal n, nw_Now = (\<lambda>(p, w). nw_Now n w),
     nw_SendRelease = (\<lambda>b p. world (nw_SendRelease n b p))\<rparr>"

definition world_ipt :: "'w IPTables \<Rightarrow> (prov \<times> 'w) IPTables" where
  "world_ipt i = \<lparr>ipt_AppendUnique = (\<lambda>t c s. world (ipt_AppendUnique i t c s)), ipt_ChainExists = (\<lambda>t c. world (ipt_ChainExists i t c)),
     ipt_ClearAndDeleteChain = (\<lambda>t c. world (ipt_ClearAndDeleteChain i t c)),
     ipt_DeleteIfExists = (\<lambda>t c s. world (ipt_DeleteIfExists i t c s)),
     ipt_InsertUnique = (\<lambda>t c n s. world (ipt_InsertUnique i t c n s)), ipt_NewChain = (\<lambda>t c. world (ipt_NewChain i t c)),
     ipt_IsNotExist = ipt_IsNotExist i\<rparr>"

definition lib_host :: "(prov \<times> hostmemory) host_net" where
  "lib_host = \<lparr>hn_hosts = (\<lambda>s. hm_hosts (snd s)), hn_view = (\<lambda>s. hm_fw (snd s)), hn_tables = mem_tables_on (world_ipt fw_ipt),
     hn_calls = world_calls host_calls\<rparr>"

definition mem_net :: "(prov \<times> hostmemory) controller" where
  "mem_net = NewController (world_calls host_calls) 3 (\<lambda>n w. Ok (V4 [192, 168, 122, 1])) (provider_netconn (mem_virt False False))"

abbreviation mem_filter :: "(prov \<times> hostmemory) packet_filter" where
  "mem_filter \<equiv> iptables_filter (hn_tables lib_host)"

definition mem_setup :: "VirtConfig option \<Rightarrow> (prov \<times> hostmemory) providers \<Rightarrow> (prov \<times> hostmemory, (prov \<times> hostmemory) providers) io" where
  "mem_setup = Setup (setup_libvirt (mem_virt False False) [] mem_net (ret mem_filter) None (\<lambda>h. Ok (h, [])))"

lemma keeps_world: "keeps view m eff \<Longrightarrow> keeps (\<lambda>s. view (snd s)) (world m) eff"
  unfolding keeps_def by (auto dest!: worldD)

lemma world_ipt_laws: "ipt_laws view i \<Longrightarrow> ipt_laws (\<lambda>s. view (snd s)) (world_ipt i)"
proof -
  assume laws: "ipt_laws view i"
  note law = ipt_lawsD [OF laws]
  show ?thesis unfolding ipt_laws_def
    by (simp add: world_ipt_def keeps_world law(1-6) del: not_None_eq) (auto dest!: worldD dest: law(7-9))
qed

lemma world_update_laws:
  assumes "update_laws hosts c" and "\<And>n s m s'. nc_LookupNetworkByName conn n s = (Ok m, s') \<Longrightarrow> m = n"
  shows "update_laws (\<lambda>s. hosts (snd s)) (c'\<lparr>ct_calls := world_calls (ct_calls c), ct_netConn := conn\<rparr>)"
proof -
  note law = update_lawsD [OF assms(1)]
  show ?thesis unfolding update_laws_def
    by (simp add: world_calls_def assms(2)) (auto simp: law(6) dest!: worldD dest: law(2-5) assms(2))
qed

lemma mem_lib_steps: "lib_steps (same mem_doms) (mem_virt bad stuck)"
  by (simp add: lib_steps_def query_steps_def conn_steps_def look_steps_def write_steps_def mem_virt_def mem_raw_def steps_def same_def
      ret_def throw_def)

text \<open>No call of the libvirt in memory reaches the reservations and the firewall.\<close>

definition seen_host :: "hostmemory \<Rightarrow> (string \<Rightarrow> dhcphost list) \<times> fw" where
  "seen_host w = (hm_hosts w, hm_fw w)"

lemma mem_seen: "calls_keep (same seen_host) (mem_virt bad stuck)" "lib_steps (same seen_host) (mem_virt bad stuck)"
  "domain_steps (same seen_host) (mem_virt bad stuck)"
  by (auto simp: calls_keep_def looks_keep_def conn_keeps_def lib_steps_def query_steps_def conn_steps_def look_steps_def write_steps_def domain_steps_def
      mem_virt_def mem_raw_def mem_stop_def seen_host_def steps_def same_def ret_def throw_def Let_def
      split: option.splits bool.splits)

lemma lib_observed: "same (observed lib_host) = lift_rel (same seen_host)"
  by (auto simp: fun_eq_iff same_def lift_rel_def observed_def lib_host_def seen_host_def)

lemma lift_seen:
  "steps (lift_rel (same seen_host)) m \<Longrightarrow> steps (same (\<lambda>s. hm_hosts (snd s))) m"
  "steps (lift_rel (same seen_host)) m \<Longrightarrow> steps (same (\<lambda>s. hm_fw (snd s))) m"
  by (auto simp: steps_def same_def lift_rel_def seen_host_def)

lemma lib_host_sel: "hn_hosts lib_host = (\<lambda>s. hm_hosts (snd s))" "hn_view lib_host = (\<lambda>s. hm_fw (snd s))"
    "hn_calls lib_host = world_calls host_calls" "vt_ipt (hn_tables lib_host) = world_ipt fw_ipt"
  by (simp_all add: lib_host_def ipt_sel)

lemma world_steps:
  "steps (same f) m \<Longrightarrow> steps (same (\<lambda>s. f (snd s))) (world m)"
  by (auto simp: steps_def same_def dest!: worldD)

lemma world_call_steps:
  assumes "netcall_steps (same f) n"
  shows "netcall_steps (same (\<lambda>s. f (snd s))) (world_calls n)"
  using assms by (simp add: netcall_steps_def world_calls_def world_steps)

lemma world_ipt_steps:
  assumes "ipt_steps (same f) i"
  shows "ipt_steps (same (\<lambda>s. f (snd s))) (world_ipt i)"
  using assms by (simp add: ipt_steps_def world_ipt_def world_steps)

lemma mem_names_networks:
  "ListNetworks (mem_virt bad stuck) s = (Ok ns, s') \<Longrightarrow> [] \<notin> set ns"
  "LookupNetworkByName (mem_virt bad stuck) n s = (Ok m, s') \<Longrightarrow> m = n"
  by (auto simp: ListNetworks_def LookupNetworkByName_def iobind_Ok mem_virt_def ret_def dest!: worldD)

lemma lib_network_laws: "network_laws lib_host (on_libvirt (mem_virt False False) mem_net mem_filter)"
proof -
  note law = network_lawsD [OF host_network_laws, unfolded host_memory_def, simplified]
  note queries = libvirt_queries [OF preorder_same calls_keepD(1) [OF mem_seen(1)] lib_stepsD(2) [OF mem_seen(2)] domain_stepsD(1) [OF mem_seen(3)]]
  let ?c = "on_libvirt (mem_virt False False) mem_net mem_filter"
  have c: "ct_calls ?c = world_calls host_calls" "ct_netConn ?c = provider_netconn (mem_virt False False)"
    "ct_filter ?c = Some mem_filter"
    by (simp_all add: on_libvirt_def mem_net_def NewController_def)
  have "?c = ?c\<lparr>ct_calls := world_calls (ct_calls host_controller), ct_netConn := provider_netconn (mem_virt False False)\<rparr>"
    by (simp add: on_libvirt_def mem_net_def NewController_def law(1))
  then have upd: "update_laws (hn_hosts lib_host) ?c"
    using world_update_laws [OF law(4), of "provider_netconn (mem_virt False False)" ?c]
    by (simp add: provider_netconn_def mem_names_networks(2) lib_host_sel)
  have ipt: "ipt_laws (hn_view lib_host) (vt_ipt (hn_tables lib_host))"
    using world_ipt_laws [OF law(5) [unfolded ipt_sel]] by (simp add: lib_host_sel)
  have filt: "filter_steps (same (\<lambda>s. hm_hosts (snd s))) mem_filter"
    by (simp add: lib_host_sel filter_frame world_ipt_steps fw_steps(1) [unfolded ipt_sel])
  have net: "net_laws (hn_hosts lib_host) ?c"
    using filt world_steps [OF net_lawsD(3) [OF law(3)]] world_steps [OF net_lawsD(4) [OF law(3)]]
      world_steps [OF net_lawsD(5) [OF law(3)]] world_steps [OF net_lawsD(6) [OF law(3)]]
    by (simp add: net_laws_def filter_Configure_def filter_Teardown_def filter_steps_def c provider_netconn_def law(1)
        lift_seen(1) queries lib_host_sel world_calls_def)
  have "netcall_steps (same hm_fw) host_calls" using law(6) by (simp add: network_steps_def law(1))
  then have "network_steps (same (hn_view lib_host)) ?c"
    by (simp add: network_steps_def c world_call_steps provider_netconn_def lift_seen(2) queries lib_host_sel)
  with net upd ipt show ?thesis
    by (simp add: network_laws_def c provider_netconn_def mem_names_networks(1)) (simp add: lib_host_sel)
qed

lemma lift_same: "lift_rel (same f) = same (\<lambda>s. f (snd s))"
  by (simp add: fun_eq_iff lift_rel_def same_def)

lemma mem_given_by:
  assumes "\<And>w h. f (w\<lparr>hm_hosts := h\<rparr>) = f w" and "\<And>w v. f (w\<lparr>hm_fw := v\<rparr>) = f w"
  shows "given_steps (lift_rel (same f)) (ret mem_filter) mem_net"
proof -
  have io: "steps (same f) (fw_io m)" "steps (same f) (hosts_io k)" for m :: "(fw, 'x) io" and k :: "(string \<Rightarrow> dhcphost list, 'y) io"
    using assms by (auto simp: steps_def same_def fw_io_def hosts_io_def split: prod.splits)
  have fw: "ipt_steps (same f) fw_ipt"
    by (simp add: ipt_steps_def fw_ipt_def io)
  have "filter_steps (same (\<lambda>s. f (snd s))) mem_filter"
    by (simp add: lib_host_sel filter_frame world_ipt_steps fw)
  moreover have "netcall_steps (same (\<lambda>s. f (snd s))) (world_calls host_calls)"
    by (rule world_call_steps) (simp add: netcall_steps_def host_calls_def io steps_ret)
  ultimately show ?thesis
    by (simp add: given_steps_def mem_net_def NewController_def ret_def lift_same)
qed

lemma mem_given: "given_steps (lift_rel (same mem_doms)) (ret mem_filter) mem_net"
  "given_steps (lift_rel (same mem_vols)) (ret mem_filter) mem_net" "given_steps (lift_rel (same mem_xml)) (ret mem_filter) mem_net"
  by (rule mem_given_by; simp)+

definition mem_source :: "string \<Rightarrow> poolsource" where
  "mem_source n = \<lparr>ps_Name = n, ps_Host = [], ps_Auth = None\<rparr>"

lemma mem_volumes_lib: "volumes_lib mem_vols mem_xml src {} (mem_virt False False)"
proof -
  have "def_laws mem_xml (mem_virt False False)" unfolding def_laws_def
    by (intro conjI) (auto simp: calls_keep_def looks_keep_def conn_keeps_def mem_virt_def mem_raw_def mem_disks_def
        image_image steps_def same_def ret_def Let_def split: option.splits)
  moreover have "leave_volumes mem_vols (mem_virt False False)"
    by (auto simp: leave_volumes_def looks_keep_def conn_keeps_def domain_steps_def mem_virt_def mem_raw_def mem_stop_def
        steps_def same_def ret_def Let_def split: option.splits bool.splits)
  moreover have "query_steps (same mem_vols) (mem_virt False False)" "lib_steps (same mem_xml) (mem_virt False False)"
    by (auto simp: lib_steps_def query_steps_def conn_steps_def look_steps_def write_steps_def mem_virt_def mem_raw_def steps_def
        same_def ret_def throw_def split: option.splits)
  ultimately show ?thesis by (simp add: volumes_lib_def mem_lib_laws ceph_laws_def clear_sources_def)
qed

lemma mem_connects:
  "\<not> pv_closed p \<Longrightarrow> pv_conn p = None \<Longrightarrow> \<exists>c w'. connection (mem_virt bad stuck) (p, w) = (Ok c, (p\<lparr>pv_conn := Some c\<rparr>, w'))"
  "\<not> pv_closed p \<Longrightarrow> pv_conn p = Some c \<Longrightarrow> connection (mem_virt bad stuck) (p, w) = (Ok c, (p, w))"
  by (simp_all add: connection_def reconnect_def newConnection_def mem_virt_def Let_def)

lemma mem_Init:
  assumes "\<not> pv_closed p" and "pv_conn p = None" and "pv_caps p = None"
  shows "\<exists>p' c w'. prov_Init (mem_virt bad stuck) (p, w) = (Ok (), (p', w')) \<and> \<not> pv_closed p' \<and> pv_conn p' = Some c"
proof -
  obtain c w' where first: "connection (mem_virt bad stuck) (p, w) = (Ok c, (p\<lparr>pv_conn := Some c\<rparr>, w'))"
    using mem_connects(1) [OF assms(1,2)] by blast
  let ?p = "p\<lparr>pv_conn := Some c, pv_libvirtVersion := 11000000\<rparr>"
  have again: "connection (mem_virt bad stuck) (?p, w') = (Ok c, (?p, w'))" using assms(1) by (intro mem_connects(2)) simp_all
  have sel: "c_GetVersion (mem_virt bad stuck) c w' = (Ok 11000000, w')"
    "c_GetCapabilities (mem_virt bad stuck) c w' = (Ok (\<lparr>hc_Arch = ''x86_64'', hc_PM = None\<rparr>, []), w')"
    by (simp_all add: mem_virt_def ret_def)
  have "loadCapabilities (mem_virt bad stuck) (?p, w')
      = (Ok (), (?p\<lparr>pv_caps := Some \<lparr>cp_Host = \<lparr>hc_Arch = ''x86_64'', hc_PM = None\<rparr>, cp_Guests = Map.empty\<rparr>\<rparr>, w'))"
    by (simp add: loadCapabilities_def iobind_apply again world_def sel ret_apply mod_prov_def)
  then have "prov_Init (mem_virt bad stuck) (p, w)
      = (Ok (), (?p\<lparr>pv_caps := Some \<lparr>cp_Host = \<lparr>hc_Arch = ''x86_64'', hc_PM = None\<rparr>, cp_Guests = Map.empty\<rparr>\<rparr>, w'))"
    using assms(3) by (simp add: prov_Init_def iobind_apply first world_def sel mod_prov_def get_prov_def)
  then show ?thesis using assms(1) by simp
qed

lemma mem_pool:
  assumes "\<not> pv_closed p" and "pv_conn p = Some c"
  shows "newDirectoryPool (provider_conn (mem_virt bad stuck)) n d (p, w)
      = (Ok \<lparr>p_kind = DirectoryPool, p_name = n, p_l = provider_conn (mem_virt bad stuck), p_custom = None\<rparr>, (p, w))"
proof -
  have "FindStoragePool (mem_virt bad stuck) n (p, w) = (Ok n, (p, w))"
    by (simp add: FindStoragePool_def iobind_apply iotry_apply mem_connects(2) [OF assms] world_def mem_sel ret_apply)
  then show ?thesis
    by (simp add: newDirectoryPool_def find_pool_def provider_conn_sel iobind_apply iotry_apply ret_apply)
qed

definition mem_libvirt :: LibvirtConfig where
  "mem_libvirt = \<lparr>lv_URI = [], lv_User = [], lv_Password = [], lv_AllowInsecureMounts = False\<rparr>"

lemma mem_setup_run:
  "\<exists>ps s'. mem_setup (Some (toy_plugin_config\<lparr>vc_Provider := Some \<lparr>prov_Default = [], prov_Libvirt = Some mem_libvirt\<rparr>\<rparr>))
     providers_New (connected, empty_host) = (Ok ps, s')"
proof -
  let ?v = "mem_virt False False" and ?p = "prov_New [WithConfig (Some mem_libvirt)]"
  let ?sc = "\<lparr>sc_Default = [], sc_Directory = [(''local'', \<lparr>dir_Path = ''/p''\<rparr>)], sc_Ceph = []\<rparr>"
  have "\<not> pv_closed ?p" "pv_conn ?p = None" "pv_caps ?p = None"
    by (simp_all add: prov_New_def WithConfig_def mem_libvirt_def)
  from mem_Init [OF this] obtain p' c w' where init: "prov_Init ?v (?p, empty_host) = (Ok (), (p', w'))"
    and p': "\<not> pv_closed p'" "pv_conn p' = Some c" by blast
  have net: "ct_Init (ret mem_filter) mem_net s = (Ok (mem_net\<lparr>ct_filter := Some mem_filter\<rparr>), s)" for s
    by (simp add: ct_Init_def mem_net_def NewController_def ret_apply)
  obtain st where "SetupStorage ?v None (\<lambda>h. Ok (h, [])) (Some ?sc) (p', w') = (Ok st, (p', w'))"
    by (simp add: SetupStorage_def storage_New_def add_pools_def sorted_entries_def mem_pool [OF p'] iobind_apply ret_apply
        put_pool_def pick_default_def lift_def)
  then have "\<exists>d. setup_libvirt ?v [] mem_net (ret mem_filter) None (\<lambda>h. Ok (h, [])) mem_libvirt (Some ?sc) (connected, empty_host)
      = (Ok d, (p', w'))"
    by (simp add: setup_libvirt_def iobind_apply mod_prov_def init net get_prov_def ret_apply)
  then obtain d where "setup_libvirt ?v [] mem_net (ret mem_filter) None (\<lambda>h. Ok (h, [])) mem_libvirt (Some ?sc)
      (connected, empty_host) = (Ok d, (p', w'))" ..
  then show ?thesis
    by (simp add: mem_setup_def Setup_def toy_plugin_config_def iobind_apply ret_apply Let_def)
qed

section \<open>Properties\<close>

text \<open>
  C8. Tasks on libvirt. Over any libvirt that behaves as it documents, with the filter of iptables, the
  providers that the setup makes of the configuration keep the three contracts the driver relies on: that
  of the machines, that of the network (so that a task leaves no trace) and that of the volumes. Then a
  task that was started with success has made exactly its own domain, which was not defined, and which
  runs, and a task that was destroyed with success has removed exactly its own domain and, of the volumes,
  exactly those the definition of the domain refers to.
\<close>

theorem tasks_on_libvirt:
  assumes laws: "dom_laws doms xname v" "lib_steps (same doms) v" "given_steps (lift_rel (same doms)) iptables_New c"
    and host: "calls_keep (same obs) v" "lib_steps (same obs) v" "domain_steps (same obs) v"
      "same (observed N) = lift_rel (same obs)" "ct_filter c = None"
      "\<And>s f s'. iptables_New s = (Ok f, s') \<Longrightarrow> network_laws N (on_libvirt v c f)"
    and volumes: "volumes_lib vols xml src C v" "given_steps (lift_rel (same vols)) iptables_New c"
      "given_steps (lift_rel (same xml)) iptables_New c"
      "\<And>cfg sc. config = Some cfg \<Longrightarrow> vc_StoragePools cfg = Some sc \<Longrightarrow> fst ` set (sc_Ceph sc) \<subseteq> C"
    and run: "Setup (setup_libvirt v opts c iptables_New loaded split_host) config providers_New s0 = (Ok ps, s1)"
  shows "provide (vms doms) (machine_laws (vms doms)) ps \<and> provide (observed N) (tidy_laws N) ps
    \<and> provide (volumes_seen (lib_volumes vols) (domain_refs src C xml)) (volume_laws (lib_volumes vols) (domain_refs src C xml)) ps
    \<and> (\<forall>env cfg p s nh p' s'. pl_providers p = ps \<longrightarrow> host_steps (same (vms doms)) (e_host env) \<longrightarrow>
        iso_steps (same (vms doms)) (e_ci env) \<longrightarrow> StartTask env cfg (p, s) = (Ok nh, (p', s')) \<longrightarrow>
        doms (snd s) (vmNameFromTaskID (tc_ID cfg)) = None
        \<and> doms (snd s') = (doms (snd s))(vmNameFromTaskID (tc_ID cfg) \<mapsto> True))
    \<and> (\<forall>i force p s p' s'. pl_providers p = ps \<longrightarrow> pl_tasks p i \<noteq> None \<longrightarrow>
        DestroyTask i force (p, s) = (Ok (), (p', s')) \<longrightarrow>
        doms (snd s) (vmNameFromTaskID i) \<noteq> None \<and> doms (snd s') = (doms (snd s))(vmNameFromTaskID i := None)
        \<and> (\<forall>g. xml (snd s) (vmNameFromTaskID i) = Some (DomainXML g) \<longrightarrow> vols (snd s') = vols (snd s) - def_refs src C g))"
proof (intro conjI allI impI)
  note machines = Setup_machines [OF laws run]
  then show "provide (vms doms) (machine_laws (vms doms)) ps" by (simp only: providers_laws_provide)
  show "provide (observed N) (tidy_laws N) ps"
    by (rule Setup_tidy [OF preorder_same host(1-5) _ run]) (rule host(6))
  show "provide (volumes_seen (lib_volumes vols) (domain_refs src C xml)) (volume_laws (lib_volumes vols) (domain_refs src C xml)) ps"
    by (rule Setup_volumes [OF laws(1) volumes(1-3) _ run]) (rule volumes(4))
  fix env cfg p s nh p' s' assume p: "pl_providers p = ps" and "host_steps (same (vms doms)) (e_host env)"
    "iso_steps (same (vms doms)) (e_ci env)" "StartTask env cfg (p, s) = (Ok nh, (p', s'))"
  from StartTask_result [OF _ this(2-4)] machines p
  show "doms (snd s) (vmNameFromTaskID (tc_ID cfg)) = None"
    "doms (snd s') = (doms (snd s))(vmNameFromTaskID (tc_ID cfg) \<mapsto> True)"
    by (simp_all add: start_outcome_def start_rel_def Let_def vms_def)
next
  note machines = Setup_machines [OF laws run]
  fix i force p s p' s' assume p: "pl_providers p = ps" and there: "pl_tasks p i \<noteq> None"
    and destroy: "DestroyTask i force (p, s) = (Ok (), (p', s'))"
  have "providers_laws (vms doms) (pl_providers (fst (p, s)))" using machines p by simp
  from DestroyTask_result [OF this destroy] there
  show "doms (snd s) (vmNameFromTaskID i) \<noteq> None" "doms (snd s') = (doms (snd s))(vmNameFromTaskID i := None)"
    by (auto simp: destroyed_def vms_def fun_eq_iff split: if_splits)
  fix g assume "xml (snd s) (vmNameFromTaskID i) = Some (DomainXML g)"
  then have refs: "domain_refs src C xml s (vmNameFromTaskID i) = Some (def_refs src C g)" by (simp add: domain_refs_def)
  have "provide (volumes_seen (lib_volumes vols) (domain_refs src C xml)) (volume_laws (lib_volumes vols) (domain_refs src C xml))
      (pl_providers (fst (p, s)))"
    unfolding fst_conv p by (rule Setup_volumes [OF laws(1) volumes(1-3) _ run]) (rule volumes(4))
  from DestroyTask_volumes [OF this _ _ destroy] there refs
  show "vols (snd s') = vols (snd s) - def_refs src C g" by (simp add: lib_volumes_def)
qed

theorem tasks_on_libvirt_witness:
  "\<exists>ps s1. mem_setup (Some (toy_plugin_config\<lparr>vc_Provider := Some \<lparr>prov_Default = [], prov_Libvirt = Some mem_libvirt\<rparr>\<rparr>))
     providers_New (connected, empty_host) = (Ok ps, s1) \<and> provide (vms mem_doms) (machine_laws (vms mem_doms)) ps
    \<and> provide (observed lib_host) (tidy_laws lib_host) ps
    \<and> provide (volumes_seen (lib_volumes mem_vols) (domain_refs mem_source {} mem_xml)) (volume_laws (lib_volumes mem_vols) (domain_refs mem_source {} mem_xml)) ps"
proof -
  obtain ps s1 where run: "mem_setup (Some (toy_plugin_config\<lparr>vc_Provider := Some \<lparr>prov_Default = [],
      prov_Libvirt = Some mem_libvirt\<rparr>\<rparr>)) providers_New (connected, empty_host) = (Ok ps, s1)"
    using mem_setup_run by blast
  have unset: "ct_filter mem_net = None" by (simp add: mem_net_def NewController_def)
  have made: "network_laws lib_host (on_libvirt (mem_virt False False) mem_net f)" if "ret mem_filter s = (Ok f, s')" for s f s'
    using that lib_network_laws by (simp add: ret_def)
  have pools: "fst ` set (sc_Ceph sc) \<subseteq> {}" if "Some (toy_plugin_config\<lparr>vc_Provider := p\<rparr>) = Some cfg" "vc_StoragePools cfg = Some sc"
    for cfg sc p using that by (auto simp: toy_plugin_config_def)
  note all = tasks_on_libvirt [OF mem_dom_laws mem_lib_steps mem_given(1) mem_seen lib_observed unset _ mem_volumes_lib
      mem_given(2,3) _ run [unfolded mem_setup_def]]
  have "provide (vms mem_doms) (machine_laws (vms mem_doms)) ps"
    by (rule all [THEN conjunct1]) (rule made pools, assumption+)+
  moreover have "provide (observed lib_host) (tidy_laws lib_host) ps"
    by (rule all [THEN conjunct2, THEN conjunct1]) (rule made pools, assumption+)+
  moreover have "provide (volumes_seen (lib_volumes mem_vols) (domain_refs mem_source {} mem_xml))
      (volume_laws (lib_volumes mem_vols) (domain_refs mem_source {} mem_xml)) ps"
    by (rule all [THEN conjunct2, THEN conjunct2, THEN conjunct1]) (rule made pools, assumption+)+
  ultimately show ?thesis using run by blast
qed

end
