(* ===== verification/Arp.thy ===== *)
theory Arp
  imports Prelude "HOL-Library.Word"
begin

text \<open>
  \<^verbatim>\<open>net/arp/arper_linux.go\<close>: discovery of the addresses of an interface from the neighbor table of the
  kernel. One goroutine polls the table while there are requests, one goroutine for each request sends
  what matches. The state is the one of the singleton, the goroutines are lists of phases, and a step
  is what happens between two synchronizations: a locked section, or one choice of a select. The
  neighbor table and the interfaces of the host are parameters.
\<close>

section \<open>Entries\<close>

record neighbor =
  nb_Index :: nat
  nb_State :: "16 word"
  nb_Attrs :: "(nat list \<times> nat list) option"

record arp_entry =
  en_addr :: "nat list"
  en_hwaddr :: "nat list"
  en_device :: string

record arp_request =
  ar_hwaddr :: "nat list"
  ar_iface :: string

text \<open>\<open>net.IP.IsUnspecified\<close>: the zero address of either length, or the mapped one.\<close>

definition IsUnspecified :: "nat list \<Rightarrow> bool" where
  "IsUnspecified ip \<longleftrightarrow> ip = replicate 4 0 \<or> ip = replicate 16 0 \<or> ip = replicate 10 0 @ [255, 255] @ replicate 4 0"

definition arp_matches :: "arp_request \<Rightarrow> arp_entry \<Rightarrow> bool" where
  "arp_matches r e \<longleftrightarrow> \<not> IsUnspecified (en_addr e) \<and> en_hwaddr e = ar_hwaddr r \<and> ar_iface r = en_device e"

definition NUD_REACHABLE :: "16 word" where "NUD_REACHABLE = 2"
definition NUD_STALE :: "16 word" where "NUD_STALE = 4"

unbundle bit_operations_syntax

text \<open>
  A neighbor of an interface that is not there is skipped, then its attributes are read (a nil pointer
  when the message had none), and it is kept if it is reachable and not stale.
\<close>

fun load_entries :: "(nat \<Rightarrow> string option) \<Rightarrow> neighbor list \<Rightarrow> arp_entry list res" where
  "load_entries ifs [] = Ok []"
| "load_entries ifs (n # ns) = (case ifs (nb_Index n) of
     None \<Rightarrow> load_entries ifs ns
   | Some iface \<Rightarrow> (case nb_Attrs n of
       None \<Rightarrow> Panic ''nil attributes''
     | Some (ll, addr) \<Rightarrow>
         if nb_State n AND NUD_REACHABLE \<noteq> NUD_REACHABLE then load_entries ifs ns
         else if nb_State n AND NUD_STALE = NUD_STALE then load_entries ifs ns
         else rbind (load_entries ifs ns)
           (\<lambda>es. Ok (\<lparr>en_addr = addr, en_hwaddr = ll, en_device = iface\<rparr> # es))))"

text \<open>An error of reading the table leaves the entries as they are.\<close>

definition loadARPs :: "(nat \<Rightarrow> string option) \<Rightarrow> neighbor list res \<Rightarrow> arp_entry list \<Rightarrow> arp_entry list res" where
  "loadARPs ifs neighbors entries = (case neighbors of
     Fail e \<Rightarrow> Ok entries | Panic x \<Rightarrow> Panic x | Ok ns \<Rightarrow> load_entries ifs ns)"

definition arp_find :: "arp_request \<Rightarrow> arp_entry list \<Rightarrow> arp_entry list" where
  "arp_find r entries = filter (arp_matches r) entries"

section \<open>The state\<close>

text \<open>
  A poller between its steps; \<open>Sleeping c\<close> is in the select, with the context it read on entering. A
  handler between its steps: \<open>Offering\<close> the entries still to be sent, \<open>Selecting\<close> on one address with the
  polling context it read, \<open>Waiting\<close> on the channel of one notification.
\<close>

datatype poller = Loading | Notifying | Sleeping nat | Cancelling | Clearing | Closing | Finished

datatype handler_phase =
    Created | Finding | Offering "arp_entry list" | Selecting "nat list" "arp_entry list" nat
  | Waiting nat nat | Leaving | Completed | Closed

record handler =
  hd_req :: arp_request
  hd_done :: bool
  hd_seen :: "nat list list"
  hd_sent :: "nat list list"
  hd_phase :: handler_phase

text \<open>
  The polling contexts and their completion channels are numbered by the poller they were made for;
  the fields \<open>pollingCtx\<close>, \<open>pollingCancel\<close> and \<open>pollingDone\<close> are those of the last poller started.
\<close>

record arper =
  ap_parent :: bool
  ap_active :: nat
  ap_entries :: "arp_entry list"
  ap_polling :: bool
  ap_gens :: nat
  ap_cancelled :: "nat set"
  ap_done :: "nat set"
  ap_epoch :: nat
  ap_pollers :: "nat \<Rightarrow> poller"
  ap_handlers :: "handler list"
  ap_crashed :: bool

definition arper_New :: arper where
  "arper_New = \<lparr>ap_parent = False, ap_active = 0, ap_entries = [], ap_polling = False, ap_gens = 0, ap_cancelled = {},
     ap_done = {}, ap_epoch = 0, ap_pollers = (\<lambda>_. Finished), ap_handlers = [], ap_crashed = False\<rparr>"

definition current :: "arper \<Rightarrow> nat" where
  "current s = ap_gens s - 1"

definition ctx_done :: "arper \<Rightarrow> nat \<Rightarrow> bool" where
  "ctx_done s g \<longleftrightarrow> ap_parent s \<or> g \<in> ap_cancelled s"

section \<open>Requests\<close>

definition start_poller :: "arper \<Rightarrow> arper" where
  "start_poller s = s\<lparr>ap_gens := Suc (ap_gens s), ap_pollers := (ap_pollers s)(ap_gens s := Loading), ap_polling := True\<rparr>"

definition handle_new :: "arp_request \<Rightarrow> arper \<Rightarrow> arper" where
  "handle_new req s = s\<lparr>ap_handlers := ap_handlers s @
     [\<lparr>hd_req = req, hd_done = False, hd_seen = [], hd_sent = [], hd_phase = Created\<rparr>]\<rparr>"

text \<open>
  \<open>None\<close> while it waits for the previous poller to finish. \<open>ctx_first\<close> is the choice of the select when
  that has happened and the context of the singleton is done too.
\<close>

definition addRequest :: "bool \<Rightarrow> arp_request \<Rightarrow> arper \<Rightarrow> (unit res \<times> arper) option" where
  "addRequest ctx_first req s =
     (if ap_polling s then Some (Ok (), handle_new req s)
      else if ap_gens s = 0 then Some (Ok (), handle_new req (start_poller s))
      else if ap_parent s \<and> (ctx_first \<or> current s \<notin> ap_done s) then Some (Fail (ErrNew ''context canceled''), s)
      else if current s \<in> ap_done s then Some (Ok (), handle_new req (start_poller s))
      else None)"

definition requestStarted :: "arper \<Rightarrow> arper" where
  "requestStarted s = s\<lparr>ap_active := Suc (ap_active s)\<rparr>"

definition requestComplete :: "arper \<Rightarrow> arper" where
  "requestComplete s = (let s = s\<lparr>ap_active := ap_active s - 1\<rparr> in
     if ap_active s = 0 \<and> ap_gens s \<noteq> 0
     then s\<lparr>ap_polling := False, ap_cancelled := insert (current s) (ap_cancelled s)\<rparr> else s)"

text \<open>The goroutine of a request.\<close>

inductive handler_step :: "arper \<Rightarrow> handler \<Rightarrow> arper \<Rightarrow> handler \<Rightarrow> bool" where
  started: "hd_phase h = Created \<Longrightarrow> handler_step s h (requestStarted s) (h\<lparr>hd_phase := Finding\<rparr>)"
| found: "hd_phase h = Finding \<Longrightarrow> handler_step s h s (h\<lparr>hd_phase := Offering (arp_find (hd_req h) (ap_entries s))\<rparr>)"
| seen: "hd_phase h = Offering (e # es) \<Longrightarrow> en_addr e \<in> set (hd_seen h) \<Longrightarrow>
    handler_step s h s (h\<lparr>hd_phase := Offering es\<rparr>)"
| offer: "hd_phase h = Offering (e # es) \<Longrightarrow> en_addr e \<notin> set (hd_seen h) \<Longrightarrow>
    handler_step s h s (h\<lparr>hd_seen := en_addr e # hd_seen h, hd_phase := Selecting (en_addr e) es (current s)\<rparr>)"
| sent: "hd_phase h = Selecting a es g \<Longrightarrow> handler_step s h s (h\<lparr>hd_sent := hd_sent h @ [a], hd_phase := Offering es\<rparr>)"
| quit_sending: "hd_phase h = Selecting a es g \<Longrightarrow> hd_done h \<or> ctx_done s g \<Longrightarrow> handler_step s h s (h\<lparr>hd_phase := Leaving\<rparr>)"
| wait: "hd_phase h = Offering [] \<Longrightarrow> handler_step s h s (h\<lparr>hd_phase := Waiting (ap_epoch s) (current s)\<rparr>)"
| woken: "hd_phase h = Waiting n g \<Longrightarrow> n < ap_epoch s \<Longrightarrow> handler_step s h s (h\<lparr>hd_phase := Finding\<rparr>)"
| quit_waiting: "hd_phase h = Waiting n g \<Longrightarrow> hd_done h \<or> ctx_done s g \<Longrightarrow> handler_step s h s (h\<lparr>hd_phase := Leaving\<rparr>)"
| complete: "hd_phase h = Leaving \<Longrightarrow> handler_step s h (requestComplete s) (h\<lparr>hd_phase := Completed\<rparr>)"
| closed: "hd_phase h = Completed \<Longrightarrow> handler_step s h s (h\<lparr>hd_phase := Closed\<rparr>)"
| ctx_ends: "handler_step s h s (h\<lparr>hd_done := True\<rparr>)"

section \<open>Polling\<close>

text \<open>
  The goroutine that polls. Its deferred function cancels the context, clears the entries and closes
  the completion channel that the fields hold when it runs; closing a closed channel panics.
\<close>

definition set_poller :: "nat \<Rightarrow> poller \<Rightarrow> arper \<Rightarrow> arper" where
  "set_poller g p s = s\<lparr>ap_pollers := (ap_pollers s)(g := p)\<rparr>"

inductive poller_step :: "(nat \<Rightarrow> string option) \<Rightarrow> neighbor set \<Rightarrow> nat \<Rightarrow> arper \<Rightarrow> arper \<Rightarrow> bool" for ifs N g where
  load: "ap_pollers s g = Loading \<Longrightarrow> (\<And>xs. ns = Ok xs \<Longrightarrow> set xs \<subseteq> N) \<Longrightarrow> loadARPs ifs ns (ap_entries s) = Ok es \<Longrightarrow>
    poller_step ifs N g s (set_poller g Notifying (s\<lparr>ap_entries := es\<rparr>))"
| load_panic: "ap_pollers s g = Loading \<Longrightarrow> set xs \<subseteq> N \<Longrightarrow> loadARPs ifs (Ok xs) (ap_entries s) = Panic x \<Longrightarrow>
    poller_step ifs N g s (s\<lparr>ap_crashed := True\<rparr>)"
| notify: "ap_pollers s g = Notifying \<Longrightarrow>
    poller_step ifs N g s (set_poller g (Sleeping (current s)) (s\<lparr>ap_epoch := Suc (ap_epoch s)\<rparr>))"
| tick: "ap_pollers s g = Sleeping c \<Longrightarrow> poller_step ifs N g s (set_poller g Loading s)"
| stop: "ap_pollers s g = Sleeping c \<Longrightarrow> ctx_done s c \<Longrightarrow> poller_step ifs N g s (set_poller g Cancelling s)"
| cancel: "ap_pollers s g = Cancelling \<Longrightarrow>
    poller_step ifs N g s (set_poller g Clearing (s\<lparr>ap_cancelled := insert (current s) (ap_cancelled s)\<rparr>))"
| clear: "ap_pollers s g = Clearing \<Longrightarrow> poller_step ifs N g s (set_poller g Closing (s\<lparr>ap_entries := []\<rparr>))"
| finish: "ap_pollers s g = Closing \<Longrightarrow> current s \<notin> ap_done s \<Longrightarrow>
    poller_step ifs N g s (set_poller g Finished (s\<lparr>ap_done := insert (current s) (ap_done s)\<rparr>))"
| finish_panic: "ap_pollers s g = Closing \<Longrightarrow> current s \<in> ap_done s \<Longrightarrow> poller_step ifs N g s (s\<lparr>ap_crashed := True\<rparr>)"

section \<open>All together\<close>

inductive arp_step :: "(nat \<Rightarrow> string option) \<Rightarrow> neighbor set \<Rightarrow> arper \<Rightarrow> arper \<Rightarrow> bool" for ifs N where
  request: "addRequest c req s = Some (r, s') \<Longrightarrow> arp_step ifs N s s'"
| handle: "i < length (ap_handlers s) \<Longrightarrow> handler_step s (ap_handlers s ! i) s' h \<Longrightarrow>
    arp_step ifs N s (s'\<lparr>ap_handlers := (ap_handlers s)[i := h]\<rparr>)"
| poll: "g < ap_gens s \<Longrightarrow> poller_step ifs N g s s' \<Longrightarrow> arp_step ifs N s s'"
| parent_done: "arp_step ifs N s (s\<lparr>ap_parent := True\<rparr>)"

inductive arp_reach :: "(nat \<Rightarrow> string option) \<Rightarrow> neighbor set \<Rightarrow> arper \<Rightarrow> bool" for ifs N where
  initial: "arp_reach ifs N arper_New"
| next_state: "arp_reach ifs N s \<Longrightarrow> \<not> ap_crashed s \<Longrightarrow> arp_step ifs N s s' \<Longrightarrow> arp_reach ifs N s'"

section \<open>Invariants\<close>

definition counted :: "handler \<Rightarrow> bool" where
  "counted h \<longleftrightarrow> (case hd_phase h of Created \<Rightarrow> False | Completed \<Rightarrow> False | Closed \<Rightarrow> False | _ \<Rightarrow> True)"

text \<open>An entry of a neighbor that is reachable, and an address that answers a request.\<close>

definition reachable_entry :: "(nat \<Rightarrow> string option) \<Rightarrow> neighbor set \<Rightarrow> arp_entry \<Rightarrow> bool" where
  "reachable_entry ifs N e \<longleftrightarrow> (\<exists>n \<in> N. ifs (nb_Index n) = Some (en_device e) \<and> nb_Attrs n = Some (en_hwaddr e, en_addr e)
     \<and> nb_State n AND NUD_REACHABLE = NUD_REACHABLE \<and> nb_State n AND NUD_STALE \<noteq> NUD_STALE)"

definition answers_req :: "(nat \<Rightarrow> string option) \<Rightarrow> neighbor set \<Rightarrow> arp_request \<Rightarrow> nat list \<Rightarrow> bool" where
  "answers_req ifs N r a \<longleftrightarrow> (\<exists>e. reachable_entry ifs N e \<and> arp_matches r e \<and> en_addr e = a)"

definition handler_ok :: "(nat \<Rightarrow> string option) \<Rightarrow> neighbor set \<Rightarrow> handler \<Rightarrow> bool" where
  "handler_ok ifs N h \<longleftrightarrow> distinct (hd_sent h) \<and> set (hd_sent h) \<subseteq> set (hd_seen h)
     \<and> (\<forall>a \<in> set (hd_sent h). answers_req ifs N (hd_req h) a)
     \<and> (case hd_phase h of
          Offering es \<Rightarrow> \<forall>e \<in> set es. answers_req ifs N (hd_req h) (en_addr e)
        | Selecting a es g \<Rightarrow> answers_req ifs N (hd_req h) a \<and> a \<in> set (hd_seen h) \<and> a \<notin> set (hd_sent h)
            \<and> (\<forall>e \<in> set es. answers_req ifs N (hd_req h) (en_addr e))
        | _ \<Rightarrow> True)"

definition requests_inv :: "(nat \<Rightarrow> string option) \<Rightarrow> neighbor set \<Rightarrow> arper \<Rightarrow> bool" where
  "requests_inv ifs N s \<longleftrightarrow> (\<forall>e \<in> set (ap_entries s). reachable_entry ifs N e)
     \<and> (\<forall>h \<in> set (ap_handlers s). handler_ok ifs N h)"

text \<open>
  The pollers: only the last can be at work, and its context is the one of the fields; it is not
  cancelled while \<open>polling\<close> is set and the context of the singleton lasts.
\<close>

definition pollers_inv :: "arper \<Rightarrow> bool" where
  "pollers_inv s \<longleftrightarrow> \<not> ap_crashed s
     \<and> (\<forall>g < ap_gens s. g \<in> ap_done s \<longleftrightarrow> ap_pollers s g = Finished) \<and> (\<forall>g. Suc g < ap_gens s \<longrightarrow> g \<in> ap_done s)
     \<and> (\<forall>g c. g < ap_gens s \<longrightarrow> ap_pollers s g = Sleeping c \<longrightarrow> c = g)
     \<and> (ap_polling s \<longrightarrow> 0 < ap_gens s)
     \<and> (ap_polling s \<longrightarrow> \<not> ap_parent s \<longrightarrow> current s \<notin> ap_cancelled s
         \<and> ap_pollers s (current s) \<in> {Loading, Notifying, Sleeping (current s)})
     \<and> (\<not> ap_polling s \<longrightarrow> 0 < ap_gens s \<longrightarrow> current s \<in> ap_cancelled s)
     \<and> (\<forall>g \<in> ap_cancelled s. g < ap_gens s) \<and> (\<forall>g \<in> ap_done s. g < ap_gens s)"

definition active_inv :: "arper \<Rightarrow> bool" where
  "active_inv s \<longleftrightarrow> ap_active s = length (filter counted (ap_handlers s))"

lemma load_entries_ok:
  "load_entries ifs ns = Ok es \<Longrightarrow> set ns \<subseteq> N \<Longrightarrow> e \<in> set es \<Longrightarrow> reachable_entry ifs N e"
proof (induction ns arbitrary: es)
  case (Cons n ns)
  then show ?case
    by (auto simp: reachable_entry_def rbind_Ok split: option.splits prod.splits if_splits) blast
qed simp

lemma load_entries_total: "\<forall>n \<in> set ns. nb_Attrs n \<noteq> None \<Longrightarrow> \<exists>es. load_entries ifs ns = Ok es"
  by (induction ns) (auto split: option.split)

lemma handler_step_ok:
  assumes "handler_step s h s' h'" and "handler_ok ifs N h" and "\<forall>e \<in> set (ap_entries s). reachable_entry ifs N e"
  shows "handler_ok ifs N h'"
  using assms
proof (induction rule: handler_step.induct)
  case (found h s)
  then show ?case by (auto simp: handler_ok_def arp_find_def answers_req_def)
next
  case (ctx_ends s h)
  then show ?case by (simp add: handler_ok_def split: handler_phase.splits)
qed (auto simp: handler_ok_def)

lemma handler_step_keeps:
  assumes "handler_step s h s' h'"
  shows "ap_entries s' = ap_entries s" "ap_handlers s' = ap_handlers s" "s' = s \<or> s' = requestStarted s \<or> s' = requestComplete s"
  using assms by (induction rule: handler_step.induct) (auto simp: requestStarted_def requestComplete_def Let_def)

lemma count_update:
  "i < length xs \<Longrightarrow> length (filter P (xs[i := y])) + (if P (xs ! i) then 1 else 0)
     = length (filter P xs) + (if P y then 1 else 0)"
proof (induction xs arbitrary: i)
  case (Cons x xs)
  then show ?case by (cases i) auto
qed simp

lemma handler_step_count:
  "handler_step s h s' h' \<Longrightarrow> (counted h \<Longrightarrow> 0 < ap_active s) \<Longrightarrow>
    ap_active s' + (if counted h then 1 else 0) = ap_active s + (if counted h' then 1 else 0)"
  by (induction rule: handler_step.induct)
    (auto simp: counted_def requestStarted_def requestComplete_def Let_def split: handler_phase.splits)

lemma counted_active: "active_inv s \<Longrightarrow> h \<in> set (ap_handlers s) \<Longrightarrow> counted h \<Longrightarrow> 0 < ap_active s"
  by (auto simp: active_inv_def length_greater_0_conv filter_empty_conv)

lemma requests_inv_step:
  assumes "arp_step ifs N s s'" and "requests_inv ifs N s"
  shows "requests_inv ifs N s'"
  using assms
proof (induction rule: arp_step.induct)
  case (request c req s r s')
  then show ?case
    by (auto simp: addRequest_def requests_inv_def handle_new_def start_poller_def handler_ok_def split: if_splits)
next
  case (handle i s s' h)
  have "handler_ok ifs N h"
    by (rule handler_step_ok [OF handle.hyps(2)]) (use handle in \<open>auto simp: requests_inv_def\<close>)
  with handle show ?case
    by (auto simp: requests_inv_def handler_step_keeps dest!: set_update_subset_insert [THEN subsetD])
next
  case (poll g s s')
  from poll.hyps(2) poll.prems show ?case
  proof (induction rule: poller_step.induct)
    case (load s ns es)
    have "reachable_entry ifs N e" if "e \<in> set es" for e
    proof (cases ns)
      case (Ok xs)
      with load that show ?thesis by (auto simp: loadARPs_def intro: load_entries_ok)
    qed (use load that in \<open>auto simp: loadARPs_def requests_inv_def\<close>)
    with load show ?case by (simp add: requests_inv_def set_poller_def)
  qed (simp_all add: requests_inv_def set_poller_def)
qed (simp add: requests_inv_def)

lemma active_inv_step:
  assumes "arp_step ifs N s s'" and "active_inv s"
  shows "active_inv s'"
  using assms
proof (induction rule: arp_step.induct)
  case (request c req s r s')
  then show ?case
    by (auto simp: addRequest_def active_inv_def handle_new_def start_poller_def counted_def split: if_splits)
next
  case (handle i s s' h)
  from handler_step_count [OF handle.hyps(2) counted_active [OF handle.prems nth_mem [OF handle.hyps(1)]]]
  have "ap_active s' + (if counted (ap_handlers s ! i) then 1 else 0) = ap_active s + (if counted h then 1 else 0)" .
  with count_update [OF handle.hyps(1), of counted h] handle.prems show ?case by (simp add: active_inv_def)
next
  case (poll g s s')
  from poll.hyps(2) poll.prems show ?case
    by (induction rule: poller_step.induct) (simp_all add: active_inv_def set_poller_def)
qed (simp add: active_inv_def)

lemma pollers_invD:
  assumes "pollers_inv s"
  shows "\<not> ap_crashed s" "g < ap_gens s \<Longrightarrow> g \<in> ap_done s \<longleftrightarrow> ap_pollers s g = Finished" "Suc g < ap_gens s \<Longrightarrow> g \<in> ap_done s"
    "g < ap_gens s \<Longrightarrow> ap_pollers s g = Sleeping c \<Longrightarrow> c = g" "ap_polling s \<Longrightarrow> 0 < ap_gens s"
    "ap_polling s \<Longrightarrow> \<not> ap_parent s \<Longrightarrow> current s \<notin> ap_cancelled s"
    "ap_polling s \<Longrightarrow> \<not> ap_parent s \<Longrightarrow> ap_pollers s (current s) \<in> {Loading, Notifying, Sleeping (current s)}"
    "\<not> ap_polling s \<Longrightarrow> 0 < ap_gens s \<Longrightarrow> current s \<in> ap_cancelled s"
    "g \<in> ap_cancelled s \<Longrightarrow> g < ap_gens s" "g \<in> ap_done s \<Longrightarrow> g < ap_gens s"
  using assms unfolding pollers_inv_def by blast+

lemma pollers_invI:
  assumes "\<not> ap_crashed s" and "\<And>g. g < ap_gens s \<Longrightarrow> g \<in> ap_done s \<longleftrightarrow> ap_pollers s g = Finished"
    and "\<And>g. Suc g < ap_gens s \<Longrightarrow> g \<in> ap_done s" and "\<And>g c. g < ap_gens s \<Longrightarrow> ap_pollers s g = Sleeping c \<Longrightarrow> c = g"
    and "ap_polling s \<Longrightarrow> 0 < ap_gens s" and "ap_polling s \<Longrightarrow> \<not> ap_parent s \<Longrightarrow> current s \<notin> ap_cancelled s"
    and "ap_polling s \<Longrightarrow> \<not> ap_parent s \<Longrightarrow> ap_pollers s (current s) \<in> {Loading, Notifying, Sleeping (current s)}"
    and "\<not> ap_polling s \<Longrightarrow> 0 < ap_gens s \<Longrightarrow> current s \<in> ap_cancelled s"
    and "\<And>g. g \<in> ap_cancelled s \<Longrightarrow> g < ap_gens s" and "\<And>g. g \<in> ap_done s \<Longrightarrow> g < ap_gens s"
  shows "pollers_inv s"
  unfolding pollers_inv_def using assms by blast

lemma working_poller:
  assumes "pollers_inv s" and "g < ap_gens s" and "ap_pollers s g \<noteq> Finished"
  shows "g = current s"
proof -
  have "g \<notin> ap_done s" using pollers_invD(2) [OF assms(1,2)] assms(3) by simp
  then have "\<not> Suc g < ap_gens s" using pollers_invD(3) [OF assms(1)] by blast
  with assms(2) show ?thesis by (simp add: current_def)
qed

lemma start_poller_inv:
  assumes inv: "pollers_inv s" and last: "ap_gens s = 0 \<or> current s \<in> ap_done s"
  shows "pollers_inv (start_poller s)"
proof -
  note I = pollers_invD [OF inv]
  have new: "ap_gens s \<notin> ap_done s" "ap_gens s \<notin> ap_cancelled s" using I(9,10) by blast+
  have old: "g \<in> ap_done s" if "g < ap_gens s" for g
  proof (cases "Suc g < ap_gens s")
    case False
    with that have "g = current s" by (simp add: current_def)
    with last that show ?thesis by simp
  qed (rule I(3))
  have sel: "ap_gens (start_poller s) = Suc (ap_gens s)" "ap_done (start_poller s) = ap_done s"
    "ap_pollers (start_poller s) = (ap_pollers s)(ap_gens s := Loading)" "ap_polling (start_poller s)"
    "ap_cancelled (start_poller s) = ap_cancelled s" "ap_crashed (start_poller s) = ap_crashed s" "current (start_poller s) = ap_gens s"
    by (simp_all add: start_poller_def current_def)
  show ?thesis
  proof (rule pollers_invI, unfold sel)
    show "g \<in> ap_done s \<longleftrightarrow> ((ap_pollers s)(ap_gens s := Loading)) g = Finished" if "g < Suc (ap_gens s)" for g
      using that new(1) I(2) by (auto simp: less_Suc_eq)
    show "c = g" if "g < Suc (ap_gens s)" "((ap_pollers s)(ap_gens s := Loading)) g = Sleeping c" for g c
      using that I(4) by (auto simp: less_Suc_eq split: if_splits)
  qed (use I(1) I(9,10) new old sel(4) in \<open>auto simp: less_Suc_eq\<close>)
qed

lemma same_pollers_inv:
  assumes inv: "pollers_inv s" and same: "ap_crashed s' = ap_crashed s" "ap_gens s' = ap_gens s" "ap_done s' = ap_done s"
    "ap_pollers s' = ap_pollers s" "ap_polling s' = ap_polling s" "ap_cancelled s' = ap_cancelled s" and parent: "ap_parent s \<longrightarrow> ap_parent s'"
  shows "pollers_inv s'"
proof -
  have c: "current s' = current s" by (simp add: current_def same)
  show ?thesis using inv parent unfolding pollers_inv_def same c by blast
qed

lemma requestComplete_inv:
  assumes inv: "pollers_inv s"
  shows "pollers_inv (requestComplete s)"
proof (cases "ap_active s - 1 = 0 \<and> ap_gens s \<noteq> 0")
  case False
  then have "requestComplete s = s\<lparr>ap_active := ap_active s - 1\<rparr>" by (auto simp: requestComplete_def Let_def)
  then show ?thesis by (intro same_pollers_inv [OF inv]) simp_all
next
  case True
  then have eq: "requestComplete s = s\<lparr>ap_active := ap_active s - 1, ap_polling := False,
      ap_cancelled := insert (current s) (ap_cancelled s)\<rparr>" by (simp add: requestComplete_def Let_def current_def)
  then have sel: "ap_crashed (requestComplete s) = ap_crashed s" "ap_gens (requestComplete s) = ap_gens s"
    "ap_done (requestComplete s) = ap_done s" "ap_pollers (requestComplete s) = ap_pollers s"
    "ap_polling (requestComplete s) = False" "ap_cancelled (requestComplete s) = insert (current s) (ap_cancelled s)"
    "ap_parent (requestComplete s) = ap_parent s" "current (requestComplete s) = current s"
    by (simp_all add: current_def)
  have "current s < ap_gens s" using True by (simp add: current_def)
  with inv show ?thesis unfolding pollers_inv_def sel by blast
qed

text \<open>A step of the poller at work, once it is known to be the last one.\<close>

lemma set_poller_sel [simp]:
  "ap_gens (set_poller g q s) = ap_gens s" "ap_done (set_poller g q s) = ap_done s" "ap_polling (set_poller g q s) = ap_polling s"
  "ap_cancelled (set_poller g q s) = ap_cancelled s" "ap_parent (set_poller g q s) = ap_parent s"
  "ap_crashed (set_poller g q s) = ap_crashed s" "current (set_poller g q s) = current s"
  "ap_pollers (set_poller g q s) = (ap_pollers s)(g := q)"
  by (simp_all add: set_poller_def current_def)

lemma set_poller_inv:
  assumes inv: "pollers_inv s" and g: "g < ap_gens s" "ap_pollers s g \<noteq> Finished" and q: "q \<noteq> Finished"
    and sleep: "\<And>c. q = Sleeping c \<Longrightarrow> c = g"
    and work: "ap_polling s \<Longrightarrow> \<not> ap_parent s \<Longrightarrow> q \<in> {Loading, Notifying, Sleeping (current s)}"
  shows "pollers_inv (set_poller g q s)"
proof -
  note I = pollers_invD [OF inv]
  have cur: "g = current s" using working_poller [OF inv g] .
  show ?thesis
  proof (rule pollers_invI, unfold set_poller_sel)
    show "k \<in> ap_done s \<longleftrightarrow> ((ap_pollers s)(g := q)) k = Finished" if "k < ap_gens s" for k
      using I(2) [OF that] I(2) [OF g(1)] g(2) q by simp
    show "c = k" if "k < ap_gens s" "((ap_pollers s)(g := q)) k = Sleeping c" for k c
    proof (cases "k = g")
      case True
      with that(2) sleep show ?thesis by simp
    next
      case False
      with that(2) I(4) [OF that(1)] show ?thesis by simp
    qed
    show "((ap_pollers s)(g := q)) (current s) \<in> {Loading, Notifying, Sleeping (current s)}" if "ap_polling s" "\<not> ap_parent s"
      using work [OF that] cur by simp
  qed (use I(1,3) I(5,6,8-10) in blast)+
qed

lemma with_entries_inv: "pollers_inv s \<Longrightarrow> pollers_inv (s\<lparr>ap_entries := es\<rparr>)" "pollers_inv s \<Longrightarrow> pollers_inv (s\<lparr>ap_epoch := n\<rparr>)"
  by (erule same_pollers_inv; simp)+

text \<open>What the deferred function of the poller does to the context and the channel it finds.\<close>

lemma ended_inv:
  assumes inv: "pollers_inv s" and g: "g < ap_gens s" "ap_pollers s g \<noteq> Finished" and off: "\<not> (ap_polling s \<and> \<not> ap_parent s)"
  shows "pollers_inv (set_poller g Clearing (s\<lparr>ap_cancelled := insert (current s) (ap_cancelled s)\<rparr>))"
    and "pollers_inv (set_poller g Finished (s\<lparr>ap_done := insert (current s) (ap_done s)\<rparr>))"
proof -
  note I = pollers_invD [OF inv]
  have cur: "g = current s" using working_poller [OF inv g] .
  have sleepers: "c = k" if "k < ap_gens s" "((ap_pollers s)(g := q)) k = Sleeping c" "\<And>c. q \<noteq> Sleeping c" for k c q
  proof (cases "k = g")
    case False
    with that(2) I(4) [OF that(1)] show ?thesis by simp
  qed (use that(2,3) in simp)
  show "pollers_inv (set_poller g Clearing (s\<lparr>ap_cancelled := insert (current s) (ap_cancelled s)\<rparr>))"
  proof (rule set_poller_inv)
    let ?t = "s\<lparr>ap_cancelled := insert (current s) (ap_cancelled s)\<rparr>"
    have sel: "ap_crashed ?t = ap_crashed s" "ap_gens ?t = ap_gens s" "ap_done ?t = ap_done s" "ap_pollers ?t = ap_pollers s"
      "ap_polling ?t = ap_polling s" "ap_cancelled ?t = insert (current s) (ap_cancelled s)"
      "ap_parent ?t = ap_parent s" "current ?t = current s"
      by (simp_all add: current_def)
    have "current s < ap_gens s" using cur g(1) by simp
    with inv off show "pollers_inv ?t" unfolding pollers_inv_def sel by blast
  qed (use g off in simp_all)
  have gen: "current (s\<lparr>ap_done := insert (current s) (ap_done s)\<rparr>) = current s" by (simp add: current_def)
  show "pollers_inv (set_poller g Finished (s\<lparr>ap_done := insert (current s) (ap_done s)\<rparr>))"
  proof (rule pollers_invI, unfold set_poller_sel gen)
    show "k \<in> ap_done (s\<lparr>ap_done := insert (current s) (ap_done s)\<rparr>)
        \<longleftrightarrow> ((ap_pollers (s\<lparr>ap_done := insert (current s) (ap_done s)\<rparr>))(g := Finished)) k = Finished"
      if "k < ap_gens (s\<lparr>ap_done := insert (current s) (ap_done s)\<rparr>)" for k
      using I(2) [of k] that cur by auto
    show "c = k" if "k < ap_gens (s\<lparr>ap_done := insert (current s) (ap_done s)\<rparr>)"
      "((ap_pollers (s\<lparr>ap_done := insert (current s) (ap_done s)\<rparr>))(g := Finished)) k = Sleeping c" for k c
      using sleepers [of k Finished c] that by simp
    show "k < ap_gens (s\<lparr>ap_done := insert (current s) (ap_done s)\<rparr>)"
      if "k \<in> ap_done (s\<lparr>ap_done := insert (current s) (ap_done s)\<rparr>)" for k
      using that I(10) [of k] cur g(1) by auto
  qed (use I(1,3) I(5,6,8-9) off cur g in simp_all)
qed

lemma poller_step_inv:
  assumes "poller_step ifs N g s s'" and "pollers_inv s" and "g < ap_gens s" and "\<forall>n \<in> N. nb_Attrs n \<noteq> None"
  shows "pollers_inv s'"
  using assms
proof (induction rule: poller_step.induct)
  case (load s ns es)
  then show ?case by (intro set_poller_inv with_entries_inv) simp_all
next
  case (load_panic s xs x)
  from load_panic.hyps(2) load_panic.prems(3) have "\<forall>n \<in> set xs. nb_Attrs n \<noteq> None" by blast
  from load_entries_total [OF this, of ifs] load_panic.hyps(3) show ?case by (auto simp: loadARPs_def)
next
  case (notify s)
  have "g = current s" using working_poller [OF notify.prems(1,2)] notify.hyps by simp
  with notify show ?case by (intro set_poller_inv with_entries_inv) (simp_all add: current_def)
next
  case (tick s c)
  then show ?case by (intro set_poller_inv) simp_all
next
  case (stop s c)
  have g: "g = current s" "c = g" using working_poller [OF stop.prems(1,2)] pollers_invD(4) [OF stop.prems(1,2)] stop.hyps(1) by auto
  with stop.hyps(2) pollers_invD(6) [OF stop.prems(1)] have "\<not> (ap_polling s \<and> \<not> ap_parent s)"
    by (auto simp: ctx_done_def)
  with stop show ?case by (intro set_poller_inv) auto
next
  case (cancel s)
  have "g = current s" using working_poller [OF cancel.prems(1,2)] cancel.hyps by simp
  with cancel.hyps pollers_invD(7) [OF cancel.prems(1)] have "\<not> (ap_polling s \<and> \<not> ap_parent s)" by auto
  with cancel show ?case by (intro ended_inv(1)) simp_all
next
  case (clear s)
  have "g = current s" using working_poller [OF clear.prems(1,2)] clear.hyps by simp
  with clear.hyps pollers_invD(7) [OF clear.prems(1)] have "\<not> (ap_polling s \<and> \<not> ap_parent s)" by auto
  with clear show ?case by (intro set_poller_inv with_entries_inv) auto
next
  case (finish s)
  have "g = current s" using working_poller [OF finish.prems(1,2)] finish.hyps by simp
  with finish.hyps pollers_invD(7) [OF finish.prems(1)] have "\<not> (ap_polling s \<and> \<not> ap_parent s)" by auto
  with finish show ?case by (intro ended_inv(2)) simp_all
next
  case (finish_panic s)
  have "g = current s" using working_poller [OF finish_panic.prems(1,2)] finish_panic.hyps by simp
  with finish_panic pollers_invD(2) [OF finish_panic.prems(1,2)] show ?case by simp
qed

lemma pollers_inv_step:
  assumes "arp_step ifs N s s'" and "pollers_inv s" and "\<forall>n \<in> N. nb_Attrs n \<noteq> None"
  shows "pollers_inv s'"
  using assms
proof (induction rule: arp_step.induct)
  case (request c req s r s')
  have new: "pollers_inv (handle_new req t)" if "pollers_inv t" for t
    by (rule same_pollers_inv [OF that]) (simp_all add: handle_new_def)
  from request show ?case
    by (auto simp: addRequest_def split: if_splits intro!: new start_poller_inv)
next
  case (handle i s s' h)
  have "pollers_inv s'" using handler_step_keeps(3) [OF handle.hyps(2)] handle.prems(1)
    by (auto simp: requestComplete_inv intro: same_pollers_inv simp: requestStarted_def)
  then show ?case by (rule same_pollers_inv) simp_all
next
  case (poll g s s')
  from poller_step_inv [OF poll.hyps(2) poll.prems(1) poll.hyps(1) poll.prems(2)] show ?case .
next
  case (parent_done s)
  then show ?case by (intro same_pollers_inv [OF parent_done.prems(1)]) simp_all
qed

lemma arp_reach_inv:
  assumes "arp_reach ifs N s" and N: "\<forall>n \<in> N. nb_Attrs n \<noteq> None"
  shows "requests_inv ifs N s \<and> active_inv s \<and> pollers_inv s"
  using assms(1)
proof (induction rule: arp_reach.induct)
  case initial
  then show ?case by (simp add: requests_inv_def active_inv_def pollers_inv_def arper_New_def)
next
  case (next_state s s')
  with N show ?case by (blast intro: requests_inv_step active_inv_step pollers_inv_step)
qed

section \<open>Properties\<close>

text \<open>
  C31. Discovery in every state the requests and the pollers can reach, whatever the order of their
  steps. No channel is closed twice and no poller panics, as long as the neighbors have attributes; at
  most one poller is at work, and it is not told to stop while \<open>polling\<close> is set; the count of active
  requests is the number of requests being handled. What a request is sent are addresses of reachable
  neighbors that are not stale, on its interface and with its hardware address, each of them once.
  But a request counts only once its goroutine runs, so the polling can be stopped between its arrival
  and its start: then its channel is closed though nothing was done with it and its context is not
  done (the witness is such a run).
\<close>

theorem arp_discovery:
  assumes "arp_reach ifs N s" and "\<forall>n \<in> N. nb_Attrs n \<noteq> None"
  shows "\<not> ap_crashed s \<and> ap_active s = length (filter counted (ap_handlers s))
    \<and> (\<forall>g h. g < ap_gens s \<longrightarrow> h < ap_gens s \<longrightarrow> ap_pollers s g \<noteq> Finished \<longrightarrow> ap_pollers s h \<noteq> Finished \<longrightarrow> g = h)
    \<and> (ap_polling s \<longrightarrow> \<not> ap_parent s \<longrightarrow> \<not> ctx_done s (current s)
        \<and> ap_pollers s (current s) \<in> {Loading, Notifying, Sleeping (current s)})
    \<and> list_all (\<lambda>h. distinct (hd_sent h) \<and> (\<forall>a \<in> set (hd_sent h). \<not> IsUnspecified a
        \<and> (\<exists>n \<in> N. nb_Attrs n = Some (ar_hwaddr (hd_req h), a) \<and> ifs (nb_Index n) = Some (ar_iface (hd_req h))
          \<and> nb_State n AND NUD_REACHABLE = NUD_REACHABLE \<and> nb_State n AND NUD_STALE \<noteq> NUD_STALE))) (ap_handlers s)"
proof -
  from arp_reach_inv [OF assms] have req: "requests_inv ifs N s" and act: "active_inv s" and pol: "pollers_inv s" by blast+
  note P = pollers_invD [OF pol]
  have "g = h" if "g < ap_gens s" "h < ap_gens s" "ap_pollers s g \<noteq> Finished" "ap_pollers s h \<noteq> Finished" for g h
    using working_poller [OF pol] that by metis
  moreover have "\<not> ctx_done s (current s) \<and> ap_pollers s (current s) \<in> {Loading, Notifying, Sleeping (current s)}"
    if "ap_polling s" "\<not> ap_parent s" using P(6,7) [OF that] that(2) by (simp add: ctx_done_def)
  moreover have "distinct (hd_sent h)" if "h \<in> set (ap_handlers s)" for h
    using req that by (auto simp: requests_inv_def handler_ok_def)
  moreover have "\<not> IsUnspecified a \<and> (\<exists>n \<in> N. nb_Attrs n = Some (ar_hwaddr (hd_req h), a) \<and> ifs (nb_Index n) = Some (ar_iface (hd_req h))
          \<and> nb_State n AND NUD_REACHABLE = NUD_REACHABLE \<and> nb_State n AND NUD_STALE \<noteq> NUD_STALE)"
    if "h \<in> set (ap_handlers s)" "a \<in> set (hd_sent h)" for h a
  proof -
    from req that have "answers_req ifs N (hd_req h) a" by (auto simp: requests_inv_def handler_ok_def)
    then show ?thesis by (auto simp: answers_req_def reachable_entry_def arp_matches_def)
  qed
  ultimately show ?thesis using P(1) act unfolding active_inv_def list_all_iff by blast
qed

text \<open>Two requests; the first ends before the goroutine of the second has started.\<close>

definition first_request :: arp_request where "first_request = \<lparr>ar_hwaddr = [1], ar_iface = ''br0''\<rparr>"
definition second_request :: arp_request where "second_request = \<lparr>ar_hwaddr = [2], ar_iface = ''br0''\<rparr>"

definition fresh_handler :: "arp_request \<Rightarrow> handler" where
  "fresh_handler r = \<lparr>hd_req = r, hd_done = False, hd_seen = [], hd_sent = [], hd_phase = Created\<rparr>"

lemma arp_handle:
  assumes "arp_reach ifs N s" and "handler_step s h s' h'" and "ap_handlers s = pre @ h # post" and "\<not> ap_crashed s"
  shows "arp_reach ifs N (s'\<lparr>ap_handlers := pre @ h' # post\<rparr>)"
proof -
  have "arp_step ifs N s (s'\<lparr>ap_handlers := (ap_handlers s)[length pre := h']\<rparr>)"
    using assms(2) by (intro arp_step.handle) (simp_all add: assms(3))
  then have "arp_step ifs N s (s'\<lparr>ap_handlers := pre @ h' # post\<rparr>)" by (simp add: assms(3))
  from arp_reach.next_state [OF assms(1,4) this] show ?thesis .
qed

lemma arp_starts:
  assumes "arp_reach ifs N s" and "ap_handlers s = pre @ fresh_handler r # post" and "\<not> ap_crashed s" and "ap_entries s = []"
  shows "arp_reach ifs N (s\<lparr>ap_active := Suc (ap_active s),
    ap_handlers := pre @ (fresh_handler r)\<lparr>hd_phase := Waiting (ap_epoch s) (current s)\<rparr> # post\<rparr>)"
proof -
  let ?h = "\<lambda>ph. (fresh_handler r)\<lparr>hd_phase := ph\<rparr>" and ?s = "\<lambda>h. s\<lparr>ap_active := Suc (ap_active s), ap_handlers := pre @ h # post\<rparr>"
  have 1: "arp_reach ifs N (?s (?h Finding))"
    using arp_handle [OF assms(1) handler_step.started assms(2,3)] by (simp add: fresh_handler_def requestStarted_def)
  have "handler_step (?s (?h Finding)) (?h Finding) (?s (?h Finding)) ((?h Finding)\<lparr>hd_phase := Offering (arp_find r [])\<rparr>)"
    using handler_step.found [of "?h Finding" "?s (?h Finding)"] assms(4) by (simp add: fresh_handler_def)
  from arp_handle [where pre = pre and post = post, OF 1 this] assms(3) have 2: "arp_reach ifs N (?s (?h (Offering [])))" by (simp add: arp_find_def)
  have "handler_step (?s (?h (Offering []))) (?h (Offering [])) (?s (?h (Offering [])))
      ((?h (Offering []))\<lparr>hd_phase := Waiting (ap_epoch s) (current s)\<rparr>)"
    using handler_step.wait [of "?h (Offering [])" "?s (?h (Offering []))"] by (simp add: current_def)
  from arp_handle [where pre = pre and post = post, OF 2 this] assms(3) show ?thesis by simp
qed

lemma complete_handlers:
  "(requestComplete (s\<lparr>ap_handlers := xs\<rparr>))\<lparr>ap_handlers := ys\<rparr> = (requestComplete s)\<lparr>ap_handlers := ys\<rparr>"
  by (simp add: requestComplete_def Let_def current_def)

lemma arp_leaves:
  assumes "arp_reach ifs N s" and "ap_handlers s = pre @ h # post" and "\<not> ap_crashed s" and "hd_phase h = Waiting n g"
    and "hd_done h \<or> ctx_done s g"
  shows "arp_reach ifs N ((requestComplete s)\<lparr>ap_handlers := pre @ h\<lparr>hd_phase := Closed\<rparr> # post\<rparr>)"
proof -
  let ?s = "\<lambda>k. s\<lparr>ap_handlers := pre @ k # post\<rparr>" and ?t = "\<lambda>k. (requestComplete s)\<lparr>ap_handlers := pre @ k # post\<rparr>"
  have 1: "arp_reach ifs N (?s (h\<lparr>hd_phase := Leaving\<rparr>))"
    using arp_handle [OF assms(1) handler_step.quit_waiting [OF assms(4,5)] assms(2,3)] .
  have "handler_step (?s (h\<lparr>hd_phase := Leaving\<rparr>)) (h\<lparr>hd_phase := Leaving\<rparr>) (requestComplete (?s (h\<lparr>hd_phase := Leaving\<rparr>)))
      ((h\<lparr>hd_phase := Leaving\<rparr>)\<lparr>hd_phase := Completed\<rparr>)"
    by (rule handler_step.complete) simp
  from arp_handle [where pre = pre and post = post, OF 1 this] assms(3) have 2: "arp_reach ifs N (?t (h\<lparr>hd_phase := Completed\<rparr>))"
    by (simp add: complete_handlers)
  have ok: "\<not> ap_crashed (?t k)" for k using assms(3) by (simp add: requestComplete_def Let_def)
  have "handler_step (?t (h\<lparr>hd_phase := Completed\<rparr>)) (h\<lparr>hd_phase := Completed\<rparr>) (?t (h\<lparr>hd_phase := Completed\<rparr>))
      ((h\<lparr>hd_phase := Completed\<rparr>)\<lparr>hd_phase := Closed\<rparr>)"
    by (rule handler_step.closed) simp
  from arp_handle [where pre = pre and post = post, OF 2 this _ ok] show ?thesis by simp
qed

lemma dropped_request:
  "\<exists>s h. arp_reach ifs N s \<and> ap_handlers s ! 1 = h \<and> length (ap_handlers s) = 2 \<and> \<not> ap_parent s \<and> hd_req h = second_request
     \<and> hd_phase h = Closed \<and> \<not> hd_done h \<and> hd_sent h = []"
proof -
  let ?g = "fresh_handler second_request"
  define s2 where "s2 = handle_new second_request (handle_new first_request (start_poller arper_New))"
  have "arp_reach ifs N (handle_new first_request (start_poller arper_New))"
    by (rule arp_reach.next_state [OF arp_reach.initial _ arp_step.request [of False first_request _ "Ok ()"]])
      (simp_all add: arper_New_def addRequest_def)
  then have r2: "arp_reach ifs N s2"
    unfolding s2_def
    by (rule arp_reach.next_state [OF _ _ arp_step.request [of False second_request _ "Ok ()"]])
      (simp_all add: arper_New_def addRequest_def handle_new_def start_poller_def)
  have s2: "ap_handlers s2 = [] @ fresh_handler first_request # [?g]" "\<not> ap_crashed s2" "ap_entries s2 = []" "ap_active s2 = 0"
    "ap_gens s2 = 1" "ap_parent s2 = False" "ap_epoch s2 = 0"
    by (simp_all add: s2_def handle_new_def start_poller_def arper_New_def fresh_handler_def)
  let ?w = "(fresh_handler first_request)\<lparr>hd_phase := Waiting 0 0\<rparr>"
  have r3: "arp_reach ifs N (s2\<lparr>ap_active := 1, ap_handlers := [] @ ?w # [?g]\<rparr>)"
    using arp_starts [OF r2 s2(1-3)] s2 by (simp add: current_def)
  have r4: "arp_reach ifs N (s2\<lparr>ap_active := 1, ap_handlers := [] @ ?w\<lparr>hd_done := True\<rparr> # [?g]\<rparr>)"
    using arp_handle [where pre = "[]" and post = "[?g]", OF r3 handler_step.ctx_ends] s2(2) by simp
  let ?s5 = "s2\<lparr>ap_active := 0, ap_polling := False, ap_cancelled := insert 0 (ap_cancelled s2),
    ap_handlers := [?w\<lparr>hd_done := True, hd_phase := Closed\<rparr>] @ ?g # []\<rparr>"
  have r5: "arp_reach ifs N ?s5"
    using arp_leaves [OF r4, of "[]" "?w\<lparr>hd_done := True\<rparr>" "[?g]" 0 0] s2 by (simp add: requestComplete_def Let_def current_def)
  let ?v = "?g\<lparr>hd_phase := Waiting 0 0\<rparr>"
  have r6: "arp_reach ifs N (?s5\<lparr>ap_active := 1, ap_handlers := [?w\<lparr>hd_done := True, hd_phase := Closed\<rparr>] @ ?v # []\<rparr>)"
    using arp_starts [OF r5, of "[?w\<lparr>hd_done := True, hd_phase := Closed\<rparr>]" second_request "[]"] s2 by (simp add: current_def)
  from arp_leaves [OF r6, of "[?w\<lparr>hd_done := True, hd_phase := Closed\<rparr>]" ?v "[]" 0 0] s2 show ?thesis
    by (intro exI conjI) (assumption | simp add: requestComplete_def Let_def fresh_handler_def ctx_done_def)+
qed

theorem arp_discovery_witness:
  "\<exists>s h. arp_reach (\<lambda>i. Some ''br0'') {} s \<and> ap_handlers s ! 1 = h \<and> hd_req h = second_request \<and> hd_phase h = Closed
    \<and> \<not> hd_done h \<and> \<not> ap_parent s \<and> hd_sent h = [] \<and> \<not> ap_crashed s"
proof -
  obtain s h where "arp_reach (\<lambda>i. Some ''br0'') {} s" "ap_handlers s ! 1 = h" "\<not> ap_parent s" "hd_req h = second_request"
    "hd_phase h = Closed" "\<not> hd_done h" "hd_sent h = []"
    using dropped_request by blast
  moreover from arp_discovery [OF this(1)] have "\<not> ap_crashed s" by simp
  ultimately show ?thesis by blast
qed

end
