(* ===== verification/Ceph.thy ===== *)
theory Ceph
  imports Storage Holes CloudInit
begin

text \<open>
  \<^verbatim>\<open>providers/libvirt/storage/plugin/ceph/ceph.go\<close>: the plugin that copies and uploads rbd volumes. The
  calls of librados and librbd are parameters, and so is the choice between the end of a flattening and
  the end of the context. A handle has a number of its own and the name of what it was opened for.
\<close>

section \<open>The library\<close>

type_synonym ioctx = "nat \<times> string"
type_synonym imgname = "string \<times> string"
type_synonym imgh = "nat \<times> imgname"

record 'w ceph =
  cn_New :: "string \<Rightarrow> ('w, nat) io"
  cn_SetConfigOption :: "nat \<Rightarrow> string \<Rightarrow> string \<Rightarrow> ('w, unit) io"
  cn_Connect :: "nat \<Rightarrow> ('w, unit) io"
  cn_Shutdown :: "nat \<Rightarrow> ('w, unit) io"
  cn_OpenIOContext :: "nat \<Rightarrow> string \<Rightarrow> ('w, ioctx) io"
  cx_Destroy :: "ioctx \<Rightarrow> ('w, unit) io"
  rb_Open :: "bool \<Rightarrow> ioctx \<Rightarrow> string \<Rightarrow> ('w, imgh) io"
  rb_Close :: "imgh \<Rightarrow> ('w, unit) io"
  rb_GetFeatures :: "imgh \<Rightarrow> ('w, 64 word) io"
  rb_GetSize :: "imgh \<Rightarrow> ('w, nat) io"
  rb_GetSnapshotNames :: "imgh \<Rightarrow> ('w, string list) io"
  rb_DiffIterate :: "imgh \<Rightarrow> string \<Rightarrow> nat \<Rightarrow> ('w, bool \<times> goerr option) io"
  rb_CreateSnapshot :: "imgh \<Rightarrow> string \<Rightarrow> ('w, unit) io"
  rb_IsProtected :: "imgh \<Rightarrow> string \<Rightarrow> ('w, bool) io"
  rb_Protect :: "imgh \<Rightarrow> string \<Rightarrow> ('w, unit) io"
  rb_Unprotect :: "imgh \<Rightarrow> string \<Rightarrow> ('w, unit) io"
  rb_LockAcquire :: "imgh \<Rightarrow> ('w, unit) io"
  rb_LockRelease :: "imgh \<Rightarrow> ('w, unit) io"
  rb_LockExclusive :: "imgh \<Rightarrow> string \<Rightarrow> ('w, unit) io"
  rb_Unlock :: "imgh \<Rightarrow> string \<Rightarrow> ('w, unit) io"
  rb_SetCloneFormat :: "nat \<Rightarrow> ('w, unit) io"
  rb_DestroyOptions :: "('w, unit) io"
  rb_Clone :: "ioctx \<Rightarrow> string \<Rightarrow> string \<Rightarrow> ioctx \<Rightarrow> string \<Rightarrow> ('w, unit) io"
  rb_Flatten :: "imgh \<Rightarrow> ('w, unit) io"
  rb_writer :: "imgh \<Rightarrow> 'w image"
  uuid_Short :: "('w, string) io"
  cp_Interrupts :: "imgh \<Rightarrow> 'w \<Rightarrow> goerr option \<times> 'w"
  fl_Open :: "string \<Rightarrow> ('w, nat \<times> source) io"
  fl_Size :: "nat \<Rightarrow> ('w, int) io"
  fl_Close :: "nat \<Rightarrow> ('w, unit) io"

definition radosMonOpTimeout :: string where "radosMonOpTimeout = ''30''"
definition radosOsdOpTimeout :: string where "radosOsdOpTimeout = ''30''"
definition errNoSnapshot :: goerr where "errNoSnapshot = ErrNew ''no current snapshot found''"

text \<open>The feature bits of librbd.\<close>

definition FeatureLayering :: "64 word" where "FeatureLayering = 1"
definition FeatureExclusiveLock :: "64 word" where "FeatureExclusiveLock = 4"

section \<open>Connecting and locking\<close>

definition cephConnect :: "'w ceph \<Rightarrow> CephConnect \<Rightarrow> ('w, nat) io" where
  "cephConnect c con =
     iobind (cn_New c (cc_Username con)) (\<lambda>conn.
     iobind (cn_SetConfigOption c conn ''rados_mon_op_timeout'' radosMonOpTimeout) (\<lambda>_.
     iobind (cn_SetConfigOption c conn ''rados_osd_op_timeout'' radosOsdOpTimeout) (\<lambda>_.
     iobind (cn_SetConfigOption c conn ''key'' (cc_Key con)) (\<lambda>_.
     iobind (cn_SetConfigOption c conn ''mon_host'' (join '','' (cc_Hosts con))) (\<lambda>_.
     iobind (cn_Connect c conn) (\<lambda>_. ret conn))))))"

unbundle bit_operations_syntax

definition imageHasFeature :: "'w ceph \<Rightarrow> imgh \<Rightarrow> 64 word \<Rightarrow> ('w, bool) io" where
  "imageHasFeature c img feature =
     iobind (iowrap ''volume features failure: '' [] (rb_GetFeatures c img)) (\<lambda>currentFeatures.
       ret (currentFeatures AND feature = feature))"

text \<open>The function to unlock is the call it makes.\<close>

definition writeLock :: "'w ceph \<Rightarrow> imgh \<Rightarrow> ('w, ('w, unit) io) io" where
  "writeLock c img = iobind (imageHasFeature c img FeatureExclusiveLock) (\<lambda>ok.
     if ok then iobind (rb_LockAcquire c img) (\<lambda>_. ret (rb_LockRelease c img))
     else iobind (uuid_Short c) (\<lambda>cookie.
       iobind (rb_LockExclusive c img cookie) (\<lambda>_. ret (rb_Unlock c img cookie))))"

section \<open>Snapshots\<close>

text \<open>A resource that is opened, used, and given back when the function returns.\<close>

definition bracket :: "('w, 'h) io \<Rightarrow> ('h \<Rightarrow> ('w, unit) io) \<Rightarrow> ('h \<Rightarrow> ('w, 'a) io) \<Rightarrow> ('w, 'a) io" where
  "bracket opn cls body = iobind opn (\<lambda>h. deferring (cls h) (body h))"

definition locked :: "'w ceph \<Rightarrow> string \<Rightarrow> imgh \<Rightarrow> ('w, 'a) io \<Rightarrow> ('w, 'a) io" where
  "locked c what img body = bracket (if what = [] then writeLock c img else iowrap what [] (writeLock c img)) (\<lambda>unlocker. unlocker)
     (\<lambda>_. body)"

definition unprotectSnapshot :: "'w ceph \<Rightarrow> ioctx \<Rightarrow> string \<Rightarrow> string \<Rightarrow> ('w, unit) io" where
  "unprotectSnapshot c ioctx imgName snapName =
     bracket (iowrap ''volume open failure: '' [] (rb_Open c False ioctx imgName)) (rb_Close c) (\<lambda>img.
     locked c ''volume write lock failure: '' img
       (iowrap ''volume snapshot protection failure: '' [] (rb_Unprotect c img snapName)))"

definition protectSnapshot :: "'w ceph \<Rightarrow> ioctx \<Rightarrow> string \<Rightarrow> string \<Rightarrow> ('w, ('w, unit) io) io" where
  "protectSnapshot c ioctx imgName snapName =
     bracket (iowrap ''volume open failure: '' [] (rb_Open c False ioctx imgName)) (rb_Close c) (\<lambda>img.
     locked c ''volume write lock failure: '' img
       (iobind (iowrap ''volume snapshot protection failure: '' [] (rb_Protect c img snapName)) (\<lambda>_.
         ret (unprotectSnapshot c ioctx imgName snapName))))"

text \<open>
  The first snapshot without a difference to the image. The callback stops the iteration with an
  error at the first difference, so an error counts only when none was seen.
\<close>

fun current_snapshot :: "'w ceph \<Rightarrow> imgh \<Rightarrow> nat \<Rightarrow> string list \<Rightarrow> ('w, string) io" where
  "current_snapshot c img imgSize [] = throw errNoSnapshot"
| "current_snapshot c img imgSize (s # ss) =
     iobind (rb_DiffIterate c img s imgSize) (\<lambda>(isDiff, err).
       case err of
         Some e \<Rightarrow> if \<not> isDiff then throw (wrapf (''failed to iterate snapshot diffs on '' @ quoted s @ '': '') e [])
           else current_snapshot c img imgSize ss
       | None \<Rightarrow> if \<not> isDiff then ret s else current_snapshot c img imgSize ss)"

definition getImageSnapshot :: "'w ceph \<Rightarrow> ioctx \<Rightarrow> string \<Rightarrow> ('w, string) io" where
  "getImageSnapshot c ioctx imgName =
     bracket (iowrap ''volume open failure: '' [] (rb_Open c True ioctx imgName)) (rb_Close c) (\<lambda>img.
     iobind (iowrap ''volume size unavailable: '' [] (rb_GetSize c img)) (\<lambda>imgSize.
     iobind (iowrap ''volume snapshot list failure: '' [] (rb_GetSnapshotNames c img)) (\<lambda>snaps.
     current_snapshot c img imgSize snaps)))"

definition generateSnapshot :: "'w ceph \<Rightarrow> ioctx \<Rightarrow> string \<Rightarrow> ('w, string) io" where
  "generateSnapshot c ioctx imgName =
     bracket (iowrap ''volume open failure: '' [] (rb_Open c False ioctx imgName)) (rb_Close c) (\<lambda>img.
     iobind (imageHasFeature c img FeatureLayering) (\<lambda>ok.
     if \<not> ok then throw (Errorf ''volume missing required 'layering' feature for snapshot'' [])
     else locked c ''volume lock failure: '' img
       (iobind (uuid_Short c) (\<lambda>u.
        let snapshotName = ''nomad-snap-'' @ u in
        iobind (iowrap ''volume snapshot create failure: '' [] (rb_CreateSnapshot c img snapshotName)) (\<lambda>_.
        iobind (iowrap ''volume snapshot protection failure: '' [] (rb_Protect c img snapshotName)) (\<lambda>_.
        ret snapshotName))))))"

section \<open>Copying a volume\<close>

text \<open>Either branch of the select statement; the flattening that is left goes on meanwhile.\<close>

definition flatten_or_done :: "'w ceph \<Rightarrow> imgh \<Rightarrow> ('w, unit) io" where
  "flatten_or_done c dst = (\<lambda>w. case cp_Interrupts c dst w of
     (Some e, w) \<Rightarrow> throw (wrapf ''volume flatten interrupted: '' e []) w
   | (None, w) \<Rightarrow> iowrap ''volume flatten failure: '' [] (rb_Flatten c dst) w)"

definition clone_volume :: "'w ceph \<Rightarrow> ioctx \<Rightarrow> string \<Rightarrow> string \<Rightarrow> string \<Rightarrow> ('w, unit) io" where
  "clone_volume c ioctx srcVol snapName dstVol =
     deferring (rb_DestroyOptions c)
       (iobind (iowrap ''clone options setup failure: '' [] (rb_SetCloneFormat c 2)) (\<lambda>_.
        iobind (iowrap ''clone of source volume failed: '' [] (rb_Clone c ioctx srcVol snapName ioctx dstVol)) (\<lambda>_.
        bracket (iowrap ''volume open failure: '' [] (rb_Open c False ioctx dstVol)) (rb_Close c)
          (flatten_or_done c))))"

text \<open>The error of the function that ends the protection is only logged.\<close>

definition while_protected :: "'w ceph \<Rightarrow> ioctx \<Rightarrow> imgh \<Rightarrow> string \<Rightarrow> string \<Rightarrow> ('w, unit) io \<Rightarrow> ('w, unit) io" where
  "while_protected c ioctx img srcVol snapName body =
     iobind (iowrap ''snapshot protection detection failure: '' [] (rb_IsProtected c img snapName)) (\<lambda>ok.
       if ok then body
       else bracket (protectSnapshot c ioctx srcVol snapName) (\<lambda>unprotector. unprotector) (\<lambda>_. body))"

definition source_snapshot :: "'w ceph \<Rightarrow> ioctx \<Rightarrow> string \<Rightarrow> ('w, string) io" where
  "source_snapshot c ioctx srcVol = iotry (getImageSnapshot c ioctx srcVol) ret
     (\<lambda>e. if \<not> is_err errNoSnapshot e then throw e else generateSnapshot c ioctx srcVol)"

definition copy_image :: "'w ceph \<Rightarrow> string \<Rightarrow> string \<Rightarrow> ioctx \<Rightarrow> ('w, unit) io" where
  "copy_image c srcVol dstVol ioctx =
     iobind (source_snapshot c ioctx srcVol) (\<lambda>snapName.
     bracket (iowrap ''volume read-only open failure: '' [] (rb_Open c True ioctx srcVol)) (rb_Close c) (\<lambda>img.
     iobind (imageHasFeature c img FeatureLayering) (\<lambda>ok.
       if \<not> ok then throw (Errorf ''source volume missing required 'layering' feature'' [])
       else while_protected c ioctx img srcVol snapName (clone_volume c ioctx srcVol snapName dstVol))))"

definition VolumeCopy :: "'w ceph \<Rightarrow> CephConnect \<Rightarrow> string \<Rightarrow> string \<Rightarrow> string \<Rightarrow> ('w, unit) io" where
  "VolumeCopy c con pool srcVol dstVol =
     bracket (iowrap ''ceph copy connection failure: '' [] (cephConnect c con)) (cn_Shutdown c) (\<lambda>conn.
     bracket (iowrap ''ioctx failure: '' [] (cn_OpenIOContext c conn pool)) (cx_Destroy c)
       (copy_image c srcVol dstVol))"

section \<open>Uploading a file\<close>

text \<open>
  \<open>io.Copy\<close> hands the file to \<open>ReadFrom\<close> of the sparse writer. Its loop ends for every file; a model
  that runs out of fuel is told apart by a panic of a text of its own.
\<close>

definition copy_to_image :: "nat \<Rightarrow> 'w ceph \<Rightarrow> imgh \<Rightarrow> source \<Rightarrow> ('w, int) io" where
  "copy_to_image fuel c img src = (\<lambda>w. case image_ReadFrom fuel (rb_writer c img) src w of
     None \<Rightarrow> (Panic ''out of fuel'', w)
   | Some (Ok (wrote, None), w) \<Rightarrow> (Ok wrote, w)
   | Some (Ok (wrote, Some e), w) \<Rightarrow> (Fail e, w)
   | Some (Fail e, w) \<Rightarrow> (Fail e, w)
   | Some (Panic p, w) \<Rightarrow> (Panic p, w))"

definition upload_file :: "nat \<Rightarrow> 'w ceph \<Rightarrow> string \<Rightarrow> imgh \<Rightarrow> ('w, unit) io" where
  "upload_file fuel c path img =
     bracket (iowrap ''path open failure: '' [] (fl_Open c path)) (\<lambda>(f, src). fl_Close c f) (\<lambda>(f, src).
     iobind (iowrap ''path info failure: '' [] (fl_Size c f)) (\<lambda>fsize.
     locked c [] img
       (iobind (iowrap ''data copy to volume failure: '' [] (copy_to_image fuel c img src)) (\<lambda>wrote.
        if wrote \<noteq> fsize
        then throw (Errorf (''upload to volume failed, missing '' @ itoa (fsize - wrote) @ '' bytes'') [])
        else ret ()))))"

definition VolumeUpload :: "nat \<Rightarrow> 'w ceph \<Rightarrow> CephConnect \<Rightarrow> string \<Rightarrow> string \<Rightarrow> string \<Rightarrow> ('w, unit) io" where
  "VolumeUpload fuel c con pool vol path =
     bracket (iowrap ''ceph copy connection failure: '' [] (cephConnect c con)) (cn_Shutdown c) (\<lambda>conn.
     iobind (iowrap ''ceph connection option failure: '' []
       (cn_SetConfigOption c conn ''rbd_cache_writethrough_until_flush'' ''false'')) (\<lambda>_.
     bracket (iowrap ''ioctx failure: '' [] (cn_OpenIOContext c conn pool)) (cx_Destroy c) (\<lambda>ioctx.
     bracket (iowrap ''volume open failure: '' [] (rb_Open c False ioctx vol)) (rb_Close c)
       (upload_file fuel c path))))"

end
