(* ===== verification/CephVolumes.thy ===== *)
theory CephVolumes
  imports Ceph
begin

text \<open>
  What the ceph plugin does to a cluster whose library behaves as documented (\<open>ceph_laws\<close>): what is
  opened is closed again, no lock is left behind, images other than the new one keep their content and
  their snapshots, and a copy that succeeds is a standalone volume with the content of its source.
\<close>

section \<open>Clusters\<close>

text \<open>An image has its bytes, the snapshot it is layered on, and its snapshots with their protection.\<close>

record rbdimage =
  ri_data :: "int \<Rightarrow> byte"
  ri_parent :: "(imgname \<times> string) option"
  ri_snaps :: "string \<rightharpoonup> (int \<Rightarrow> byte) \<times> bool"

record cluster =
  cl_conns :: "nat set"
  cl_ctxs :: "ioctx set"
  cl_handles :: "imgh set"
  cl_locks :: "imgh set"
  cl_images :: "imgname \<rightharpoonup> rbdimage"

text \<open>A call that acts when it succeeds and changes nothing when it fails.\<close>

definition acts :: "('w \<Rightarrow> 'v) \<Rightarrow> ('a \<Rightarrow> 'v \<Rightarrow> 'v \<Rightarrow> bool) \<Rightarrow> ('w, 'a) io \<Rightarrow> bool" where
  "acts V P m \<longleftrightarrow> (\<forall>w r w'. m w = (r, w') \<longrightarrow> (case r of Ok x \<Rightarrow> P x (V w) (V w') | _ \<Rightarrow> V w' = V w))"

text \<open>The changes of the calls: to an image, to a snapshot of it.\<close>

definition puts_image :: "imgname \<Rightarrow> (rbdimage \<Rightarrow> rbdimage \<Rightarrow> bool) \<Rightarrow> cluster \<Rightarrow> cluster \<Rightarrow> bool" where
  "puts_image n P a b \<longleftrightarrow> (\<exists>im im'. cl_images a n = Some im \<and> P im im' \<and>
     b = a\<lparr>cl_images := (cl_images a)(n \<mapsto> im')\<rparr>)"

definition puts_snap :: "string \<Rightarrow> ((int \<Rightarrow> byte) \<times> bool) option \<Rightarrow> (int \<Rightarrow> byte) \<times> bool \<Rightarrow> rbdimage \<Rightarrow> rbdimage \<Rightarrow> bool" where
  "puts_snap s old new im im' \<longleftrightarrow> ri_snaps im s = old \<and> im' = im\<lparr>ri_snaps := (ri_snaps im)(s \<mapsto> new)\<rparr>"

definition created_snap :: "string \<Rightarrow> rbdimage \<Rightarrow> rbdimage \<Rightarrow> bool" where
  "created_snap s im im' \<longleftrightarrow> puts_snap s None (ri_data im, False) im im'"

definition protected_snap :: "string \<Rightarrow> bool \<Rightarrow> rbdimage \<Rightarrow> rbdimage \<Rightarrow> bool" where
  "protected_snap s p im im' \<longleftrightarrow> (\<exists>d q. puts_snap s (Some (d, q)) (d, p) im im')"

definition reparented :: "rbdimage \<Rightarrow> rbdimage \<Rightarrow> bool" where
  "reparented im im' \<longleftrightarrow> (\<exists>p. im' = im\<lparr>ri_parent := p\<rparr>)"

definition cloned :: "imgname \<Rightarrow> string \<Rightarrow> imgname \<Rightarrow> cluster \<Rightarrow> cluster \<Rightarrow> bool" where
  "cloned src s dst a b \<longleftrightarrow> (\<exists>im d. cl_images a src = Some im \<and> ri_snaps im s = Some (d, True) \<and>
     cl_images a dst = None \<and>
     b = a\<lparr>cl_images := (cl_images a)(dst \<mapsto> \<lparr>ri_data = d, ri_parent = Some (src, s), ri_snaps = Map.empty\<rparr>)\<rparr>)"

section \<open>What librados and librbd document\<close>

text \<open>
  A new handle was in no use; closing gives a handle back whatever it returns. An iteration that ends
  without a difference has found the content of the snapshot to be that of the image. Only a protected
  snapshot is cloned, to a name that is free; flattening removes the parent and keeps the content, also
  while it is still going on.
\<close>

definition connection_laws :: "('w \<Rightarrow> cluster) \<Rightarrow> 'w ceph \<Rightarrow> bool" where
  "connection_laws V c \<longleftrightarrow>
     (\<forall>u. acts V (\<lambda>h a b. h \<notin> cl_conns a \<and> b = a\<lparr>cl_conns := insert h (cl_conns a)\<rparr>) (cn_New c u))
   \<and> (\<forall>h k v. steps (same V) (cn_SetConfigOption c h k v)) \<and> (\<forall>h. steps (same V) (cn_Connect c h))
   \<and> (\<forall>h. steps (\<lambda>w w'. V w' = (V w)\<lparr>cl_conns := cl_conns (V w) - {h}\<rparr>) (cn_Shutdown c h))
   \<and> (\<forall>h p. acts V (\<lambda>x a b. snd x = p \<and> x \<notin> cl_ctxs a \<and> b = a\<lparr>cl_ctxs := insert x (cl_ctxs a)\<rparr>)
        (cn_OpenIOContext c h p))
   \<and> (\<forall>x. steps (\<lambda>w w'. V w' = (V w)\<lparr>cl_ctxs := cl_ctxs (V w) - {x}\<rparr>) (cx_Destroy c x))
   \<and> (\<forall>ro x n. acts V (\<lambda>h a b. snd h = (snd x, n) \<and> h \<notin> cl_handles a \<and>
        b = a\<lparr>cl_handles := insert h (cl_handles a)\<rparr>) (rb_Open c ro x n))
   \<and> (\<forall>h. steps (\<lambda>w w'. V w' = (V w)\<lparr>cl_handles := cl_handles (V w) - {h}\<rparr>) (rb_Close c h))"

definition query_laws :: "('w \<Rightarrow> cluster) \<Rightarrow> 'w ceph \<Rightarrow> bool" where
  "query_laws V c \<longleftrightarrow>
     (\<forall>h. steps (same V) (rb_GetFeatures c h)) \<and> (\<forall>h. steps (same V) (rb_GetSize c h))
   \<and> (\<forall>h. steps (same V) (rb_GetSnapshotNames c h)) \<and> (\<forall>h s. steps (same V) (rb_IsProtected c h s))
   \<and> (\<forall>n. steps (same V) (rb_SetCloneFormat c n)) \<and> steps (same V) (rb_DestroyOptions c)
   \<and> steps (same V) (uuid_Short c) \<and> (\<forall>h s n. steps (same V) (rb_DiffIterate c h s n))
   \<and> (\<forall>h s n w w'. rb_DiffIterate c h s n w = (Ok (False, None), w') \<longrightarrow>
        (\<exists>im p. cl_images (V w) (snd h) = Some im \<and> ri_snaps im s = Some (ri_data im, p)))"

definition lock_laws :: "('w \<Rightarrow> cluster) \<Rightarrow> 'w ceph \<Rightarrow> bool" where
  "lock_laws V c \<longleftrightarrow>
     (\<forall>h. acts V (\<lambda>_ a b. b = a\<lparr>cl_locks := insert h (cl_locks a)\<rparr>) (rb_LockAcquire c h))
   \<and> (\<forall>h k. acts V (\<lambda>_ a b. b = a\<lparr>cl_locks := insert h (cl_locks a)\<rparr>) (rb_LockExclusive c h k))
   \<and> (\<forall>h. acts V (\<lambda>_ a b. b = a\<lparr>cl_locks := cl_locks a - {h}\<rparr>) (rb_LockRelease c h))
   \<and> (\<forall>h k. acts V (\<lambda>_ a b. b = a\<lparr>cl_locks := cl_locks a - {h}\<rparr>) (rb_Unlock c h k))"

definition volume_laws :: "('w \<Rightarrow> cluster) \<Rightarrow> 'w ceph \<Rightarrow> bool" where
  "volume_laws V c \<longleftrightarrow>
     (\<forall>h s. acts V (\<lambda>_. puts_image (snd h) (created_snap s)) (rb_CreateSnapshot c h s))
   \<and> (\<forall>h s. acts V (\<lambda>_. puts_image (snd h) (protected_snap s True)) (rb_Protect c h s))
   \<and> (\<forall>h s. acts V (\<lambda>_. puts_image (snd h) (protected_snap s False)) (rb_Unprotect c h s))
   \<and> (\<forall>x n s y d. acts V (\<lambda>_. cloned (snd x, n) s (snd y, d)) (rb_Clone c x n s y d))
   \<and> (\<forall>h w r w'. rb_Flatten c h w = (r, w') \<longrightarrow>
        (V w' = V w \<and> r \<noteq> Ok () \<or> puts_image (snd h) reparented (V w) (V w')) \<and>
        (r = Ok () \<longrightarrow> (\<exists>im. cl_images (V w') (snd h) = Some im \<and> ri_parent im = None)))
   \<and> (\<forall>h w e w'. cp_Interrupts c h w = (e, w') \<longrightarrow> V w' = V w \<or> puts_image (snd h) reparented (V w) (V w'))"

definition ceph_laws :: "('w \<Rightarrow> cluster) \<Rightarrow> 'w ceph \<Rightarrow> bool" where
  "ceph_laws V c \<longleftrightarrow> connection_laws V c \<and> query_laws V c \<and> lock_laws V c \<and> volume_laws V c"

text \<open>Whether every unlocking succeeds; an error of it is dropped by the code.\<close>

definition unlocks :: "'w ceph \<Rightarrow> bool" where
  "unlocks c \<longleftrightarrow> (\<forall>h w. fst (rb_LockRelease c h w) = Ok ()) \<and> (\<forall>h k w. fst (rb_Unlock c h k w) = Ok ())"

section \<open>What is kept\<close>

text \<open>An image keeps its content, its parent and the content of its snapshots.\<close>

definition kept :: "rbdimage \<Rightarrow> rbdimage \<Rightarrow> bool" where
  "kept im im' \<longleftrightarrow> ri_data im' = ri_data im \<and> ri_parent im' = ri_parent im \<and>
     (\<forall>s d p. ri_snaps im s = Some (d, p) \<longrightarrow> (\<exists>q. ri_snaps im' s = Some (d, q)))"

type_synonym images = "imgname \<rightharpoonup> rbdimage"

definition images_kept :: "imgname set \<Rightarrow> images \<Rightarrow> images \<Rightarrow> bool" where
  "images_kept X a b \<longleftrightarrow> (\<forall>n. n \<notin> X \<longrightarrow> rel_option kept (a n) (b n))"

text \<open>The new volume appears only where none was, and only it may differ.\<close>

definition copies_to :: "imgname \<Rightarrow> images \<Rightarrow> images \<Rightarrow> bool" where
  "copies_to dst a b \<longleftrightarrow> images_kept {} a b \<or> a dst = None \<and> images_kept {dst} a b"

text \<open>
  What is opened is closed and what is locked is unlocked if unlocking succeeds (\<open>ul\<close>); the images
  change as \<open>I\<close> says.
\<close>

definition framed :: "bool \<Rightarrow> (images \<Rightarrow> images \<Rightarrow> bool) \<Rightarrow> cluster \<Rightarrow> cluster \<Rightarrow> bool" where
  "framed ul I a b \<longleftrightarrow> cl_conns b = cl_conns a \<and> cl_ctxs b = cl_ctxs a \<and> cl_handles b = cl_handles a \<and>
     (ul \<longrightarrow> cl_locks b \<subseteq> cl_locks a) \<and> I (cl_images a) (cl_images b)"

definition through :: "('w \<Rightarrow> 'v) \<Rightarrow> ('v \<Rightarrow> 'v \<Rightarrow> bool) \<Rightarrow> 'w \<Rightarrow> 'w \<Rightarrow> bool" where
  "through V Q w w' \<longleftrightarrow> Q (V w) (V w')"

lemma kept_refl [simp]: "kept im im"
  by (simp add: kept_def)

lemma kept_trans: "kept a b \<Longrightarrow> kept b c \<Longrightarrow> kept a c"
  unfolding kept_def by metis

lemma images_kept_refl [simp]: "images_kept X a a"
  by (simp add: images_kept_def option.rel_refl)

lemma images_kept_trans:
  assumes "images_kept X a b" "images_kept Y b c" "X \<subseteq> Z" "Y \<subseteq> Z"
  shows "images_kept Z a c"
  unfolding images_kept_def
proof (intro allI impI)
  fix n assume "n \<notin> Z"
  then have "rel_option kept (a n) (b n)" "rel_option kept (b n) (c n)"
    using assms unfolding images_kept_def by blast+
  then show "rel_option kept (a n) (c n)"
    by (auto simp: option_rel_Some1 intro: kept_trans elim!: option.rel_cases)
qed

lemma images_kept_None: "images_kept X a b \<Longrightarrow> n \<notin> X \<Longrightarrow> b n = None \<longleftrightarrow> a n = None"
  unfolding images_kept_def by (metis rel_option_None1 rel_option_None2)

lemma copies_to_trans:
  assumes "copies_to d a b" "copies_to d b c"
  shows "copies_to d a c"
proof -
  consider "images_kept {} a b" "images_kept {} b c" | "images_kept {} a b" "b d = None" "images_kept {d} b c"
    | "a d = None" "images_kept {d} a b" "images_kept {} b c \<or> images_kept {d} b c"
    using assms unfolding copies_to_def by metis
  then show ?thesis
  proof cases
    case 1
    then have "images_kept {} a c" by (rule images_kept_trans) simp_all
    then show ?thesis by (simp add: copies_to_def)
  next
    case 2
    then have "images_kept {d} a c" by (intro images_kept_trans [of "{}" a b "{d}" c]) simp_all
    moreover have "a d = None" using images_kept_None [OF 2(1)] 2(2) by simp
    ultimately show ?thesis by (simp add: copies_to_def)
  next
    case 3
    then have "images_kept {d} a c" by (auto intro: images_kept_trans [OF 3(2)])
    then show ?thesis using 3(1) by (simp add: copies_to_def)
  qed
qed

lemma preorder_images_kept [simp, intro]: "preorder (images_kept X)"
  unfolding preorder_def by (auto intro: images_kept_trans)

lemma preorder_copies_to [simp, intro]: "preorder (copies_to d)"
  unfolding preorder_def using copies_to_trans by (auto simp: copies_to_def [of d a a for a])

lemma preorder_through [intro]: "preorder Q \<Longrightarrow> preorder (through V Q)"
  unfolding preorder_def through_def by blast

lemma preorder_framed [intro]: "preorder I \<Longrightarrow> preorder (framed ul I)"
  unfolding preorder_def framed_def by (auto; blast)

lemma framed_refl: "preorder I \<Longrightarrow> framed ul I a a"
  by (simp add: preorder_def framed_def)

lemma framed_trans: "preorder I \<Longrightarrow> framed ul I a b \<Longrightarrow> framed ul I b c \<Longrightarrow> framed ul I a c"
  using preorder_framed [of I ul] unfolding preorder_def by blast

section \<open>The frame of the operations\<close>

lemma acts_steps:
  assumes "acts V P m" "\<And>x a b. P x a b \<Longrightarrow> Q a b" "preorder Q"
  shows "steps (through V Q) m"
  unfolding steps_def through_def
proof (intro allI impI)
  fix w r w' assume "m w = (r, w')"
  then have "case r of Ok x \<Rightarrow> P x (V w) (V w') | _ \<Rightarrow> V w' = V w" using assms(1) unfolding acts_def by blast
  then show "Q (V w) (V w')" using assms(2,3) by (cases r) (auto simp: preorder_def)
qed

lemma same_steps: "steps (same V) m \<Longrightarrow> preorder Q \<Longrightarrow> steps (through V Q) m"
  unfolding steps_def through_def same_def preorder_def by metis

lemma acts_wrap: "acts V P m \<Longrightarrow> acts V P (iowrap a b m)"
  unfolding acts_def
proof (intro allI impI)
  fix w r w' assume law: "\<forall>w r w'. m w = (r, w') \<longrightarrow> (case r of Ok x \<Rightarrow> P x (V w) (V w') | _ \<Rightarrow> V w' = V w)"
    and run: "iowrap a b m w = (r, w')"
  from run show "case r of Ok x \<Rightarrow> P x (V w) (V w') | _ \<Rightarrow> V w' = V w"
    by (cases rule: iowrap_cases) (use law in fastforce)+
qed

lemma steps_bracket:
  assumes "preorder R"
    and opn: "\<And>w r w'. opn w = (r, w') \<Longrightarrow> case r of Ok h \<Rightarrow> G h w w' | _ \<Rightarrow> R w w'"
    and body: "\<And>h w w'. G h w w' \<Longrightarrow> steps R (body h)"
    and cls: "\<And>h w w1 w2 r w3. G h w w1 \<Longrightarrow> R w1 w2 \<Longrightarrow> cls h w2 = (r, w3) \<Longrightarrow> R w w3"
  shows "steps R (bracket opn cls body)"
  unfolding steps_def
proof (intro allI impI)
  fix w r w' assume run: "bracket opn cls body w = (r, w')"
  then show "R w w'" unfolding bracket_def
  proof (cases rule: iobind_cases)
    case (Ok h w1)
    obtain r2 w2 where b: "body h w1 = (r2, w2)" by fastforce
    with Ok(2) have "w' = snd (cls h w2)" by (simp add: deferring_def)
    then have "cls h w2 = (fst (cls h w2), w')" by simp
    moreover have G: "G h w w1" using opn [OF Ok(1)] by simp
    moreover have "R w1 w2" by (rule stepsD [OF body [OF G] b])
    ultimately show ?thesis using cls by blast
  next
    case (Fail e)
    then show ?thesis using opn by fastforce
  next
    case (Panic p)
    then show ?thesis using opn by fastforce
  qed
qed

lemma deferring_Ok: "deferring d m w = (Ok y, w') \<longleftrightarrow> (\<exists>w1. m w = (Ok y, w1) \<and> w' = snd (d w1))"
  by (cases "m w") (auto simp: deferring_def)

lemma bracket_Ok:
  "bracket opn cls body w = (Ok y, w') \<longleftrightarrow>
     (\<exists>h w1 w2. opn w = (Ok h, w1) \<and> body h w1 = (Ok y, w2) \<and> w' = snd (cls h w2))"
  unfolding bracket_def iobind_Ok deferring_Ok by blast

text \<open>The brackets of the plugin: handles, contexts and connections.\<close>

lemma bracket_acts:
  assumes "preorder I" and opn: "acts V P opn" and body: "\<And>h a b. P h a b \<Longrightarrow> steps (through V (framed ul I)) (body h)"
    and cls: "\<And>h. steps (\<lambda>w w'. C h (V w) (V w')) (cls h)"
    and closed: "\<And>h a b c d. P h a b \<Longrightarrow> framed ul I b c \<Longrightarrow> C h c d \<Longrightarrow> framed ul I a d"
  shows "steps (through V (framed ul I)) (bracket opn cls body)"
proof (rule steps_bracket [where G = "\<lambda>h w w'. P h (V w) (V w')"])
  show "preorder (through V (framed ul I))" using assms(1) by blast
  fix w r w' assume "opn w = (r, w')"
  then have "case r of Ok h \<Rightarrow> P h (V w) (V w') | _ \<Rightarrow> V w' = V w" using opn unfolding acts_def by blast
  then show "case r of Ok h \<Rightarrow> P h (V w) (V w') | _ \<Rightarrow> through V (framed ul I) w w'"
    using framed_refl [OF assms(1)] by (cases r) (simp_all add: through_def)
next
  fix h w w1 w2 r w3
  assume 1: "P h (V w) (V w1)" "through V (framed ul I) w1 w2" "cls h w2 = (r, w3)"
  then have "C h (V w2) (V w3)" using stepsD [OF cls 1(3)] by simp
  then show "through V (framed ul I) w w3" using closed [OF 1(1)] 1(2) by (simp add: through_def)
qed (rule body)

lemma handle_bracket:
  assumes "ceph_laws V c" "preorder I"
    and "\<And>h. snd h = (snd x, n) \<Longrightarrow> steps (through V (framed ul I)) (body h)"
  shows "steps (through V (framed ul I)) (bracket (iowrap m [] (rb_Open c ro x n)) (rb_Close c) body)"
proof (rule bracket_acts [OF assms(2)])
  let ?P = "\<lambda>h a b. snd h = (snd x, n) \<and> h \<notin> cl_handles a \<and> b = a\<lparr>cl_handles := insert h (cl_handles a)\<rparr>"
  show "acts V ?P (iowrap m [] (rb_Open c ro x n))"
    using assms(1) unfolding ceph_laws_def connection_laws_def by (intro acts_wrap) blast
  show "steps (\<lambda>w w'. V w' = (V w)\<lparr>cl_handles := cl_handles (V w) - {h}\<rparr>) (rb_Close c h)" for h
    using assms(1) unfolding ceph_laws_def connection_laws_def by blast
qed (use assms(3) in \<open>auto simp: framed_def\<close>)

lemma context_bracket:
  assumes "ceph_laws V c" "preorder I" and "\<And>x. snd x = p \<Longrightarrow> steps (through V (framed ul I)) (body x)"
  shows "steps (through V (framed ul I)) (bracket (iowrap m [] (cn_OpenIOContext c h p)) (cx_Destroy c) body)"
proof (rule bracket_acts [OF assms(2)])
  let ?P = "\<lambda>x a b. snd x = p \<and> x \<notin> cl_ctxs a \<and> b = a\<lparr>cl_ctxs := insert x (cl_ctxs a)\<rparr>"
  show "acts V ?P (iowrap m [] (cn_OpenIOContext c h p))"
    using assms(1) unfolding ceph_laws_def connection_laws_def by (intro acts_wrap) blast
  show "steps (\<lambda>w w'. V w' = (V w)\<lparr>cl_ctxs := cl_ctxs (V w) - {x}\<rparr>) (cx_Destroy c x)" for x
    using assms(1) unfolding ceph_laws_def connection_laws_def by blast
qed (use assms(3) in \<open>auto simp: framed_def\<close>)

text \<open>A lock is given back when its function succeeds.\<close>

definition unlocker_of :: "('w \<Rightarrow> cluster) \<Rightarrow> bool \<Rightarrow> imgh \<Rightarrow> ('w, unit) io \<Rightarrow> bool" where
  "unlocker_of V ul h u \<longleftrightarrow> acts V (\<lambda>_ a b. b = a\<lparr>cl_locks := cl_locks a - {h}\<rparr>) u \<and> (ul \<longrightarrow> (\<forall>w. fst (u w) = Ok ()))"

lemma writeLock_acts:
  assumes "ceph_laws V c"
  shows "acts V (\<lambda>u a b. unlocker_of V (unlocks c) h u \<and> b = a\<lparr>cl_locks := insert h (cl_locks a)\<rparr>) (writeLock c h)"
proof -
  have q: "steps (same V) (rb_GetFeatures c h)" "steps (same V) (uuid_Short c)"
    using assms unfolding ceph_laws_def query_laws_def by blast+
  then have f: "steps (same V) (imageHasFeature c h FeatureExclusiveLock)"
    unfolding imageHasFeature_def by (intro steps_intros) auto
  have l: "acts V (\<lambda>_ a b. b = a\<lparr>cl_locks := insert h (cl_locks a)\<rparr>) (rb_LockAcquire c h)"
    "\<And>k. acts V (\<lambda>_ a b. b = a\<lparr>cl_locks := insert h (cl_locks a)\<rparr>) (rb_LockExclusive c h k)"
    and u: "unlocker_of V (unlocks c) h (rb_LockRelease c h)" "\<And>k. unlocker_of V (unlocks c) h (rb_Unlock c h k)"
    using assms unfolding ceph_laws_def lock_laws_def unlocker_of_def unlocks_def by blast+
  let ?P = "\<lambda>u a b. unlocker_of V (unlocks c) h u \<and> b = a\<lparr>cl_locks := insert h (cl_locks a)\<rparr>"
  have "case r of Ok x \<Rightarrow> ?P x (V w) (V w') | _ \<Rightarrow> V w' = V w" if "writeLock c h w = (r, w')" for w r w'
    using that unfolding writeLock_def
  proof (cases rule: iobind_cases)
    case (Ok ok w1)
    have V1: "V w1 = V w" using stepsD [OF f Ok(1)] by (simp add: same_def)
    show ?thesis
    proof (cases ok)
      case True
      with Ok(2) have "iobind (rb_LockAcquire c h) (\<lambda>_. ret (rb_LockRelease c h)) w1 = (r, w')" by simp
      then show ?thesis
        by (cases rule: iobind_cases) (use l(1) u(1) V1 in \<open>fastforce simp: acts_def ret_def\<close>)+
    next
      case False
      with Ok(2) have "iobind (uuid_Short c) (\<lambda>cookie. iobind (rb_LockExclusive c h cookie)
          (\<lambda>_. ret (rb_Unlock c h cookie))) w1 = (r, w')" by simp
      then show ?thesis
      proof (cases rule: iobind_cases)
        case (Ok k w2)
        have V2: "V w2 = V w" using stepsD [OF q(2) Ok(1)] V1 by (simp add: same_def)
        from Ok(2) show ?thesis
          by (cases rule: iobind_cases) (use l(2) [of k] u(2) [of k] V2 in \<open>fastforce simp: acts_def ret_def\<close>)+
      qed (use stepsD [OF q(2)] V1 in \<open>fastforce simp: same_def\<close>)+
    qed
  qed (use stepsD [OF f] in \<open>fastforce simp: same_def\<close>)+
  then show ?thesis unfolding acts_def by blast
qed

lemma lock_bracket:
  assumes "ceph_laws V c" "preorder I" "steps (through V (framed (unlocks c) I)) body"
  shows "steps (through V (framed (unlocks c) I)) (locked c m img body)"
  unfolding locked_def
proof (rule steps_bracket)
  let ?G = "\<lambda>u w w'. unlocker_of V (unlocks c) img u \<and> V w' = (V w)\<lparr>cl_locks := insert img (cl_locks (V w))\<rparr>"
  show "preorder (through V (framed (unlocks c) I))" using assms(2) by blast
  fix w r w' assume run: "(if m = [] then writeLock c img else iowrap m [] (writeLock c img)) w = (r, w')"
  have "acts V (\<lambda>u a b. unlocker_of V (unlocks c) img u \<and> b = a\<lparr>cl_locks := insert img (cl_locks a)\<rparr>)
      (if m = [] then writeLock c img else iowrap m [] (writeLock c img))"
    using writeLock_acts [OF assms(1)] by (simp add: acts_wrap)
  with run have "case r of Ok u \<Rightarrow> ?G u w w' | _ \<Rightarrow> V w' = V w" unfolding acts_def by blast
  then show "case r of Ok u \<Rightarrow> ?G u w w' | _ \<Rightarrow> through V (framed (unlocks c) I) w w'"
    using framed_refl [OF assms(2)] by (cases r) (simp_all add: through_def)
next
  fix u w w1 w2 r w3
  assume 1: "unlocker_of V (unlocks c) img u \<and> V w1 = (V w)\<lparr>cl_locks := insert img (cl_locks (V w))\<rparr>"
    "through V (framed (unlocks c) I) w1 w2" "u w2 = (r, w3)"
  have "case r of Ok x \<Rightarrow> V w3 = (V w2)\<lparr>cl_locks := cl_locks (V w2) - {img}\<rparr> | _ \<Rightarrow> V w3 = V w2"
    using 1(1,3) unfolding unlocker_of_def acts_def by blast
  moreover have "unlocks c \<Longrightarrow> r = Ok ()" using 1(1,3) unfolding unlocker_of_def by (metis fst_conv)
  ultimately show "through V (framed (unlocks c) I) w w3"
    using 1(1,2) by (cases r) (auto simp: through_def framed_def)
qed (rule assms(3))

text \<open>Images may change as long as what they keep is kept.\<close>

definition tolerant :: "(images \<Rightarrow> images \<Rightarrow> bool) \<Rightarrow> bool" where
  "tolerant I \<longleftrightarrow> preorder I \<and> (\<forall>m n im im'. m n = Some im \<longrightarrow> kept im im' \<longrightarrow> I m (m(n \<mapsto> im')))"

lemma images_kept_update: "m n = Some im \<Longrightarrow> n \<in> X \<or> kept im im' \<Longrightarrow> images_kept X m (m(n \<mapsto> im'))"
  by (auto simp: images_kept_def option.rel_refl)

lemma tolerant_images_kept [simp]: "tolerant (images_kept X)"
  using images_kept_update by (auto simp: tolerant_def)

lemma tolerant_copies_to [simp]: "tolerant (copies_to d)"
  using images_kept_update by (auto simp: tolerant_def copies_to_def)

lemma tolerant_preorder: "tolerant I \<Longrightarrow> preorder I"
  by (simp add: tolerant_def)

lemma puts_framed:
  assumes "puts_image n P a b" "\<And>m im im'. m n = Some im \<Longrightarrow> P im im' \<Longrightarrow> I m (m(n \<mapsto> im'))"
  shows "framed ul I a b"
  using assms(1) unfolding puts_image_def by (auto simp: framed_def assms(2))

lemma kept_snaps: "created_snap s im im' \<Longrightarrow> kept im im'" "protected_snap s p im im' \<Longrightarrow> kept im im'"
  by (auto simp: created_snap_def protected_snap_def puts_snap_def kept_def)

lemma snapshot_calls:
  assumes "ceph_laws V c" "tolerant I"
  shows "steps (through V (framed ul I)) (rb_CreateSnapshot c h s)"
    "steps (through V (framed ul I)) (rb_Protect c h s)" "steps (through V (framed ul I)) (rb_Unprotect c h s)"
proof -
  have laws: "acts V (\<lambda>_. puts_image (snd h) (created_snap s)) (rb_CreateSnapshot c h s)"
    "acts V (\<lambda>_. puts_image (snd h) (protected_snap s True)) (rb_Protect c h s)"
    "acts V (\<lambda>_. puts_image (snd h) (protected_snap s False)) (rb_Unprotect c h s)"
    using assms(1) unfolding ceph_laws_def volume_laws_def by blast+
  have pre: "preorder (framed ul I)" using assms(2) tolerant_preorder by blast
  have puts: "framed ul I a b" if "puts_image (snd h) P a b" "\<And>im im'. P im im' \<Longrightarrow> kept im im'" for P a b
  proof (rule puts_framed [OF that(1)])
    fix m im im' assume "m (snd h) = Some im" "P im im'"
    then show "I m (m(snd h \<mapsto> im'))" using assms(2) that(2) unfolding tolerant_def by blast
  qed
  show "steps (through V (framed ul I)) (rb_CreateSnapshot c h s)"
    by (rule acts_steps [OF laws(1) _ pre]) (erule puts, erule kept_snaps)
  show "steps (through V (framed ul I)) (rb_Protect c h s)"
    by (rule acts_steps [OF laws(2) _ pre]) (erule puts, erule kept_snaps)
  show "steps (through V (framed ul I)) (rb_Unprotect c h s)"
    by (rule acts_steps [OF laws(3) _ pre]) (erule puts, erule kept_snaps)
qed

lemma query_calls:
  assumes "ceph_laws V c" "preorder I"
  shows "steps (through V (framed ul I)) (rb_GetFeatures c h)" "steps (through V (framed ul I)) (rb_GetSize c h)"
    "steps (through V (framed ul I)) (rb_GetSnapshotNames c h)" "steps (through V (framed ul I)) (rb_IsProtected c h s)"
    "steps (through V (framed ul I)) (rb_SetCloneFormat c n)" "steps (through V (framed ul I)) (rb_DestroyOptions c)"
    "steps (through V (framed ul I)) (uuid_Short c)" "steps (through V (framed ul I)) (rb_DiffIterate c h s n)"
    "steps (through V (framed ul I)) (cn_SetConfigOption c k s s')"
proof -
  have pre: "preorder (framed ul I)" using assms(2) by blast
  have laws: "steps (same V) (rb_GetFeatures c h)" "steps (same V) (rb_GetSize c h)"
    "steps (same V) (rb_GetSnapshotNames c h)" "steps (same V) (rb_IsProtected c h s)"
    "steps (same V) (rb_SetCloneFormat c n)" "steps (same V) (rb_DestroyOptions c)"
    "steps (same V) (uuid_Short c)" "steps (same V) (rb_DiffIterate c h s n)"
    using assms(1) unfolding ceph_laws_def query_laws_def by blast+
  have set: "steps (same V) (cn_SetConfigOption c k s s')"
    using assms(1) unfolding ceph_laws_def connection_laws_def by blast
  show "steps (through V (framed ul I)) (rb_GetFeatures c h)" "steps (through V (framed ul I)) (rb_GetSize c h)"
    "steps (through V (framed ul I)) (rb_GetSnapshotNames c h)" "steps (through V (framed ul I)) (rb_IsProtected c h s)"
    "steps (through V (framed ul I)) (rb_SetCloneFormat c n)" "steps (through V (framed ul I)) (rb_DestroyOptions c)"
    "steps (through V (framed ul I)) (uuid_Short c)" "steps (through V (framed ul I)) (rb_DiffIterate c h s n)"
    "steps (through V (framed ul I)) (cn_SetConfigOption c k s s')"
    by (intro same_steps laws set pre)+
qed

section \<open>The frame of the snapshots\<close>

lemma imageHasFeature_framed:
  "ceph_laws V c \<Longrightarrow> preorder I \<Longrightarrow> steps (through V (framed ul I)) (imageHasFeature c h f)"
  unfolding imageHasFeature_def by (intro steps_intros query_calls preorder_through preorder_framed)

lemma unprotectSnapshot_framed:
  assumes "ceph_laws V c" "tolerant I"
  shows "steps (through V (framed (unlocks c) I)) (unprotectSnapshot c x n s)"
  unfolding unprotectSnapshot_def using assms
  by (intro handle_bracket lock_bracket steps_wrap snapshot_calls preorder_through preorder_framed tolerant_preorder)

lemma protectSnapshot_framed:
  assumes "ceph_laws V c" "tolerant I"
  shows "steps (through V (framed (unlocks c) I)) (protectSnapshot c x n s)"
  unfolding protectSnapshot_def using assms
  by (intro handle_bracket lock_bracket steps_bind steps_ret steps_wrap snapshot_calls preorder_through preorder_framed
      tolerant_preorder)

lemma protectSnapshot_Ok:
  assumes "protectSnapshot c x n s w = (Ok u, w')"
  shows "u = unprotectSnapshot c x n s"
  using assms unfolding protectSnapshot_def locked_def
  by (auto simp: bracket_Ok iobind_Ok ret_def)

lemma current_snapshot_framed:
  assumes "ceph_laws V c" "preorder I"
  shows "steps (through V (framed ul I)) (current_snapshot c h n ss)"
proof -
  have pre: "preorder (through V (framed ul I))" using assms(2) by blast
  show ?thesis
    by (induction ss) (auto intro!: steps_intros pre query_calls [OF assms] split: prod.splits option.splits)
qed

lemma getImageSnapshot_framed:
  assumes "ceph_laws V c" "preorder I"
  shows "steps (through V (framed ul I)) (getImageSnapshot c x n)"
  unfolding getImageSnapshot_def using assms
  by (intro handle_bracket steps_bind steps_wrap query_calls current_snapshot_framed preorder_through preorder_framed)

lemma generateSnapshot_framed:
  assumes "ceph_laws V c" "tolerant I"
  shows "steps (through V (framed (unlocks c) I)) (generateSnapshot c x n)"
  unfolding generateSnapshot_def Let_def using assms
  by (intro handle_bracket lock_bracket steps_bind steps_if steps_throw steps_ret steps_wrap snapshot_calls query_calls
      imageHasFeature_framed preorder_through preorder_framed tolerant_preorder)

lemma source_snapshot_framed:
  assumes "ceph_laws V c" "tolerant I"
  shows "steps (through V (framed (unlocks c) I)) (source_snapshot c x n)"
  unfolding source_snapshot_def using assms
  by (intro steps_try steps_ret steps_if steps_throw getImageSnapshot_framed generateSnapshot_framed preorder_through
      preorder_framed tolerant_preorder)

lemma while_protected_framed:
  assumes "ceph_laws V c" "tolerant I" "steps (through V (framed (unlocks c) I)) body"
  shows "steps (through V (framed (unlocks c) I)) (while_protected c x h n s body)"
proof -
  have pre: "preorder (through V (framed (unlocks c) I))" using assms(2) tolerant_preorder by blast
  have "steps (through V (framed (unlocks c) I)) (bracket (protectSnapshot c x n s) (\<lambda>u. u) (\<lambda>_. body))"
  proof (rule steps_bracket [where G = "\<lambda>u w w'. u = unprotectSnapshot c x n s \<and> through V (framed (unlocks c) I) w w'"])
    fix w r w' assume "protectSnapshot c x n s w = (r, w')"
    moreover from this have "through V (framed (unlocks c) I) w w'" by (rule stepsD [OF protectSnapshot_framed [OF assms(1,2)]])
    ultimately show "case r of Ok u \<Rightarrow> u = unprotectSnapshot c x n s \<and> through V (framed (unlocks c) I) w w'
        | _ \<Rightarrow> through V (framed (unlocks c) I) w w'"
      by (cases r) (auto dest: protectSnapshot_Ok)
  next
    fix u w w1 w2 r w3
    assume "u = unprotectSnapshot c x n s \<and> through V (framed (unlocks c) I) w w1"
      "through V (framed (unlocks c) I) w1 w2" "u w2 = (r, w3)"
    then show "through V (framed (unlocks c) I) w w3"
      using stepsD [OF unprotectSnapshot_framed [OF assms(1,2)]] pre unfolding preorder_def by metis
  qed (rule pre, rule assms(3))
  then show ?thesis
    unfolding while_protected_def
    by (intro steps_bind steps_wrap steps_if query_calls [OF assms(1) tolerant_preorder [OF assms(2)]] pre assms(3))
qed

section \<open>The frame of a copy\<close>

lemma steps_deferring:
  assumes "preorder R" "steps R m" "steps R d"
  shows "steps R (deferring d m)"
  unfolding steps_def deferring_def
proof (intro allI impI)
  fix w r w' assume "(case m w of (r, w') \<Rightarrow> (r, snd (d w'))) = (r, w')"
  then obtain w1 where "m w = (r, w1)" "w' = snd (d w1)" by (auto split: prod.splits)
  moreover then obtain q where "d w1 = (q, w')" by (metis prod.collapse)
  ultimately show "R w w'" using assms unfolding steps_def preorder_def by metis
qed

lemma flatten_or_done_framed:
  assumes "ceph_laws V c"
  shows "steps (through V (framed ul (images_kept {snd h}))) (flatten_or_done c h)"
proof -
  let ?Q = "framed ul (images_kept {snd h})"
  have flat: "\<And>w r w'. rb_Flatten c h w = (r, w') \<Longrightarrow> V w' = V w \<or> puts_image (snd h) reparented (V w) (V w')"
    and int: "\<And>w e w'. cp_Interrupts c h w = (e, w') \<Longrightarrow> V w' = V w \<or> puts_image (snd h) reparented (V w) (V w')"
    using assms unfolding ceph_laws_def volume_laws_def by blast+
  have pre: "preorder (through V ?Q)" by blast
  have put: "?Q a b" if "b = a \<or> puts_image (snd h) reparented a b" for a b
    using that
  proof
    assume "puts_image (snd h) reparented a b"
    then show "?Q a b" by (rule puts_framed) (simp add: images_kept_update)
  qed (simp add: framed_refl)
  have "steps (through V ?Q) (rb_Flatten c h)"
    unfolding steps_def through_def using put [OF flat] by blast
  then have fl: "steps (through V ?Q) (iowrap ''volume flatten failure: '' [] (rb_Flatten c h))"
    by (rule steps_wrap [OF pre])
  show ?thesis
    unfolding steps_def
  proof (intro allI impI)
    fix w r w' assume run: "flatten_or_done c h w = (r, w')"
    obtain e w1 where i: "cp_Interrupts c h w = (e, w1)" by fastforce
    then have 1: "through V ?Q w w1" unfolding through_def using put [OF int] by blast
    show "through V ?Q w w'"
    proof (cases e)
      case None
      with run i have "iowrap ''volume flatten failure: '' [] (rb_Flatten c h) w1 = (r, w')"
        by (simp add: flatten_or_done_def)
      then have "through V ?Q w1 w'" by (rule stepsD [OF fl])
      with 1 pre show ?thesis unfolding preorder_def by blast
    next
      case (Some x)
      with run i 1 show ?thesis by (simp add: flatten_or_done_def throw_def)
    qed
  qed
qed

lemma cloned_kept:
  assumes "cloned src s dst a b"
  shows "cl_images a dst = None" "framed ul (images_kept {dst}) a b"
  using assms by (auto simp: cloned_def framed_def images_kept_def option.rel_refl)

lemma framed_mono: "framed ul I a b \<Longrightarrow> (I (cl_images a) (cl_images b) \<Longrightarrow> J (cl_images a) (cl_images b)) \<Longrightarrow> framed ul J a b"
  by (simp add: framed_def)

lemma clone_volume_framed:
  assumes "ceph_laws V c"
  shows "steps (through V (framed (unlocks c) (copies_to (snd x, d)))) (clone_volume c x n s d)"
proof -
  let ?dst = "(snd x, d)"
  let ?C = "through V (framed (unlocks c) (copies_to ?dst))" and ?K = "through V (framed (unlocks c) (images_kept {?dst}))"
  let ?rest = "bracket (iowrap ''volume open failure: '' [] (rb_Open c False x d)) (rb_Close c) (flatten_or_done c)"
  have preC: "preorder ?C" and preK: "preorder ?K" by blast+
  have law: "acts V (\<lambda>_. cloned (snd x, n) s ?dst) (iowrap m [] (rb_Clone c x n s x d))" for m
    using assms unfolding ceph_laws_def volume_laws_def by (intro acts_wrap) blast
  have rest: "steps ?K ?rest"
  proof (rule handle_bracket [OF assms])
    fix h :: imgh assume "snd h = ?dst"
    then show "steps ?K (flatten_or_done c h)" using flatten_or_done_framed [OF assms, of _ h] by simp
  qed blast
  have clone: "steps ?C (iobind (iowrap ''clone of source volume failed: '' [] (rb_Clone c x n s x d)) (\<lambda>_. ?rest))"
    unfolding steps_def
  proof (intro allI impI)
    fix w r w'
    assume run: "iobind (iowrap ''clone of source volume failed: '' [] (rb_Clone c x n s x d)) (\<lambda>_. ?rest) w = (r, w')"
    from run show "?C w w'"
    proof (cases rule: iobind_cases)
      case (Ok u w1)
      then have cl: "cloned (snd x, n) s ?dst (V w) (V w1)" using law unfolding acts_def by fastforce
      have "?K w w1" using cloned_kept(2) [OF cl] by (simp add: through_def)
      moreover have "?K w1 w'" by (rule stepsD [OF rest Ok(2)])
      ultimately have "?K w w'" using preK unfolding preorder_def by blast
      then show ?thesis
        using cloned_kept(1) [OF cl] by (simp add: through_def framed_def copies_to_def)
    next
      case (Fail e)
      then have "V w' = V w" using law unfolding acts_def by fastforce
      then show ?thesis by (simp add: through_def framed_refl)
    next
      case (Panic p)
      then have "V w' = V w" using law unfolding acts_def by fastforce
      then show ?thesis by (simp add: through_def framed_refl)
    qed
  qed
  show ?thesis
    unfolding clone_volume_def
    by (rule steps_deferring [OF preC steps_bind [OF preC steps_wrap [OF preC]]])
      (rule query_calls [OF assms preorder_copies_to] clone)+
qed

lemma copy_image_framed:
  assumes "ceph_laws V c"
  shows "steps (through V (framed (unlocks c) (copies_to (snd x, d)))) (copy_image c n d x)"
proof -
  have pre: "preorder (copies_to (snd x, d))" and tol: "tolerant (copies_to (snd x, d))" by simp_all
  show ?thesis
    unfolding copy_image_def
    by (intro steps_bind source_snapshot_framed handle_bracket imageHasFeature_framed steps_if steps_throw
        while_protected_framed clone_volume_framed assms pre tol preorder_through preorder_framed)
qed

text \<open>A connection that cannot be set up stays with the library.\<close>

definition connect_failed :: "'a res \<Rightarrow> bool" where
  "connect_failed r \<longleftrightarrow> (\<exists>e. r = Fail (wrapf ''ceph copy connection failure: '' e [])) \<or> (\<exists>p. r = Panic p)"

lemma cephConnect_effect:
  assumes "ceph_laws V c" "cephConnect c con w = (r, w')"
  shows "case r of Ok h \<Rightarrow> h \<notin> cl_conns (V w) \<and> V w' = (V w)\<lparr>cl_conns := insert h (cl_conns (V w))\<rparr>
    | _ \<Rightarrow> \<exists>s. V w' = (V w)\<lparr>cl_conns := cl_conns (V w) \<union> s\<rparr>"
proof -
  have new: "acts V (\<lambda>h a b. h \<notin> cl_conns a \<and> b = a\<lparr>cl_conns := insert h (cl_conns a)\<rparr>) (cn_New c (cc_Username con))"
    and set: "\<And>h k v. steps (same V) (cn_SetConfigOption c h k v)" and cn: "\<And>h. steps (same V) (cn_Connect c h)"
    using assms(1) unfolding ceph_laws_def connection_laws_def by blast+
  have none: "(V w) = (V w)\<lparr>cl_conns := cl_conns (V w) \<union> {}\<rparr>" by simp
  from assms(2) show ?thesis unfolding cephConnect_def
  proof (cases rule: iobind_cases)
    case (Ok h w1)
    have h: "h \<notin> cl_conns (V w)" "V w1 = (V w)\<lparr>cl_conns := insert h (cl_conns (V w))\<rparr>"
      using new Ok(1) unfolding acts_def by fastforce+
    let ?m = "iobind (cn_SetConfigOption c h ''rados_mon_op_timeout'' radosMonOpTimeout) (\<lambda>_.
      iobind (cn_SetConfigOption c h ''rados_osd_op_timeout'' radosOsdOpTimeout) (\<lambda>_.
      iobind (cn_SetConfigOption c h ''key'' (cc_Key con)) (\<lambda>_.
      iobind (cn_SetConfigOption c h ''mon_host'' (join '','' (cc_Hosts con))) (\<lambda>_.
      iobind (cn_Connect c h) (\<lambda>_. ret h)))))"
    have "steps (same V) ?m" by (intro steps_intros set cn preorder_same)
    then have "same V w1 w'" using Ok(2) unfolding steps_def by blast
    then have V: "V w' = V w1" by (simp only: same_def)
    have y: "y = h" if "r = Ok y" for y using Ok(2) that by (auto simp: iobind_Ok ret_def)
    have s: "\<exists>s. V w' = (V w)\<lparr>cl_conns := cl_conns (V w) \<union> s\<rparr>"
      by (rule exI [of _ "{h}"]) (simp only: V h(2) Un_insert_right Un_empty_right)
    show ?thesis
    proof (cases r)
      case (Ok k)
      show ?thesis unfolding Ok using h y [OF Ok] V by (simp only: res.case simp_thms)
    qed (simp_all only: res.case s)
  next
    case (Fail e)
    then have "V w' = V w" using new unfolding acts_def by fastforce
    with none have "\<exists>s. V w' = (V w)\<lparr>cl_conns := cl_conns (V w) \<union> s\<rparr>" by (intro exI [of _ "{}"]) (simp only:)
    then show ?thesis unfolding Fail(2) by (simp only: res.case)
  next
    case (Panic p)
    then have "V w' = V w" using new unfolding acts_def by fastforce
    with none have "\<exists>s. V w' = (V w)\<lparr>cl_conns := cl_conns (V w) \<union> s\<rparr>" by (intro exI [of _ "{}"]) (simp only:)
    then show ?thesis unfolding Panic(2) by (simp only: res.case)
  qed
qed

section \<open>What a successful copy makes\<close>

abbreviation images_of :: "('w \<Rightarrow> cluster) \<Rightarrow> 'w \<Rightarrow> images" where
  "images_of V w \<equiv> cl_images (V w)"

lemma closing_images:
  assumes "ceph_laws V c"
  shows "images_of V (snd (rb_Close c h w)) = images_of V w" "images_of V (snd (cx_Destroy c x w)) = images_of V w"
    "images_of V (snd (cn_Shutdown c k w)) = images_of V w"
proof -
  have "steps (\<lambda>w w'. V w' = (V w)\<lparr>cl_handles := cl_handles (V w) - {h}\<rparr>) (rb_Close c h)"
    "steps (\<lambda>w w'. V w' = (V w)\<lparr>cl_ctxs := cl_ctxs (V w) - {x}\<rparr>) (cx_Destroy c x)"
    "steps (\<lambda>w w'. V w' = (V w)\<lparr>cl_conns := cl_conns (V w) - {k}\<rparr>) (cn_Shutdown c k)"
    using assms unfolding ceph_laws_def connection_laws_def by blast+
  from this [THEN stepsD, OF prod.collapse [symmetric]]
  show "images_of V (snd (rb_Close c h w)) = images_of V w" "images_of V (snd (cx_Destroy c x w)) = images_of V w"
    "images_of V (snd (cn_Shutdown c k w)) = images_of V w" by simp_all
qed

lemma acts_Ok: "acts V P m \<Longrightarrow> m w = (Ok x, w') \<Longrightarrow> P x (V w) (V w')"
  unfolding acts_def by fastforce

lemma handle_Ok:
  assumes "ceph_laws V c" "bracket (iowrap m [] (rb_Open c ro x n)) (rb_Close c) body w = (Ok y, w')"
  obtains h w1 w2 where "snd h = (snd x, n)" "body h w1 = (Ok y, w2)"
    "images_of V w1 = images_of V w" "images_of V w' = images_of V w2"
proof -
  from assms(2) obtain h w1 w2 where run: "rb_Open c ro x n w = (Ok h, w1)" "body h w1 = (Ok y, w2)"
    and w': "w' = snd (rb_Close c h w2)" by (auto simp: bracket_Ok)
  have "acts V (\<lambda>h a b. snd h = (snd x, n) \<and> h \<notin> cl_handles a \<and> b = a\<lparr>cl_handles := insert h (cl_handles a)\<rparr>)
      (rb_Open c ro x n)"
    using assms(1) unfolding ceph_laws_def connection_laws_def by blast
  from acts_Ok [OF this run(1)] have "snd h = (snd x, n)" "images_of V w1 = images_of V w" by simp_all
  moreover have "images_of V w' = images_of V w2" unfolding w' by (rule closing_images [OF assms(1)])
  ultimately show thesis using that run(2) by blast
qed

lemma context_Ok:
  assumes "ceph_laws V c" "bracket (iowrap m [] (cn_OpenIOContext c k p)) (cx_Destroy c) body w = (Ok y, w')"
  obtains x w1 w2 where "snd x = p" "body x w1 = (Ok y, w2)"
    "images_of V w1 = images_of V w" "images_of V w' = images_of V w2"
proof -
  from assms(2) obtain x w1 w2 where run: "cn_OpenIOContext c k p w = (Ok x, w1)" "body x w1 = (Ok y, w2)"
    and w': "w' = snd (cx_Destroy c x w2)" by (auto simp: bracket_Ok)
  have "acts V (\<lambda>x a b. snd x = p \<and> x \<notin> cl_ctxs a \<and> b = a\<lparr>cl_ctxs := insert x (cl_ctxs a)\<rparr>) (cn_OpenIOContext c k p)"
    using assms(1) unfolding ceph_laws_def connection_laws_def by blast
  from acts_Ok [OF this run(1)] have "snd x = p" "images_of V w1 = images_of V w" by simp_all
  moreover have "images_of V w' = images_of V w2" unfolding w' by (rule closing_images [OF assms(1)])
  ultimately show thesis using that run(2) by blast
qed

lemma connection_Ok:
  assumes "ceph_laws V c" "bracket (iowrap m [] (cephConnect c con)) (cn_Shutdown c) body w = (Ok y, w')"
  obtains k w1 w2 where "body k w1 = (Ok y, w2)" "images_of V w1 = images_of V w" "images_of V w' = images_of V w2"
proof -
  from assms(2) obtain k w1 w2 where run: "cephConnect c con w = (Ok k, w1)" "body k w1 = (Ok y, w2)"
    and w': "w' = snd (cn_Shutdown c k w2)" by (auto simp: bracket_Ok)
  from cephConnect_effect [OF assms(1) run(1)] have "images_of V w1 = images_of V w" by simp
  moreover have "images_of V w' = images_of V w2" unfolding w' by (rule closing_images [OF assms(1)])
  ultimately show thesis using that run(2) by blast
qed

lemma locked_Ok:
  assumes "ceph_laws V c" "locked c m img body w = (Ok y, w')"
  obtains w1 w2 where "body w1 = (Ok y, w2)" "images_of V w1 = images_of V w" "images_of V w' = images_of V w2"
proof -
  from assms(2) obtain u w1 w2 where run: "writeLock c img w = (Ok u, w1)" "body w1 = (Ok y, w2)" and w': "w' = snd (u w2)"
    unfolding locked_def by (auto simp: bracket_Ok split: if_splits)
  from acts_Ok [OF writeLock_acts [OF assms(1)] run(1)]
  have u: "unlocker_of V (unlocks c) img u" and "images_of V w1 = images_of V w" by simp_all
  moreover have "images_of V w' = images_of V w2"
  proof -
    obtain r where "u w2 = (r, w')" using w' by (metis prod.collapse)
    then show ?thesis using u unfolding unlocker_of_def acts_def by (cases r) fastforce+
  qed
  ultimately show thesis using that run(2) by blast
qed

text \<open>A snapshot with the content its image has now.\<close>

definition current :: "imgname \<Rightarrow> string \<Rightarrow> images \<Rightarrow> bool" where
  "current n s m \<longleftrightarrow> (\<exists>im p. m n = Some im \<and> ri_snaps im s = Some (ri_data im, p))"

lemma kept_image: "images_kept X a b \<Longrightarrow> n \<notin> X \<Longrightarrow> a n = Some im \<Longrightarrow> \<exists>im'. b n = Some im' \<and> kept im im'"
  unfolding images_kept_def by (metis option_rel_Some1)

lemma current_kept: "current n s a \<Longrightarrow> images_kept {} a b \<Longrightarrow> current n s b"
  unfolding current_def by (metis kept_image kept_def empty_iff)

lemma current_snapshot_current:
  assumes "ceph_laws V c" "current_snapshot c h k ss w = (Ok s, w')"
  shows "current (snd h) s (images_of V w)"
  using assms(2)
proof (induction ss arbitrary: w)
  case (Cons t ss)
  then obtain d e w1 where it: "rb_DiffIterate c h t k w = (Ok (d, e), w1)"
    and rest: "(case e of Some e \<Rightarrow> if \<not> d then throw (wrapf (''failed to iterate snapshot diffs on '' @ quoted t @ '': '') e [])
           else current_snapshot c h k ss
       | None \<Rightarrow> if \<not> d then ret t else current_snapshot c h k ss) w1 = (Ok s, w')"
    by (auto simp: iobind_Ok)
  have "steps (same V) (rb_DiffIterate c h t k)"
    using assms(1) unfolding ceph_laws_def query_laws_def by blast
  then have V: "V w1 = V w" using it unfolding steps_def same_def by blast
  show ?case
  proof (cases d)
    case True
    with rest have "current_snapshot c h k ss w1 = (Ok s, w')" by (simp split: option.splits)
    from Cons.IH [OF this] show ?thesis by (simp add: V)
  next
    case False
    with rest have "e = None" "t = s" by (auto simp: throw_def ret_def split: option.splits)
    with it False have "rb_DiffIterate c h s k w = (Ok (False, None), w1)" by simp
    then show ?thesis using assms(1) unfolding ceph_laws_def query_laws_def current_def by blast
  qed
qed (simp add: throw_def)

lemma getImageSnapshot_current:
  assumes "ceph_laws V c" "getImageSnapshot c x n w = (Ok s, w')"
  shows "current (snd x, n) s (images_of V w')"
proof -
  have "steps (through V (framed True (=))) (getImageSnapshot c x n)"
    by (rule getImageSnapshot_framed [OF assms(1)]) (simp add: preorder_def)
  then have eq: "images_of V w' = images_of V w" using assms(2) unfolding steps_def through_def framed_def by metis
  from assms(2) show ?thesis unfolding getImageSnapshot_def
  proof (rule handle_Ok [OF assms(1)])
    fix h w1 w2
    assume h: "snd h = (snd x, n)" and im: "images_of V w1 = images_of V w"
      and "iobind (iowrap ''volume size unavailable: '' [] (rb_GetSize c h)) (\<lambda>imgSize.
        iobind (iowrap ''volume snapshot list failure: '' [] (rb_GetSnapshotNames c h)) (\<lambda>snaps.
        current_snapshot c h imgSize snaps)) w1 = (Ok s, w2)"
    then obtain k ss w3 w4 where run: "rb_GetSize c h w1 = (Ok k, w3)" "rb_GetSnapshotNames c h w3 = (Ok ss, w4)"
      "current_snapshot c h k ss w4 = (Ok s, w2)" by (auto simp: iobind_Ok)
    have "steps (same V) (rb_GetSize c h)" "steps (same V) (rb_GetSnapshotNames c h)"
      using assms(1) unfolding ceph_laws_def query_laws_def by blast+
    with run(1,2) have "V w4 = V w1" unfolding steps_def same_def by metis
    then show ?thesis using current_snapshot_current [OF assms(1) run(3)] h im eq by simp
  qed
qed

lemma generateSnapshot_current:
  assumes "ceph_laws V c" "generateSnapshot c x n w = (Ok s, w')"
  shows "current (snd x, n) s (images_of V w')"
  using assms(2) unfolding generateSnapshot_def
proof (rule handle_Ok [OF assms(1)])
  fix h w1 w2
  assume h: "snd h = (snd x, n)" and w': "images_of V w' = images_of V w2"
    and run: "iobind (imageHasFeature c h FeatureLayering) (\<lambda>ok.
      if \<not> ok then throw (Errorf ''volume missing required 'layering' feature for snapshot'' [])
      else locked c ''volume lock failure: '' h
       (iobind (uuid_Short c) (\<lambda>u.
        let snapshotName = ''nomad-snap-'' @ u in
        iobind (iowrap ''volume snapshot create failure: '' [] (rb_CreateSnapshot c h snapshotName)) (\<lambda>_.
        iobind (iowrap ''volume snapshot protection failure: '' [] (rb_Protect c h snapshotName)) (\<lambda>_.
        ret snapshotName))))) w1 = (Ok s, w2)"
  then obtain w3 where lock: "locked c ''volume lock failure: '' h
       (iobind (uuid_Short c) (\<lambda>u.
        let snapshotName = ''nomad-snap-'' @ u in
        iobind (iowrap ''volume snapshot create failure: '' [] (rb_CreateSnapshot c h snapshotName)) (\<lambda>_.
        iobind (iowrap ''volume snapshot protection failure: '' [] (rb_Protect c h snapshotName)) (\<lambda>_.
        ret snapshotName)))) w3 = (Ok s, w2)"
    by (auto simp: iobind_Ok throw_def split: if_splits)
  from locked_Ok [OF assms(1) lock] obtain w4 w5 where w2: "images_of V w2 = images_of V w5"
    and body: "iobind (uuid_Short c) (\<lambda>u.
        let snapshotName = ''nomad-snap-'' @ u in
        iobind (iowrap ''volume snapshot create failure: '' [] (rb_CreateSnapshot c h snapshotName)) (\<lambda>_.
        iobind (iowrap ''volume snapshot protection failure: '' [] (rb_Protect c h snapshotName)) (\<lambda>_.
        ret snapshotName))) w4 = (Ok s, w5)" by blast
  then obtain w6 w7 where calls: "rb_CreateSnapshot c h s w6 = (Ok (), w7)" "rb_Protect c h s w7 = (Ok (), w5)"
    by (auto simp: iobind_Ok Let_def ret_def)
  have "acts V (\<lambda>_. puts_image (snd h) (created_snap s)) (rb_CreateSnapshot c h s)"
    using assms(1) unfolding ceph_laws_def volume_laws_def by blast
  from acts_Ok [OF this calls(1)] have "current (snd h) s (images_of V w7)"
    by (auto simp: puts_image_def created_snap_def puts_snap_def current_def)
  moreover have "images_kept {} (images_of V w7) (images_of V w5)"
    using stepsD [OF snapshot_calls(2) [OF assms(1) tolerant_images_kept] calls(2)] by (simp add: through_def framed_def)
  ultimately show ?thesis using current_kept h w2 w' by metis
qed

lemma source_snapshot_current:
  assumes "ceph_laws V c" "source_snapshot c x n w = (Ok s, w')"
  shows "current (snd x, n) s (images_of V w')"
  using assms(2) unfolding source_snapshot_def
proof (cases rule: iotry_cases)
  case (Ok t w1)
  then show ?thesis using getImageSnapshot_current [OF assms(1)] by (simp add: ret_def)
next
  case (Fail e w1)
  then show ?thesis using generateSnapshot_current [OF assms(1)] by (simp add: throw_def split: if_splits)
qed simp

lemma flatten_or_done_Ok:
  assumes "ceph_laws V c" "flatten_or_done c h w = (Ok (), w')" "images_of V w (snd h) = Some im"
  shows "\<exists>im'. images_of V w' (snd h) = Some im' \<and> ri_data im' = ri_data im \<and> ri_parent im' = None"
proof -
  obtain w1 where i: "cp_Interrupts c h w = (None, w1)" and f: "rb_Flatten c h w1 = (Ok (), w')"
    using assms(2) by (auto simp: flatten_or_done_def throw_def split: prod.splits option.splits)
  have laws: "V w1 = V w \<or> puts_image (snd h) reparented (V w) (V w1)"
    "puts_image (snd h) reparented (V w1) (V w')" "\<exists>im. images_of V w' (snd h) = Some im \<and> ri_parent im = None"
    using assms(1) i f unfolding ceph_laws_def volume_laws_def by blast+
  have put: "\<exists>im'. cl_images b (snd h) = Some im' \<and> ri_data im' = ri_data im"
    if "puts_image (snd h) reparented a b" "cl_images a (snd h) = Some im" for a b im
    using that by (auto simp: puts_image_def reparented_def)
  obtain im1 where "images_of V w1 (snd h) = Some im1" "ri_data im1 = ri_data im"
    using laws(1) put assms(3) by metis
  with laws(2,3) put show ?thesis by fastforce
qed

text \<open>The clone has the content of the snapshot, and flattening leaves it without a parent.\<close>

lemma clone_volume_Ok:
  assumes "ceph_laws V c" "clone_volume c x n s d w = (Ok (), w')"
  shows "images_of V w (snd x, d) = None"
    "\<exists>im q im'. images_of V w (snd x, n) = Some im \<and> ri_snaps im s = Some (q, True) \<and>
       images_of V w' (snd x, d) = Some im' \<and> ri_data im' = q \<and> ri_parent im' = None"
proof -
  let ?rest = "bracket (iowrap ''volume open failure: '' [] (rb_Open c False x d)) (rb_Close c) (flatten_or_done c)"
  from assms(2) obtain w1 w2 w3 where opt: "rb_SetCloneFormat c 2 w = (Ok (), w1)" and cl: "rb_Clone c x n s x d w1 = (Ok (), w2)"
    and rest: "?rest w2 = (Ok (), w3)" and w': "w' = snd (rb_DestroyOptions c w3)"
    unfolding clone_volume_def by (auto simp: deferring_Ok iobind_Ok)
  have same: "steps (same V) (rb_SetCloneFormat c 2)" "steps (same V) (rb_DestroyOptions c)"
    using assms(1) unfolding ceph_laws_def query_laws_def by blast+
  have V: "V w1 = V w" "V w' = V w3"
    using same opt w' unfolding steps_def same_def by (metis, metis prod.collapse)
  have "acts V (\<lambda>_. cloned (snd x, n) s (snd x, d)) (rb_Clone c x n s x d)"
    using assms(1) unfolding ceph_laws_def volume_laws_def by blast
  from acts_Ok [OF this cl] have cloned: "cloned (snd x, n) s (snd x, d) (V w) (V w2)" by (simp add: V)
  then show "images_of V w (snd x, d) = None" by (auto simp: cloned_def)
  obtain im q where src: "images_of V w (snd x, n) = Some im" "ri_snaps im s = Some (q, True)"
    and new: "images_of V w2 (snd x, d) = Some \<lparr>ri_data = q, ri_parent = Some ((snd x, n), s), ri_snaps = Map.empty\<rparr>"
    using cloned by (auto simp: cloned_def)
  obtain h w4 w5 where h: "snd h = (snd x, d)" "flatten_or_done c h w4 = (Ok (), w5)"
    "images_of V w4 = images_of V w2" "images_of V w3 = images_of V w5"
    by (rule handle_Ok [OF assms(1) rest]) blast
  have "images_of V w4 (snd h) = Some \<lparr>ri_data = q, ri_parent = Some ((snd x, n), s), ri_snaps = Map.empty\<rparr>"
    using new h by simp
  from flatten_or_done_Ok [OF assms(1) h(2) this] src h V
  show "\<exists>im q im'. images_of V w (snd x, n) = Some im \<and> ri_snaps im s = Some (q, True) \<and>
       images_of V w' (snd x, d) = Some im' \<and> ri_data im' = q \<and> ri_parent im' = None" by auto
qed

lemma kept_by: "steps (through V (framed ul I)) m \<Longrightarrow> m w = (r, w') \<Longrightarrow> I (images_of V w) (images_of V w')"
  by (simp add: steps_def through_def framed_def)

lemma while_protected_Ok:
  assumes "ceph_laws V c" "while_protected c x h n s body w = (Ok (), w')"
  obtains w1 w2 where "body w1 = (Ok (), w2)" "images_kept {} (images_of V w) (images_of V w1)"
    "images_kept {} (images_of V w2) (images_of V w')"
proof -
  let ?I = "images_kept {}"
  from assms(2) obtain ok w1 where p: "rb_IsProtected c h s w = (Ok ok, w1)"
    and rest: "(if ok then body else bracket (protectSnapshot c x n s) (\<lambda>u. u) (\<lambda>_. body)) w1 = (Ok (), w')"
    unfolding while_protected_def by (auto simp: iobind_Ok)
  have 1: "?I (images_of V w) (images_of V w1)"
    by (rule kept_by [OF query_calls(4) [OF assms(1), of ?I] p]) simp
  show thesis
  proof (cases ok)
    case True
    show thesis by (rule that [of w1 w', OF _ 1]) (use rest True in simp_all)
  next
    case False
    with rest obtain u w2 w3 where run: "protectSnapshot c x n s w1 = (Ok u, w2)" "body w2 = (Ok (), w3)"
      and w': "w' = snd (u w3)" by (auto simp: bracket_Ok)
    have "?I (images_of V w1) (images_of V w2)"
      by (rule kept_by [OF protectSnapshot_framed [OF assms(1) tolerant_images_kept] run(1)])
    with 1 have 2: "?I (images_of V w) (images_of V w2)" by (rule images_kept_trans) simp_all
    obtain r where "unprotectSnapshot c x n s w3 = (r, w')"
      using w' protectSnapshot_Ok [OF run(1)] by (metis prod.collapse)
    from kept_by [OF unprotectSnapshot_framed [OF assms(1) tolerant_images_kept] this]
    show thesis by (rule that [OF run(2) 2])
  qed
qed

definition copied :: "imgname \<Rightarrow> imgname \<Rightarrow> images \<Rightarrow> images \<Rightarrow> bool" where
  "copied src dst a b \<longleftrightarrow> a dst = None \<and> (\<exists>im im'. a src = Some im \<and> b dst = Some im' \<and>
     ri_data im' = ri_data im \<and> ri_parent im' = None)"

lemma copied_kept:
  assumes "copied src dst b c" "images_kept {} a b" "images_kept {} c d"
  shows "copied src dst a d"
proof -
  obtain im im' where b: "b src = Some im" and c: "c dst = Some im'"
    and eq: "ri_data im' = ri_data im" "ri_parent im' = None" and none: "b dst = None"
    using assms(1) unfolding copied_def by blast
  obtain im'' where d: "d dst = Some im''" "kept im' im''" using kept_image [OF assms(3) _ c] by blast
  have "a src \<noteq> None" using images_kept_None [OF assms(2), of src] b by simp
  then obtain im0 where a: "a src = Some im0" by blast
  then have "kept im0 im" using kept_image [OF assms(2) _ a] b by auto
  moreover have "a dst = None" using images_kept_None [OF assms(2), of dst] none by simp
  ultimately show ?thesis using a d eq unfolding copied_def kept_def by auto
qed

lemma copy_image_Ok:
  assumes "ceph_laws V c" "copy_image c n d x w = (Ok (), w')"
  shows "copied (snd x, n) (snd x, d) (images_of V w) (images_of V w')"
proof -
  let ?I = "images_kept {}"
  from assms(2) obtain s w1 where snap: "source_snapshot c x n w = (Ok s, w1)"
    and rest: "bracket (iowrap ''volume read-only open failure: '' [] (rb_Open c True x n)) (rb_Close c) (\<lambda>img.
     iobind (imageHasFeature c img FeatureLayering) (\<lambda>ok.
       if \<not> ok then throw (Errorf ''source volume missing required 'layering' feature'' [])
       else while_protected c x img n s (clone_volume c x n s d))) w1 = (Ok (), w')"
    unfolding copy_image_def by (auto simp: iobind_Ok)
  have cur: "current (snd x, n) s (images_of V w1)" by (rule source_snapshot_current [OF assms(1) snap])
  have k1: "?I (images_of V w) (images_of V w1)"
    by (rule kept_by [OF source_snapshot_framed [OF assms(1) tolerant_images_kept] snap])
  obtain h w2 w3 where eq: "images_of V w2 = images_of V w1" "images_of V w' = images_of V w3"
    and body: "iobind (imageHasFeature c h FeatureLayering) (\<lambda>ok.
       if \<not> ok then throw (Errorf ''source volume missing required 'layering' feature'' [])
       else while_protected c x h n s (clone_volume c x n s d)) w2 = (Ok (), w3)"
    by (rule handle_Ok [OF assms(1) rest]) blast
  from body obtain ok w4 where f: "imageHasFeature c h FeatureLayering w2 = (Ok ok, w4)"
    and wp: "while_protected c x h n s (clone_volume c x n s d) w4 = (Ok (), w3)"
    by (auto simp: iobind_Ok throw_def split: if_splits)
  have k2: "?I (images_of V w1) (images_of V w4)"
    using kept_by [OF imageHasFeature_framed [OF assms(1), of ?I] f] eq by simp
  obtain w5 w6 where cl: "clone_volume c x n s d w5 = (Ok (), w6)"
    and k3: "?I (images_of V w4) (images_of V w5)" "?I (images_of V w6) (images_of V w3)"
    by (rule while_protected_Ok [OF assms(1) wp])
  have k: "?I (images_of V w) (images_of V w5)" "?I (images_of V w1) (images_of V w5)"
    using images_kept_trans [OF images_kept_trans [OF k1 k2, of "{}"] k3(1), of "{}"]
      images_kept_trans [OF k2 k3(1), of "{}"] by simp_all
  have "current (snd x, n) s (images_of V w5)" by (rule current_kept [OF cur k(2)])
  then have "copied (snd x, n) (snd x, d) (images_of V w5) (images_of V w6)"
    using clone_volume_Ok [OF assms(1) cl] unfolding copied_def current_def by auto
  from copied_kept [OF this k(1) k3(2)] show ?thesis by (simp add: eq)
qed

lemma VolumeCopy_Ok:
  assumes "ceph_laws V c" "VolumeCopy c con p n d w = (Ok (), w')"
  shows "copied (p, n) (p, d) (images_of V w) (images_of V w')"
proof -
  obtain k w1 w2 where 1: "bracket (iowrap ''ioctx failure: '' [] (cn_OpenIOContext c k p)) (cx_Destroy c) (copy_image c n d) w1 = (Ok (), w2)"
    "images_of V w1 = images_of V w" "images_of V w' = images_of V w2"
    using assms(2) unfolding VolumeCopy_def by (rule connection_Ok [OF assms(1)])
  obtain x w3 w4 where 2: "snd x = p" "copy_image c n d x w3 = (Ok (), w4)"
    "images_of V w3 = images_of V w1" "images_of V w2 = images_of V w4"
    by (rule context_Ok [OF assms(1) 1(1)])
  from copy_image_Ok [OF assms(1) 2(2)] show ?thesis using 1 2 by simp
qed

text \<open>What a connected body frames, the whole operation frames, but for a connection that failed.\<close>

lemma connected_framed:
  assumes "ceph_laws V c" "preorder I" "\<And>k. steps (through V (framed ul I)) (body k)"
    and run: "bracket (iowrap ''ceph copy connection failure: '' [] (cephConnect c con)) (cn_Shutdown c) body w = (r, w')"
  shows "framed ul I (V w) ((V w')\<lparr>cl_conns := cl_conns (V w)\<rparr>)"
    "\<not> connect_failed r \<Longrightarrow> cl_conns (V w') = cl_conns (V w)"
proof -
  have "framed ul I (V w) ((V w')\<lparr>cl_conns := cl_conns (V w)\<rparr>) \<and>
      (\<not> connect_failed r \<longrightarrow> cl_conns (V w') = cl_conns (V w))"
    using run unfolding bracket_def
  proof (cases rule: iobind_cases)
    case (Ok k w1)
    then have con: "cephConnect c con w = (Ok k, w1)" by simp
    obtain r2 w2 where b: "body k w1 = (r2, w2)" by fastforce
    with Ok(2) have r: "r = r2" "w' = snd (cn_Shutdown c k w2)" by (simp_all add: deferring_def)
    have "steps (\<lambda>w w'. V w' = (V w)\<lparr>cl_conns := cl_conns (V w) - {k}\<rparr>) (cn_Shutdown c k)"
      using assms(1) unfolding ceph_laws_def connection_laws_def by blast
    then have V': "V w' = (V w2)\<lparr>cl_conns := cl_conns (V w2) - {k}\<rparr>"
      using r(2) unfolding steps_def by (metis prod.collapse)
    have "framed ul I (V w1) (V w2)" using stepsD [OF assms(3) b] by (simp add: through_def)
    with cephConnect_effect [OF assms(1) con] show ?thesis by (simp add: V' framed_def)
  next
    case (Fail e)
    from Fail(1) obtain e' where con: "cephConnect c con w = (Fail e', w')"
      and "e = wrapf ''ceph copy connection failure: '' e' []" by (cases rule: iowrap_cases) auto
    then have "connect_failed r" using Fail(2) unfolding connect_failed_def by blast
    with cephConnect_effect [OF assms(1) con] assms(2) show ?thesis by (auto simp: framed_def preorder_def)
  next
    case (Panic p)
    from Panic(1) have con: "cephConnect c con w = (Panic p, w')" by (cases rule: iowrap_cases) auto
    have "connect_failed r" using Panic(2) by (simp add: connect_failed_def)
    with cephConnect_effect [OF assms(1) con] assms(2) show ?thesis by (auto simp: framed_def preorder_def)
  qed
  then show "framed ul I (V w) ((V w')\<lparr>cl_conns := cl_conns (V w)\<rparr>)"
    "\<not> connect_failed r \<Longrightarrow> cl_conns (V w') = cl_conns (V w)" by blast+
qed

lemma VolumeCopy_framed:
  assumes "ceph_laws V c" "VolumeCopy c con pool srcVol dstVol w = (r, w')"
  shows "framed (unlocks c) (copies_to (pool, dstVol)) (V w) ((V w')\<lparr>cl_conns := cl_conns (V w)\<rparr>)"
    "\<not> connect_failed r \<Longrightarrow> cl_conns (V w') = cl_conns (V w)"
proof -
  let ?I = "copies_to (pool, dstVol)"
  have "steps (through V (framed (unlocks c) ?I))
      (bracket (iowrap ''ioctx failure: '' [] (cn_OpenIOContext c k pool)) (cx_Destroy c) (copy_image c srcVol dstVol))" for k
  proof (rule context_bracket [OF assms(1)])
    fix x :: ioctx assume "snd x = pool"
    then show "steps (through V (framed (unlocks c) ?I)) (copy_image c srcVol dstVol x)"
      using copy_image_framed [OF assms(1), of x] by simp
  qed simp
  note connected_framed [OF assms(1) preorder_copies_to this assms(2) [unfolded VolumeCopy_def]]
  then show "framed (unlocks c) ?I (V w) ((V w')\<lparr>cl_conns := cl_conns (V w)\<rparr>)"
    "\<not> connect_failed r \<Longrightarrow> cl_conns (V w') = cl_conns (V w)" by blast+
qed

section \<open>Properties\<close>

text \<open>
  C13. However a copy ends, contexts and images that were opened are closed, no lock is left behind
  unless unlocking fails, the connection is shut down unless it could not be set up, every image keeps
  its content, its parent and the content of its snapshots, and the destination appears at most where
  no image was. A copy that succeeds had a free destination, which is now a volume of its own, without a
  parent, with the content of the source, whichever snapshot was taken for it.
\<close>

theorem VolumeCopy_result:
  assumes "ceph_laws V c" and "VolumeCopy c con pool srcVol dstVol w = (r, w')"
  shows "cl_ctxs (V w') = cl_ctxs (V w) \<and> cl_handles (V w') = cl_handles (V w)
    \<and> (unlocks c \<longrightarrow> cl_locks (V w') \<subseteq> cl_locks (V w))
    \<and> (\<not> connect_failed r \<longrightarrow> cl_conns (V w') = cl_conns (V w))
    \<and> copies_to (pool, dstVol) (cl_images (V w)) (cl_images (V w'))
    \<and> (r = Ok () \<longrightarrow> copied (pool, srcVol) (pool, dstVol) (cl_images (V w)) (cl_images (V w')))"
  using VolumeCopy_framed [OF assms] VolumeCopy_Ok [OF assms(1)] assms(2) by (auto simp: framed_def)

text \<open>A cluster in memory, with the number of the next handle.\<close>

type_synonym memory = "nat \<times> cluster"

definition attempt :: "bool \<Rightarrow> 'a \<Rightarrow> (cluster \<Rightarrow> cluster) \<Rightarrow> (memory, 'a) io" where
  "attempt ok x f = (\<lambda>(n, a). if ok then (Ok x, (Suc n, f a)) else (Fail (ErrNew ''refused''), (n, a)))"

definition with_image :: "imgname \<Rightarrow> (rbdimage \<Rightarrow> bool) \<Rightarrow> (rbdimage \<Rightarrow> rbdimage) \<Rightarrow> (memory, unit) io" where
  "with_image n ok f = (\<lambda>(k, a). case cl_images a n of
     None \<Rightarrow> attempt False () id (k, a)
   | Some im \<Rightarrow> attempt (ok im) () (\<lambda>a. a\<lparr>cl_images := (cl_images a)(n \<mapsto> f im)\<rparr>) (k, a))"

definition set_protected :: "string \<Rightarrow> bool \<Rightarrow> rbdimage \<Rightarrow> rbdimage" where
  "set_protected s p im = im\<lparr>ri_snaps := (ri_snaps im)(s := map_option (\<lambda>(d, _). (d, p)) (ri_snaps im s))\<rparr>"

definition same_content :: "imgname \<Rightarrow> string \<Rightarrow> cluster \<Rightarrow> bool" where
  "same_content n s a = (case cl_images a n of None \<Rightarrow> False
     | Some im \<Rightarrow> (case ri_snaps im s of None \<Rightarrow> False | Some (d, _) \<Rightarrow> d = ri_data im))"

definition clone_in :: "imgname \<Rightarrow> string \<Rightarrow> imgname \<Rightarrow> (memory, unit) io" where
  "clone_in n s m = (\<lambda>(k, a). case cl_images a n of
     None \<Rightarrow> attempt False () id (k, a)
   | Some im \<Rightarrow> (case ri_snaps im s of
       Some (d, True) \<Rightarrow> attempt (cl_images a m = None) ()
         (\<lambda>a. a\<lparr>cl_images := (cl_images a)(m \<mapsto> \<lparr>ri_data = d, ri_parent = Some (n, s), ri_snaps = Map.empty\<rparr>)\<rparr>) (k, a)
     | _ \<Rightarrow> attempt False () id (k, a)))"

definition mem_ceph :: "memory ceph" where
  "mem_ceph = \<lparr>
     cn_New = (\<lambda>u (n, a). attempt (n \<notin> cl_conns a) n (\<lambda>a. a\<lparr>cl_conns := insert n (cl_conns a)\<rparr>) (n, a)),
     cn_SetConfigOption = (\<lambda>h k v. ret ()), cn_Connect = (\<lambda>h. ret ()),
     cn_Shutdown = (\<lambda>h. attempt True () (\<lambda>a. a\<lparr>cl_conns := cl_conns a - {h}\<rparr>)),
     cn_OpenIOContext = (\<lambda>h p (n, a). attempt ((n, p) \<notin> cl_ctxs a) (n, p) (\<lambda>a. a\<lparr>cl_ctxs := insert (n, p) (cl_ctxs a)\<rparr>) (n, a)),
     cx_Destroy = (\<lambda>x. attempt True () (\<lambda>a. a\<lparr>cl_ctxs := cl_ctxs a - {x}\<rparr>)),
     rb_Open = (\<lambda>ro x m (n, a). attempt ((n, snd x, m) \<notin> cl_handles a) (n, snd x, m)
       (\<lambda>a. a\<lparr>cl_handles := insert (n, snd x, m) (cl_handles a)\<rparr>) (n, a)),
     rb_Close = (\<lambda>h. attempt True () (\<lambda>a. a\<lparr>cl_handles := cl_handles a - {h}\<rparr>)),
     rb_GetFeatures = (\<lambda>h. ret 5), rb_GetSize = (\<lambda>h. ret 4), rb_GetSnapshotNames = (\<lambda>h. ret []),
     rb_DiffIterate = (\<lambda>h s n (k, a). (Ok (\<not> same_content (snd h) s a, None), (k, a))),
     rb_CreateSnapshot = (\<lambda>h s. with_image (snd h) (\<lambda>im. ri_snaps im s = None)
       (\<lambda>im. im\<lparr>ri_snaps := (ri_snaps im)(s \<mapsto> (ri_data im, False))\<rparr>)),
     rb_IsProtected = (\<lambda>h s (k, a). (Ok True, (k, a))),
     rb_Protect = (\<lambda>h s. with_image (snd h) (\<lambda>im. ri_snaps im s \<noteq> None) (set_protected s True)),
     rb_Unprotect = (\<lambda>h s. with_image (snd h) (\<lambda>im. ri_snaps im s \<noteq> None) (set_protected s False)),
     rb_LockAcquire = (\<lambda>h. attempt True () (\<lambda>a. a\<lparr>cl_locks := insert h (cl_locks a)\<rparr>)),
     rb_LockRelease = (\<lambda>h. attempt True () (\<lambda>a. a\<lparr>cl_locks := cl_locks a - {h}\<rparr>)),
     rb_LockExclusive = (\<lambda>h k. attempt True () (\<lambda>a. a\<lparr>cl_locks := insert h (cl_locks a)\<rparr>)),
     rb_Unlock = (\<lambda>h k. attempt True () (\<lambda>a. a\<lparr>cl_locks := cl_locks a - {h}\<rparr>)),
     rb_SetCloneFormat = (\<lambda>n. ret ()), rb_DestroyOptions = ret (),
     rb_Clone = (\<lambda>x n s y m. clone_in (snd x, n) s (snd y, m)),
     rb_Flatten = (\<lambda>h. with_image (snd h) (\<lambda>im. True) (\<lambda>im. im\<lparr>ri_parent := None\<rparr>)),
     rb_writer = (\<lambda>h. \<lparr>im_ctx = (\<lambda>w. None), im_Write = (\<lambda>b. throw (ErrNew ''read only'')),
       im_WriteAt = (\<lambda>b off. throw (ErrNew ''read only''))\<rparr>),
     uuid_Short = ret ''1'', cp_Interrupts = (\<lambda>h w. (None, w)),
     fl_Open = (\<lambda>p. throw (ErrNew ''no such file or directory'')), fl_Size = (\<lambda>f. ret 0), fl_Close = (\<lambda>f. ret ())\<rparr>"

lemma attempt_acts: "acts snd (\<lambda>_ a b. b = f a) (attempt ok x f)"
  by (auto simp: acts_def attempt_def split: res.splits if_splits)

lemma attempt_steps: "steps (\<lambda>w w'. snd w' = f (snd w)) (attempt True x f)"
  by (auto simp: steps_def attempt_def)

lemma with_image_acts:
  assumes "\<And>im. ok im \<Longrightarrow> P im (f im)"
  shows "acts snd (\<lambda>_. puts_image n P) (with_image n ok f)"
  using assms unfolding acts_def with_image_def attempt_def puts_image_def
  by (auto split: res.splits option.splits if_splits)

lemma mem_ceph_laws: "ceph_laws snd mem_ceph" "unlocks mem_ceph"
proof -
  have "connection_laws snd mem_ceph"
    unfolding connection_laws_def
    by (intro conjI allI)
      (auto simp: mem_ceph_def attempt_def acts_def steps_def same_def ret_def split: res.splits if_splits)
  moreover have "query_laws snd mem_ceph"
    by (auto simp: query_laws_def mem_ceph_def steps_def same_def ret_def same_content_def split: option.splits)
  moreover have "lock_laws snd mem_ceph"
    by (simp add: lock_laws_def mem_ceph_def attempt_acts)
  moreover have "volume_laws snd mem_ceph"
    unfolding volume_laws_def
  proof (intro conjI allI impI)
    fix h s
    show "acts snd (\<lambda>_. puts_image (snd h) (created_snap s)) (rb_CreateSnapshot mem_ceph h s)"
      "acts snd (\<lambda>_. puts_image (snd h) (protected_snap s True)) (rb_Protect mem_ceph h s)"
      "acts snd (\<lambda>_. puts_image (snd h) (protected_snap s False)) (rb_Unprotect mem_ceph h s)"
      by (auto simp: mem_ceph_def created_snap_def puts_snap_def protected_snap_def set_protected_def
          intro!: with_image_acts)
  next
    fix x n s y d
    show "acts snd (\<lambda>_. cloned (snd x, n) s (snd y, d)) (rb_Clone mem_ceph x n s y d)"
      by (auto simp: mem_ceph_def acts_def clone_in_def attempt_def cloned_def split: res.splits option.splits bool.splits if_splits)
  qed (auto simp: mem_ceph_def with_image_def attempt_def puts_image_def reparented_def split: option.splits, blast+)
  ultimately show "ceph_laws snd mem_ceph" by (simp add: ceph_laws_def)
  show "unlocks mem_ceph" by (auto simp: unlocks_def mem_ceph_def attempt_def)
qed

definition one_volume :: memory where
  "one_volume = (0, \<lparr>cl_conns = {}, cl_ctxs = {}, cl_handles = {}, cl_locks = {},
     cl_images = [(''p'', ''src'') \<mapsto> \<lparr>ri_data = (\<lambda>_. 7), ri_parent = None, ri_snaps = Map.empty\<rparr>]\<rparr>)"

definition toy_connect :: CephConnect where
  "toy_connect = \<lparr>cc_Username = ''admin'', cc_Key = ''k'', cc_Hosts = [''mon'']\<rparr>"

lemmas ceph_run = VolumeCopy_def bracket_def cephConnect_def copy_image_def source_snapshot_def getImageSnapshot_def
  generateSnapshot_def locked_def writeLock_def imageHasFeature_def while_protected_def clone_volume_def
  flatten_or_done_def deferring_def iowrap_def FeatureLayering_def FeatureExclusiveLock_def

lemmas mem_run = attempt_def with_image_def clone_in_def set_protected_def

lemma toy_copy:
  "\<exists>w'. VolumeCopy mem_ceph toy_connect ''p'' ''src'' ''dst'' one_volume = (Ok (), w')"
  by (simp add: ceph_run io_simps one_volume_def toy_connect_def mem_ceph_def mem_run Let_def ex_bool_eq)

theorem VolumeCopy_result_witness:
  "\<exists>w'. VolumeCopy mem_ceph toy_connect ''p'' ''src'' ''dst'' one_volume = (Ok (), w')
    \<and> cl_conns (snd w') = {} \<and> cl_handles (snd w') = {} \<and> cl_locks (snd w') = {}
    \<and> copied (''p'', ''src'') (''p'', ''dst'') (cl_images (snd one_volume)) (cl_images (snd w'))"
proof -
  obtain w' where run: "VolumeCopy mem_ceph toy_connect ''p'' ''src'' ''dst'' one_volume = (Ok (), w')"
    using toy_copy by blast
  from VolumeCopy_result [OF mem_ceph_laws(1) run] mem_ceph_laws(2) run show ?thesis
    by (auto simp: one_volume_def connect_failed_def)
qed

end
