(* ===== verification/CephUpload.thy ===== *)
theory CephUpload
  imports CephVolumes
begin

text \<open>
  Uploading a file to an rbd volume: what is opened is closed, other volumes are kept, and an upload that
  succeeds has written the file to the volume, over any library that behaves as documented.
\<close>

section \<open>What the image writer and the files promise\<close>

text \<open>One image may change, and none appears or goes.\<close>

definition rewritten :: "imgname \<Rightarrow> images \<Rightarrow> images \<Rightarrow> bool" where
  "rewritten n a b \<longleftrightarrow> images_kept {n} a b \<and> dom b = dom a"

lemma preorder_rewritten [simp, intro]: "preorder (rewritten n)"
  using preorder_images_kept [of "{n}"] by (auto simp: preorder_def rewritten_def)

lemma rewritten_update: "m n = Some im \<Longrightarrow> rewritten n m (m(n \<mapsto> im'))"
  by (auto simp: rewritten_def images_kept_update)

definition data_of :: "('w \<Rightarrow> cluster) \<Rightarrow> imgname \<Rightarrow> 'w \<Rightarrow> int \<Rightarrow> byte" where
  "data_of V n w i = (case cl_images (V w) n of None \<Rightarrow> 0 | Some im \<Rightarrow> ri_data im i)"

text \<open>
  A handle of an image writes as an \<open>io.WriterAt\<close> and an \<open>io.Writer\<close> promise, with its own position
  (\<open>pos\<close>), and touches only its image. A file that is opened reads as its content.
\<close>

definition writer_laws :: "('w \<Rightarrow> cluster) \<Rightarrow> (imgh \<Rightarrow> 'w \<Rightarrow> int) \<Rightarrow> 'w ceph \<Rightarrow> bool" where
  "writer_laws V pos c \<longleftrightarrow>
     (\<forall>h. image_laws (data_of V (snd h)) (pos h) (rb_writer c h))
   \<and> (\<forall>h b. steps (through V (framed True (rewritten (snd h)))) (im_Write (rb_writer c h) b))
   \<and> (\<forall>h b off. steps (through V (framed True (rewritten (snd h)))) (im_WriteAt (rb_writer c h) b off))
   \<and> (\<forall>ro x n w h w'. rb_Open c ro x n w = (Ok h, w') \<longrightarrow> pos h w' = 0)
   \<and> (\<forall>h g. steps (same (pos h)) (rb_GetFeatures c g)) \<and> (\<forall>h. steps (same (pos h)) (uuid_Short c))
   \<and> (\<forall>h g. steps (same (pos h)) (rb_LockAcquire c g)) \<and> (\<forall>h g k. steps (same (pos h)) (rb_LockExclusive c g k))
   \<and> (\<forall>h p. steps (same (pos h)) (fl_Open c p)) \<and> (\<forall>h f. steps (same (pos h)) (fl_Size c f))"

definition file_laws :: "('w \<Rightarrow> cluster) \<Rightarrow> (string \<Rightarrow> sfile) \<Rightarrow> 'w ceph \<Rightarrow> bool" where
  "file_laws V content c \<longleftrightarrow>
     (\<forall>p. steps (same V) (fl_Open c p)) \<and> (\<forall>f. steps (same V) (fl_Size c f)) \<and> (\<forall>f. steps (same V) (fl_Close c f))
   \<and> (\<forall>p w f src w'. fl_Open c p w = (Ok (f, src), w') \<longrightarrow> file_ok (content p) \<and> reads_file src (content p))"

definition calm_calls :: "'w ceph \<Rightarrow> bool" where
  "calm_calls c \<longleftrightarrow> (\<forall>u. calm (cn_New c u)) \<and> (\<forall>h k v. calm (cn_SetConfigOption c h k v)) \<and> (\<forall>h. calm (cn_Connect c h))
   \<and> (\<forall>h p. calm (cn_OpenIOContext c h p)) \<and> (\<forall>ro x n. calm (rb_Open c ro x n)) \<and> (\<forall>h. calm (rb_GetFeatures c h))
   \<and> calm (uuid_Short c) \<and> (\<forall>h. calm (rb_LockAcquire c h)) \<and> (\<forall>h k. calm (rb_LockExclusive c h k))
   \<and> (\<forall>p. calm (fl_Open c p)) \<and> (\<forall>f. calm (fl_Size c f))"

lemma writer_lawsD:
  assumes "writer_laws V pos c"
  shows "image_laws (data_of V (snd h)) (pos h) (rb_writer c h)"
    "steps (through V (framed True (rewritten (snd h)))) (im_Write (rb_writer c h) b)"
    "steps (through V (framed True (rewritten (snd h)))) (im_WriteAt (rb_writer c h) b off)"
    "rb_Open c ro x n w = (Ok h, w') \<Longrightarrow> pos h w' = 0"
    "steps (same (pos h)) (rb_GetFeatures c g)" "steps (same (pos h)) (uuid_Short c)"
    "steps (same (pos h)) (rb_LockAcquire c g)" "steps (same (pos h)) (rb_LockExclusive c g k)"
    "steps (same (pos h)) (fl_Open c p)" "steps (same (pos h)) (fl_Size c f)"
  by (insert assms [unfolded writer_laws_def], elim conjE allE, (assumption | erule (1) mp))+

lemma file_lawsD:
  assumes "file_laws V content c"
  shows "steps (same V) (fl_Open c p)" "steps (same V) (fl_Size c f)" "steps (same V) (fl_Close c f)"
    "fl_Open c p w = (Ok fs, w') \<Longrightarrow> file_ok (content p) \<and> reads_file (snd fs) (content p)"
proof -
  show "steps (same V) (fl_Open c p)" "steps (same V) (fl_Size c f)" "steps (same V) (fl_Close c f)"
    using assms unfolding file_laws_def by iprover+
  have "\<forall>p w f src w'. fl_Open c p w = (Ok (f, src), w') \<longrightarrow> file_ok (content p) \<and> reads_file src (content p)"
    using assms unfolding file_laws_def by iprover
  then show "fl_Open c p w = (Ok fs, w') \<Longrightarrow> file_ok (content p) \<and> reads_file (snd fs) (content p)"
    by (metis prod.collapse)
qed

lemma calm_callsD:
  assumes "calm_calls c"
  shows "calm (cn_New c u)" "calm (cn_SetConfigOption c k s v)" "calm (cn_Connect c k)" "calm (cn_OpenIOContext c k p)"
    "calm (rb_Open c ro x n)" "calm (rb_GetFeatures c h)" "calm (uuid_Short c)" "calm (rb_LockAcquire c h)"
    "calm (rb_LockExclusive c h s)" "calm (fl_Open c p)" "calm (fl_Size c f)"
  using assms unfolding calm_calls_def by iprover+

lemma calm_if: "calm m \<Longrightarrow> calm m' \<Longrightarrow> calm (if b then m else m')"
  by simp

section \<open>The frame\<close>

lemma io_Copy_steps:
  assumes "preorder R" "\<And>b. steps R (wr b)"
  shows "steps R (io_Copy wr cs err n)"
proof (induction cs arbitrary: n)
  case (Cons ch cs)
  then show ?case by (auto intro!: steps_try steps_if steps_ret assms)
qed (simp add: steps_ret [OF assms(1)])

lemma ctx_Write_steps: "preorder R \<Longrightarrow> (\<And>b. steps R (wr b)) \<Longrightarrow> steps R (ctx_Write ctx wr b)"
  unfolding steps_def ctx_Write_def by (auto simp: preorder_def split: option.splits)

lemma image_loop_steps:
  assumes "preorder R" "\<And>b off. steps R (im_WriteAt s b off)"
  shows "image_loop fuel s f hole holes offset w = Some (r, w') \<Longrightarrow> R w w'"
proof (induction fuel arbitrary: hole holes offset w)
  case (Suc n)
  have refl: "R v v" and trans: "R u v \<Longrightarrow> R v x \<Longrightarrow> R u x" for u v x
    using assms(1) unfolding preorder_def by blast+
  have wr: "im_WriteAt s b off u = (q, v) \<Longrightarrow> R u v" for b off u q v
    using assms(2) unfolding steps_def by blast
  from Suc.prems show ?case
    by (auto simp: Let_def refl split: option.splits prod.splits if_splits res.splits dest: wr Suc.IH intro: trans)
qed simp

lemma image_ReadFrom_steps:
  assumes "preorder R" "\<And>b. steps R (im_Write s b)" "\<And>b off. steps R (im_WriteAt s b off)"
    and "image_ReadFrom fuel s src w = Some (r, w')"
  shows "R w w'"
proof (cases "MakeReader src")
  case None
  with assms(4) have "io_Copy (ctx_Write (im_ctx s) (im_Write s)) (src_chunks src) (src_error src) 0 w = (r, w')"
    by (simp add: image_ReadFrom_def)
  then show ?thesis by (rule stepsD [OF io_Copy_steps [OF assms(1) ctx_Write_steps [OF assms(1,2)]]])
next
  case (Some f)
  have "R v v" for v using assms(1) by (simp add: preorder_def)
  with assms(4) Some show ?thesis
    by (auto simp: image_ReadFrom_def split: option.splits res.splits prod.splits intro: image_loop_steps [OF assms(1,3)])
qed

lemma copy_to_image_framed:
  assumes "writer_laws V pos c"
  shows "steps (through V (framed ul (rewritten (snd h)))) (copy_to_image fuel c h src)"
proof -
  have weak: "steps (through V (framed ul (rewritten (snd h)))) m"
    if "steps (through V (framed True (rewritten (snd h)))) m" for m
    by (rule steps_weaken [OF that]) (simp add: through_def framed_def)
  have wr: "steps (through V (framed ul (rewritten (snd h)))) (im_Write (rb_writer c h) b)"
    "steps (through V (framed ul (rewritten (snd h)))) (im_WriteAt (rb_writer c h) b off)" for b off
    using writer_lawsD(2,3) [OF assms] by (simp_all add: weak)
  have pre: "preorder (through V (framed ul (rewritten (snd h))))" by blast
  show ?thesis
    unfolding steps_def
  proof (intro allI impI)
    fix w r w' assume run: "copy_to_image fuel c h src w = (r, w')"
    show "through V (framed ul (rewritten (snd h))) w w'"
    proof (cases "image_ReadFrom fuel (rb_writer c h) src w")
      case None
      with run pre show ?thesis by (simp add: copy_to_image_def preorder_def)
    next
      case (Some p)
      then obtain q where "image_ReadFrom fuel (rb_writer c h) src w = Some (q, w')"
        using run by (auto simp: copy_to_image_def split: prod.splits res.splits option.splits)
      then show ?thesis by (rule image_ReadFrom_steps [OF pre wr])
    qed
  qed
qed

lemma file_bracket_framed:
  assumes "file_laws V content c" "preorder Q" "\<And>f src. steps (through V Q) (body (f, src))"
  shows "steps (through V Q) (bracket (iowrap m [] (fl_Open c p)) (\<lambda>(f, src). fl_Close c f) body)"
proof (rule steps_bracket [where G = "\<lambda>h. same V"])
  have laws: "steps (same V) (fl_Open c p)" "\<And>f. steps (same V) (fl_Close c f)"
    using assms(1) unfolding file_laws_def by blast+
  show "preorder (through V Q)" using assms(2) by blast
  fix w r w' assume "iowrap m [] (fl_Open c p) w = (r, w')"
  then have "same V w w'" using steps_wrap [OF preorder_same laws(1)] unfolding steps_def by blast
  then show "case r of Ok h \<Rightarrow> same V w w' | _ \<Rightarrow> through V Q w w'"
    using assms(2) by (cases r) (auto simp: same_def through_def preorder_def)
next
  fix h w w1 w2 r w3
  assume 1: "same V w w1" "through V Q w1 w2" "(case h of (f, src) \<Rightarrow> fl_Close c f) w2 = (r, w3)"
  have "steps (same V) (case h of (f, src) \<Rightarrow> fl_Close c f)"
    using assms(1) unfolding file_laws_def by (cases h) simp
  then have "same V w2 w3" using 1(3) unfolding steps_def by blast
  with 1(1,2) show "through V Q w w3" by (simp add: same_def through_def)
next
  fix h w w' show "steps (through V Q) (body h)" using assms(3) by (cases h) simp
qed

lemma upload_file_framed:
  assumes "ceph_laws V c" "writer_laws V pos c" "file_laws V content c"
  shows "steps (through V (framed (unlocks c) (rewritten (snd h)))) (upload_file fuel c path h)"
proof -
  have pre: "preorder (framed (unlocks c) (rewritten (snd h)))" by blast
  have sz: "steps (through V (framed (unlocks c) (rewritten (snd h)))) (fl_Size c f)" for f
    using assms(3) unfolding file_laws_def by (intro same_steps [OF _ pre]) blast
  show ?thesis
    unfolding upload_file_def
  proof (rule file_bracket_framed [OF assms(3) pre])
    fix f src
    show "steps (through V (framed (unlocks c) (rewritten (snd h)))) (case (f, src) of (f, src) \<Rightarrow>
       iobind (iowrap ''path info failure: '' [] (fl_Size c f)) (\<lambda>fsize.
       locked c [] h
         (iobind (iowrap ''data copy to volume failure: '' [] (copy_to_image fuel c h src)) (\<lambda>wrote.
          if wrote \<noteq> fsize
          then throw (Errorf (''upload to volume failed, missing '' @ itoa (fsize - wrote) @ '' bytes'') [])
          else ret ()))))"
      unfolding prod.case
      by (intro steps_bind steps_wrap lock_bracket steps_if steps_throw steps_ret copy_to_image_framed [OF assms(2)] sz assms
          preorder_through preorder_framed preorder_rewritten)
  qed
qed

lemma VolumeUpload_framed:
  assumes "ceph_laws V c" "writer_laws V pos c" "file_laws V content c"
    and run: "VolumeUpload fuel c con pool vol path w = (r, w')"
  shows "framed (unlocks c) (rewritten (pool, vol)) (V w) ((V w')\<lparr>cl_conns := cl_conns (V w)\<rparr>)"
    "\<not> connect_failed r \<Longrightarrow> cl_conns (V w') = cl_conns (V w)"
proof -
  let ?I = "rewritten (pool, vol)"
  let ?R = "through V (framed (unlocks c) ?I)"
  have pre: "preorder ?R" by blast
  have inner: "steps ?R (bracket (iowrap ''ioctx failure: '' [] (cn_OpenIOContext c conn pool)) (cx_Destroy c) (\<lambda>ioctx.
     bracket (iowrap ''volume open failure: '' [] (rb_Open c False ioctx vol)) (rb_Close c)
       (upload_file fuel c path)))" for conn
  proof (rule context_bracket [OF assms(1) preorder_rewritten], rule handle_bracket [OF assms(1) preorder_rewritten])
    fix x :: ioctx and h :: imgh assume "snd x = pool" "snd h = (snd x, vol)"
    then show "steps ?R (upload_file fuel c path h)" using upload_file_framed [OF assms(1-3), of h] by simp
  qed
  have body: "steps ?R (iobind (iowrap ''ceph connection option failure: '' []
       (cn_SetConfigOption c conn ''rbd_cache_writethrough_until_flush'' ''false'')) (\<lambda>_.
     bracket (iowrap ''ioctx failure: '' [] (cn_OpenIOContext c conn pool)) (cx_Destroy c) (\<lambda>ioctx.
     bracket (iowrap ''volume open failure: '' [] (rb_Open c False ioctx vol)) (rb_Close c)
       (upload_file fuel c path))))" for conn
    by (intro steps_bind steps_wrap query_calls(9) [OF assms(1) preorder_rewritten] pre inner)
  show "framed (unlocks c) ?I (V w) ((V w')\<lparr>cl_conns := cl_conns (V w)\<rparr>)"
    "\<not> connect_failed r \<Longrightarrow> cl_conns (V w') = cl_conns (V w)"
    using connected_framed [OF assms(1) preorder_rewritten body run [unfolded VolumeUpload_def]] by blast+
qed

section \<open>What an upload ensures\<close>

text \<open>From a world with \<open>P\<close> a call does not panic, and when it succeeds \<open>Q\<close> holds of its result.\<close>

definition ensures :: "('w \<Rightarrow> bool) \<Rightarrow> ('w, 'a) io \<Rightarrow> ('a \<Rightarrow> 'w \<Rightarrow> bool) \<Rightarrow> bool" where
  "ensures P m Q \<longleftrightarrow> (\<forall>w r w'. P w \<longrightarrow> m w = (r, w') \<longrightarrow>
     (case r of Ok x \<Rightarrow> Q x w' | Fail e \<Rightarrow> True | Panic p \<Rightarrow> False))"

lemma ensuresI:
  "(\<And>w x w'. P w \<Longrightarrow> m w = (Ok x, w') \<Longrightarrow> Q x w') \<Longrightarrow> (\<And>w p w'. P w \<Longrightarrow> m w \<noteq> (Panic p, w')) \<Longrightarrow> ensures P m Q"
  unfolding ensures_def by (auto split: res.splits)

lemma ensures_bind: "ensures P m R \<Longrightarrow> (\<And>x. ensures (R x) (k x) Q) \<Longrightarrow> ensures P (iobind m k) Q"
  unfolding ensures_def iobind_def by (fastforce split: prod.splits res.splits)

lemma ensures_wrap: "ensures P m Q \<Longrightarrow> ensures P (iowrap a b m) Q"
  unfolding ensures_def by (fastforce elim!: iowrap_cases split: res.splits)

lemma ensures_bracket:
  assumes "ensures P opn R" "\<And>h. ensures (R h) (body h) (S h)" "\<And>h x w. S h x w \<Longrightarrow> Q x (snd (cls h w))"
  shows "ensures P (bracket opn cls body) Q"
  unfolding bracket_def
proof (rule ensures_bind [OF assms(1)])
  fix h
  show "ensures (R h) (deferring (cls h) (body h)) Q"
    using assms(2) [of h] assms(3) [of h] unfolding ensures_def deferring_def
    by (fastforce split: prod.splits res.splits)
qed

lemma ensures_calm: "calm m \<Longrightarrow> steps (same f) m \<Longrightarrow> (\<And>w w'. P w \<Longrightarrow> f w' = f w \<Longrightarrow> P w') \<Longrightarrow> ensures P m (\<lambda>_. P)"
  by (rule ensuresI) (auto simp: steps_def same_def calm_def)

lemma ensures_pre: "(\<And>w. P w \<Longrightarrow> P' w) \<Longrightarrow> ensures P' m Q \<Longrightarrow> ensures P m Q"
  unfolding ensures_def by blast

definition blank :: "('w \<Rightarrow> cluster) \<Rightarrow> imgname \<Rightarrow> 'w \<Rightarrow> bool" where
  "blank V n w \<longleftrightarrow> (\<forall>i \<ge> 0. data_of V n w i = 0)"

definition holds_file :: "('w \<Rightarrow> cluster) \<Rightarrow> imgname \<Rightarrow> sfile \<Rightarrow> 'w \<Rightarrow> bool" where
  "holds_file V n f w \<longleftrightarrow> (\<forall>i \<ge> 0. data_of V n w i = (if i < int (length f) then fst (f ! nat i) else 0))"

text \<open>A handle on the blank image, at its start.\<close>

definition at_start :: "('w \<Rightarrow> cluster) \<Rightarrow> (imgh \<Rightarrow> 'w \<Rightarrow> int) \<Rightarrow> imgname \<Rightarrow> imgh \<Rightarrow> 'w \<Rightarrow> bool" where
  "at_start V pos n h w \<longleftrightarrow> blank V n w \<and> snd h = n \<and> pos h w = 0"

lemma images_same:
  assumes "images_of V w' = images_of V w"
  shows "blank V n w' = blank V n w" "holds_file V n f w' = holds_file V n f w"
  using assms by (simp_all add: blank_def holds_file_def data_of_def)

lemma at_start_same: "at_start V pos n h w \<Longrightarrow> images_of V w' = images_of V w \<Longrightarrow> pos h w' = pos h w \<Longrightarrow> at_start V pos n h w'"
  using images_same(1) [of V w' w n] by (simp add: at_start_def)

lemma open_at_start:
  assumes "ceph_laws V c" "writer_laws V pos c" "calm_calls c"
  shows "ensures (blank V (snd x, n)) (rb_Open c ro x n) (at_start V pos (snd x, n))"
proof (rule ensuresI)
  fix w h w' assume P: "blank V (snd x, n) w" and run: "rb_Open c ro x n w = (Ok h, w')"
  have "acts V (\<lambda>h a b. snd h = (snd x, n) \<and> h \<notin> cl_handles a \<and> b = a\<lparr>cl_handles := insert h (cl_handles a)\<rparr>)
      (rb_Open c ro x n)"
    using assms(1) unfolding ceph_laws_def connection_laws_def by blast
  from acts_Ok [OF this run] have "snd h = (snd x, n)" and im: "images_of V w' = images_of V w" by simp_all
  moreover have "pos h w' = 0" by (rule writer_lawsD(4) [OF assms(2) run])
  ultimately show "at_start V pos (snd x, n) h w'" using P images_same(1) [of V w' w "(snd x, n)", OF im] by (simp add: at_start_def)
next
  fix w p w' show "rb_Open c ro x n w \<noteq> (Panic p, w')"
    using calm_callsD(5) [OF assms(3)] unfolding calm_def by blast
qed

lemma lock_at_start:
  assumes "ceph_laws V c" "writer_laws V pos c" "calm_calls c"
  shows "ensures (at_start V pos n h) (writeLock c h) (\<lambda>u w. at_start V pos n h w \<and> unlocker_of V (unlocks c) h u)"
proof (rule ensuresI)
  have "steps (same (pos h)) (writeLock c h)"
    unfolding writeLock_def imageHasFeature_def
    by (intro steps_bind steps_if steps_ret steps_wrap preorder_same writer_lawsD(5-8) [OF assms(2)])
  then show "at_start V pos n h w' \<and> unlocker_of V (unlocks c) h u"
    if "at_start V pos n h w" "writeLock c h w = (Ok u, w')" for w u w'
    using that acts_Ok [OF writeLock_acts [OF assms(1)] that(2)]
    by (auto simp: steps_def same_def intro: at_start_same [of V pos n h w])
next
  have "calm (writeLock c h)"
    unfolding writeLock_def imageHasFeature_def
    by (intro calm_intros calm_if calm_callsD [OF assms(3)])
  then show "writeLock c h w \<noteq> (Panic p, w')" for w p w' by (simp add: calm_def)
qed

lemma copy_ensures:
  assumes "writer_laws V pos c" "file_ok f" "reads_file src f" "length f < fuel"
  shows "ensures (at_start V pos n h) (copy_to_image fuel c h src) (\<lambda>_. holds_file V n f)"
proof -
  have "\<exists>k err w'. image_ReadFrom fuel (rb_writer c h) src w = Some (Ok (k, err), w') \<and>
      (err = None \<longrightarrow> holds_file V n f w')" if "at_start V pos n h w" for w
  proof -
    have "image_laws (data_of V n) (pos h) (rb_writer c h)"
      using writer_lawsD(1) [OF assms(1), of h] that by (auto simp: at_start_def)
    from image_copy [OF this assms(2,3) _ _ assms(4), of w] that show ?thesis
      unfolding at_start_def blank_def holds_file_def by blast
  qed
  then show ?thesis
    unfolding ensures_def copy_to_image_def by (fastforce split: option.splits)
qed

lemma upload_ensures:
  assumes "ceph_laws V c" "writer_laws V pos c" "file_laws V content c" "calm_calls c" "length (content path) < fuel"
  shows "ensures (at_start V pos n h) (upload_file fuel c path h) (\<lambda>_. holds_file V n (content path))"
  unfolding upload_file_def
proof (rule ensures_bracket)
  let ?S = "at_start V pos n h"
  let ?R = "\<lambda>(f, src) w. ?S w \<and> file_ok (content path) \<and> reads_file src (content path)"
  have V: "steps (same V) (fl_Open c path)" "\<And>f. steps (same V) (fl_Size c f)" "\<And>f. steps (same V) (fl_Close c f)"
    by (rule file_lawsD [OF assms(3)])+
  have p: "steps (same (pos h)) (fl_Open c path)" "\<And>f. steps (same (pos h)) (fl_Size c f)"
    by (rule writer_lawsD(9,10) [OF assms(2)])+
  have calm: "calm (fl_Open c path)" "\<And>f. calm (fl_Size c f)"
    using assms(4) unfolding calm_calls_def by blast+
  show "ensures ?S (iowrap ''path open failure: '' [] (fl_Open c path)) ?R"
  proof (rule ensures_wrap, rule ensuresI)
    fix w fs w' assume run: "?S w" "fl_Open c path w = (Ok fs, w')"
    then have "?S w'" using V(1) p(1) unfolding steps_def same_def by (metis at_start_same)
    moreover have "file_ok (content path) \<and> reads_file (snd fs) (content path)"
      by (rule file_lawsD(4) [OF assms(3) run(2)])
    ultimately show "?R fs w'" by (cases fs) simp
  qed (use calm(1) in \<open>simp add: calm_def\<close>)
  fix fs
  show "ensures (?R fs) (case fs of (f, src) \<Rightarrow> iobind (iowrap ''path info failure: '' [] (fl_Size c f)) (\<lambda>fsize.
     locked c [] h
       (iobind (iowrap ''data copy to volume failure: '' [] (copy_to_image fuel c h src)) (\<lambda>wrote.
        if wrote \<noteq> fsize
        then throw (Errorf (''upload to volume failed, missing '' @ itoa (fsize - wrote) @ '' bytes'') [])
        else ret ())))) (\<lambda>_. holds_file V n (content path))"
  proof (cases fs)
    case (Pair f src)
    have sz: "ensures (?R fs) (iowrap ''path info failure: '' [] (fl_Size c f)) (\<lambda>_. ?R fs)"
    proof (rule ensures_wrap, rule ensuresI)
      fix w k w' assume run: "?R fs w" "fl_Size c f w = (Ok k, w')"
      then have "?S w'" using V(2) p(2) unfolding Pair steps_def same_def by (auto intro: at_start_same)
      then show "?R fs w'" using run(1) by (simp add: Pair)
    qed (use calm(2) in \<open>simp add: calm_def\<close>)
    have locked: "ensures (?R fs) (locked c [] h
       (iobind (iowrap ''data copy to volume failure: '' [] (copy_to_image fuel c h src)) (\<lambda>wrote.
        if wrote \<noteq> fsize
        then throw (Errorf (''upload to volume failed, missing '' @ itoa (fsize - wrote) @ '' bytes'') [])
        else ret ()))) (\<lambda>_. holds_file V n (content path))" for fsize
      unfolding locked_def if_P [OF refl]
    proof (rule ensures_bracket)
      show "ensures (?R fs) (writeLock c h) (\<lambda>u w. ?R fs w \<and> unlocker_of V (unlocks c) h u)"
        using lock_at_start [OF assms(1,2,4), of n h] unfolding ensures_def Pair by (fastforce split: res.splits)
      fix u
      show "ensures (\<lambda>w. ?R fs w \<and> unlocker_of V (unlocks c) h u)
         (iobind (iowrap ''data copy to volume failure: '' [] (copy_to_image fuel c h src)) (\<lambda>wrote.
          if wrote \<noteq> fsize
          then throw (Errorf (''upload to volume failed, missing '' @ itoa (fsize - wrote) @ '' bytes'') [])
          else ret ())) (\<lambda>_ w. holds_file V n (content path) w \<and> unlocker_of V (unlocks c) h u)"
      proof (rule ensures_bind, rule ensures_wrap)
        show "ensures (\<lambda>w. ?R fs w \<and> unlocker_of V (unlocks c) h u) (copy_to_image fuel c h src)
            (\<lambda>_ w. holds_file V n (content path) w \<and> unlocker_of V (unlocks c) h u)"
          using copy_ensures [OF assms(2) _ _ assms(5), of src n h] unfolding ensures_def Pair
          by (fastforce split: res.splits)
        show "ensures (\<lambda>w. holds_file V n (content path) w \<and> unlocker_of V (unlocks c) h u)
          (if wrote \<noteq> fsize
           then throw (Errorf (''upload to volume failed, missing '' @ itoa (fsize - wrote) @ '' bytes'') [])
           else ret ()) (\<lambda>_ w. holds_file V n (content path) w \<and> unlocker_of V (unlocks c) h u)" for wrote
          by (auto simp: ensures_def throw_def ret_def)
      qed
    next
      fix u x w assume "holds_file V n (content path) w \<and> unlocker_of V (unlocks c) h u"
      moreover obtain r w' where run: "u w = (r, w')" by fastforce
      ultimately have "images_of V w' = images_of V w" unfolding unlocker_of_def acts_def by (cases r) fastforce+
      then show "holds_file V n (content path) (snd (u w))"
        using \<open>holds_file V n (content path) w \<and> _\<close> run images_same(2) by (metis snd_conv)
    qed
    show ?thesis unfolding Pair prod.case by (rule ensures_bind [OF sz [unfolded Pair prod.case] locked [unfolded Pair prod.case]])
  qed
next
  fix fs :: "nat \<times> source" and x w assume "holds_file V n (content path) w"
  moreover obtain r w' where "(case fs of (f, src) \<Rightarrow> fl_Close c f) w = (r, w')" by fastforce
  moreover from this have "images_of V w' = images_of V w"
    using file_lawsD(3) [OF assms(3)] unfolding steps_def same_def by (cases fs) auto
  ultimately show "holds_file V n (content path) (snd ((case fs of (f, src) \<Rightarrow> fl_Close c f) w))"
    using images_same(2) by (metis snd_conv)
qed

lemma blank_images: "images_of V w' = images_of V w \<Longrightarrow> blank V n w \<Longrightarrow> blank V n w'"
  using images_same(1) [of V w' w n] by simp

lemma holds_images: "images_of V w' = images_of V w \<Longrightarrow> holds_file V n f w \<Longrightarrow> holds_file V n f w'"
  using images_same(2) [of V w' w n f] by simp

lemma connect_ensures:
  assumes "ceph_laws V c" "calm_calls c"
  shows "ensures (blank V n) (cephConnect c con) (\<lambda>_. blank V n)"
proof (rule ensuresI)
  fix w k w' assume P: "blank V n w" and run: "cephConnect c con w = (Ok k, w')"
  from cephConnect_effect [OF assms(1) run] have im: "images_of V w' = images_of V w" by simp
  show "blank V n w'" by (rule blank_images [OF im P])
next
  have "calm (cephConnect c con)"
    unfolding cephConnect_def by (intro calm_intros calm_callsD [OF assms(2)])
  then show "cephConnect c con w \<noteq> (Panic p, w')" for w p w' by (simp add: calm_def)
qed

lemma option_ensures:
  assumes "ceph_laws V c" "calm_calls c"
  shows "ensures (blank V n) (cn_SetConfigOption c k s v) (\<lambda>_. blank V n)"
proof (rule ensures_calm [where f = V])
  show "steps (same V) (cn_SetConfigOption c k s v)"
    using assms(1) unfolding ceph_laws_def connection_laws_def by blast
  show "\<And>w w'. blank V n w \<Longrightarrow> V w' = V w \<Longrightarrow> blank V n w'" by (rule blank_images) auto
qed (rule calm_callsD [OF assms(2)])

lemma context_ensures:
  assumes "ceph_laws V c" "calm_calls c"
  shows "ensures (blank V n) (cn_OpenIOContext c k p) (\<lambda>x w. blank V n w \<and> snd x = p)"
proof (rule ensuresI)
  fix w x w' assume run: "blank V n w" "cn_OpenIOContext c k p w = (Ok x, w')"
  have "acts V (\<lambda>x a b. snd x = p \<and> x \<notin> cl_ctxs a \<and> b = a\<lparr>cl_ctxs := insert x (cl_ctxs a)\<rparr>) (cn_OpenIOContext c k p)"
    using assms(1) unfolding ceph_laws_def connection_laws_def by blast
  from acts_Ok [OF this run(2)] have p: "snd x = p" and im: "images_of V w' = images_of V w" by simp_all
  have "blank V n w'" by (rule blank_images [OF im run(1)])
  with p show "blank V n w' \<and> snd x = p" by blast
next
  show "cn_OpenIOContext c k p w \<noteq> (Panic q, w')" for w q w'
    using calm_callsD(4) [OF assms(2)] unfolding calm_def by blast
qed

lemma VolumeUpload_ensures:
  assumes "ceph_laws V c" "writer_laws V pos c" "file_laws V content c" "calm_calls c" "length (content path) < fuel"
  shows "ensures (blank V (pool, vol)) (VolumeUpload fuel c con pool vol path) (\<lambda>_. holds_file V (pool, vol) (content path))"
proof -
  let ?B = "blank V (pool, vol)" and ?H = "\<lambda>_. holds_file V (pool, vol) (content path)"
  have closed: "?H y (snd (rb_Close c h w))" "?H y (snd (cx_Destroy c x w))" "?H y (snd (cn_Shutdown c k w))"
    if "?H y w" for y h x k w
    using closing_images [OF assms(1)] holds_images that by metis+
  have img: "ensures (\<lambda>w. ?B w \<and> snd x = pool)
      (bracket (iowrap ''volume open failure: '' [] (rb_Open c False x vol)) (rb_Close c) (upload_file fuel c path)) ?H" for x
  proof (rule ensures_bracket [OF ensures_wrap])
    show "ensures (\<lambda>w. ?B w \<and> snd x = pool) (rb_Open c False x vol) (at_start V pos (pool, vol))"
      using open_at_start [OF assms(1,2,4), of x vol False] unfolding ensures_def by auto
    show "ensures (at_start V pos (pool, vol) h) (upload_file fuel c path h) ?H" for h
      by (rule upload_ensures [OF assms])
  qed (rule closed)
  have ctx: "ensures ?B (bracket (iowrap ''ioctx failure: '' [] (cn_OpenIOContext c k pool)) (cx_Destroy c) (\<lambda>x.
      bracket (iowrap ''volume open failure: '' [] (rb_Open c False x vol)) (rb_Close c) (upload_file fuel c path))) ?H" for k
  proof (rule ensures_bracket)
    show "ensures ?B (iowrap ''ioctx failure: '' [] (cn_OpenIOContext c k pool)) (\<lambda>x w. ?B w \<and> snd x = pool)"
      by (rule ensures_wrap [OF context_ensures [OF assms(1,4)]])
  qed (rule img, rule closed)
  show ?thesis
    unfolding VolumeUpload_def
  proof (rule ensures_bracket)
    show "ensures ?B (iowrap ''ceph copy connection failure: '' [] (cephConnect c con)) (\<lambda>_. ?B)"
      by (rule ensures_wrap [OF connect_ensures [OF assms(1,4)]])
    show "ensures ?B (iobind (iowrap ''ceph connection option failure: '' []
         (cn_SetConfigOption c k ''rbd_cache_writethrough_until_flush'' ''false'')) (\<lambda>_.
       bracket (iowrap ''ioctx failure: '' [] (cn_OpenIOContext c k pool)) (cx_Destroy c) (\<lambda>x.
         bracket (iowrap ''volume open failure: '' [] (rb_Open c False x vol)) (rb_Close c) (upload_file fuel c path)))) ?H" for k
    proof (rule ensures_bind)
      show "ensures ?B (iowrap ''ceph connection option failure: '' []
          (cn_SetConfigOption c k ''rbd_cache_writethrough_until_flush'' ''false'')) (\<lambda>_. ?B)"
        by (rule ensures_wrap [OF option_ensures [OF assms(1,4)]])
    qed (rule ctx)
  qed (rule closed)
qed

section \<open>Properties\<close>


text \<open>The volumes that libvirt's pools show, each pool being a pool of the cluster.\<close>

definition rbd_volumes :: "('w \<Rightarrow> cluster) \<Rightarrow> (string \<Rightarrow> string) \<Rightarrow> 'w \<Rightarrow> volh set" where
  "rbd_volumes V pool_of w = {(p, n). cl_images (V w) (pool_of p, n) \<noteq> None}"

text \<open>
  C26. The plugin keeps what the storage assumes of it (\<open>create_laws\<close>, \<open>lookup_laws\<close>): among the
  volumes of the pools a copy adds at most volumes of the name of its destination, an upload adds
  none, and neither removes one, however it ends.
\<close>

theorem plugin_keeps_storage_laws:
  assumes "ceph_laws V c" and "writer_laws V pos c" and "file_laws V content c"
  shows "steps (grows (rbd_volumes V pool_of) {h. snd h = dstVol}) (VolumeCopy c con pool srcVol dstVol)
    \<and> steps (grows (rbd_volumes V pool_of) {}) (VolumeUpload fuel c con pool vol path)"
proof -
  have kept: "h \<in> rbd_volumes V pool_of w' \<longleftrightarrow> h \<in> rbd_volumes V pool_of w"
    if "images_kept X (cl_images (V w)) (cl_images (V w'))" "(pool_of (fst h), snd h) \<notin> X" for X h w w'
    using images_kept_None [OF that] by (cases h) (simp add: rbd_volumes_def del: not_None_eq)
  have copy: "steps (grows (rbd_volumes V pool_of) {h. snd h = dstVol}) (VolumeCopy c con pool srcVol dstVol)"
    unfolding steps_def
  proof (intro allI impI)
    fix w r w' assume "VolumeCopy c con pool srcVol dstVol w = (r, w')"
    from VolumeCopy_framed(1) [OF assms(1) this] have c: "copies_to (pool, dstVol) (cl_images (V w)) (cl_images (V w'))"
      by (simp add: framed_def)
    then consider "images_kept {} (cl_images (V w)) (cl_images (V w'))"
      | "cl_images (V w) (pool, dstVol) = None" "images_kept {(pool, dstVol)} (cl_images (V w)) (cl_images (V w'))"
      unfolding copies_to_def by metis
    then show "grows (rbd_volumes V pool_of) {h. snd h = dstVol} w w'"
    proof cases
      case 1
      then show ?thesis using kept [of "{}"] by (auto simp: grows_def)
    next
      case 2
      have "h \<in> rbd_volumes V pool_of w' \<longleftrightarrow> h \<in> rbd_volumes V pool_of w"
        if "(pool_of (fst h), snd h) \<noteq> (pool, dstVol)" for h
        using kept [OF 2(2)] that by simp
      moreover have "h \<notin> rbd_volumes V pool_of w" if "(pool_of (fst h), snd h) = (pool, dstVol)" for h
        using that 2(1) by (auto simp: rbd_volumes_def)
      ultimately show ?thesis unfolding grows_def by blast
    qed
  qed
  have "steps (grows (rbd_volumes V pool_of) {}) (VolumeUpload fuel c con pool vol path)"
    unfolding steps_def
  proof (intro allI impI)
    fix w r w' assume "VolumeUpload fuel c con pool vol path w = (r, w')"
    from VolumeUpload_framed(1) [OF assms this] have k: "rewritten (pool, vol) (cl_images (V w)) (cl_images (V w'))"
      by (simp add: framed_def)
    show "grows (rbd_volumes V pool_of) {} w w'" using k by (simp add: grows_def rbd_volumes_def rewritten_def dom_def set_eq_iff)
  qed
  with copy show ?thesis by blast
qed

text \<open>The cluster in memory with a file in the file system.\<close>

definition upload_ceph :: "memory ceph" where
  "upload_ceph = mem_ceph\<lparr>
     rb_writer := (\<lambda>h. \<lparr>im_ctx = (\<lambda>w. None), im_Write = (\<lambda>b. throw (ErrNew ''unsupported'')),
       im_WriteAt = (\<lambda>b off. iobind (with_image (snd h) (\<lambda>im. True) (\<lambda>im. im\<lparr>ri_data := overwrite off b (ri_data im)\<rparr>))
         (\<lambda>_. ret (length b)))\<rparr>),
     fl_Open := (\<lambda>p. ret (0, file_source sparse_file)), fl_Size := (\<lambda>f. ret 3)\<rparr>"

definition blank_volume :: memory where
  "blank_volume = (0, \<lparr>cl_conns = {}, cl_ctxs = {}, cl_handles = {}, cl_locks = {},
     cl_images = [(''p'', ''v'') \<mapsto> \<lparr>ri_data = (\<lambda>_. 0), ri_parent = None, ri_snaps = Map.empty\<rparr>]\<rparr>)"

lemma upload_same_calls:
  "ceph_laws V upload_ceph = ceph_laws V mem_ceph" "unlocks upload_ceph = unlocks mem_ceph"
  by (simp_all add: ceph_laws_def connection_laws_def query_laws_def lock_laws_def volume_laws_def unlocks_def upload_ceph_def)

lemma upload_writer:
  "rb_writer upload_ceph h = \<lparr>im_ctx = (\<lambda>w. None), im_Write = (\<lambda>b. throw (ErrNew ''unsupported'')),
     im_WriteAt = (\<lambda>b off. iobind (with_image (snd h) (\<lambda>im. True) (\<lambda>im. im\<lparr>ri_data := overwrite off b (ri_data im)\<rparr>))
       (\<lambda>_. ret (length b)))\<rparr>"
  by (simp add: upload_ceph_def)

lemma memory_write:
  assumes "im_WriteAt (rb_writer upload_ceph h) b off w = (r, w')"
  shows "through snd (framed True (rewritten (snd h))) w w'" and "\<forall>p. r \<noteq> Panic p"
    and "r = Ok k \<Longrightarrow> data_of snd (snd h) w' = overwrite off b (data_of snd (snd h) w)"
proof -
  obtain n a where w: "w = (n, a)" by (cases w)
  have "through snd (framed True (rewritten (snd h))) w w' \<and> (\<forall>p. r \<noteq> Panic p) \<and>
      (r = Ok k \<longrightarrow> data_of snd (snd h) w' = overwrite off b (data_of snd (snd h) w))"
  proof (cases "cl_images a (snd h)")
    case None
    with assms w show ?thesis
      by (auto simp: upload_writer with_image_def attempt_def iobind_apply through_def framed_refl)
  next
    case (Some im)
    with assms w have "r = Ok (length b)"
      "w' = (Suc n, a\<lparr>cl_images := (cl_images a)(snd h \<mapsto> im\<lparr>ri_data := overwrite off b (ri_data im)\<rparr>)\<rparr>)"
      by (simp_all add: upload_writer with_image_def attempt_def iobind_apply ret_def)
    with Some w show ?thesis
      by (simp add: through_def framed_def rewritten_update data_of_def fun_eq_iff overwrite_def)
  qed
  then show "through snd (framed True (rewritten (snd h))) w w'" "\<forall>p. r \<noteq> Panic p"
    "r = Ok k \<Longrightarrow> data_of snd (snd h) w' = overwrite off b (data_of snd (snd h) w)" by blast+
qed

lemma upload_ceph_laws:
  "ceph_laws snd upload_ceph" "writer_laws snd (\<lambda>h w. 0) upload_ceph" "file_laws snd (\<lambda>p. sparse_file) upload_ceph"
  "calm_calls upload_ceph"
proof -
  show "ceph_laws snd upload_ceph" by (simp add: upload_same_calls mem_ceph_laws)
  have plain: "im_Write (rb_writer upload_ceph h) b = throw (ErrNew ''unsupported'')" for h b
    by (simp add: upload_writer)
  have "image_laws (data_of snd (snd h)) (\<lambda>w. 0) (rb_writer upload_ceph h)" for h :: imgh
    unfolding image_laws_def plain
  proof (intro conjI allI impI)
    fix b off w n w' assume run: "im_WriteAt (rb_writer upload_ceph h) b off w = (Ok n, w')"
    show "data_of snd (snd h) w' = overwrite off b (data_of snd (snd h) w)" by (rule memory_write(3) [OF run refl])
  next
    fix b off w p w' show "im_WriteAt (rb_writer upload_ceph h) b off w \<noteq> (Panic p, w')"
      using memory_write(2) by blast
  qed (simp_all add: throw_def)
  moreover have "steps (through snd (framed True (rewritten (snd h)))) (im_Write (rb_writer upload_ceph h) b)" for h b
    unfolding plain by (rule steps_throw) blast
  moreover have "steps (through snd (framed True (rewritten (snd h)))) (im_WriteAt (rb_writer upload_ceph h) b off)" for h b off
    unfolding steps_def using memory_write(1) by blast
  ultimately show "writer_laws snd (\<lambda>h w. 0) upload_ceph"
    by (simp add: writer_laws_def steps_def same_def)
  show "file_laws snd (\<lambda>p. sparse_file) upload_ceph"
    by (auto simp: file_laws_def upload_ceph_def mem_ceph_def steps_def same_def ret_def sparse_file_ok)
  show "calm_calls upload_ceph"
    by (auto simp: calm_calls_def upload_ceph_def mem_ceph_def calm_def attempt_def ret_def split: if_splits)
qed

lemma memory_WriteAt:
  "cl_images a (snd h) = Some im \<Longrightarrow> im_WriteAt (rb_writer upload_ceph h) b off (n, a) = (Ok (length b), (Suc n,
    a\<lparr>cl_images := (cl_images a)(snd h \<mapsto> im\<lparr>ri_data := overwrite off b (ri_data im)\<rparr>)\<rparr>))"
  "im_ctx (rb_writer upload_ceph h) w = None"
  by (simp_all add: upload_writer with_image_def attempt_def iobind_apply ret_def)

lemma toy_copy_to_image:
  assumes "cl_images a (snd h) = Some im"
  shows "copy_to_image 4 upload_ceph h (file_source sparse_file) (n, a) = (Ok 3, (Suc n,
    a\<lparr>cl_images := (cl_images a)(snd h \<mapsto> im\<lparr>ri_data := overwrite 0 [7, 9] (ri_data im)\<rparr>)\<rparr>))"
proof -
  have "image_ReadFrom 4 (rb_writer upload_ceph h) (file_source sparse_file) (n, a) = Some (Ok (3, None), (Suc n,
      a\<lparr>cl_images := (cl_images a)(snd h \<mapsto> im\<lparr>ri_data := overwrite 0 [7, 9] (ri_data im)\<rparr>)\<rparr>))"
    unfolding four_Suc
    by (simp add: run_simps sparse_file_def memory_WriteAt assms)
  then show ?thesis by (simp add: copy_to_image_def)
qed

lemma upload_calls:
  "cn_New upload_ceph = cn_New mem_ceph" "cn_SetConfigOption upload_ceph = cn_SetConfigOption mem_ceph"
  "cn_Connect upload_ceph = cn_Connect mem_ceph" "cn_Shutdown upload_ceph = cn_Shutdown mem_ceph"
  "cn_OpenIOContext upload_ceph = cn_OpenIOContext mem_ceph" "cx_Destroy upload_ceph = cx_Destroy mem_ceph"
  "rb_Open upload_ceph = rb_Open mem_ceph" "rb_Close upload_ceph = rb_Close mem_ceph"
  "rb_GetFeatures upload_ceph = rb_GetFeatures mem_ceph" "rb_LockAcquire upload_ceph = rb_LockAcquire mem_ceph"
  "rb_LockRelease upload_ceph = rb_LockRelease mem_ceph" "fl_Close upload_ceph = fl_Close mem_ceph"
  "fl_Open upload_ceph q = ret (0, file_source sparse_file)" "fl_Size upload_ceph f = ret 3"
  by (simp_all add: upload_ceph_def)

lemma toy_upload:
  "\<exists>w'. VolumeUpload 4 upload_ceph toy_connect ''p'' ''v'' ''file'' blank_volume = (Ok (), w')"
  by (simp add: VolumeUpload_def upload_file_def ceph_run io_simps blank_volume_def toy_connect_def toy_copy_to_image
      upload_calls mem_ceph_def mem_run)


theorem plugin_keeps_storage_laws_witness:
  "\<exists>w'. VolumeUpload 4 upload_ceph toy_connect ''p'' ''v'' ''file'' blank_volume = (Ok (), w')
    \<and> rbd_volumes snd (\<lambda>p. p) w' = {(''p'', ''v'')}"
proof -
  obtain w' where run: "VolumeUpload 4 upload_ceph toy_connect ''p'' ''v'' ''file'' blank_volume = (Ok (), w')"
    using toy_upload by blast
  have "steps (grows (rbd_volumes snd (\<lambda>p. p)) {}) (VolumeUpload 4 upload_ceph toy_connect ''p'' ''v'' ''file'')"
    using plugin_keeps_storage_laws [OF upload_ceph_laws(1-3)] by blast
  from stepsD [OF this run] have "rbd_volumes snd (\<lambda>p. p) w' = rbd_volumes snd (\<lambda>p. p) blank_volume"
    by (auto simp: grows_def)
  then show ?thesis using run by (auto simp: rbd_volumes_def blank_volume_def)
qed

end
