(* ===== verification/Spec2Isabelle.thy ===== *)
theory Spec2Isabelle
  imports VirtTables Holes Convert Config Storage Disks LibvirtLife LibvirtNet Providers Task Frame Driver DriverLife DriverTasks Network TaskNetwork TaskVolumes TaskTrace VolumeLife LibvirtDriver Arp CephVolumes CephUpload
begin

text \<open>
  A verification development for \<^verbatim>\<open>nomad-driver-virt\<close>, the Nomad task driver that runs virtual machines
  with libvirt. A task is started by preparing its disks and their volumes in the storage pools, writing
  the cloud-init data, defining and starting a libvirt domain, and building its network: an address
  reservation in the DHCP server of a libvirt network and forwarding rules in iptables. A monitor polls
  the machine and reports its end; destroying the task undoes all of it.

  \<^bold>\<open>How the code is modelled.\<close> A call that may fail or panic is a function from the world to a result
  (\<open>Ok\<close>, \<open>Fail\<close> or \<open>Panic\<close>) and the world it leaves (\<open>io\<close> in \<open>Prelude\<close>); the type of the world is a
  parameter. Errors are values with the chain that \<open>errors.Is\<close> follows. What is not code of the
  repository is a record of functions: the libvirt library (\<open>conn\<close>, \<open>virt\<close>, \<open>netcalls\<close>, \<open>stream\<close>),
  librados and librbd (\<open>ceph\<close>), the iptables package (\<open>IPTables\<close>), the host and its files (\<open>host\<close>), the
  ISO writer (\<open>ciworld\<close>), the neighbor table, decoders and clocks. What is documented of them is a
  definition named \<open>laws\<close> or \<open>steps\<close>, an assumption of the theorems that need it, and every theorem
  has a witness on an implementation in memory for which these laws are proved. A relation that all
  calls keep is composed along the control flow (\<open>steps\<close>), which gives the frames.

  \<^bold>\<open>Theories and sources.\<close>
  \<^item> \<open>Prelude\<close>: results, sequencing, \<open>steps\<close>, errors, Go's \<open>strings\<close>. \<open>Errs\<close>: \<^verbatim>\<open>internal/errs\<close>.
    \<open>Convert\<close>: \<^verbatim>\<open>internal/convert\<close>, on 64-bit words. \<open>NetIP\<close>: the part of \<open>net/netip\<close> in use.
    \<open>Host\<close>: paths, files, \<^verbatim>\<open>storage/image_tools\<close>.
  \<^item> \<open>Config\<close>: \<^verbatim>\<open>virt/config.go\<close>, \<^verbatim>\<open>storage/config.go\<close>, \<^verbatim>\<open>providers/libvirt/config.go\<close>.
    \<open>NetConfig\<close>: \<^verbatim>\<open>virt/net\<close>. \<open>VM\<close>: \<^verbatim>\<open>internal/shared/vm.go\<close>. \<open>CloudInit\<close>: \<^verbatim>\<open>cloudinit\<close>.
  \<^item> \<open>Iptables\<close>: rules, chains and requests of \<^verbatim>\<open>net/filter/iptables\<close>; \<open>VirtTables\<close>: its operations,
    against a firewall as lists of rules. Setting up twice is setting up once, adding refines a
    specification on the lists, a removal attempts everything, and \<open>Teardown\<close> undoes \<open>Configure\<close>.
  \<^item> \<open>Holes\<close>: \<^verbatim>\<open>internal/holes\<close>, \<^verbatim>\<open>internal/ctxio\<close>, the sparse copies of \<^verbatim>\<open>shims/stream_unix.go\<close> and
    \<^verbatim>\<open>sparse_writer.go\<close>, both instances of one locale (\<open>sparse_sink\<close>).
  \<^item> \<open>Storage\<close>: \<^verbatim>\<open>storage\<close> and \<^verbatim>\<open>providers/libvirt/storage\<close>, directory and ceph pools under one contract
    (\<open>pool_contract\<close>). \<open>Ceph\<close>, \<open>CephVolumes\<close>, \<open>CephUpload\<close>: the ceph plugin, its frame on a cluster, what
    a copy and an upload leave. \<open>Disks\<close>: \<^verbatim>\<open>virt/disks\<close>, from validation to volumes.
  \<^item> \<open>Domain\<close>: \<^verbatim>\<open>domain.go\<close>, \<^verbatim>\<open>capabilities.go\<close>. \<open>Libvirt\<close>: every operation of
    \<^verbatim>\<open>providers/libvirt/libvirt.go\<close> on the provider's state and the world; \<open>LibvirtLife\<close>: what they
    promise of domains, connections, secrets and volumes. \<open>VolumeLife\<close>: the volumes of a machine, which become
    disks of its domain and are discovered from its definition when it is destroyed. \<open>LibvirtNet\<close>:
    \<^verbatim>\<open>providers/libvirt/net\<close>.
  \<^item> \<open>Providers\<close>: the interfaces \<open>Virtualizer\<close> and \<open>Net\<close> as records and \<^verbatim>\<open>providers/providers.go\<close>.
    \<open>Task\<close>: \<^verbatim>\<open>plugin/state.go\<close> (a locale interpreted on the store) and \<^verbatim>\<open>plugin/handle.go\<close>.
    \<open>Driver\<close>: every operation of \<^verbatim>\<open>plugin/driver.go\<close>. \<open>Frame\<close>: what storage, disks and cloud-init do to
    the world. \<open>DriverLife\<close>: how a start ends, over any provider that keeps \<open>machine_laws\<close>.
    \<open>DriverTasks\<close>: destroying, recovering, and the reachable states of the driver (\<open>driver_step\<close>).
    \<open>Network\<close>: the network controller over the packet filter, what a build followed by the teardown of its
    specification restores. \<open>TaskNetwork\<close>: the same contract (\<open>tidy_laws\<close>) carried through starting and
    destroying a task. \<open>TaskVolumes\<close>: the contract of the volumes (\<open>volume_laws\<close>), what a start attaches and a
    destruction deletes. \<open>TaskTrace\<close>: a task that is started and destroyed leaves no trace in the machines, the
    reservations and the firewall, and its destruction deletes exactly the volumes made for its disks; with a
    host in memory on which this runs. \<open>LibvirtDriver\<close>: the libvirt
    provider keeps \<open>machine_laws\<close>, \<open>tidy_laws\<close> and \<open>volume_laws\<close>, so the theorems on the driver hold of it.
  \<^item> \<open>Arp\<close>: \<^verbatim>\<open>net/arp\<close>, a step relation over its goroutines with invariants of the reachable states.

  \<^bold>\<open>Concurrency.\<close> Operations that hold a mutex throughout are atomic. The discovery of addresses is a step
  relation, one step per locked section or choice of a \<open>select\<close>. A monitor is run over the list of
  choices its \<open>select\<close> makes. The driver's own operations are atomic with any change of the world
  between them.

  \<^bold>\<open>Bounds and fuel.\<close> Collecting holes and the sparse copies take fuel: more than the length of the file is
  enough, and that is proved. The refresh of a pool retries for 30 seconds of waits, a recursion on the
  time left. The polls of the DHCP leases before their timer fires are a number that is a parameter
  (\<open>ct_ticks\<close>). Sizes are words of 64 bits and version numbers of libvirt words of 32 bits, as in
  the code; positions in files are \<open>int\<close>, as files are shorter than 2^63 bytes.

  \<^bold>\<open>Not modelled.\<close> The HCL specifications (data for the decoder); reading and writing XML and JSON; executing
  templates; logging; freeing of libvirt handles; the Nomad plugin server and \<^verbatim>\<open>main.go\<close>; loading the
  ceph plugin from the embedded file (whether it is loaded is a parameter); the forwarding wrappers of
  \<^verbatim>\<open>providers/libvirt/shims\<close>; the stubs for other systems; the mocks and helpers of the tests. A
  deferred call that panics is not told from one that fails, and the data races the findings name are
  outside a model with atomic operations.
\<close>

end
